(* ===== verification/Prelude.thy ===== *)
theory Prelude
  imports Main "HOL-Library.AList" "HOL-Library.Sublist"
begin

section \<open>Shared vocabulary of the devmon-agent model\<close>

text \<open>
  What every component of the model uses: Go strings and the few functions of the packages
  strings and strconv the agent calls, 64-bit signed arithmetic, Go maps as association
  lists with distinct keys, and the interface of a component whose operations keep an
  invariant.  A Go string is a byte sequence, and so is Isabelle's type \<^typ>\<open>string\<close>
  (a list of 8-bit characters), so lengths and indices agree.
\<close>

named_theorems gomap_simps \<open>how lookups see the updates of a Go map\<close>
named_theorems preserves \<open>an operation keeps the invariant of its component\<close>

subsection \<open>Signed 64-bit integers\<close>

text \<open>
  Go's int and time.Duration are two's-complement 64-bit integers on the agent's platforms.
  The model computes with \<^typ>\<open>int\<close> and writes the wrap-around out where a result
  can leave the range.
\<close>

definition wrap64 :: "int \<Rightarrow> int" where
  "wrap64 x = (x + 2 ^ 63) mod 2 ^ 64 - 2 ^ 63"

lemma wrap64_id [simp]: "- (2 ^ 63) \<le> x \<Longrightarrow> x < 2 ^ 63 \<Longrightarrow> wrap64 x = x"
  by (simp add: wrap64_def)

lemma wrap64_range: "- (2 ^ 63) \<le> wrap64 x \<and> wrap64 x < 2 ^ 63"
  by (simp add: wrap64_def)

lemma wrap64_mod: "wrap64 x mod 2 ^ 64 = x mod 2 ^ 64"
  by (simp add: wrap64_def mod_diff_left_eq)

text \<open>Evaluation avoids the division in and next to the range.\<close>

lemma wrap64_code [code]:
  "wrap64 x =
     (if - 9223372036854775808 \<le> x \<and> x < 9223372036854775808 then x
      else if 9223372036854775808 \<le> x \<and> x < 27670116110564327424 then x - 18446744073709551616
      else (x + 9223372036854775808) mod 18446744073709551616 - 9223372036854775808)"
proof -
  have "(x + 9223372036854775808) mod 18446744073709551616 = x - 9223372036854775808"
    if "9223372036854775808 \<le> x" and "x < 27670116110564327424"
  proof -
    have "(x - 9223372036854775808) mod 18446744073709551616 = x - 9223372036854775808"
      using that by (intro mod_pos_pos_trivial) auto
    then show ?thesis
      using minus_mod_self2 [of "x + 9223372036854775808" 18446744073709551616] by simp
  qed
  then show ?thesis unfolding wrap64_def by simp
qed

subsection \<open>Bytes and character classes\<close>

abbreviation byte_of :: "char \<Rightarrow> nat" where
  "byte_of c \<equiv> of_char c"

definition is_digit :: "char \<Rightarrow> bool" where
  "is_digit c \<longleftrightarrow> 48 \<le> byte_of c \<and> byte_of c \<le> 57"

definition is_lower :: "char \<Rightarrow> bool" where
  "is_lower c \<longleftrightarrow> 97 \<le> byte_of c \<and> byte_of c \<le> 122"

definition is_upper :: "char \<Rightarrow> bool" where
  "is_upper c \<longleftrightarrow> 65 \<le> byte_of c \<and> byte_of c \<le> 90"

definition is_alnum :: "char \<Rightarrow> bool" where
  "is_alnum c \<longleftrightarrow> is_lower c \<or> is_upper c \<or> is_digit c"

text \<open>The class \<open>[0-9a-f]\<close> of the container ID patterns.\<close>

definition is_lower_hex :: "char \<Rightarrow> bool" where
  "is_lower_hex c \<longleftrightarrow> is_digit c \<or> (97 \<le> byte_of c \<and> byte_of c \<le> 102)"

text \<open>The class \<open>[A-Za-z0-9_.-]\<close> of the object reference patterns.\<close>

definition is_ref_char :: "char \<Rightarrow> bool" where
  "is_ref_char c \<longleftrightarrow> is_alnum c \<or> c \<in> {CHR ''_'', CHR ''.'', CHR ''-''}"

lemmas char_class_defs =
  is_digit_def is_lower_def is_upper_def is_alnum_def is_lower_hex_def is_ref_char_def

subsection \<open>The functions of package strings\<close>

text \<open>strings.Split with a one-byte separator: never empty, one piece more than separators.\<close>

fun split_on :: "'a \<Rightarrow> 'a list \<Rightarrow> 'a list list" where
  "split_on c [] = [[]]"
| "split_on c (x # xs) =
     (if x = c then [] # split_on c xs
      else (case split_on c xs of [] \<Rightarrow> [[x]] | p # ps \<Rightarrow> (x # p) # ps))"

lemma split_on_not_Nil [simp]: "split_on c xs \<noteq> []"
  by (induction xs) (auto split: list.splits)

lemma split_on_no_sep: "p \<in> set (split_on c xs) \<Longrightarrow> c \<notin> set p"
  by (induction xs arbitrary: p) (fastforce split: list.splits if_splits)+

lemma split_on_set: "p \<in> set (split_on c xs) \<Longrightarrow> set p \<subseteq> set xs"
  by (induction xs arbitrary: p) (fastforce split: list.splits if_splits)+

lemma split_on_none: "c \<notin> set xs \<Longrightarrow> split_on c xs = [xs]"
  by (induction xs) auto

lemma split_on_append_sep:
  "c \<notin> set xs \<Longrightarrow> split_on c (xs @ c # ys) = xs # split_on c ys"
  by (induction xs) auto

text \<open>strings.Cut with a one-byte separator.\<close>

definition cut :: "'a \<Rightarrow> 'a list \<Rightarrow> ('a list \<times> 'a list) option" where
  "cut c xs = (if c \<in> set xs
     then Some (takeWhile (\<lambda>x. x \<noteq> c) xs, tl (dropWhile (\<lambda>x. x \<noteq> c) xs))
     else None)"

lemma cut_Some_append: "cut c xs = Some (p, r) \<Longrightarrow> xs = p @ c # r"
proof (induction xs arbitrary: p r)
  case Nil
  then show ?case by (simp add: cut_def)
next
  case (Cons x xs)
  show ?case
  proof (cases "x = c")
    case True
    with Cons.prems show ?thesis by (simp add: cut_def)
  next
    case False
    with Cons.prems obtain p' where "cut c xs = Some (p', r)" and "p = x # p'"
      by (auto simp: cut_def split: if_splits)
    with Cons.IH show ?thesis by simp
  qed
qed

text \<open>strings.TrimPrefix and strings.TrimSuffix.\<close>

definition trim_prefix :: "'a list \<Rightarrow> 'a list \<Rightarrow> 'a list" where
  "trim_prefix p xs = (if prefix p xs then drop (length p) xs else xs)"

definition trim_suffix :: "'a list \<Rightarrow> 'a list \<Rightarrow> 'a list" where
  "trim_suffix p xs = (if suffix p xs then take (length xs - length p) xs else xs)"

lemma trim_suffix_length: "length (trim_suffix p xs) \<le> length xs"
  by (simp add: trim_suffix_def)

text \<open>
  strings.TrimSpace removes the Unicode white space characters from both ends.  In UTF-8
  they are the byte sequences below (unicode.IsSpace, Latin-1 and beyond); none of them is a
  suffix of a longer encoded character, so matching bytes and matching decoded characters
  agree at both ends.
\<close>

definition space_encodings :: "string list" where
  "space_encodings =
     [[CHR 0x20], [CHR 0x09], [CHR 0x0A], [CHR 0x0B], [CHR 0x0C], [CHR 0x0D],
      [CHR 0xC2, CHR 0x85], [CHR 0xC2, CHR 0xA0], [CHR 0xE1, CHR 0x9A, CHR 0x80],
      [CHR 0xE2, CHR 0x80, CHR 0x80], [CHR 0xE2, CHR 0x80, CHR 0x81],
      [CHR 0xE2, CHR 0x80, CHR 0x82], [CHR 0xE2, CHR 0x80, CHR 0x83],
      [CHR 0xE2, CHR 0x80, CHR 0x84], [CHR 0xE2, CHR 0x80, CHR 0x85],
      [CHR 0xE2, CHR 0x80, CHR 0x86], [CHR 0xE2, CHR 0x80, CHR 0x87],
      [CHR 0xE2, CHR 0x80, CHR 0x88], [CHR 0xE2, CHR 0x80, CHR 0x89],
      [CHR 0xE2, CHR 0x80, CHR 0x8A], [CHR 0xE2, CHR 0x80, CHR 0xA8],
      [CHR 0xE2, CHR 0x80, CHR 0xA9], [CHR 0xE2, CHR 0x80, CHR 0xAF],
      [CHR 0xE2, CHR 0x81, CHR 0x9F], [CHR 0xE3, CHR 0x80, CHR 0x80]]"

fun trim_left_with :: "nat \<Rightarrow> string list \<Rightarrow> string \<Rightarrow> string" where
  "trim_left_with 0 ws s = s"
| "trim_left_with (Suc n) ws s =
     (case List.find (\<lambda>w. prefix w s) ws of
        None \<Rightarrow> s
      | Some w \<Rightarrow> trim_left_with n ws (drop (length w) s))"

text \<open>Every encoding is at least one byte long, so the length of the string is fuel enough.\<close>

definition trim_left :: "string \<Rightarrow> string" where
  "trim_left s = trim_left_with (length s) space_encodings s"

definition trim_space :: "string \<Rightarrow> string" where
  "trim_space s =
     (let l = trim_left s
      in rev (trim_left_with (length l) (map rev space_encodings) (rev l)))"

lemma trim_left_with_suffix: "suffix (trim_left_with n ws s) s"
proof (induction n arbitrary: s)
  case (Suc n)
  show ?case
  proof (cases "List.find (\<lambda>w. prefix w s) ws")
    case (Some w)
    have "suffix (trim_left_with n ws (drop (length w) s)) (drop (length w) s)"
      by (rule Suc.IH)
    with Some show ?thesis
      by (auto intro: suffix_order.trans suffix_drop)
  qed simp
qed simp

lemma trim_left_with_done:
  assumes "length s \<le> n" and "\<And>w. w \<in> set ws \<Longrightarrow> w \<noteq> []" and "w \<in> set ws"
  shows "\<not> prefix w (trim_left_with n ws s)"
  using assms(1)
proof (induction n arbitrary: s)
  case 0
  with assms(2,3) show ?case by auto
next
  case (Suc n)
  show ?case
  proof (cases "List.find (\<lambda>w. prefix w s) ws")
    case None
    with assms(3) have "\<not> prefix w s" by (auto simp: find_None_iff)
    with None show ?thesis by simp
  next
    case (Some v)
    then have "v \<noteq> []" and "prefix v s"
      using assms(2) by (auto simp: find_Some_iff)
    with Suc.prems have "length (drop (length v) s) \<le> n"
      by (cases v) auto
    with Some Suc.IH show ?thesis by simp
  qed
qed

lemma trim_space_set: "set (trim_space s) \<subseteq> set s"
proof -
  have "set (trim_left_with n ws t) \<subseteq> set t" for n ws t
    by (rule set_mono_suffix [OF trim_left_with_suffix])
  then have "set (trim_left_with n ws (rev (trim_left s))) \<subseteq> set s" for n ws
    unfolding trim_left_def by (metis order_trans set_rev)
  then show ?thesis by (simp add: trim_space_def Let_def)
qed

subsection \<open>The functions of package strconv\<close>

fun digits_value :: "int \<Rightarrow> string \<Rightarrow> int" where
  "digits_value acc [] = acc"
| "digits_value acc (c # cs) = digits_value (acc * 10 + (of_char c - 48)) cs"

text \<open>
  strconv.Atoi: an optional sign, then at least one decimal digit and nothing else, with a
  range error outside the 64-bit integers.
\<close>

definition atoi :: "string \<Rightarrow> int option" where
  "atoi s =
     (let neg = (case s of c # _ \<Rightarrow> c = CHR ''-'' | [] \<Rightarrow> False);
          ds = (case s of c # cs \<Rightarrow> if c = CHR ''-'' \<or> c = CHR ''+'' then cs else s | [] \<Rightarrow> []);
          v = (if neg then - digits_value 0 ds else digits_value 0 ds)
      in if ds = [] \<or> \<not> list_all is_digit ds then None
         else if v < - (2 ^ 63) \<or> 2 ^ 63 \<le> v then None
         else Some v)"

lemma atoi_range: "atoi s = Some n \<Longrightarrow> - (2 ^ 63) \<le> n \<and> n < 2 ^ 63"
  by (auto simp: atoi_def Let_def split: if_splits)

lemma atoi_Nil [simp]: "atoi [] = None"
  by (simp add: atoi_def)

text \<open>strconv.Itoa.\<close>

function digits_of :: "int \<Rightarrow> string" where
  "digits_of n = (if n < 10 then [char_of (48 + nat n)]
     else digits_of (n div 10) @ [char_of (48 + nat (n mod 10))])"
  by pat_completeness auto
termination by (relation "measure nat") auto

declare digits_of.simps [simp del]

definition itoa :: "int \<Rightarrow> string" where
  "itoa n = (if n < 0 then ''-'' @ digits_of (- n) else digits_of n)"

lemma digits_value_append:
  "digits_value acc (xs @ [c]) = digits_value acc xs * 10 + (of_char c - 48)"
  by (induction xs arbitrary: acc) auto

lemma digit_char:
  assumes "0 \<le> n" and "n < 10"
  shows "is_digit (char_of (48 + nat n))" and "(of_char (char_of (48 + nat n)) :: int) = 48 + n"
proof -
  have "48 + nat n < 256" using assms by linarith
  then have b: "byte_of (char_of (48 + nat n)) = 48 + nat n" by simp
  then show "is_digit (char_of (48 + nat n))"
    using assms by (simp add: is_digit_def)
  have "(of_char (char_of (48 + nat n)) :: int) = int (byte_of (char_of (48 + nat n)))"
    by (rule of_nat_of_char [symmetric])
  with b assms show "(of_char (char_of (48 + nat n)) :: int) = 48 + n" by simp
qed

lemma digits_of_digits:
  assumes "0 \<le> n"
  shows "digits_of n \<noteq> [] \<and> list_all is_digit (digits_of n) \<and> digits_value 0 (digits_of n) = n"
  using assms
proof (induction n rule: digits_of.induct)
  case (1 n)
  show ?case
  proof (cases "n < 10")
    case True
    with 1 digit_char [of n] show ?thesis by (subst (1 2 3) digits_of.simps) simp
  next
    case False
    have "0 \<le> n mod 10" and "n mod 10 < 10" by simp_all
    note d = digit_char [OF this]
    have "digits_of (n div 10) \<noteq> [] \<and> list_all is_digit (digits_of (n div 10)) \<and>
        digits_value 0 (digits_of (n div 10)) = n div 10"
      using 1 False by simp
    with False d show ?thesis
      by (subst (1 2 3) digits_of.simps) (simp add: digits_value_append)
  qed
qed

lemma atoi_itoa:
  assumes "- (2 ^ 63) \<le> n" and "n < 2 ^ 63"
  shows "atoi (itoa n) = Some n"
proof (cases "n < 0")
  case True
  with digits_of_digits [of "- n"] assms show ?thesis by (simp add: itoa_def atoi_def Let_def)
next
  case False
  then have d: "digits_of n \<noteq> []" "list_all is_digit (digits_of n)" "digits_value 0 (digits_of n) = n"
    using digits_of_digits [of n] by auto
  then obtain c cs where c: "digits_of n = c # cs" by (cases "digits_of n") auto
  with d(2) have "c \<noteq> CHR ''-'' \<and> c \<noteq> CHR ''+''" by (auto simp: is_digit_def)
  with False c d assms show ?thesis by (simp add: itoa_def atoi_def Let_def)
qed

subsection \<open>Go maps\<close>

text \<open>
  A Go map is an association list with distinct keys.  The order of the list is not
  observable: the theorems that depend on an iteration order quantify over it.
\<close>

type_synonym ('k, 'v) gomap = "('k \<times> 'v) list"

abbreviation gm_get :: "('k, 'v) gomap \<Rightarrow> 'k \<Rightarrow> 'v option" where
  "gm_get m k \<equiv> map_of m k"

abbreviation gm_put :: "'k \<Rightarrow> 'v \<Rightarrow> ('k, 'v) gomap \<Rightarrow> ('k, 'v) gomap" where
  "gm_put k v m \<equiv> AList.update k v m"

abbreviation gm_del :: "'k \<Rightarrow> ('k, 'v) gomap \<Rightarrow> ('k, 'v) gomap" where
  "gm_del k m \<equiv> AList.delete k m"

abbreviation gm_wf :: "('k, 'v) gomap \<Rightarrow> bool" where
  "gm_wf m \<equiv> distinct (map fst m)"

text \<open>The value read for a missing key is the zero value of the element type.\<close>

definition gm_get_or :: "'v \<Rightarrow> ('k, 'v) gomap \<Rightarrow> 'k \<Rightarrow> 'v" where
  "gm_get_or d m k = (case gm_get m k of None \<Rightarrow> d | Some v \<Rightarrow> v)"

lemma gm_get_put [gomap_simps]: "gm_get (gm_put k v m) j = (if j = k then Some v else gm_get m j)"
  by (simp add: update_conv')

lemma gm_get_del [gomap_simps]: "gm_get (gm_del k m) j = (if j = k then None else gm_get m j)"
  by (simp add: delete_conv')

lemma gm_wf_put [preserves]: "gm_wf m \<Longrightarrow> gm_wf (gm_put k v m)"
  by (rule distinct_update)

lemma gm_wf_del [preserves]: "gm_wf m \<Longrightarrow> gm_wf (gm_del k m)"
  by (rule distinct_delete)

lemma gm_wf_filter [preserves]: "gm_wf m \<Longrightarrow> gm_wf (filter P m)"
  by (induction m) auto

lemma gm_len_put: "length (gm_put k v m) = (if gm_get m k = None then Suc (length m) else length m)"
  by (induction m) auto

lemma gm_get_filter:
  "gm_wf m \<Longrightarrow> gm_get (filter P m) k = (case gm_get m k of None \<Rightarrow> None | Some v \<Rightarrow> if P (k, v) then Some v else None)"
  by (induction m) (auto simp: map_of_eq_None_iff split: option.splits dest: map_of_SomeD)

subsection \<open>Components that keep an invariant\<close>

text \<open>
  The contract of a component that is driven by a sequence of events: its initial states
  satisfy the invariant and every event keeps it.  The lemma every component needs, that
  whole runs keep the invariant, is proved once here; each component interprets the locale
  on its own step function.
\<close>

locale invariant_system =
  fixes step :: "'s \<Rightarrow> 'e \<Rightarrow> 's" and start :: "'s \<Rightarrow> bool" and inv :: "'s \<Rightarrow> bool"
  assumes start_inv: "start s \<Longrightarrow> inv s"
    and step_inv: "inv s \<Longrightarrow> inv (step s e)"
begin

lemma run_inv: "inv s \<Longrightarrow> inv (foldl step s es)"
  by (induction es arbitrary: s) (auto intro: step_inv)

lemma start_run_inv: "start s \<Longrightarrow> inv (foldl step s es)"
  by (intro run_inv start_inv)

end

end
