(* ===== verification/Policy.thy ===== *)
theory Policy
  imports Prelude
begin

section \<open>Permission tiers (internal/policy/mode.go)\<close>

text \<open>
  The operator fixes one permission tier at startup.  The tiers are totally ordered, an
  operation is permitted from a least tier on, and an operation the table does not know is
  denied by every tier.
\<close>

text \<open>
  The Go type is an int with three named values.  A \<open>Mode\<close> is only ever produced by
  \<open>ParseMode\<close> or left at its zero value, so the three constants are all of its values;
  the order of the constants is the order of the tiers.
\<close>

datatype mode = ModeReadOnly | ModeDefault | ModeFull

fun mode_rank :: "mode \<Rightarrow> nat" where
  "mode_rank ModeReadOnly = 0"
| "mode_rank ModeDefault = 1"
| "mode_rank ModeFull = 2"

instantiation mode :: linorder
begin

definition less_eq_mode :: "mode \<Rightarrow> mode \<Rightarrow> bool" where
  "less_eq_mode m n \<longleftrightarrow> mode_rank m \<le> mode_rank n"

definition less_mode :: "mode \<Rightarrow> mode \<Rightarrow> bool" where
  "less_mode m n \<longleftrightarrow> mode_rank m < mode_rank n"

instance
proof
  fix m n :: mode
  assume "m \<le> n" and "n \<le> m"
  then show "m = n" by (cases m; cases n) (auto simp: less_eq_mode_def)
qed (auto simp: less_eq_mode_def less_mode_def)

end

lemma mode_le_simps [simp]:
  "ModeReadOnly \<le> m" "m \<le> ModeFull" "\<not> ModeDefault \<le> ModeReadOnly"
  "\<not> ModeFull \<le> ModeReadOnly" "\<not> ModeFull \<le> ModeDefault"
  by (cases m; simp add: less_eq_mode_def)+

text \<open>An \<open>Operation\<close> is a Go string; these are the seven registered ones.\<close>

type_synonym operation = string

definition OpRead :: operation where "OpRead = ''read''"
definition OpLogs :: operation where "OpLogs = ''logs''"
definition OpStart :: operation where "OpStart = ''start''"
definition OpRestart :: operation where "OpRestart = ''restart''"
definition OpStop :: operation where "OpStop = ''stop''"
definition OpKill :: operation where "OpKill = ''kill''"
definition OpDelete :: operation where "OpDelete = ''delete''"

lemma op_distinct: "distinct [OpRead, OpLogs, OpStart, OpRestart, OpStop, OpKill, OpDelete]"
  by (simp add: OpRead_def OpLogs_def OpStart_def OpRestart_def OpStop_def OpKill_def OpDelete_def)

lemmas op_defs = OpRead_def OpLogs_def OpStart_def OpRestart_def OpStop_def OpKill_def OpDelete_def

definition minMode :: "(operation, mode) gomap" where
  "minMode =
     [(OpRead, ModeReadOnly), (OpLogs, ModeReadOnly),
      (OpStart, ModeDefault), (OpRestart, ModeDefault), (OpStop, ModeDefault),
      (OpKill, ModeFull), (OpDelete, ModeFull)]"

definition Allows :: "mode \<Rightarrow> operation \<Rightarrow> bool" where
  "Allows m op = (case gm_get minMode op of None \<Rightarrow> False | Some mn \<Rightarrow> mn \<le> m)"

definition nameReadOnly :: string where "nameReadOnly = ''read-only''"
definition nameDefault :: string where "nameDefault = ''default''"
definition nameFull :: string where "nameFull = ''full''"

lemmas mode_name_defs = nameReadOnly_def nameDefault_def nameFull_def

fun mode_String :: "mode \<Rightarrow> string" where
  "mode_String ModeReadOnly = nameReadOnly"
| "mode_String ModeDefault = nameDefault"
| "mode_String ModeFull = nameFull"

text \<open>The error carries the rejected value; its text is not modelled.\<close>

definition ParseMode :: "string \<Rightarrow> string + mode" where
  "ParseMode s =
     (if s = [] then Inr ModeDefault
      else if s = nameReadOnly then Inr ModeReadOnly
      else if s = nameDefault then Inr ModeDefault
      else if s = nameFull then Inr ModeFull
      else Inl s)"

subsection \<open>What each tier permits\<close>

lemma Allows_mono: "Allows m op \<Longrightarrow> m \<le> n \<Longrightarrow> Allows n op"
  by (auto simp: Allows_def split: option.splits)

lemma Allows_known: "Allows m op \<Longrightarrow> op \<in> fst ` set minMode"
  by (force simp: Allows_def split: option.splits dest: map_of_SomeD)

lemma permitted_iff:
  "Allows ModeReadOnly op \<longleftrightarrow> op \<in> {OpRead, OpLogs}"
  "Allows ModeDefault op \<longleftrightarrow> op \<in> {OpRead, OpLogs, OpStart, OpRestart, OpStop}"
  "Allows ModeFull op \<longleftrightarrow>
     op \<in> {OpRead, OpLogs, OpStart, OpRestart, OpStop, OpKill, OpDelete}"
  by (simp_all add: Allows_def minMode_def)

text \<open>
  The tiers are strict supersets of one another: what one tier permits every higher tier
  permits too, each step adds an operation, and an operation outside the registered seven is
  denied even by the highest tier.
\<close>

theorem policy_tiers_strict:
  "{op. Allows ModeReadOnly op} \<subset> {op. Allows ModeDefault op} \<and>
   {op. Allows ModeDefault op} \<subset> {op. Allows ModeFull op} \<and>
   (\<forall>m. {op. Allows m op} \<subseteq> fst ` set minMode)"
proof -
  have "OpStart \<in> {op. Allows ModeDefault op} - {op. Allows ModeReadOnly op}"
    and "OpKill \<in> {op. Allows ModeFull op} - {op. Allows ModeDefault op}"
    using op_distinct by (auto simp: permitted_iff)
  moreover have "{op. Allows ModeReadOnly op} \<subseteq> {op. Allows ModeDefault op}"
    and "{op. Allows ModeDefault op} \<subseteq> {op. Allows ModeFull op}"
    by (auto intro: Allows_mono [OF _ mode_le_simps(1)] Allows_mono [OF _ mode_le_simps(2)])
  moreover have "\<forall>m. {op. Allows m op} \<subseteq> fst ` set minMode"
    using Allows_known by blast
  ultimately show ?thesis by blast
qed

lemma ParseMode_String: "ParseMode (mode_String m) = Inr m"
  by (cases m) (auto simp: ParseMode_def mode_name_defs)

lemma ParseMode_accepts:
  "ParseMode s = Inr m \<longleftrightarrow> s = mode_String m \<or> (s = [] \<and> m = ModeDefault)"
  by (cases m) (auto simp: ParseMode_def mode_name_defs)

end
