(* ===== verification/RateLimit.thy ===== *)
theory RateLimit
  imports Prelude Complex_Main
begin

section \<open>Bounded registries of token buckets (internal/ratelimit/registry.go)\<close>

text \<open>
  A \<open>Registry\<close> hands out one limiter per key and never holds more than \<open>maxKeys\<close>
  of them.  The limiter itself is golang.org/x/time/rate, which is not part of the
  repository: its three operations are a parameter, the record below.  Instants are
  nanoseconds on the monotonic clock.
\<close>

record 'l limiter_api =
  newLimiter :: "rat \<Rightarrow> nat \<Rightarrow> 'l"
  allowN1 :: "'l \<Rightarrow> int \<Rightarrow> bool \<times> 'l"
  tokensAt :: "'l \<Rightarrow> int \<Rightarrow> rat"

record 'l registry =
  buckets :: "(string, 'l) gomap"
  limit :: rat
  burst :: nat
  maxKeys :: nat

definition NewRegistry :: "rat \<Rightarrow> nat \<Rightarrow> nat \<Rightarrow> 'l registry" where
  "NewRegistry rl b mk = \<lparr>buckets = [], limit = rl, burst = b, maxKeys = mk\<rparr>"

definition idle :: "'l limiter_api \<Rightarrow> 'l registry \<Rightarrow> int \<Rightarrow> 'l \<Rightarrow> bool" where
  "idle api r now lm \<longleftrightarrow> of_nat (burst r) \<le> tokensAt api lm now"

definition sweepIdleLocked :: "'l limiter_api \<Rightarrow> int \<Rightarrow> 'l registry \<Rightarrow> 'l registry" where
  "sweepIdleLocked api now r =
     r\<lparr>buckets := filter (\<lambda>(k, lm). \<not> idle api r now lm) (buckets r)\<rparr>"

text \<open>
  \<open>Allow\<close>: the result is (allowed, keyed).  Calling \<open>AllowN\<close> mutates the limiter, so
  the registry stores the limiter's new state under the same key.
\<close>

definition Allow ::
  "'l limiter_api \<Rightarrow> 'l registry \<Rightarrow> string \<Rightarrow> int \<Rightarrow> (bool \<times> bool) \<times> 'l registry" where
  "Allow api r key now =
     (case gm_get (buckets r) key of
        Some lm \<Rightarrow>
          (let (ok, lm') = allowN1 api lm now
           in ((ok, True), r\<lparr>buckets := gm_put key lm' (buckets r)\<rparr>))
      | None \<Rightarrow>
          (let r1 = (if maxKeys r \<le> length (buckets r) then sweepIdleLocked api now r else r)
           in if maxKeys r1 \<le> length (buckets r1) then ((False, False), r1)
              else (let (ok, lm') = allowN1 api (newLimiter api (limit r1) (burst r1)) now
                    in ((ok, True), r1\<lparr>buckets := gm_put key lm' (buckets r1)\<rparr>))))"

definition Len :: "'l registry \<Rightarrow> nat" where
  "Len r = length (buckets r)"

subsection \<open>The capacity invariant\<close>

definition registry_inv :: "'l registry \<Rightarrow> bool" where
  "registry_inv r \<longleftrightarrow> gm_wf (buckets r) \<and> length (buckets r) \<le> maxKeys r"

lemma sweep_fields [simp]:
  "limit (sweepIdleLocked api now r) = limit r"
  "burst (sweepIdleLocked api now r) = burst r"
  "maxKeys (sweepIdleLocked api now r) = maxKeys r"
  by (simp_all add: sweepIdleLocked_def)

lemma sweep_inv [preserves]: "registry_inv r \<Longrightarrow> registry_inv (sweepIdleLocked api now r)"
  by (auto simp: registry_inv_def sweepIdleLocked_def gm_wf_filter
      intro: order_trans [OF length_filter_le])

lemma Allow_fields:
  assumes "Allow api r key now = (res, r')"
  shows "limit r' = limit r" and "burst r' = burst r" and "maxKeys r' = maxKeys r"
  using assms by (auto simp: Allow_def Let_def split: option.splits prod.splits if_splits)

lemma NewRegistry_inv: "registry_inv (NewRegistry rl b mk)"
  by (simp add: registry_inv_def NewRegistry_def)

lemma Allow_inv [preserves]:
  assumes "registry_inv r"
  shows "registry_inv (snd (Allow api r key now))"
proof -
  have "registry_inv (sweepIdleLocked api now r)"
    using assms by (rule sweep_inv)
  with assms show ?thesis
    by (auto simp: Allow_def registry_inv_def Let_def gm_len_put gm_wf_put sweep_fields
        split: option.splits prod.splits)
qed

definition registry_step :: "'l limiter_api \<Rightarrow> 'l registry \<Rightarrow> string \<times> int \<Rightarrow> 'l registry" where
  "registry_step api r e = snd (Allow api r (fst e) (snd e))"

interpretation registry_sys: invariant_system
  "registry_step api" "\<lambda>r. \<exists>rl b mk. r = NewRegistry rl b mk" registry_inv for api
  by unfold_locales
    (auto simp: registry_step_def NewRegistry_inv intro: Allow_inv)

lemma registry_run_maxKeys: "maxKeys (foldl (registry_step api) r es) = maxKeys r"
proof (induction es arbitrary: r)
  case (Cons e es)
  have "maxKeys (registry_step api r e) = maxKeys r"
    unfolding registry_step_def by (metis Allow_fields(3) prod.collapse)
  with Cons.IH show ?case by simp
qed simp

text \<open>
  Whatever keys are presented, in whatever order and at whatever times, and however the
  limiter behaves, a registry never holds more than \<open>maxKeys\<close> buckets.
\<close>

theorem registry_bounded:
  "Len (foldl (registry_step api) (NewRegistry rl b mk) calls) \<le> mk"
proof -
  have "registry_inv (foldl (registry_step api) (NewRegistry rl b mk) calls)"
    by (rule registry_sys.start_run_inv) blast
  then show ?thesis
    by (simp add: registry_inv_def Len_def registry_run_maxKeys) (simp add: NewRegistry_def)
qed

subsection \<open>Eviction is unobservable\<close>

text \<open>
  The specification of the registry has no capacity: one limiter per key, each created full
  the first time its key is seen and kept forever.
\<close>

definition unbounded_allow ::
  "'l limiter_api \<Rightarrow> (string \<Rightarrow> 'l) \<Rightarrow> string \<Rightarrow> int \<Rightarrow> bool \<times> (string \<Rightarrow> 'l)" where
  "unbounded_allow api m key now =
     (let (ok, lm') = allowN1 api (m key) now in (ok, m(key := lm')))"

fun unbounded_run :: "'l limiter_api \<Rightarrow> (string \<Rightarrow> 'l) \<Rightarrow> (string \<times> int) list \<Rightarrow> bool list" where
  "unbounded_run api m [] = []"
| "unbounded_run api m ((key, now) # calls) =
     (let (ok, m') = unbounded_allow api m key now in ok # unbounded_run api m' calls)"

text \<open>The run of a registry, each call with its result (allowed, keyed).\<close>

fun registry_run ::
  "'l limiter_api \<Rightarrow> 'l registry \<Rightarrow> (string \<times> int) list
     \<Rightarrow> ((string \<times> int) \<times> (bool \<times> bool)) list" where
  "registry_run api r [] = []"
| "registry_run api r ((key, now) # calls) =
     (let (res, r') = Allow api r key now in ((key, now), res) # registry_run api r' calls)"

text \<open>The calls that found or obtained a bucket of their own.\<close>

definition keyed_calls ::
  "((string \<times> int) \<times> (bool \<times> bool)) list \<Rightarrow> ((string \<times> int) \<times> (bool \<times> bool)) list" where
  "keyed_calls = filter (\<lambda>(c, res). snd res)"

text \<open>
  What the code relies on of golang.org/x/time/rate, for the limiters one registry makes: a
  limiter whose bucket is full at some instant answers from then on exactly as a new one.
\<close>

definition limiter_after :: "'l limiter_api \<Rightarrow> rat \<Rightarrow> nat \<Rightarrow> int list \<Rightarrow> 'l" where
  "limiter_after api rl b ts = foldl (\<lambda>l t. snd (allowN1 api l t)) (newLimiter api rl b) ts"

definition full_is_fresh :: "'l limiter_api \<Rightarrow> rat \<Rightarrow> nat \<Rightarrow> bool" where
  "full_is_fresh api rl b \<longleftrightarrow>
     (\<forall>ts now t. of_nat b \<le> tokensAt api (limiter_after api rl b ts) now \<longrightarrow> now \<le> t \<longrightarrow>
        allowN1 api (limiter_after api rl b ts) t = allowN1 api (newLimiter api rl b) t)"

definition made :: "'l limiter_api \<Rightarrow> rat \<Rightarrow> nat \<Rightarrow> 'l \<Rightarrow> bool" where
  "made api rl b l \<longleftrightarrow> (\<exists>ts. l = limiter_after api rl b ts)"

lemma made_new: "made api rl b (newLimiter api rl b)"
  unfolding made_def limiter_after_def by (rule exI [of _ "[]"]) simp

lemma made_step: "made api rl b l \<Longrightarrow> made api rl b (snd (allowN1 api l t))"
  unfolding made_def limiter_after_def
  by (auto intro: exI [of _ "ts @ [t]" for ts])

definition as_new :: "'l limiter_api \<Rightarrow> rat \<Rightarrow> nat \<Rightarrow> int \<Rightarrow> 'l \<Rightarrow> bool" where
  "as_new api rl b now l \<longleftrightarrow> (\<forall>t\<ge>now. allowN1 api l t = allowN1 api (newLimiter api rl b) t)"

text \<open>
  The simulation: a stored limiter is the specification's limiter, and where nothing is stored
  the specification's limiter can no longer be told from a new one.
\<close>

definition key_sim ::
  "'l limiter_api \<Rightarrow> rat \<Rightarrow> nat \<Rightarrow> int \<Rightarrow> 'l option \<Rightarrow> 'l \<Rightarrow> bool" where
  "key_sim api rl b now stored l \<longleftrightarrow> made api rl b l \<and>
     (case stored of Some l' \<Rightarrow> l = l' | None \<Rightarrow> as_new api rl b now l)"

definition registry_sim ::
  "'l limiter_api \<Rightarrow> rat \<Rightarrow> nat \<Rightarrow> int \<Rightarrow> 'l registry \<Rightarrow> (string \<Rightarrow> 'l) \<Rightarrow> bool" where
  "registry_sim api rl b now r m \<longleftrightarrow>
     limit r = rl \<and> burst r = b \<and> gm_wf (buckets r) \<and>
     (\<forall>k. key_sim api rl b now (gm_get (buckets r) k) (m k))"

lemma key_sim_later: "key_sim api rl b now st l \<Longrightarrow> now \<le> t \<Longrightarrow> key_sim api rl b t st l"
  by (auto simp: key_sim_def as_new_def split: option.splits)

lemma registry_sim_later: "registry_sim api rl b now r m \<Longrightarrow> now \<le> t \<Longrightarrow> registry_sim api rl b t r m"
  by (simp add: registry_sim_def) (blast intro: key_sim_later)

lemma key_sim_evict:
  assumes "full_is_fresh api rl b" and "key_sim api rl b now (Some l') l"
    and "of_nat b \<le> tokensAt api l' now"
  shows "key_sim api rl b now None l"
  using assms by (auto simp: key_sim_def full_is_fresh_def as_new_def made_def)

lemma registry_sim_sweep:
  assumes "full_is_fresh api rl b" and "registry_sim api rl b now r m"
  shows "registry_sim api rl b now (sweepIdleLocked api now r) m"
proof -
  have "key_sim api rl b now (gm_get (buckets (sweepIdleLocked api now r)) k) (m k)" for k
  proof -
    have wf: "gm_wf (buckets r)" and "burst r = b"
      and k: "key_sim api rl b now (gm_get (buckets r) k) (m k)"
      using assms(2) by (auto simp: registry_sim_def)
    then show ?thesis
      using key_sim_evict [OF assms(1)]
      by (cases "gm_get (buckets r) k") (auto simp: sweepIdleLocked_def gm_get_filter idle_def)
  qed
  with assms(2) show ?thesis
    by (auto simp: registry_sim_def) (simp add: sweepIdleLocked_def gm_wf_filter)
qed

lemma registry_sim_use:
  assumes "registry_sim api rl b now r m"
    and "allowN1 api (case gm_get (buckets r) key of Some l \<Rightarrow> l | None \<Rightarrow> newLimiter api rl b) now = (ok, l')"
  shows "allowN1 api (m key) now = (ok, l') \<and>
         registry_sim api rl b now (r\<lparr>buckets := gm_put key l' (buckets r)\<rparr>) (m(key := l'))"
proof -
  have key: "key_sim api rl b now (gm_get (buckets r) key) (m key)"
    using assms(1) by (simp add: registry_sim_def)
  then have a: "allowN1 api (m key) now = (ok, l')"
    using assms(2) by (cases "gm_get (buckets r) key") (auto simp: key_sim_def as_new_def)
  have "made api rl b l'"
    using key made_step [of api rl b "m key" now] by (simp add: key_sim_def a)
  then have "key_sim api rl b now (Some l') l'"
    by (simp add: key_sim_def)
  with a assms(1) show ?thesis
    by (simp add: registry_sim_def gm_wf_put gomap_simps)
qed

lemma registry_sim_Allow:
  assumes fresh: "full_is_fresh api rl b" and sim: "registry_sim api rl b now r m"
    and call: "Allow api r key now = ((ok, keyed), r')"
  shows "if keyed then \<exists>m'. unbounded_allow api m key now = (ok, m') \<and> registry_sim api rl b now r' m'
         else registry_sim api rl b now r' m"
proof -
  define r1 where "r1 = (if maxKeys r \<le> length (buckets r) then sweepIdleLocked api now r else r)"
  have sim1: "registry_sim api rl b now r1 m"
    using sim registry_sim_sweep [OF fresh sim] by (simp add: r1_def)
  then have fields: "limit r1 = rl" "burst r1 = b"
    by (simp_all add: registry_sim_def)
  show ?thesis
  proof (cases "gm_get (buckets r) key")
    case (Some l)
    obtain ok' l' where l': "allowN1 api l now = (ok', l')" by fastforce
    with call Some registry_sim_use [OF sim, where key = key and ok = ok' and l' = l'] show ?thesis
      by (auto simp: Allow_def unbounded_allow_def)
  next
    case None
    then have miss: "gm_get (buckets r1) key = None"
      using sim by (auto simp: r1_def sweepIdleLocked_def registry_sim_def gm_get_filter)
    obtain ok' l' where l': "allowN1 api (newLimiter api rl b) now = (ok', l')" by fastforce
    with call None miss sim1 registry_sim_use [OF sim1, where key = key and ok = ok' and l' = l']
    show ?thesis
      by (auto simp: Allow_def Let_def r1_def [symmetric] fields unbounded_allow_def split: if_splits)
  qed
qed

lemma registry_run_sim:
  assumes "full_is_fresh api rl b"
  shows "registry_sim api rl b now r m \<Longrightarrow> sorted (now # map snd calls) \<Longrightarrow>
    map (fst \<circ> snd) (keyed_calls (registry_run api r calls)) =
    unbounded_run api m (map fst (keyed_calls (registry_run api r calls)))"
proof (induction calls arbitrary: r m now)
  case Nil
  show ?case by (simp add: keyed_calls_def)
next
  case (Cons c calls)
  obtain key t where c: "c = (key, t)" by fastforce
  obtain ok keyed r' where call: "Allow api r key t = ((ok, keyed), r')"
    by (metis surj_pair)
  have sim: "registry_sim api rl b t r m" and sorted: "sorted (t # map snd calls)"
    using Cons.prems registry_sim_later [of api rl b now r m t] by (auto simp: c)
  from registry_sim_Allow [OF assms sim call] Cons.IH [OF _ sorted] show ?case
    by (auto simp: c call keyed_calls_def split: if_splits)
qed

text \<open>
  C32: with a limiter whose full bucket is as good as new, and calls at increasing instants, the
  capped registry answers every call it keys exactly as the uncapped one, so evicting idle
  buckets never grants or costs a caller a token.
\<close>

theorem registry_refines_unbounded:
  assumes "full_is_fresh api rl b" and "sorted (map snd calls)"
    and "outcomes = keyed_calls (registry_run api (NewRegistry rl b mk) calls)"
  shows "map (fst \<circ> snd) outcomes = unbounded_run api (\<lambda>_. newLimiter api rl b) (map fst outcomes)"
proof (cases calls)
  case Nil
  with assms(3) show ?thesis by (simp add: keyed_calls_def)
next
  case (Cons c cs)
  have "registry_sim api rl b (snd c) (NewRegistry rl b mk) (\<lambda>_. newLimiter api rl b)"
    by (simp add: registry_sim_def key_sim_def NewRegistry_def made_new as_new_def)
  moreover have "sorted (snd c # map snd calls)"
    using assms(2) Cons by simp
  ultimately show ?thesis
    unfolding assms(3) by (rule registry_run_sim [OF assms(1)])
qed

subsection \<open>The documented limiter\<close>

text \<open>
  A token bucket as golang.org/x/time/rate documents it, over exact rationals: it starts full,
  refills at \<open>rl\<close> tokens a second up to the burst and a granted call takes one token.  It
  shows that the behaviour the registry relies on can be had.
\<close>

record token_bucket =
  tb_rate :: rat
  tb_burst :: nat
  tb_last :: "(int \<times> rat) option"

definition tb_tokens :: "token_bucket \<Rightarrow> int \<Rightarrow> rat" where
  "tb_tokens l t = (case tb_last l of
     None \<Rightarrow> of_nat (tb_burst l)
   | Some (t0, tok) \<Rightarrow>
       min (of_nat (tb_burst l)) (tok + tb_rate l * (of_int (max 0 (t - t0)) / 1000000000)))"

definition tb_allow :: "token_bucket \<Rightarrow> int \<Rightarrow> bool \<times> token_bucket" where
  "tb_allow l t =
     (if 1 \<le> tb_tokens l t then (True, l\<lparr>tb_last := Some (t, tb_tokens l t - 1)\<rparr>) else (False, l))"

definition tb_api :: "token_bucket limiter_api" where
  "tb_api = \<lparr>newLimiter = (\<lambda>rl b. \<lparr>tb_rate = rl, tb_burst = b, tb_last = None\<rparr>),
             allowN1 = tb_allow, tokensAt = tb_tokens\<rparr>"

lemma tb_tokens_mono:
  assumes "0 \<le> tb_rate l" and "t \<le> u"
  shows "tb_tokens l t \<le> tb_tokens l u"
proof (cases "tb_last l")
  case (Some p)
  obtain t0 tok where p: "p = (t0, tok)" by fastforce
  have "(of_int (max 0 (t - t0)) :: rat) \<le> of_int (max 0 (u - t0))"
    unfolding of_int_le_iff using assms(2) by (intro max.mono) auto
  then have "tb_rate l * (of_int (max 0 (t - t0)) / 1000000000)
      \<le> tb_rate l * (of_int (max 0 (u - t0)) / 1000000000)"
    using assms(1) by (intro mult_left_mono divide_right_mono) auto
  with Some p show ?thesis by (simp add: tb_tokens_def min_le_iff_disj)
qed (simp add: tb_tokens_def)

lemma tb_after_fields:
  "tb_rate (limiter_after tb_api rl b ts) = rl \<and> tb_burst (limiter_after tb_api rl b ts) = b"
proof (induction ts rule: rev_induct)
  case (snoc t ts)
  then show ?case by (simp add: limiter_after_def tb_api_def tb_allow_def)
qed (simp add: limiter_after_def tb_api_def)

lemma tb_full_is_fresh:
  assumes "0 \<le> rl" and "1 \<le> b"
  shows "full_is_fresh tb_api rl b"
proof -
  have "tb_allow l t = tb_allow \<lparr>tb_rate = rl, tb_burst = b, tb_last = None\<rparr> t"
    if "of_nat b \<le> tb_tokens l now" and "now \<le> t" and "tb_rate l = rl" and "tb_burst l = b" for l now t
  proof -
    have "tb_tokens l t \<le> of_nat b"
      using that(4) by (auto simp: tb_tokens_def split: option.splits prod.splits)
    moreover have "tb_tokens l now \<le> tb_tokens l t"
      using tb_tokens_mono that(2,3) assms(1) by blast
    ultimately have "tb_tokens l t = of_nat b" using that(1) by linarith
    with assms(2) that(3,4) show ?thesis
      by (simp add: tb_allow_def tb_tokens_def)
  qed
  with tb_after_fields show ?thesis
    by (simp add: full_is_fresh_def) (simp add: tb_api_def)
qed

text \<open>
  Two keys, a cap of one bucket: the second key is refused a bucket while the first one is
  busy, takes its place once it is idle, and the first key then comes back.
\<close>

definition demo_calls :: "(string \<times> int) list" where
  "demo_calls = [(''a'', 0), (''b'', 1), (''b'', 5000000000), (''a'', 9000000000)]"

lemma registry_refines_unbounded_witness:
  "full_is_fresh tb_api 1 1 \<and> sorted (map snd demo_calls) \<and>
   map (fst \<circ> snd) (keyed_calls (registry_run tb_api (NewRegistry 1 1 1) demo_calls)) =
   unbounded_run tb_api (\<lambda>_. newLimiter tb_api 1 1)
     (map fst (keyed_calls (registry_run tb_api (NewRegistry 1 1 1) demo_calls)))"
proof -
  have "full_is_fresh tb_api 1 1" and "sorted (map snd demo_calls)"
    by (simp_all add: tb_full_is_fresh demo_calls_def)
  then show ?thesis
    using registry_refines_unbounded [of tb_api 1 1 demo_calls] by blast
qed

end
