(* ===== verification/Config.thy ===== *)
theory Config
  imports Prelude Policy
begin

section \<open>Startup configuration (internal/config/config.go)\<close>

text \<open>
  \<open>Load\<close> reads every knob once from the environment, applies defaults, validates and
  reports every problem of one pass.  A parser returns its value together with the problems
  it appends to \<open>loader.problems\<close>; \<open>Load\<close> concatenates them in the order in
  which Go evaluates the composite literal.  A problem is its key and its fault, one
  constructor per message of the code.
\<close>

subsection \<open>Keys, defaults and bounds\<close>

definition envStateDir :: string where "envStateDir = ''DEVMON_STATE_DIR''"
definition envListenAddr :: string where "envListenAddr = ''DEVMON_LISTEN_ADDR''"
definition envPublicAddr :: string where "envPublicAddr = ''DEVMON_PUBLIC_ADDR''"
definition envPolicyMode :: string where "envPolicyMode = ''DEVMON_POLICY_MODE''"
definition envDockerHost :: string where "envDockerHost = ''DEVMON_DOCKER_HOST''"
definition envLogLevel :: string where "envLogLevel = ''DEVMON_LOG_LEVEL''"
definition envLogMaxAgeDays :: string where "envLogMaxAgeDays = ''DEVMON_LOG_MAX_AGE_DAYS''"
definition envLogMaxTotalMB :: string where "envLogMaxTotalMB = ''DEVMON_LOG_MAX_TOTAL_MB''"
definition envAuditMaxAgeDays :: string where
  "envAuditMaxAgeDays = ''DEVMON_AUDIT_MAX_AGE_DAYS''"
definition envAuditMaxRows :: string where "envAuditMaxRows = ''DEVMON_AUDIT_MAX_ROWS''"
definition envSelfContainer :: string where "envSelfContainer = ''DEVMON_SELF_CONTAINER''"
definition envProtectedContainers :: string where
  "envProtectedContainers = ''DEVMON_PROTECTED_CONTAINERS''"
definition envRateStatusPerMin :: string where
  "envRateStatusPerMin = ''DEVMON_RATE_STATUS_PER_MIN''"
definition envRatePairPerMin :: string where "envRatePairPerMin = ''DEVMON_RATE_PAIR_PER_MIN''"
definition envRateGuardedPerSec :: string where
  "envRateGuardedPerSec = ''DEVMON_RATE_GUARDED_PER_SEC''"
definition envPairTTLMax :: string where "envPairTTLMax = ''DEVMON_PAIR_TTL_MAX_MIN''"

lemmas env_key_defs =
  envStateDir_def envListenAddr_def envPublicAddr_def envPolicyMode_def envDockerHost_def
  envLogLevel_def envLogMaxAgeDays_def envLogMaxTotalMB_def envAuditMaxAgeDays_def
  envAuditMaxRows_def envSelfContainer_def envProtectedContainers_def envRateStatusPerMin_def
  envRatePairPerMin_def envRateGuardedPerSec_def envPairTTLMax_def

definition defaultStateDir :: string where "defaultStateDir = ''/var/lib/devmon''"
definition defaultListenAddr :: string where "defaultListenAddr = '':8443''"
definition defaultDockerHost :: string where "defaultDockerHost = ''unix:///var/run/docker.sock''"
definition defaultLogLevel :: string where "defaultLogLevel = ''info''"
definition defaultLogMaxAgeDays :: int where "defaultLogMaxAgeDays = 1"
definition defaultLogMaxTotalMB :: int where "defaultLogMaxTotalMB = 64"
definition defaultAuditMaxAgeDays :: int where "defaultAuditMaxAgeDays = 365"
definition defaultAuditMaxRows :: int where "defaultAuditMaxRows = 100000"
definition defaultRateStatusPerMin :: int where "defaultRateStatusPerMin = 30"
definition defaultRatePairPerMin :: int where "defaultRatePairPerMin = 5"
definition defaultRateGuardedPerSec :: int where "defaultRateGuardedPerSec = 20"
definition defaultPairTTLMaxMin :: int where "defaultPairTTLMaxMin = 10"

definition minPort :: int where "minPort = 1"
definition maxPort :: int where "maxPort = 65535"
definition minLogMaxTotalMB :: int where "minLogMaxTotalMB = 8"
definition minDays :: int where "minDays = 1"
definition minAuditMaxRows :: int where "minAuditMaxRows = 1000"
definition minRatePerX :: int where "minRatePerX = 1"
definition maxDNSLabelLen :: nat where "maxDNSLabelLen = 63"
definition maxDNSNameLen :: nat where "maxDNSNameLen = 253"
definition minPairTTLMaxMin :: int where "minPairTTLMaxMin = 5"
definition maxPairTTLMaxMin :: int where "maxPairTTLMaxMin = 60"
definition hoursPerDay :: int where "hoursPerDay = 24"

text \<open>A time.Duration counts nanoseconds.\<close>

definition time_Hour :: int where "time_Hour = 3600000000000"
definition time_Minute :: int where "time_Minute = 60000000000"

lemmas config_bounds =
  defaultLogMaxAgeDays_def defaultLogMaxTotalMB_def defaultAuditMaxAgeDays_def
  defaultAuditMaxRows_def defaultRateStatusPerMin_def defaultRatePairPerMin_def
  defaultRateGuardedPerSec_def defaultPairTTLMaxMin_def minPort_def maxPort_def
  minLogMaxTotalMB_def minDays_def minAuditMaxRows_def minRatePerX_def minPairTTLMaxMin_def
  maxPairTTLMaxMin_def hoursPerDay_def time_Hour_def time_Minute_def

datatype addr_error =
  MissingPort | TooManyColons | MissingBracket | UnexpectedOpen | UnexpectedClose

datatype log_level = LevelDebug | LevelInfo | LevelWarn | LevelError

datatype fault =
    NotAbsolute string
  | BadHostPort string addr_error
  | PortOutOfRange string
  | AddrRequired
  | BadSAN string
  | NoAddress
  | BadMode string
  | BadURL string
  | BadScheme string
  | BadContainerRef string
  | BadLevel string
  | NotAnInteger string
  | BelowMinimum int int
  | NotInRange int int int
  | AuditShorterThanLogs int int

type_synonym problem = "string \<times> fault"
type_synonym 'a parsed = "'a \<times> problem list"
type_synonym getenv = "string \<Rightarrow> string"

record config =
  StateDir :: string
  ListenAddr :: string
  PublicAddrs :: "string list"
  PolicyMode :: mode
  DockerHost :: string
  LogLevel :: log_level
  LogMaxAge :: int
  LogMaxTotalMB :: int
  AuditMaxAge :: int
  AuditMaxRows :: int
  RateStatusPerMin :: int
  RatePairPerMin :: int
  RateGuardedPerSec :: int
  PairTTLMax :: int
  SelfContainer :: string
  ProtectedContainers :: "string list"

subsection \<open>The grammars\<close>

text \<open>net.SplitHostPort, from the Go standard library.\<close>

fun last_index :: "'a \<Rightarrow> 'a list \<Rightarrow> nat option" where
  "last_index c [] = None"
| "last_index c (x # xs) =
     (case last_index c xs of Some i \<Rightarrow> Some (Suc i) | None \<Rightarrow> if x = c then Some 0 else None)"

fun first_index :: "'a \<Rightarrow> 'a list \<Rightarrow> nat option" where
  "first_index c [] = None"
| "first_index c (x # xs) = (if x = c then Some 0 else map_option Suc (first_index c xs))"

definition bracketed :: "string \<Rightarrow> bool" where
  "bracketed s \<longleftrightarrow> (case s of c # _ \<Rightarrow> c = CHR ''['' | [] \<Rightarrow> False)"

definition SplitHostPort :: "string \<Rightarrow> addr_error + (string \<times> string)" where
  "SplitHostPort s =
     (case last_index (CHR '':'') s of
        None \<Rightarrow> Inl MissingPort
      | Some i \<Rightarrow>
          let finish = (\<lambda>host j k.
            if CHR ''['' \<in> set (drop j s) then Inl UnexpectedOpen
            else if CHR '']'' \<in> set (drop k s) then Inl UnexpectedClose
            else Inr (host, drop (Suc i) s))
          in if bracketed s then
               (case first_index (CHR '']'') s of
                  None \<Rightarrow> Inl MissingBracket
                | Some e \<Rightarrow>
                    if Suc e = length s then Inl MissingPort
                    else if Suc e = i then finish (drop 1 (take e s)) 1 (Suc e)
                    else if s ! Suc e = CHR '':'' then Inl TooManyColons
                    else Inl MissingPort)
             else if CHR '':'' \<in> set (take i s) then Inl TooManyColons
             else finish (take i s) 0 0)"

text \<open>
  net.ParseIP on a string without a colon accepts exactly the dotted quads: four decimal
  fields up to 255 without leading zeros.
\<close>

definition is_ipv4_field :: "string \<Rightarrow> bool" where
  "is_ipv4_field f \<longleftrightarrow> f \<noteq> [] \<and> list_all is_digit f \<and> (hd f = CHR ''0'' \<longrightarrow> length f = 1) \<and>
     digits_value 0 f \<le> 255"

definition is_ipv4 :: "string \<Rightarrow> bool" where
  "is_ipv4 s \<longleftrightarrow> (let fs = split_on (CHR ''.'') s in length fs = 4 \<and> list_all is_ipv4_field fs)"

definition label_char :: "char \<Rightarrow> bool" where
  "label_char c \<longleftrightarrow> is_alnum c \<or> c = CHR ''-''"

definition isValidDNSLabel :: "string \<Rightarrow> bool" where
  "isValidDNSLabel l \<longleftrightarrow>
     \<not> (l = [] \<or> maxDNSLabelLen < length l) \<and>
     \<not> (hd l = CHR ''-'' \<or> last l = CHR ''-'') \<and>
     list_all label_char l"

definition isValidDNSName :: "string \<Rightarrow> bool" where
  "isValidDNSName s \<longleftrightarrow>
     \<not> (s = [] \<or> maxDNSNameLen < length s) \<and>
     list_all isValidDNSLabel (split_on (CHR ''.'') (trim_suffix ''.'' s))"

definition isValidSAN :: "string \<Rightarrow> bool" where
  "isValidSAN e \<longleftrightarrow>
     (if CHR '':'' \<in> set e \<or> CHR ''/'' \<in> set e then False
      else if is_ipv4 e then True
      else isValidDNSName e)"

text \<open>The pattern \<open>^[a-zA-Z0-9][a-zA-Z0-9_.-]+$\<close>, of two characters at least.\<close>

definition containerRefPattern :: "string \<Rightarrow> bool" where
  "containerRefPattern s \<longleftrightarrow>
     (case s of [] \<Rightarrow> False | c # cs \<Rightarrow> is_alnum c \<and> cs \<noteq> [] \<and> list_all is_ref_char cs)"

definition isAbsPath :: "string \<Rightarrow> bool" where
  "isAbsPath p \<longleftrightarrow> prefix ''/'' p"

subsection \<open>The field parsers\<close>

definition fail :: "string \<Rightarrow> fault \<Rightarrow> problem list" where
  "fail key f = [(key, f)]"

definition raw :: "getenv \<Rightarrow> string \<Rightarrow> string \<Rightarrow> string" where
  "raw env key def = (let v = trim_space (env key) in if v \<noteq> [] then v else def)"

definition stateDir :: "getenv \<Rightarrow> string parsed" where
  "stateDir env =
     (let dir = raw env envStateDir defaultStateDir
      in (dir, if \<not> isAbsPath dir then fail envStateDir (NotAbsolute dir) else []))"

definition listenAddr :: "getenv \<Rightarrow> string parsed" where
  "listenAddr env =
     (let addr = raw env envListenAddr defaultListenAddr
      in case SplitHostPort addr of
           Inl e \<Rightarrow> (addr, fail envListenAddr (BadHostPort addr e))
         | Inr (_, port) \<Rightarrow>
             (addr, case atoi port of
                 None \<Rightarrow> fail envListenAddr (PortOutOfRange port)
               | Some n \<Rightarrow> if n < minPort \<or> maxPort < n
                   then fail envListenAddr (PortOutOfRange port) else []))"

text \<open>One iteration of the loop of \<open>publicAddrs\<close>: addresses, problems, hadInvalidEntry.\<close>

definition publicAddrs_step ::
  "string list \<times> problem list \<times> bool \<Rightarrow> string \<Rightarrow> string list \<times> problem list \<times> bool" where
  "publicAddrs_step st part = (case st of (addrs, ps, bad) \<Rightarrow>
     (let e = trim_space part
      in if e = [] then st
         else if \<not> isValidSAN e then (addrs, ps @ fail envPublicAddr (BadSAN e), True)
         else (addrs @ [e], ps, bad)))"

definition publicAddrs :: "getenv \<Rightarrow> string list parsed" where
  "publicAddrs env =
     (let rw = raw env envPublicAddr []
      in if rw = [] then ([], fail envPublicAddr AddrRequired)
         else (case foldl publicAddrs_step ([], [], False) (split_on (CHR '','') rw) of
                 (addrs, ps, bad) \<Rightarrow>
                   (addrs, if addrs = [] \<and> \<not> bad then ps @ fail envPublicAddr NoAddress else ps)))"

definition policyMode :: "getenv \<Rightarrow> mode parsed" where
  "policyMode env =
     (case ParseMode (raw env envPolicyMode []) of
        Inl e \<Rightarrow> (ModeDefault, fail envPolicyMode (BadMode (raw env envPolicyMode [])))
      | Inr m \<Rightarrow> (m, []))"

text \<open>
  net/url's parser is a parameter: the scheme of a URL, or nothing where url.Parse fails.
\<close>

definition dockerHost :: "(string \<Rightarrow> string option) \<Rightarrow> getenv \<Rightarrow> string parsed" where
  "dockerHost urlScheme env =
     (let host = raw env envDockerHost defaultDockerHost
      in case urlScheme host of
           None \<Rightarrow> (host, fail envDockerHost (BadURL host))
         | Some s \<Rightarrow> (host, if s \<noteq> ''unix'' \<and> s \<noteq> ''tcp'' then fail envDockerHost (BadScheme s) else []))"

definition selfContainer :: "getenv \<Rightarrow> string parsed" where
  "selfContainer env =
     (let ref = raw env envSelfContainer []
      in if ref = [] then ([], [])
         else (ref, if \<not> containerRefPattern ref
                    then fail envSelfContainer (BadContainerRef ref) else []))"

definition protectedContainers_step ::
  "string list \<times> problem list \<Rightarrow> string \<Rightarrow> string list \<times> problem list" where
  "protectedContainers_step st part = (case st of (entries, ps) \<Rightarrow>
     (let e = trim_space part
      in if e = [] then st
         else if \<not> containerRefPattern e
              then (entries, ps @ fail envProtectedContainers (BadContainerRef e))
         else if e \<in> set entries then st
         else (entries @ [e], ps)))"

definition protectedContainers :: "getenv \<Rightarrow> string list parsed" where
  "protectedContainers env =
     (let rw = raw env envProtectedContainers []
      in if rw = [] then ([], [])
         else foldl protectedContainers_step ([], []) (split_on (CHR '','') rw))"

definition logLevel :: "getenv \<Rightarrow> log_level parsed" where
  "logLevel env =
     (let name = raw env envLogLevel defaultLogLevel
      in if name = ''debug'' then (LevelDebug, [])
         else if name = ''info'' then (LevelInfo, [])
         else if name = ''warn'' then (LevelWarn, [])
         else if name = ''error'' then (LevelError, [])
         else (LevelInfo, fail envLogLevel (BadLevel name)))"

definition boundedInt :: "getenv \<Rightarrow> string \<Rightarrow> int \<Rightarrow> int \<Rightarrow> int parsed" where
  "boundedInt env key def mn =
     (let rw = raw env key []
      in if rw = [] then (def, [])
         else case atoi rw of
             None \<Rightarrow> (def, fail key (NotAnInteger rw))
           | Some n \<Rightarrow> if n < mn then (def, fail key (BelowMinimum n mn)) else (n, []))"

definition rangedInt :: "getenv \<Rightarrow> string \<Rightarrow> int \<Rightarrow> int \<Rightarrow> int \<Rightarrow> int parsed" where
  "rangedInt env key def mn mx =
     (let rw = raw env key []
      in if rw = [] then (def, [])
         else case atoi rw of
             None \<Rightarrow> (def, fail key (NotAnInteger rw))
           | Some n \<Rightarrow> if n < mn \<or> mx < n then (def, fail key (NotInRange n mn mx)) else (n, []))"

definition days :: "getenv \<Rightarrow> string \<Rightarrow> int \<Rightarrow> int parsed" where
  "days env key def =
     map_prod (\<lambda>n. wrap64 (wrap64 (n * hoursPerDay) * time_Hour)) id (boundedInt env key def minDays)"

definition minutes :: "getenv \<Rightarrow> string \<Rightarrow> int \<Rightarrow> int \<Rightarrow> int \<Rightarrow> int parsed" where
  "minutes env key def mn mx =
     map_prod (\<lambda>n. wrap64 (n * time_Minute)) id (rangedInt env key def mn mx)"

definition checkRetentionOrder :: "config \<Rightarrow> problem list" where
  "checkRetentionOrder cfg =
     (if AuditMaxAge cfg < LogMaxAge cfg
      then fail envAuditMaxAgeDays (AuditShorterThanLogs (AuditMaxAge cfg) (LogMaxAge cfg))
      else [])"

subsection \<open>Load\<close>

text \<open>The composite literal: the value of every field and the problems in evaluation order.\<close>

definition load_fields :: "(string \<Rightarrow> string option) \<Rightarrow> getenv \<Rightarrow> config parsed" where
  "load_fields urlScheme env =
     (let (sd, p1) = stateDir env;
          (la, p2) = listenAddr env;
          (pa, p3) = publicAddrs env;
          (pm, p4) = policyMode env;
          (dh, p5) = dockerHost urlScheme env;
          (ll, p6) = logLevel env;
          (lage, p7) = days env envLogMaxAgeDays defaultLogMaxAgeDays;
          (lmb, p8) = boundedInt env envLogMaxTotalMB defaultLogMaxTotalMB minLogMaxTotalMB;
          (aage, p9) = days env envAuditMaxAgeDays defaultAuditMaxAgeDays;
          (arows, p10) = boundedInt env envAuditMaxRows defaultAuditMaxRows minAuditMaxRows;
          (rs, p11) = boundedInt env envRateStatusPerMin defaultRateStatusPerMin minRatePerX;
          (rp, p12) = boundedInt env envRatePairPerMin defaultRatePairPerMin minRatePerX;
          (rg, p13) = boundedInt env envRateGuardedPerSec defaultRateGuardedPerSec minRatePerX;
          (ttl, p14) = minutes env envPairTTLMax defaultPairTTLMaxMin minPairTTLMaxMin maxPairTTLMaxMin;
          (sc, p15) = selfContainer env;
          (pc, p16) = protectedContainers env
      in (\<lparr>StateDir = sd, ListenAddr = la, PublicAddrs = pa, PolicyMode = pm, DockerHost = dh,
           LogLevel = ll, LogMaxAge = lage, LogMaxTotalMB = lmb, AuditMaxAge = aage,
           AuditMaxRows = arows, RateStatusPerMin = rs, RatePairPerMin = rp,
           RateGuardedPerSec = rg, PairTTLMax = ttl, SelfContainer = sc,
           ProtectedContainers = pc\<rparr>,
          p1 @ p2 @ p3 @ p4 @ p5 @ p6 @ p7 @ p8 @ p9 @ p10 @ p11 @ p12 @ p13 @ p14 @ p15 @ p16))"

definition Load :: "(string \<Rightarrow> string option) \<Rightarrow> getenv \<Rightarrow> problem list + config" where
  "Load urlScheme env =
     (let (cfg, ps) = load_fields urlScheme env;
          problems = ps @ checkRetentionOrder cfg
      in if 0 < length problems then Inl problems else Inr cfg)"

subsection \<open>Derived paths\<close>

text \<open>filepath.Clean on slash-separated paths; the accumulator holds the output in reverse.\<close>

fun clean_parts :: "bool \<Rightarrow> string list \<Rightarrow> string list \<Rightarrow> string list" where
  "clean_parts rooted acc [] = rev acc"
| "clean_parts rooted acc (p # ps) =
     (if p = [] \<or> p = ''.'' then clean_parts rooted acc ps
      else if p = ''..'' then
        (if acc \<noteq> [] \<and> hd acc \<noteq> ''..'' then clean_parts rooted (tl acc) ps
         else if rooted then clean_parts rooted acc ps
         else clean_parts rooted (''..'' # acc) ps)
      else clean_parts rooted (p # acc) ps)"

fun join_with :: "string \<Rightarrow> string list \<Rightarrow> string" where
  "join_with sep [] = []"
| "join_with sep [p] = p"
| "join_with sep (p # q # ps) = p @ sep @ join_with sep (q # ps)"

definition path_Clean :: "string \<Rightarrow> string" where
  "path_Clean p =
     (let rooted = prefix ''/'' p;
          body = join_with ''/'' (clean_parts rooted [] (split_on (CHR ''/'') p))
      in if rooted then ''/'' @ body else if body = [] then ''.'' else body)"

definition path_Join :: "string \<Rightarrow> string \<Rightarrow> string" where
  "path_Join a b = (if a = [] \<and> b = [] then [] else if a = [] then path_Clean b
     else if b = [] then path_Clean a else path_Clean (a @ ''/'' @ b))"

definition DBPath :: "config \<Rightarrow> string" where
  "DBPath c = path_Join (StateDir c) ''devmon.db''"

definition CertsDir :: "config \<Rightarrow> string" where
  "CertsDir c = path_Join (StateDir c) ''certs''"

definition LogsDir :: "config \<Rightarrow> string" where
  "LogsDir c = path_Join (StateDir c) ''logs''"

definition AgentLogPath :: "config \<Rightarrow> string" where
  "AgentLogPath c = path_Join (LogsDir c) ''agent.log''"

subsection \<open>What each parser delivers\<close>

lemma raw_nonempty: "def \<noteq> [] \<Longrightarrow> raw env key def \<noteq> []"
  by (simp add: raw_def Let_def)

lemma stateDir_ok: "snd (stateDir env) = [] \<Longrightarrow> isAbsPath (fst (stateDir env))"
  by (simp add: stateDir_def fail_def Let_def split: if_splits)

definition listenPort :: "string \<Rightarrow> int option" where
  "listenPort addr = (case SplitHostPort addr of Inl e \<Rightarrow> None | Inr (host, port) \<Rightarrow> atoi port)"

lemma listenAddr_ok:
  "snd (listenAddr env) = [] \<Longrightarrow>
   \<exists>n. listenPort (fst (listenAddr env)) = Some n \<and> 1 \<le> n \<and> n \<le> 65535"
  by (auto simp: listenAddr_def listenPort_def fail_def Let_def minPort_def maxPort_def
      split: sum.splits prod.splits option.splits if_splits)

lemma publicAddrs_loop:
  assumes "foldl publicAddrs_step (addrs, ps, bad) parts = (addrs', ps', bad')"
    and "list_all isValidSAN addrs" and "bad \<longrightarrow> ps \<noteq> []"
  shows "list_all isValidSAN addrs' \<and> (bad' \<longrightarrow> ps' \<noteq> [])"
  using assms
proof (induction parts arbitrary: addrs ps bad)
  case (Cons p parts)
  obtain a q b where st: "publicAddrs_step (addrs, ps, bad) p = (a, q, b)"
    by (metis surj_pair)
  then have "list_all isValidSAN a \<and> (b \<longrightarrow> q \<noteq> [])"
    using Cons.prems(2,3) by (auto simp: publicAddrs_step_def fail_def Let_def split: if_splits)
  with Cons.IH [of a q b] Cons.prems(1) st show ?case by simp
qed simp

lemma publicAddrs_ok:
  assumes "snd (publicAddrs env) = []"
  shows "fst (publicAddrs env) \<noteq> [] \<and> list_all isValidSAN (fst (publicAddrs env))"
proof -
  obtain a q b where st: "foldl publicAddrs_step ([], [], False)
      (split_on (CHR '','') (raw env envPublicAddr [])) = (a, q, b)"
    by (metis surj_pair)
  with publicAddrs_loop [OF st] assms show ?thesis
    by (auto simp: publicAddrs_def fail_def Let_def split: if_splits)
qed

lemma boundedInt_ge: "mn \<le> def \<Longrightarrow> mn \<le> fst (boundedInt env key def mn)"
  by (auto simp: boundedInt_def Let_def split: option.splits)

lemma rangedInt_range:
  "mn \<le> def \<Longrightarrow> def \<le> mx \<Longrightarrow>
   mn \<le> fst (rangedInt env key def mn mx) \<and> fst (rangedInt env key def mn mx) \<le> mx"
  by (auto simp: rangedInt_def Let_def split: option.splits)

lemma dockerHost_ok:
  "snd (dockerHost u env) = [] \<Longrightarrow>
   u (fst (dockerHost u env)) \<in> {Some ''unix'', Some ''tcp''}"
  by (auto simp: dockerHost_def fail_def Let_def split: option.splits if_splits)

lemma selfContainer_ok:
  "snd (selfContainer env) = [] \<Longrightarrow>
   fst (selfContainer env) = [] \<or> containerRefPattern (fst (selfContainer env))"
  by (auto simp: selfContainer_def fail_def Let_def split: if_splits)

lemma protectedContainers_loop:
  "list_all containerRefPattern (fst st) \<Longrightarrow> distinct (fst st) \<Longrightarrow>
   list_all containerRefPattern (fst (foldl protectedContainers_step st parts)) \<and>
   distinct (fst (foldl protectedContainers_step st parts))"
proof (induction parts arbitrary: st)
  case (Cons p parts)
  have "list_all containerRefPattern (fst (protectedContainers_step st p)) \<and>
        distinct (fst (protectedContainers_step st p))"
    using Cons.prems by (cases st) (auto simp: protectedContainers_step_def Let_def)
  with Cons.IH show ?case by simp
qed simp

lemma protectedContainers_ok:
  "list_all containerRefPattern (fst (protectedContainers env)) \<and>
   distinct (fst (protectedContainers env))"
  using protectedContainers_loop [of "([], [])"]
  by (simp add: protectedContainers_def Let_def)

lemma minutes_range:
  assumes "0 \<le> mn" and "mn \<le> def" and "def \<le> mx" and "mx \<le> 1000000"
  shows "mn * time_Minute \<le> fst (minutes env key def mn mx) \<and>
         fst (minutes env key def mn mx) \<le> mx * time_Minute"
proof -
  obtain n ps where n: "rangedInt env key def mn mx = (n, ps)" by fastforce
  then have "mn \<le> n" and "n \<le> mx"
    using rangedInt_range [OF assms(2,3), of env key] by simp_all
  with assms(1,4) have "wrap64 (n * time_Minute) = n * time_Minute"
    by (intro wrap64_id) (simp_all add: time_Minute_def)
  with \<open>mn \<le> n\<close> \<open>n \<le> mx\<close> show ?thesis
    by (simp add: minutes_def n time_Minute_def)
qed

text \<open>106751 days are the longest duration of whole days that an int64 of nanoseconds holds.\<close>

lemma days_exact:
  assumes "1 \<le> def" and "fst (boundedInt env key def minDays) \<le> 106751"
  shows "fst (days env key def) = fst (boundedInt env key def minDays) * 86400000000000"
proof -
  obtain n ps where n: "boundedInt env key def minDays = (n, ps)" by fastforce
  then have "1 \<le> n"
    using boundedInt_ge [of minDays def env key] assms(1) by (simp add: minDays_def)
  with assms(2) n have "wrap64 (wrap64 (n * 24) * 3600000000000) = n * 86400000000000"
    by (simp add: wrap64_id)
  then show ?thesis by (simp add: days_def n hoursPerDay_def time_Hour_def)
qed

lemma load_fields_eq:
  "load_fields u env =
     (\<lparr>StateDir = fst (stateDir env), ListenAddr = fst (listenAddr env),
       PublicAddrs = fst (publicAddrs env), PolicyMode = fst (policyMode env),
       DockerHost = fst (dockerHost u env), LogLevel = fst (logLevel env),
       LogMaxAge = fst (days env envLogMaxAgeDays defaultLogMaxAgeDays),
       LogMaxTotalMB = fst (boundedInt env envLogMaxTotalMB defaultLogMaxTotalMB minLogMaxTotalMB),
       AuditMaxAge = fst (days env envAuditMaxAgeDays defaultAuditMaxAgeDays),
       AuditMaxRows = fst (boundedInt env envAuditMaxRows defaultAuditMaxRows minAuditMaxRows),
       RateStatusPerMin = fst (boundedInt env envRateStatusPerMin defaultRateStatusPerMin minRatePerX),
       RatePairPerMin = fst (boundedInt env envRatePairPerMin defaultRatePairPerMin minRatePerX),
       RateGuardedPerSec =
         fst (boundedInt env envRateGuardedPerSec defaultRateGuardedPerSec minRatePerX),
       PairTTLMax =
         fst (minutes env envPairTTLMax defaultPairTTLMaxMin minPairTTLMaxMin maxPairTTLMaxMin),
       SelfContainer = fst (selfContainer env),
       ProtectedContainers = fst (protectedContainers env)\<rparr>,
      snd (stateDir env) @ snd (listenAddr env) @ snd (publicAddrs env) @ snd (policyMode env) @
      snd (dockerHost u env) @ snd (logLevel env) @
      snd (days env envLogMaxAgeDays defaultLogMaxAgeDays) @
      snd (boundedInt env envLogMaxTotalMB defaultLogMaxTotalMB minLogMaxTotalMB) @
      snd (days env envAuditMaxAgeDays defaultAuditMaxAgeDays) @
      snd (boundedInt env envAuditMaxRows defaultAuditMaxRows minAuditMaxRows) @
      snd (boundedInt env envRateStatusPerMin defaultRateStatusPerMin minRatePerX) @
      snd (boundedInt env envRatePairPerMin defaultRatePairPerMin minRatePerX) @
      snd (boundedInt env envRateGuardedPerSec defaultRateGuardedPerSec minRatePerX) @
      snd (minutes env envPairTTLMax defaultPairTTLMaxMin minPairTTLMaxMin maxPairTTLMaxMin) @
      snd (selfContainer env) @ snd (protectedContainers env))"
  by (simp add: load_fields_def Let_def case_prod_beta)

text \<open>What a configuration accepted by \<open>Load\<close> satisfies.\<close>

definition config_ok :: "(string \<Rightarrow> string option) \<Rightarrow> config \<Rightarrow> bool" where
  "config_ok urlScheme c \<longleftrightarrow>
     isAbsPath (StateDir c) \<and>
     (case listenPort (ListenAddr c) of None \<Rightarrow> False | Some n \<Rightarrow> 1 \<le> n \<and> n \<le> 65535) \<and>
     PublicAddrs c \<noteq> [] \<and> list_all isValidSAN (PublicAddrs c) \<and>
     urlScheme (DockerHost c) \<in> {Some ''unix'', Some ''tcp''} \<and>
     LogMaxAge c \<le> AuditMaxAge c \<and>
     8 \<le> LogMaxTotalMB c \<and> 1000 \<le> AuditMaxRows c \<and>
     1 \<le> RateStatusPerMin c \<and> 1 \<le> RatePairPerMin c \<and> 1 \<le> RateGuardedPerSec c \<and>
     5 * time_Minute \<le> PairTTLMax c \<and> PairTTLMax c \<le> 60 * time_Minute \<and>
     (SelfContainer c = [] \<or> containerRefPattern (SelfContainer c)) \<and>
     list_all containerRefPattern (ProtectedContainers c) \<and> distinct (ProtectedContainers c)"

lemma Load_Inr_iff:
  "Load u env = Inr cfg \<longleftrightarrow>
     fst (load_fields u env) = cfg \<and> snd (load_fields u env) = [] \<and> checkRetentionOrder cfg = []"
  by (auto simp: Load_def Let_def case_prod_beta split: if_splits)


text \<open>An operator's environment: one public name, every other knob unset or as given.\<close>

definition demo_env :: "(string \<times> string) list \<Rightarrow> getenv" where
  "demo_env kvs key = gm_get_or (if key = envPublicAddr then ''agent.lan'' else []) kvs key"

definition demo_scheme :: "string \<Rightarrow> string option" where
  "demo_scheme s = (case cut (CHR '':'') s of None \<Rightarrow> Some [] | Some (sch, _) \<Rightarrow> Some sch)"


text \<open>
  The retention knobs have no upper bound and the day count is multiplied out in 64-bit
  nanoseconds, so a huge value wraps: an operator who asks for 213505 days of audit
  retention gets an accepted configuration that keeps little more than one day.
\<close>

theorem audit_days_wrap:
  "\<exists>cfg. Load demo_scheme (demo_env [(envAuditMaxAgeDays, ''213505'')]) = Inr cfg \<and>
     AuditMaxAge cfg < 2 * 24 * time_Hour"
proof -
  let ?l = "Load demo_scheme (demo_env [(envAuditMaxAgeDays, ''213505'')])"
  have "\<not> isl ?l \<and> AuditMaxAge (projr ?l) < 2 * 24 * time_Hour"
    by code_simp
  then show ?thesis by (cases ?l) auto
qed

subsection \<open>Problems are reported field by field\<close>

text \<open>
  The contract of a field parser: it looks at no variable but its own and reports only under
  its own key.
\<close>

locale field_parser =
  fixes key :: string and parse :: "getenv \<Rightarrow> 'a parsed"
  assumes parse_local: "env key = env' key \<Longrightarrow> parse env = parse env'"
    and parse_keyed: "list_all (\<lambda>p. fst p = key) (snd (parse env))"
begin

lemma reported_local:
  assumes "env k = env' k"
  shows "filter (\<lambda>p. fst p = k) (snd (parse env)) = filter (\<lambda>p. fst p = k) (snd (parse env'))"
proof (cases "k = key")
  case True
  with assms parse_local show ?thesis by metis
next
  case False
  then have "filter (\<lambda>p. fst p = k) (snd (parse e)) = []" for e
    using parse_keyed [of e] by (auto simp: filter_empty_conv list_all_iff)
  then show ?thesis by simp
qed

end

lemma raw_cong: "env key = env' key \<Longrightarrow> raw env key def = raw env' key def"
  by (simp add: raw_def)

lemma publicAddrs_loop_keyed:
  "list_all (\<lambda>p. fst p = envPublicAddr) ps \<Longrightarrow>
   list_all (\<lambda>p. fst p = envPublicAddr)
     (fst (snd (foldl publicAddrs_step (addrs, ps, bad) parts)))"
proof (induction parts arbitrary: addrs ps bad)
  case (Cons p parts)
  obtain a q b where st: "publicAddrs_step (addrs, ps, bad) p = (a, q, b)"
    by (metis surj_pair)
  then have "list_all (\<lambda>p. fst p = envPublicAddr) q"
    using Cons.prems by (auto simp: publicAddrs_step_def fail_def Let_def split: if_splits)
  with Cons.IH [of q a b] st show ?case by simp
qed simp

lemma protectedContainers_loop_keyed:
  "list_all (\<lambda>p. fst p = envProtectedContainers) (snd st) \<Longrightarrow>
   list_all (\<lambda>p. fst p = envProtectedContainers) (snd (foldl protectedContainers_step st parts))"
proof (induction parts arbitrary: st)
  case (Cons p parts)
  have "list_all (\<lambda>p. fst p = envProtectedContainers) (snd (protectedContainers_step st p))"
    using Cons.prems by (cases st) (auto simp: protectedContainers_step_def fail_def Let_def)
  with Cons.IH show ?case by simp
qed simp

lemma boundedInt_field: "field_parser key (\<lambda>env. boundedInt env key def mn)"
  by unfold_locales
    (auto simp: boundedInt_def fail_def Let_def split: option.splits cong: raw_cong)

lemma rangedInt_field: "field_parser key (\<lambda>env. rangedInt env key def mn mx)"
  by unfold_locales
    (auto simp: rangedInt_def fail_def Let_def split: option.splits cong: raw_cong)

interpretation sd: field_parser envStateDir stateDir
  by unfold_locales (auto simp: stateDir_def fail_def Let_def cong: raw_cong)

interpretation la: field_parser envListenAddr listenAddr
  by unfold_locales
    (auto simp: listenAddr_def fail_def Let_def split: sum.splits option.splits cong: raw_cong)

interpretation pa: field_parser envPublicAddr publicAddrs
proof
  show "publicAddrs env = publicAddrs env'" if "env envPublicAddr = env' envPublicAddr" for env env'
    using raw_cong [of env envPublicAddr env', OF that] by (simp add: publicAddrs_def)
  show "list_all (\<lambda>p. fst p = envPublicAddr) (snd (publicAddrs env))" for env
    using publicAddrs_loop_keyed [of "[]" "[]" False]
    by (auto simp: publicAddrs_def fail_def Let_def case_prod_beta)
qed

interpretation pm: field_parser envPolicyMode policyMode
  by unfold_locales (auto simp: policyMode_def fail_def split: sum.splits cong: raw_cong)

interpretation dh: field_parser envDockerHost "dockerHost u" for u
  by unfold_locales
    (auto simp: dockerHost_def fail_def Let_def split: option.splits cong: raw_cong)

interpretation ll: field_parser envLogLevel logLevel
  by unfold_locales (auto simp: logLevel_def fail_def Let_def cong: raw_cong)

interpretation sc: field_parser envSelfContainer selfContainer
  by unfold_locales (auto simp: selfContainer_def fail_def Let_def cong: raw_cong)

interpretation pc: field_parser envProtectedContainers protectedContainers
proof
  show "protectedContainers env = protectedContainers env'"
    if "env envProtectedContainers = env' envProtectedContainers" for env env'
    using raw_cong [of env envProtectedContainers env', OF that]
    by (simp add: protectedContainers_def)
  show "list_all (\<lambda>p. fst p = envProtectedContainers) (snd (protectedContainers env))" for env
    using protectedContainers_loop_keyed [of "([], [])"]
    by (auto simp: protectedContainers_def Let_def)
qed

interpretation bi: field_parser key "\<lambda>env. boundedInt env key def mn" for key def mn
  by (rule boundedInt_field)

interpretation dy: field_parser key "\<lambda>env. days env key def" for key def
proof
  show "days env key def = days env' key def" if "env key = env' key" for env env'
    unfolding days_def by (rule arg_cong [OF bi.parse_local [of env key env', OF that]])
qed (use bi.parse_keyed in \<open>simp add: days_def\<close>)

interpretation ri: field_parser key "\<lambda>env. rangedInt env key def mn mx" for key def mn mx
  by (rule rangedInt_field)

interpretation mi: field_parser key "\<lambda>env. minutes env key def mn mx" for key def mn mx
proof
  show "minutes env key def mn mx = minutes env' key def mn mx" if "env key = env' key" for env env'
    unfolding minutes_def by (rule arg_cong [OF ri.parse_local [of env key env', OF that]])
qed (use ri.parse_keyed in \<open>simp add: minutes_def\<close>)

lemmas reported_local_all =
  sd.reported_local la.reported_local pa.reported_local pm.reported_local dh.reported_local
  ll.reported_local sc.reported_local pc.reported_local bi.reported_local dy.reported_local
  mi.reported_local

definition reported :: "(string \<Rightarrow> string option) \<Rightarrow> getenv \<Rightarrow> string \<Rightarrow> problem list" where
  "reported urlScheme env key =
     filter (\<lambda>p. fst p = key) (case Load urlScheme env of Inl ps \<Rightarrow> ps | Inr cfg \<Rightarrow> [])"

lemma Load_problems:
  "(case Load u env of Inl ps \<Rightarrow> ps | Inr cfg \<Rightarrow> []) =
   snd (load_fields u env) @ checkRetentionOrder (fst (load_fields u env))"
  by (simp add: Load_def Let_def case_prod_beta)

text \<open>
  Load never hides a fault behind another: what it reports about a variable depends on
  that variable alone, so an operator who fixes the other variables sees the same problems
  again and no new ones.  The one problem that looks at two variables, the order of the
  retention periods, is reported under the audit variable, which the statement leaves out.
\<close>

theorem Load_reports_independently:
  assumes "env key = env' key" and "key \<noteq> envAuditMaxAgeDays"
  shows "reported urlScheme env key = reported urlScheme env' key"
proof -
  have "filter (\<lambda>p. fst p = key) (checkRetentionOrder c) = []" for c
    using assms(2) by (simp add: checkRetentionOrder_def fail_def)
  then show ?thesis
    unfolding reported_def Load_problems load_fields_eq filter_append snd_conv
    by (simp only: reported_local_all [of env key env', OF assms(1)])
qed

lemma Load_reports_independently_witness:
  "demo_env [(envLogLevel, ''loud''), (envStateDir, ''tmp'')] envLogLevel =
     demo_env [(envLogLevel, ''loud'')] envLogLevel \<and> envLogLevel \<noteq> envAuditMaxAgeDays \<and>
   reported demo_scheme (demo_env [(envLogLevel, ''loud''), (envStateDir, ''tmp'')]) envLogLevel =
   reported demo_scheme (demo_env [(envLogLevel, ''loud'')]) envLogLevel"
proof -
  have "demo_env [(envLogLevel, ''loud''), (envStateDir, ''tmp'')] envLogLevel =
     demo_env [(envLogLevel, ''loud'')] envLogLevel" and "envLogLevel \<noteq> envAuditMaxAgeDays"
    by code_simp+
  then show ?thesis using Load_reports_independently by blast
qed

lemma clean_parts_append:
  "\<exists>acc'. clean_parts True acc (ps @ qs) = clean_parts True acc' qs \<and>
          clean_parts True acc ps = rev acc'"
  by (induction ps arbitrary: acc) auto

lemma path_Join_leaf:
  assumes "prefix ''/'' dir" and "leaf \<noteq> []" and "CHR ''/'' \<notin> set leaf"
    and "leaf \<noteq> ''.''" and "leaf \<noteq> ''..''"
  shows "\<exists>parts. path_Clean dir = ''/'' @ join_with ''/'' parts \<and>
    path_Join dir leaf = ''/'' @ join_with ''/'' (parts @ [leaf])"
proof -
  have "split_on c (xs @ c # ys) = split_on c xs @ split_on c ys" for c :: char and xs ys
    by (induction xs) (auto split: list.splits)
  then have "split_on (CHR ''/'') (dir @ ''/'' @ leaf) = split_on (CHR ''/'') dir @ [leaf]"
    using assms(3) by (simp add: split_on_none)
  moreover obtain acc where
    "clean_parts True [] (split_on (CHR ''/'') dir @ [leaf]) = clean_parts True acc [leaf]"
    and "clean_parts True [] (split_on (CHR ''/'') dir) = rev acc"
    using clean_parts_append by blast
  moreover have "dir \<noteq> []" and "prefix ''/'' (dir @ ''/'' @ leaf)"
    using assms(1) by auto
  ultimately show ?thesis
    using assms by (intro exI [of _ "rev acc"]) (simp add: path_Join_def path_Clean_def Let_def)
qed

lemma state_paths:
  assumes "Load u env = Inr cfg"
  shows "\<exists>parts. path_Clean (StateDir cfg) = ''/'' @ join_with ''/'' parts \<and>
    DBPath cfg = ''/'' @ join_with ''/'' (parts @ [''devmon.db''])"
proof -
  have "prefix ''/'' (StateDir cfg)"
    using assms stateDir_ok [of env]
    by (auto simp: Load_Inr_iff load_fields_eq isAbsPath_def)
  from path_Join_leaf [OF this, of "''devmon.db''"] show ?thesis
    by (simp add: DBPath_def)
qed

end
