(* ===== verification/StreamBudget.thy ===== *)
theory StreamBudget
  imports Prelude
begin

section \<open>The budget of live log streams (internal/httpapi/streambudget.go)\<close>

text \<open>
  A budget holds a global ceiling and a cap per device under it.  Every granted slot comes
  with a release closure guarded by a \<open>sync.Once\<close>; the model keeps the closures
  handed out so far, each with its device and whether its \<open>Once\<close> has fired.  Both
  operations hold the mutex throughout, so a run is a sequence of them in any order, and a
  closure may be called any number of times.
\<close>

datatype streamOutcome = streamGranted | streamDeviceFull | streamHostFull

record streamBudget =
  byDevice :: "(string, int) gomap"
  total :: int
  maxTotal :: int
  maxPerDevice :: int

definition newStreamBudget :: "int \<Rightarrow> int \<Rightarrow> streamBudget" where
  "newStreamBudget mt mp = \<lparr>byDevice = [], total = 0, maxTotal = mt, maxPerDevice = mp\<rparr>"

definition stream_acquire :: "streamBudget \<Rightarrow> string \<Rightarrow> streamOutcome \<times> streamBudget" where
  "stream_acquire b d =
     (if maxPerDevice b \<le> gm_get_or 0 (byDevice b) d then (streamDeviceFull, b)
      else if maxTotal b \<le> total b then (streamHostFull, b)
      else (streamGranted,
            b\<lparr>byDevice := gm_put d (gm_get_or 0 (byDevice b) d + 1) (byDevice b),
              total := total b + 1\<rparr>))"

text \<open>The body of the release closure.\<close>

definition stream_release :: "streamBudget \<Rightarrow> string \<Rightarrow> streamBudget" where
  "stream_release b d =
     (let n = gm_get_or 0 (byDevice b) d - 1;
          m = gm_put d n (byDevice b)
      in b\<lparr>total := total b - 1, byDevice := (if n \<le> 0 then gm_del d m else m)\<rparr>)"

definition holders :: "streamBudget \<Rightarrow> (string, int) gomap" where
  "holders b = byDevice b"

subsection \<open>Runs\<close>

record budget_world =
  budget :: streamBudget
  handles :: "(string \<times> bool) list"

datatype budget_event = Acquire string | Release nat

definition budget_start :: "int \<Rightarrow> int \<Rightarrow> budget_world" where
  "budget_start mt mp = \<lparr>budget = newStreamBudget mt mp, handles = []\<rparr>"

fun budget_step :: "budget_world \<Rightarrow> budget_event \<Rightarrow> budget_world" where
  "budget_step w (Acquire d) =
     (case stream_acquire (budget w) d of
        (streamGranted, b) \<Rightarrow> w\<lparr>budget := b, handles := handles w @ [(d, False)]\<rparr>
      | (_, b) \<Rightarrow> w\<lparr>budget := b\<rparr>)"
| "budget_step w (Release i) =
     (if i < length (handles w) \<and> \<not> snd (handles w ! i)
      then w\<lparr>budget := stream_release (budget w) (fst (handles w ! i)),
             handles := (handles w)[i := (fst (handles w ! i), True)]\<rparr>
      else w)"

text \<open>The specification: the slots of a device are its closures that have not fired.\<close>

definition live :: "(string \<times> bool) list \<Rightarrow> string \<Rightarrow> int" where
  "live hs d = int (length (filter (\<lambda>h. fst h = d \<and> \<not> snd h) hs))"

definition live_total :: "(string \<times> bool) list \<Rightarrow> int" where
  "live_total hs = int (length (filter (\<lambda>h. \<not> snd h) hs))"

definition budget_inv :: "budget_world \<Rightarrow> bool" where
  "budget_inv w \<longleftrightarrow> gm_wf (byDevice (budget w)) \<and>
     (\<forall>d. gm_get (byDevice (budget w)) d =
            (if live (handles w) d = 0 then None else Some (live (handles w) d))) \<and>
     total (budget w) = live_total (handles w) \<and>
     (\<forall>d. live (handles w) d \<le> max 0 (maxPerDevice (budget w))) \<and>
     live_total (handles w) \<le> max 0 (maxTotal (budget w))"

lemma live_append [simp]: "live (hs @ [(d', False)]) d = live hs d + (if d' = d then 1 else 0)"
  by (simp add: live_def)

lemma live_total_append [simp]: "live_total (hs @ [(d, False)]) = live_total hs + 1"
  by (simp add: live_total_def)

lemma length_filter_fire:
  assumes "i < length hs" and "P (hs ! i)" and "\<not> P h"
  shows "length (filter P (hs[i := h])) + 1 = length (filter P hs)"
proof -
  have hs: "hs = take i hs @ hs ! i # drop (Suc i) hs"
    using assms(1) by (rule id_take_nth_drop)
  have "filter P hs = filter P (take i hs) @ hs ! i # filter P (drop (Suc i) hs)"
    using assms(2) by (subst hs) simp
  with assms show ?thesis by (simp add: upd_conv_take_nth_drop)
qed

lemma length_filter_same:
  assumes "i < length hs" and "P (hs ! i) = P h"
  shows "length (filter P (hs[i := h])) = length (filter P hs)"
proof -
  have hs: "hs = take i hs @ hs ! i # drop (Suc i) hs"
    using assms(1) by (rule id_take_nth_drop)
  have "length (filter P hs) =
      length (filter P (take i hs)) + (if P (hs ! i) then 1 else 0) + length (filter P (drop (Suc i) hs))"
    by (subst hs) simp
  with assms show ?thesis by (simp add: upd_conv_take_nth_drop)
qed

lemma live_fire:
  assumes "i < length hs" and "\<not> snd (hs ! i)"
  shows "live (hs[i := (fst (hs ! i), True)]) d = live hs d - (if fst (hs ! i) = d then 1 else 0)"
  using length_filter_fire [of i hs "\<lambda>h. fst h = d \<and> \<not> snd h" "(fst (hs ! i), True)"]
    length_filter_same [of i hs "\<lambda>h. fst h = d \<and> \<not> snd h" "(fst (hs ! i), True)"] assms
  by (auto simp: live_def)

lemma live_total_fire:
  assumes "i < length hs" and "\<not> snd (hs ! i)"
  shows "live_total (hs[i := (fst (hs ! i), True)]) = live_total hs - 1"
  using length_filter_fire [of i hs "\<lambda>h. \<not> snd h" "(fst (hs ! i), True)"] assms
  by (simp add: live_total_def)

lemma live_pos:
  assumes "i < length hs" and "\<not> snd (hs ! i)"
  shows "1 \<le> live hs (fst (hs ! i))"
proof -
  have "hs ! i \<in> set (filter (\<lambda>h. fst h = fst (hs ! i) \<and> \<not> snd h) hs)"
    using assms by simp
  then show ?thesis
    unfolding live_def by (cases "filter (\<lambda>h. fst h = fst (hs ! i) \<and> \<not> snd h) hs") auto
qed

lemma budget_inv_count:
  "budget_inv w \<Longrightarrow> gm_get_or 0 (byDevice (budget w)) d = live (handles w) d"
  by (simp add: budget_inv_def gm_get_or_def)

lemma live_nonneg [simp]: "0 \<le> live hs d"
  by (simp add: live_def)

lemma budget_start_inv: "budget_inv (budget_start mt mp)"
  by (simp add: budget_inv_def budget_start_def newStreamBudget_def live_def live_total_def)

lemma budget_acquire_inv [preserves]:
  assumes "budget_inv w"
  shows "budget_inv (budget_step w (Acquire d))"
proof -
  have "live (handles w) d + 1 \<noteq> 0" using live_nonneg [of "handles w" d] by linarith
  with assms budget_inv_count [OF assms, of d] show ?thesis
    by (simp add: stream_acquire_def)
      (auto simp: budget_inv_def gm_wf_put gomap_simps)
qed

lemma budget_release_inv [preserves]:
  assumes "budget_inv w"
  shows "budget_inv (budget_step w (Release i))"
proof (cases "i < length (handles w) \<and> \<not> snd (handles w ! i)")
  case True
  let ?d = "fst (handles w ! i)" and ?hs' = "(handles w)[i := (fst (handles w ! i), True)]"
  have live': "live ?hs' d = live (handles w) d - (if ?d = d then 1 else 0)" for d
    using live_fire True by simp
  have tot': "live_total ?hs' = live_total (handles w) - 1"
    using live_total_fire True by simp
  have pos: "1 \<le> live (handles w) ?d"
    using live_pos True by simp
  have "live ?hs' d \<le> max 0 (maxPerDevice (budget w))" for d
    using assms live' [of d] unfolding budget_inv_def by (smt (verit))
  moreover have "live_total ?hs' \<le> max 0 (maxTotal (budget w))"
    using assms tot' unfolding budget_inv_def by linarith
  ultimately show ?thesis
    using True assms pos budget_inv_count [OF assms, of ?d]
    by (simp add: stream_release_def Let_def budget_inv_def live' tot' gm_wf_put gm_wf_del gomap_simps)
next
  case False
  with assms show ?thesis by auto
qed

interpretation budget_sys: invariant_system
  budget_step "\<lambda>w. \<exists>mt mp. w = budget_start mt mp" budget_inv
proof
  show "budget_inv (budget_step w e)" if "budget_inv w" for w e
    using that by (cases e) (auto intro: preserves simp del: budget_step.simps)
qed (auto intro: budget_start_inv)

lemma budget_run_caps:
  "maxTotal (budget (foldl budget_step w es)) = maxTotal (budget w) \<and>
   maxPerDevice (budget (foldl budget_step w es)) = maxPerDevice (budget w)"
proof (induction es arbitrary: w)
  case (Cons e es)
  have "maxTotal (budget (budget_step w e)) = maxTotal (budget w) \<and>
        maxPerDevice (budget (budget_step w e)) = maxPerDevice (budget w)"
    by (cases e) (simp_all add: stream_acquire_def stream_release_def Let_def)
  with Cons.IH show ?case by simp
qed simp

text \<open>
  However acquires and releases interleave, and however often a release closure is
  called, a budget counts exactly the slots that are held: neither cap is ever exceeded, no
  count drifts and a device without a slot has no entry.
\<close>

theorem stream_budget_exact:
  assumes "w = foldl budget_step (budget_start mt mp) es" and "0 \<le> mt" and "0 \<le> mp"
  shows "(\<forall>d. gm_get (holders (budget w)) d =
            (if live (handles w) d = 0 then None else Some (live (handles w) d))) \<and>
         (\<forall>d. live (handles w) d \<le> mp) \<and>
         total (budget w) = live_total (handles w) \<and> live_total (handles w) \<le> mt"
proof -
  have "budget_inv w"
    unfolding assms(1) by (rule budget_sys.start_run_inv) blast
  moreover have "maxTotal (budget w) = mt" and "maxPerDevice (budget w) = mp"
    using budget_run_caps by (simp_all add: assms(1)) (simp_all add: budget_start_def newStreamBudget_def)
  ultimately show ?thesis
    using assms(2,3) by (simp add: budget_inv_def holders_def max_absorb2)
qed

lemma stream_budget_exact_witness:
  "live (handles (foldl budget_step (budget_start 8 3)
      [Acquire ''a'', Acquire ''a'', Release 0, Release 0, Acquire ''b''])) ''a'' = 1 \<and>
   (\<forall>d. live (handles (foldl budget_step (budget_start 8 3)
      [Acquire ''a'', Acquire ''a'', Release 0, Release 0, Acquire ''b''])) d \<le> 3)"
  using stream_budget_exact [OF refl, of 8 3 "[Acquire ''a'', Acquire ''a'', Release 0, Release 0, Acquire ''b'']"]
  by (simp add: live_def stream_acquire_def stream_release_def budget_start_def newStreamBudget_def
      gm_get_or_def Let_def)

subsection \<open>No starvation\<close>

lemma filter_total_by_device:
  assumes "finite D" and "fst ` set (filter (\<lambda>h. \<not> snd h) hs) \<subseteq> D"
  shows "live_total hs = (\<Sum>d\<in>D. live hs d)"
  using assms(2)
proof (induction hs)
  case (Cons h hs)
  have IH: "live_total hs = (\<Sum>d\<in>D. live hs d)" using Cons by (cases "snd h") auto
  have "(\<Sum>d\<in>D. live (h # hs) d) =
      (\<Sum>d\<in>D. live hs d + (if fst h = d \<and> \<not> snd h then 1 else 0))"
    by (rule sum.cong) (auto simp: live_def)
  also have "\<dots> = (\<Sum>d\<in>D. live hs d) + (if \<not> snd h then 1 else 0)"
    using Cons.prems assms(1) by (cases "snd h") (auto simp: sum.distrib)
  finally show ?case using IH by (simp add: live_total_def)
qed (simp add: live_total_def live_def)

text \<open>
  No group of devices can starve another one.  As long as the devices holding streams
  are so few that their caps together stay under the ceiling, every device under its own cap
  is granted a stream; with the agent's figures of 8 and 3, two devices never shut out a
  third.
\<close>

theorem stream_budget_no_starvation:
  assumes "w = foldl budget_step (budget_start mt mp) es" and "0 \<le> mp"
    and "int (length (holders (budget w))) * mp < mt"
    and "gm_get_or 0 (holders (budget w)) d < mp"
  shows "fst (stream_acquire (budget w) d) = streamGranted"
proof -
  let ?D = "fst ` set (byDevice (budget w))"
  have inv: "budget_inv w"
    unfolding assms(1) by (rule budget_sys.start_run_inv) blast
  have caps: "maxTotal (budget w) = mt" "maxPerDevice (budget w) = mp"
    using budget_run_caps by (simp_all add: assms(1)) (simp_all add: budget_start_def newStreamBudget_def)
  have "gm_get (byDevice (budget w)) e \<noteq> None"
    if "(e, False) \<in> set (handles w)" for e
  proof -
    from that obtain i where "i < length (handles w)" and "handles w ! i = (e, False)"
      by (auto simp: in_set_conv_nth)
    then have "1 \<le> live (handles w) e" using live_pos [of i "handles w"] by simp
    then show ?thesis using inv by (simp add: budget_inv_def)
  qed
  then have "fst ` set (filter (\<lambda>h. \<not> snd h) (handles w)) \<subseteq> ?D"
    by (auto simp: map_of_eq_None_iff)
  then have "live_total (handles w) = (\<Sum>e\<in>?D. live (handles w) e)"
    by (intro filter_total_by_device) auto
  also have "\<dots> \<le> (\<Sum>e\<in>?D. mp)"
    using inv assms(2) caps by (intro sum_mono) (auto simp: budget_inv_def max_absorb2)
  also have "\<dots> = int (card ?D) * mp" by simp
  also have "card ?D \<le> length (byDevice (budget w))"
    by (metis card_image_le card_length finite_set le_trans)
  then have "int (card ?D) * mp \<le> int (length (byDevice (budget w))) * mp"
    using assms(2) by (intro mult_right_mono) auto
  finally have "total (budget w) < mt"
    using assms(3) inv by (simp add: budget_inv_def holders_def)
  with assms(4) caps show ?thesis
    by (simp add: stream_acquire_def holders_def)
qed

lemma stream_budget_no_starvation_witness:
  "fst (stream_acquire (budget (foldl budget_step (budget_start 8 3)
     [Acquire ''a'', Acquire ''a'', Acquire ''a'', Acquire ''b'', Acquire ''a'', Acquire ''b''])) ''c'')
   = streamGranted"
  by (rule stream_budget_no_starvation [OF refl, of 3 8])
    (simp_all add: stream_acquire_def budget_start_def newStreamBudget_def gm_get_or_def holders_def)

end
