(* ===== verification/EventRegistry.thy ===== *)
theory EventRegistry
  imports Prelude
begin

section \<open>One event stream per device (internal/httpapi/eventregistry.go)\<close>

text \<open>
  A slot is identified by its position in the list of all slots ever made, which is the
  identity of the pointer.  \<open>register\<close> swaps the map entry under the mutex and closes
  and cancels the evicted slot after unlocking; the two halves are separate steps, so other
  calls may come between them.  Closing a closed channel panics in Go, and the model records
  it.
\<close>

record event_slot =
  slot_device :: string
  slot_superseded :: bool
  slot_cancelled :: bool
  slot_once :: bool

record event_registry =
  active :: "(string, nat) gomap"
  slots :: "event_slot list"
  evicting :: "nat list"
  panicked :: bool

definition newEventRegistry :: event_registry where
  "newEventRegistry = \<lparr>active = [], slots = [], evicting = [], panicked = False\<rparr>"

text \<open>The half of \<open>register\<close> that holds the mutex.\<close>

definition register :: "string \<Rightarrow> event_registry \<Rightarrow> event_registry" where
  "register d r =
     (let old = gm_get (active r) d
      in r\<lparr>active := gm_put d (length (slots r)) (active r),
           slots := slots r @ [\<lparr>slot_device = d, slot_superseded = False, slot_cancelled = False,
                               slot_once = False\<rparr>],
           evicting := (case old of None \<Rightarrow> evicting r | Some i \<Rightarrow> i # evicting r)\<rparr>)"

text \<open>The half after it: close superseded, then cancel.\<close>

definition evict :: "nat \<Rightarrow> event_registry \<Rightarrow> event_registry" where
  "evict i r =
     (if i \<in> set (evicting r) then
        (if slot_superseded (slots r ! i) then r\<lparr>panicked := True, evicting := remove1 i (evicting r)\<rparr>
         else r\<lparr>slots := (slots r)[i := (slots r ! i)\<lparr>slot_superseded := True, slot_cancelled := True\<rparr>],
                evicting := remove1 i (evicting r)\<rparr>)
      else r)"

definition slot_release :: "nat \<Rightarrow> event_registry \<Rightarrow> event_registry" where
  "slot_release i r =
     (if i < length (slots r) \<and> \<not> slot_once (slots r ! i) then
        r\<lparr>slots := (slots r)[i := (slots r ! i)\<lparr>slot_once := True\<rparr>],
          active := (if gm_get (active r) (slot_device (slots r ! i)) = Some i
                     then gm_del (slot_device (slots r ! i)) (active r) else active r)\<rparr>
      else r)"

definition count_streams :: "event_registry \<Rightarrow> nat" where
  "count_streams r = length (active r)"

datatype registry_event = Register string | Evict nat | ReleaseSlot nat

fun event_registry_step :: "event_registry \<Rightarrow> registry_event \<Rightarrow> event_registry" where
  "event_registry_step r (Register d) = register d r"
| "event_registry_step r (Evict i) = evict i r"
| "event_registry_step r (ReleaseSlot i) = slot_release i r"

subsection \<open>Newest wins\<close>

text \<open>A later registration for the same device.\<close>

definition newer :: "event_registry \<Rightarrow> nat \<Rightarrow> bool" where
  "newer r i \<longleftrightarrow> map slot_device (slots r) ! i \<in> set (drop (Suc i) (map slot_device (slots r)))"

definition is_active :: "event_registry \<Rightarrow> nat \<Rightarrow> bool" where
  "is_active r i \<longleftrightarrow> gm_get (active r) (slot_device (slots r ! i)) = Some i"

definition event_registry_inv :: "event_registry \<Rightarrow> bool" where
  "event_registry_inv r \<longleftrightarrow> gm_wf (active r) \<and> \<not> panicked r \<and> distinct (evicting r) \<and>
     (\<forall>d i. gm_get (active r) d = Some i \<longrightarrow>
        i < length (slots r) \<and> slot_device (slots r ! i) = d \<and> \<not> newer r i) \<and>
     (\<forall>i. i < length (slots r) \<longrightarrow>
        (is_active r i \<longleftrightarrow> \<not> newer r i \<and> \<not> slot_once (slots r ! i)) \<and>
        (i \<in> set (evicting r) \<longrightarrow> newer r i \<and> \<not> slot_superseded (slots r ! i)) \<and>
        (slot_superseded (slots r ! i) \<longrightarrow> newer r i) \<and>
        (slot_cancelled (slots r ! i) \<longleftrightarrow> slot_superseded (slots r ! i)) \<and>
        (newer r i \<longrightarrow> slot_once (slots r ! i) \<or> i \<in> set (evicting r) \<or> slot_superseded (slots r ! i))) \<and>
     (\<forall>i\<in>set (evicting r). i < length (slots r))"

lemma newEventRegistry_inv: "event_registry_inv newEventRegistry"
  by (simp add: event_registry_inv_def newEventRegistry_def)

lemma newer_register:
  "i < length (slots r) \<Longrightarrow>
   newer (register d r) i \<longleftrightarrow> newer r i \<or> slot_device (slots r ! i) = d"
  by (auto simp: newer_def register_def nth_append Let_def)

lemma newer_register_last: "\<not> newer (register d r) (length (slots r))"
  by (simp add: newer_def register_def Let_def)

lemma slots_register:
  "length (slots (register d r)) = Suc (length (slots r))"
  "i < length (slots r) \<Longrightarrow> slots (register d r) ! i = slots r ! i"
  "slots (register d r) ! length (slots r) =
     \<lparr>slot_device = d, slot_superseded = False, slot_cancelled = False, slot_once = False\<rparr>"
  by (simp_all add: register_def Let_def nth_append)

lemma active_register:
  "gm_get (active (register d r)) e = (if e = d then Some (length (slots r)) else gm_get (active r) e)"
  by (simp add: register_def Let_def gomap_simps)

lemma evicting_register:
  "evicting (register d r) = (case gm_get (active r) d of None \<Rightarrow> evicting r | Some i \<Rightarrow> i # evicting r)"
  by (simp add: register_def Let_def)

lemma register_inv [preserves]:
  assumes inv: "event_registry_inv r"
  shows "event_registry_inv (register d r)"
proof -
  let ?n = "length (slots r)"
  have old: "i < ?n" "slot_device (slots r ! i) = e" "\<not> newer r i" "i \<notin> set (evicting r)"
    "\<not> slot_superseded (slots r ! i)" if "gm_get (active r) e = Some i" for i e
    using inv that unfolding event_registry_inv_def by blast+
  have "gm_wf (active (register d r))" and "\<not> panicked (register d r)"
    using inv by (simp_all add: event_registry_inv_def register_def Let_def gm_wf_put)
  moreover have "distinct (evicting (register d r))"
    using inv old(4) by (auto simp: event_registry_inv_def evicting_register split: option.splits)
  moreover have "i < Suc ?n \<and> slot_device (slots (register d r) ! i) = e \<and> \<not> newer (register d r) i"
    if "gm_get (active (register d r)) e = Some i" for e i
  proof (cases "e = d")
    case True
    with that have i: "i = ?n" by (simp add: active_register)
    show ?thesis
      unfolding i True by (simp add: slots_register newer_register_last)
  next
    case False
    with that have i: "gm_get (active r) e = Some i" by (simp add: active_register)
    show ?thesis
      using old(1-3) [OF i] False by (simp add: slots_register newer_register)
  qed
  moreover have "(is_active (register d r) i \<longleftrightarrow>
        \<not> newer (register d r) i \<and> \<not> slot_once (slots (register d r) ! i)) \<and>
      (i \<in> set (evicting (register d r)) \<longrightarrow>
        newer (register d r) i \<and> \<not> slot_superseded (slots (register d r) ! i)) \<and>
      (slot_superseded (slots (register d r) ! i) \<longrightarrow> newer (register d r) i) \<and>
      (slot_cancelled (slots (register d r) ! i) \<longleftrightarrow> slot_superseded (slots (register d r) ! i)) \<and>
      (newer (register d r) i \<longrightarrow> slot_once (slots (register d r) ! i) \<or>
        i \<in> set (evicting (register d r)) \<or> slot_superseded (slots (register d r) ! i))"
    if "i < Suc ?n" for i
  proof (cases "i = ?n")
    case True
    have "?n \<notin> set (evicting (register d r))"
      using inv old(1) by (auto simp: event_registry_inv_def evicting_register split: option.splits)
    with True show ?thesis
      by (simp add: slots_register newer_register_last is_active_def active_register)
  next
    case False
    with that have i: "i < ?n" by simp
    have I: "(is_active r i \<longleftrightarrow> \<not> newer r i \<and> \<not> slot_once (slots r ! i)) \<and>
        (i \<in> set (evicting r) \<longrightarrow> newer r i \<and> \<not> slot_superseded (slots r ! i)) \<and>
        (slot_superseded (slots r ! i) \<longrightarrow> newer r i) \<and>
        (slot_cancelled (slots r ! i) \<longleftrightarrow> slot_superseded (slots r ! i)) \<and>
        (newer r i \<longrightarrow> slot_once (slots r ! i) \<or> i \<in> set (evicting r) \<or> slot_superseded (slots r ! i))"
      using inv i unfolding event_registry_inv_def by blast
    have ev: "i \<in> set (evicting (register d r)) \<longleftrightarrow> i \<in> set (evicting r) \<or> gm_get (active r) d = Some i"
      by (auto simp: evicting_register split: option.splits)
    show ?thesis
      using I old(2,5) [of d i] ev False
      by (auto simp: slots_register i newer_register is_active_def active_register)
  qed
  moreover have "\<forall>i\<in>set (evicting (register d r)). i < Suc ?n"
    using inv old(1) by (auto simp: event_registry_inv_def evicting_register less_Suc_eq split: option.splits)
  ultimately show ?thesis
    unfolding event_registry_inv_def slots_register(1) by blast
qed

lemma newer_update:
  assumes "slots r' = (slots r)[i := s]" and "slot_device s = slot_device (slots r ! i)"
  shows "newer r' = newer r"
proof -
  have "map slot_device (slots r') = map slot_device (slots r)"
    using assms by (metis list_update_id map_update)
  then show ?thesis by (simp add: newer_def fun_eq_iff)
qed

lemma evict_inv [preserves]:
  assumes inv: "event_registry_inv r"
  shows "event_registry_inv (evict k r)"
proof (cases "k \<in> set (evicting r)")
  case True
  with inv have k: "k < length (slots r)" "newer r k" "\<not> slot_superseded (slots r ! k)"
    "k \<notin> set (remove1 k (evicting r))"
    unfolding event_registry_inv_def by auto
  have n: "newer (evict k r) = newer r"
    using True k
    by (intro newer_update [of _ _ k "(slots r ! k)\<lparr>slot_superseded := True, slot_cancelled := True\<rparr>"])
      (simp_all add: evict_def)
  have e: "evict k r = r\<lparr>slots := (slots r)[k := (slots r ! k)\<lparr>slot_superseded := True, slot_cancelled := True\<rparr>],
      evicting := remove1 k (evicting r)\<rparr>"
    using True k by (simp add: evict_def)
  have "is_active (evict k r) = is_active r"
    using k(1) by (auto simp: e is_active_def fun_eq_iff nth_list_update)
  with inv k n show ?thesis
    unfolding event_registry_inv_def
    by (auto simp: e nth_list_update)
qed (use inv in \<open>simp add: evict_def\<close>)

lemma slot_release_inv [preserves]:
  assumes inv: "event_registry_inv r"
  shows "event_registry_inv (slot_release k r)"
proof (cases "k < length (slots r) \<and> \<not> slot_once (slots r ! k)")
  case True
  let ?s = "slots r ! k"
  have e: "slot_release k r = r\<lparr>slots := (slots r)[k := ?s\<lparr>slot_once := True\<rparr>],
      active := (if is_active r k then gm_del (slot_device ?s) (active r) else active r)\<rparr>"
    using True by (simp add: slot_release_def is_active_def)
  have n: "newer (slot_release k r) = newer r"
    using True by (intro newer_update [of _ _ k "?s\<lparr>slot_once := True\<rparr>"]) (simp_all add: e)
  have dev: "slot_device (slots r ! i) = d" if "gm_get (active r) d = Some i" for d i
    using inv that unfolding event_registry_inv_def by blast
  have act: "gm_get (active (slot_release k r)) d = Some i \<longleftrightarrow> gm_get (active r) d = Some i \<and> i \<noteq> k"
    for d i
  proof (cases "is_active r k")
    case True
    then have "active (slot_release k r) = gm_del (slot_device ?s) (active r)"
      and "gm_get (active r) (slot_device ?s) = Some k"
      by (simp_all add: e is_active_def)
    then show ?thesis using dev [of d i] by (cases "d = slot_device ?s") (auto simp: gomap_simps)
  next
    case False
    then have "active (slot_release k r) = active r" by (simp add: e)
    with False dev [of d k] show ?thesis by (auto simp: is_active_def)
  qed
  have ia: "is_active (slot_release k r) i \<longleftrightarrow> is_active r i \<and> i \<noteq> k" for i
    using True unfolding is_active_def act by (auto simp: e nth_list_update)
  have "gm_wf (active (slot_release k r))"
    using inv by (simp add: e event_registry_inv_def gm_wf_del)
  with inv True n act ia show ?thesis
    unfolding event_registry_inv_def
    by (auto simp: e nth_list_update)
qed (use inv in \<open>auto simp: slot_release_def\<close>)

interpretation event_registry_sys: invariant_system
  event_registry_step "\<lambda>r. r = newEventRegistry" event_registry_inv
proof
  show "event_registry_inv (event_registry_step r e)" if "event_registry_inv r" for r e
    using that by (cases e) (auto intro: preserves)
qed (auto intro: newEventRegistry_inv)

text \<open>
  C22: whatever the interleaving of registrations, evictions and releases, the stream of a
  device that may live is its newest one: the map holds exactly the newest unreleased slot of
  each device, a stream is told it was superseded (and cancelled) only when a newer one of
  the same device exists, every older stream that has not ended has been evicted or is about
  to be, and no channel is ever closed twice.
\<close>

theorem event_registry_newest_wins:
  assumes "r = foldl event_registry_step newEventRegistry es"
  shows "\<not> panicked r \<and>
    (\<forall>i<length (slots r).
       (gm_get (active r) (slot_device (slots r ! i)) = Some i \<longleftrightarrow>
          \<not> newer r i \<and> \<not> slot_once (slots r ! i)) \<and>
       (slot_superseded (slots r ! i) \<longrightarrow> newer r i \<and> slot_cancelled (slots r ! i)) \<and>
       (newer r i \<longrightarrow>
          slot_once (slots r ! i) \<or> slot_superseded (slots r ! i) \<or> i \<in> set (evicting r)))"
proof -
  have "event_registry_inv r"
    unfolding assms by (rule event_registry_sys.start_run_inv) (rule refl)
  then show ?thesis
    unfolding event_registry_inv_def is_active_def by blast
qed

lemma event_registry_newest_wins_witness:
  "gm_get (active (foldl event_registry_step newEventRegistry
      [Register ''a'', Register ''b'', Register ''a'', Evict 0, ReleaseSlot 0])) ''a'' = Some 2 \<and>
   \<not> panicked (foldl event_registry_step newEventRegistry
      [Register ''a'', Register ''b'', Register ''a'', Evict 0, ReleaseSlot 0])"
  using event_registry_newest_wins [OF refl, of "[Register ''a'', Register ''b'', Register ''a'', Evict 0, ReleaseSlot 0]"]
  by (simp add: register_def evict_def slot_release_def newEventRegistry_def Let_def)

end
