(* ===== verification/EventHub.thy ===== *)
theory EventHub
  imports Prelude
begin

section \<open>Fan-out of the Engine's event feed (internal/httpapi/eventhub.go)\<close>

text \<open>
  The hub owns one Engine subscription and feeds every attached client.  Each event of the
  model is one critical section of the code, or one action between two of them: the code
  unlocks the mutex before it cancels a run, before it feeds the subscribers of its snapshot
  one by one, and before it closes the subscribers of a run that has ended, so all of these
  interleave freely with other calls.  An event whose guard does not hold changes nothing.

  Runs and subscribers are numbered in the order of their creation.  Besides the code's own
  fields the model keeps what the invariants speak about: the events a run has fanned out,
  where in that log a subscriber joined, and the events its handler has taken from its
  buffer.
\<close>

datatype eventCloseReason = eventClosedEngine | eventClosedLagged

definition eventClientBuffer :: nat where "eventClientBuffer = 64"

text \<open>
  The phases of a run: the Engine subscription is being made; it is live (\<open>ready\<close> is
  closed); it has returned and \<open>failed\<close> is still to be closed; all done.
\<close>

datatype run_phase = Subscribing | Streaming | Ending | Over

record 'e hub_run =
  run_phase :: run_phase
  run_ready :: bool
  run_failed :: bool
  run_cancelled :: bool
  run_log :: "'e list"

text \<open>Where the handler of a subscriber is: in \<open>attach\<close>, past it, or detached.\<close>

datatype sub_phase = Waiting | Serving | Gone

record 'e eventSubscriber =
  sub_phase :: sub_phase
  sub_run :: nat
  sub_from :: nat
  sub_events :: "'e list"
  sub_taken :: "'e list"
  sub_closed :: "eventCloseReason option"

text \<open>The call of \<open>fanout\<close> in progress: its event, whom it still has to feed, whom it is dropping.\<close>

record 'e fanout_call =
  fan_event :: 'e
  fan_rest :: "nat list"
  fan_drop :: "nat option"

record 'e eventHub =
  hub_subs :: "nat list"
  hub_running :: bool
  hub_cancel :: "nat option"
  hub_runs :: "'e hub_run list"
  hub_members :: "'e eventSubscriber list"
  hub_fan :: "'e fanout_call option"
  hub_teardown :: "nat list"
  hub_cancelling :: "nat list"

definition newEventHub :: "'e eventHub" where
  "newEventHub = \<lparr>hub_subs = [], hub_running = False, hub_cancel = None, hub_runs = [],
     hub_members = [], hub_fan = None, hub_teardown = [], hub_cancelling = []\<rparr>"

abbreviation run_of :: "'e eventHub \<Rightarrow> nat \<Rightarrow> 'e hub_run" where
  "run_of h g \<equiv> hub_runs h ! g"

abbreviation member :: "'e eventHub \<Rightarrow> nat \<Rightarrow> 'e eventSubscriber" where
  "member h i \<equiv> hub_members h ! i"

definition upd_run :: "nat \<Rightarrow> ('e hub_run \<Rightarrow> 'e hub_run) \<Rightarrow> 'e eventHub \<Rightarrow> 'e eventHub" where
  "upd_run g f h = h\<lparr>hub_runs := (hub_runs h)[g := f (run_of h g)]\<rparr>"

definition upd_sub ::
  "nat \<Rightarrow> ('e eventSubscriber \<Rightarrow> 'e eventSubscriber) \<Rightarrow> 'e eventHub \<Rightarrow> 'e eventHub" where
  "upd_sub i f h = h\<lparr>hub_members := (hub_members h)[i := f (member h i)]\<rparr>"

subsection \<open>The critical sections\<close>

text \<open>\<open>close\<close> keeps the first reason only.\<close>

definition close_sub :: "eventCloseReason \<Rightarrow> 'e eventSubscriber \<Rightarrow> 'e eventSubscriber" where
  "close_sub reason s = (case sub_closed s of None \<Rightarrow> s\<lparr>sub_closed := Some reason\<rparr> | Some r \<Rightarrow> s)"

text \<open>\<open>attach\<close> up to its select: register first, then start a run if none is running.\<close>

definition attach :: "'e eventHub \<Rightarrow> 'e eventHub" where
  "attach h =
     (let i = length (hub_members h);
          g = (if hub_running h then length (hub_runs h) - 1 else length (hub_runs h));
          h1 = (if hub_running h then h
                else h\<lparr>hub_running := True, hub_cancel := Some g,
                       hub_runs := hub_runs h @ [\<lparr>run_phase = Subscribing, run_ready = False,
                         run_failed = False, run_cancelled = False, run_log = []\<rparr>]\<rparr>)
      in h1\<lparr>hub_subs := hub_subs h @ [i],
            hub_members := hub_members h @ [\<lparr>sub_phase = Waiting, sub_run = g,
              sub_from = length (run_log (run_of h1 g)), sub_events = [], sub_taken = [],
              sub_closed = None\<rparr>]\<rparr>)"

text \<open>\<open>detach\<close>: the critical section; the cancel call it may owe is a later event.\<close>

definition detach :: "nat \<Rightarrow> 'e eventHub \<Rightarrow> 'e eventHub" where
  "detach i h =
     (if i \<notin> set (hub_subs h) then h
      else (let rest = remove1 i (hub_subs h);
                lst = (rest = [] \<and> hub_running h)
            in h\<lparr>hub_subs := rest,
                 hub_cancelling := (case hub_cancel h of
                     Some g \<Rightarrow> if lst then hub_cancelling h @ [g] else hub_cancelling h
                   | None \<Rightarrow> hub_cancelling h)\<rparr>))"

text \<open>\<open>markReady\<close>, called once the Engine subscription of the current run exists.\<close>

definition markReady :: "'e eventHub \<Rightarrow> 'e eventHub" where
  "markReady h =
     (let g = length (hub_runs h) - 1
      in if hub_running h \<and> run_phase (run_of h g) = Subscribing
         then upd_run g (\<lambda>r. r\<lparr>run_phase := Streaming, run_ready := True\<rparr>) h else h)"

text \<open>\<open>fanout\<close>: the snapshot, then one subscriber at a time.\<close>

definition fanout_begin :: "'e \<Rightarrow> 'e eventHub \<Rightarrow> 'e eventHub" where
  "fanout_begin ev h =
     (let g = length (hub_runs h) - 1
      in if hub_running h \<and> run_phase (run_of h g) = Streaming \<and> hub_fan h = None
         then (upd_run g (\<lambda>r. r\<lparr>run_log := run_log r @ [ev]\<rparr>) h)
                \<lparr>hub_fan := Some \<lparr>fan_event = ev, fan_rest = hub_subs h, fan_drop = None\<rparr>\<rparr>
         else h)"

definition fanout_feed :: "'e eventHub \<Rightarrow> 'e eventHub" where
  "fanout_feed h =
     (case hub_fan h of
        None \<Rightarrow> h
      | Some f \<Rightarrow>
          (case fan_drop f of
             Some i \<Rightarrow> (detach i h)\<lparr>hub_fan := Some (f\<lparr>fan_drop := None\<rparr>)\<rparr>
           | None \<Rightarrow>
               (case fan_rest f of
                  [] \<Rightarrow> h\<lparr>hub_fan := None\<rparr>
                | i # rest \<Rightarrow>
                    if length (sub_events (member h i)) < eventClientBuffer
                    then (upd_sub i (\<lambda>s. s\<lparr>sub_events := sub_events s @ [fan_event f]\<rparr>) h)
                           \<lparr>hub_fan := Some (f\<lparr>fan_rest := rest\<rparr>)\<rparr>
                    else (upd_sub i (close_sub eventClosedLagged) h)
                           \<lparr>hub_fan := Some (f\<lparr>fan_rest := rest, fan_drop := Some i\<rparr>)\<rparr>)))"

text \<open>
  \<open>run\<close> after StreamContainerEvents has returned.  It returns no error only when its
  context was cancelled; the flag says whether the Engine ended the feed.
\<close>

definition run_end :: "bool \<Rightarrow> 'e eventHub \<Rightarrow> 'e eventHub" where
  "run_end engine h =
     (let g = length (hub_runs h) - 1
      in if hub_running h \<and> hub_fan h = None \<and> (engine \<or> run_cancelled (run_of h g))
         then (upd_run g (\<lambda>r. r\<lparr>run_phase := Ending\<rparr>) h)
                \<lparr>hub_subs := [], hub_running := False, hub_cancel := None,
                 hub_teardown := hub_teardown h @ hub_subs h\<rparr>
         else h)"

definition close_failed :: "nat \<Rightarrow> 'e eventHub \<Rightarrow> 'e eventHub" where
  "close_failed g h =
     (if g < length (hub_runs h) \<and> run_phase (run_of h g) = Ending
      then upd_run g (\<lambda>r. r\<lparr>run_phase := Over, run_failed := True\<rparr>) h else h)"

definition close_torn :: "nat \<Rightarrow> 'e eventHub \<Rightarrow> 'e eventHub" where
  "close_torn i h =
     (if i \<in> set (hub_teardown h)
      then (upd_sub i (close_sub eventClosedEngine) h)\<lparr>hub_teardown := remove1 i (hub_teardown h)\<rparr>
      else h)"

definition cancel_run :: "nat \<Rightarrow> 'e eventHub \<Rightarrow> 'e eventHub" where
  "cancel_run g h =
     (if g \<in> set (hub_cancelling h)
      then (upd_run g (\<lambda>r. r\<lparr>run_cancelled := True\<rparr>) h)\<lparr>hub_cancelling := remove1 g (hub_cancelling h)\<rparr>
      else h)"

text \<open>\<open>stop\<close>: the captured cancel function is called after unlocking.\<close>

definition stop_hub :: "'e eventHub \<Rightarrow> 'e eventHub" where
  "stop_hub h = (case hub_cancel h of None \<Rightarrow> h
     | Some g \<Rightarrow> h\<lparr>hub_cancelling := hub_cancelling h @ [g]\<rparr>)"

text \<open>The select of \<open>attach\<close>: each branch is enabled when its channel is ready.\<close>

definition attach_ready :: "nat \<Rightarrow> 'e eventHub \<Rightarrow> 'e eventHub" where
  "attach_ready i h =
     (if i < length (hub_members h) \<and> sub_phase (member h i) = Waiting \<and>
         run_ready (run_of h (sub_run (member h i)))
      then upd_sub i (\<lambda>s. s\<lparr>sub_phase := Serving\<rparr>) h else h)"

definition attach_failed :: "nat \<Rightarrow> 'e eventHub \<Rightarrow> 'e eventHub" where
  "attach_failed i h =
     (if i < length (hub_members h) \<and> sub_phase (member h i) = Waiting \<and>
         run_failed (run_of h (sub_run (member h i)))
      then detach i (upd_sub i (\<lambda>s. s\<lparr>sub_phase := Gone\<rparr>) h) else h)"

text \<open>The request's context ends the wait, or the handler returns: detach.\<close>

definition leave :: "nat \<Rightarrow> 'e eventHub \<Rightarrow> 'e eventHub" where
  "leave i h =
     (if i < length (hub_members h) \<and> sub_phase (member h i) \<noteq> Gone
      then detach i (upd_sub i (\<lambda>s. s\<lparr>sub_phase := Gone\<rparr>) h) else h)"

text \<open>The handler takes one event from its buffer.\<close>

definition take_event :: "nat \<Rightarrow> 'e eventHub \<Rightarrow> 'e eventHub" where
  "take_event i h =
     (if i < length (hub_members h) \<and> sub_phase (member h i) = Serving \<and> sub_events (member h i) \<noteq> []
      then upd_sub i (\<lambda>s. s\<lparr>sub_taken := sub_taken s @ [hd (sub_events s)],
                            sub_events := tl (sub_events s)\<rparr>) h else h)"

datatype 'e hub_event =
    Attach | AttachReady nat | AttachFailed nat | Leave nat | TakeEvent nat
  | MarkReady | FanoutBegin 'e | FanoutFeed
  | RunEnd bool | CloseFailed nat | CloseTorn nat | CancelRun nat | StopHub

fun hub_step :: "'e eventHub \<Rightarrow> 'e hub_event \<Rightarrow> 'e eventHub" where
  "hub_step h Attach = attach h"
| "hub_step h (AttachReady i) = attach_ready i h"
| "hub_step h (AttachFailed i) = attach_failed i h"
| "hub_step h (Leave i) = leave i h"
| "hub_step h (TakeEvent i) = take_event i h"
| "hub_step h MarkReady = markReady h"
| "hub_step h (FanoutBegin ev) = fanout_begin ev h"
| "hub_step h FanoutFeed = fanout_feed h"
| "hub_step h (RunEnd engine) = run_end engine h"
| "hub_step h (CloseFailed g) = close_failed g h"
| "hub_step h (CloseTorn i) = close_torn i h"
| "hub_step h (CancelRun g) = cancel_run g h"
| "hub_step h StopHub = stop_hub h"

subsection \<open>The invariant\<close>

text \<open>What a subscriber has been given, and what its run has fanned out since it joined.\<close>

definition received :: "'e eventSubscriber \<Rightarrow> 'e list" where
  "received s = sub_taken s @ sub_events s"

definition owed :: "'e eventHub \<Rightarrow> 'e eventSubscriber \<Rightarrow> 'e list" where
  "owed h s = drop (sub_from s) (run_log (run_of h (sub_run s)))"

definition resting :: "'e eventHub \<Rightarrow> nat \<Rightarrow> bool" where
  "resting h i \<longleftrightarrow> (case hub_fan h of None \<Rightarrow> False | Some f \<Rightarrow> i \<in> set (fan_rest f))"

definition dropping :: "'e eventHub \<Rightarrow> nat \<Rightarrow> bool" where
  "dropping h i \<longleftrightarrow> (case hub_fan h of None \<Rightarrow> False | Some f \<Rightarrow> fan_drop f = Some i)"

definition run_inv :: "'e hub_run \<Rightarrow> bool" where
  "run_inv r \<longleftrightarrow>
     (run_phase r = Subscribing \<longrightarrow> \<not> run_ready r) \<and>
     (run_phase r = Streaming \<longrightarrow> run_ready r) \<and>
     (run_failed r \<longleftrightarrow> run_phase r = Over) \<and>
     (\<not> run_ready r \<longrightarrow> run_log r = [])"

definition shape_inv :: "'e eventHub \<Rightarrow> bool" where
  "shape_inv h \<longleftrightarrow>
     (hub_running h \<longrightarrow> hub_runs h \<noteq> [] \<and> hub_cancel h = Some (length (hub_runs h) - 1) \<and>
        run_phase (run_of h (length (hub_runs h) - 1)) \<in> {Subscribing, Streaming}) \<and>
     (\<not> hub_running h \<longrightarrow> hub_subs h = [] \<and> hub_fan h = None \<and> hub_cancel h = None) \<and>
     (hub_fan h \<noteq> None \<longrightarrow> run_phase (run_of h (length (hub_runs h) - 1)) = Streaming) \<and>
     (\<forall>g<length (hub_runs h).
        (hub_running h \<and> Suc g = length (hub_runs h) \<or> run_phase (run_of h g) \<in> {Ending, Over})) \<and>
     (\<forall>g<length (hub_runs h). run_inv (run_of h g)) \<and>
     distinct (hub_subs h)"

definition lists_inv :: "'e eventHub \<Rightarrow> bool" where
  "lists_inv h \<longleftrightarrow>
     (\<forall>i<length (hub_members h). sub_run (member h i) < length (hub_runs h)) \<and>
     (\<forall>i\<in>set (hub_subs h). i < length (hub_members h) \<and>
        Suc (sub_run (member h i)) = length (hub_runs h)) \<and>
     (\<forall>i\<in>set (hub_teardown h). i < length (hub_members h)) \<and>
     (\<forall>g\<in>set (hub_cancelling h). g < length (hub_runs h)) \<and>
     (case hub_fan h of None \<Rightarrow> True
      | Some f \<Rightarrow> distinct (fan_rest f) \<and>
          (\<forall>i\<in>set (fan_rest f). i < length (hub_members h) \<and>
             Suc (sub_run (member h i)) = length (hub_runs h)) \<and>
          (case fan_drop f of None \<Rightarrow> True
           | Some i \<Rightarrow> i \<notin> set (fan_rest f) \<and> i < length (hub_members h) \<and>
               sub_closed (member h i) \<noteq> None))"

definition sub_inv :: "'e eventHub \<Rightarrow> nat \<Rightarrow> bool" where
  "sub_inv h i \<longleftrightarrow>
     sub_from (member h i) \<le> length (run_log (run_of h (sub_run (member h i)))) \<and>
     prefix (received (member h i)) (owed h (member h i)) \<and>
     (resting h i \<longrightarrow>
        received (member h i) @ [fan_event (the (hub_fan h))] = owed h (member h i)) \<and>
     (i \<in> set (hub_subs h) \<and> \<not> resting h i \<and> \<not> dropping h i \<longrightarrow>
        received (member h i) = owed h (member h i)) \<and>
     length (sub_events (member h i)) \<le> eventClientBuffer \<and>
     (sub_phase (member h i) = Serving \<longrightarrow> run_ready (run_of h (sub_run (member h i)))) \<and>
     (i \<in> set (hub_subs h) \<longrightarrow> sub_phase (member h i) \<noteq> Gone) \<and>
     (i \<notin> set (hub_subs h) \<longrightarrow> sub_phase (member h i) = Gone \<or>
        sub_closed (member h i) \<noteq> None \<or> i \<in> set (hub_teardown h))"

definition hub_inv :: "'e eventHub \<Rightarrow> bool" where
  "hub_inv h \<longleftrightarrow> shape_inv h \<and> lists_inv h \<and> (\<forall>i<length (hub_members h). sub_inv h i)"

lemma upd_run_fields [simp]:
  "hub_subs (upd_run g f h) = hub_subs h" "hub_running (upd_run g f h) = hub_running h"
  "hub_cancel (upd_run g f h) = hub_cancel h" "hub_members (upd_run g f h) = hub_members h"
  "hub_fan (upd_run g f h) = hub_fan h" "hub_teardown (upd_run g f h) = hub_teardown h"
  "hub_cancelling (upd_run g f h) = hub_cancelling h"
  "hub_runs (upd_run g f h) = (hub_runs h)[g := f (run_of h g)]"
  by (simp_all add: upd_run_def)

lemma upd_sub_fields [simp]:
  "hub_subs (upd_sub i u h) = hub_subs h" "hub_running (upd_sub i u h) = hub_running h"
  "hub_cancel (upd_sub i u h) = hub_cancel h" "hub_runs (upd_sub i u h) = hub_runs h"
  "hub_fan (upd_sub i u h) = hub_fan h" "hub_teardown (upd_sub i u h) = hub_teardown h"
  "hub_cancelling (upd_sub i u h) = hub_cancelling h"
  "hub_members (upd_sub i u h) = (hub_members h)[i := u (member h i)]"
  by (simp_all add: upd_sub_def)

lemma detach_fields [simp]:
  "hub_subs (detach i h) = remove1 i (hub_subs h)" "hub_running (detach i h) = hub_running h"
  "hub_cancel (detach i h) = hub_cancel h" "hub_runs (detach i h) = hub_runs h"
  "hub_members (detach i h) = hub_members h" "hub_fan (detach i h) = hub_fan h"
  "hub_teardown (detach i h) = hub_teardown h"
  by (simp_all add: detach_def Let_def remove1_idem)

lemma detach_cancelling:
  "set (hub_cancelling (detach i h)) \<subseteq> set (hub_cancelling h) \<union> set_option (hub_cancel h)"
  by (auto simp: detach_def Let_def split: option.splits)

lemma close_sub_fields [simp]:
  "sub_phase (close_sub r s) = sub_phase s" "sub_run (close_sub r s) = sub_run s"
  "sub_from (close_sub r s) = sub_from s" "sub_events (close_sub r s) = sub_events s"
  "sub_taken (close_sub r s) = sub_taken s" "received (close_sub r s) = received s"
  "sub_closed (close_sub r s) \<noteq> None"
  by (simp_all add: close_sub_def received_def split: option.splits)

subsection \<open>Every event keeps it\<close>

lemma newEventHub_inv: "hub_inv newEventHub"
  by (simp add: hub_inv_def shape_inv_def lists_inv_def newEventHub_def)

text \<open>
  An update of one subscriber that keeps its run, its place and what it received needs only
  its own part of the invariant checked.
\<close>

lemma hub_inv_upd_sub:
  assumes inv: "hub_inv h" and i: "i < length (hub_members h)"
    and same: "sub_run (u (member h i)) = sub_run (member h i)"
      "sub_from (u (member h i)) = sub_from (member h i)"
      "received (u (member h i)) = received (member h i)"
      "length (sub_events (u (member h i))) \<le> length (sub_events (member h i))"
    and phase: "sub_phase (u (member h i)) \<in> {sub_phase (member h i), Serving}"
      "sub_phase (u (member h i)) = Serving \<Longrightarrow> sub_phase (member h i) \<noteq> Serving \<Longrightarrow>
         run_ready (run_of h (sub_run (member h i)))"
      "sub_phase (member h i) \<noteq> Gone \<or> sub_phase (u (member h i)) = Gone"
    and closed: "sub_closed (member h i) \<noteq> None \<Longrightarrow> sub_closed (u (member h i)) \<noteq> None"
  shows "hub_inv (upd_sub i u h)"
proof -
  have "shape_inv (upd_sub i u h)"
    using inv by (simp add: hub_inv_def shape_inv_def)
  moreover have "lists_inv (upd_sub i u h)"
    using inv i same closed unfolding hub_inv_def lists_inv_def
    by (auto simp: nth_list_update split: option.splits)
  moreover have "sub_inv (upd_sub i u h) j" if "j < length (hub_members h)" for j
  proof (cases "j = i")
    case True
    have "sub_inv h i" using inv i by (simp add: hub_inv_def)
    with True i same phase closed show ?thesis
      by (auto simp: sub_inv_def owed_def resting_def dropping_def)
  next
    case False
    have "sub_inv h j" using inv that by (simp add: hub_inv_def)
    with False show ?thesis
      by (simp add: sub_inv_def owed_def resting_def dropping_def)
  qed
  ultimately show ?thesis by (simp add: hub_inv_def)
qed

text \<open>An update of one run's flags touches no subscriber.\<close>

lemma sub_inv_runs:
  assumes "sub_inv h j" and "hub_members h' = hub_members h" and "hub_subs h' = hub_subs h"
    and "hub_fan h' = hub_fan h" and "hub_teardown h' = hub_teardown h"
    and "run_log (run_of h' (sub_run (member h j))) = run_log (run_of h (sub_run (member h j)))"
    and "run_ready (run_of h (sub_run (member h j))) \<Longrightarrow> run_ready (run_of h' (sub_run (member h j)))"
  shows "sub_inv h' j"
  using assms by (simp add: sub_inv_def owed_def resting_def dropping_def)

lemma hub_invD:
  assumes "hub_inv h"
  shows "shape_inv h" and "lists_inv h" and "i < length (hub_members h) \<Longrightarrow> sub_inv h i"
  using assms by (simp_all add: hub_inv_def)

lemma hub_invI:
  assumes "shape_inv h" and "lists_inv h" and "\<And>i. i < length (hub_members h) \<Longrightarrow> sub_inv h i"
  shows "hub_inv h"
  using assms by (simp add: hub_inv_def)

lemma lists_inv_detach:
  assumes "shape_inv h" and "lists_inv h"
  shows "lists_inv (detach i h)"
proof -
  have "\<forall>g\<in>set (hub_cancelling (detach i h)). g < length (hub_runs h)"
    using detach_cancelling [of i h] assms
    by (cases "hub_running h") (auto simp: lists_inv_def shape_inv_def)
  with assms(2) show ?thesis
    by (auto simp: lists_inv_def dest: notin_set_remove1 split: option.splits)
qed

lemma shape_inv_detach: "shape_inv h \<Longrightarrow> shape_inv (detach i h)"
  by (auto simp: shape_inv_def)

lemma depart_inv [preserves]:
  assumes inv: "hub_inv h" and i: "i < length (hub_members h)"
  shows "hub_inv (detach i (upd_sub i (\<lambda>s. s\<lparr>sub_phase := Gone\<rparr>) h))"
proof (rule hub_invI)
  let ?h = "upd_sub i (\<lambda>s. s\<lparr>sub_phase := Gone\<rparr>) h"
  have sh: "shape_inv ?h"
    using hub_invD(1) [OF inv] by (simp add: shape_inv_def)
  have li: "lists_inv ?h"
    using hub_invD(2) [OF inv] i by (auto simp: lists_inv_def nth_list_update split: option.splits)
  show "shape_inv (detach i ?h)" using sh by (rule shape_inv_detach)
  show "lists_inv (detach i ?h)" using sh li by (rule lists_inv_detach)
  fix j
  assume "j < length (hub_members (detach i ?h))"
  then have "sub_inv h j" using hub_invD(3) [OF inv] by simp
  moreover have "distinct (hub_subs h)" using hub_invD(1) [OF inv] by (simp add: shape_inv_def)
  ultimately show "sub_inv (detach i ?h) j"
    using i by (cases "j = i")
      (auto simp: sub_inv_def owed_def received_def resting_def dropping_def)
qed

lemma leave_inv [preserves]: "hub_inv h \<Longrightarrow> hub_inv (leave i h)"
  by (simp add: leave_def depart_inv)

lemma attach_failed_inv [preserves]: "hub_inv h \<Longrightarrow> hub_inv (attach_failed i h)"
  by (simp add: attach_failed_def depart_inv)

lemma attach_ready_inv [preserves]: "hub_inv h \<Longrightarrow> hub_inv (attach_ready i h)"
  by (auto simp: attach_ready_def received_def intro!: hub_inv_upd_sub)

lemma take_event_inv [preserves]:
  assumes "hub_inv h"
  shows "hub_inv (take_event i h)"
proof -
  have "hub_inv (upd_sub i (\<lambda>s. s\<lparr>sub_taken := sub_taken s @ [hd (sub_events s)],
      sub_events := tl (sub_events s)\<rparr>) h)"
    if i: "i < length (hub_members h)" and ev: "sub_events (member h i) \<noteq> []"
    using ev by (intro hub_inv_upd_sub [OF assms i]) (auto simp: received_def)
  with assms show ?thesis by (simp add: take_event_def)
qed

lemma close_torn_inv [preserves]:
  assumes inv: "hub_inv h"
  shows "hub_inv (close_torn i h)"
proof (cases "i \<in> set (hub_teardown h)")
  case True
  let ?h = "upd_sub i (close_sub eventClosedEngine) h"
  have i: "i < length (hub_members h)"
    using True hub_invD(2) [OF inv] by (auto simp: lists_inv_def)
  have inv': "hub_inv ?h"
    using inv i by (rule hub_inv_upd_sub) simp_all
  have cl: "close_torn i h = ?h\<lparr>hub_teardown := remove1 i (hub_teardown h)\<rparr>"
    using True by (simp add: close_torn_def)
  show ?thesis
  proof (rule hub_invI)
    show "shape_inv (close_torn i h)"
      using hub_invD(1) [OF inv'] by (simp add: cl shape_inv_def)
    show "lists_inv (close_torn i h)"
      using hub_invD(2) [OF inv'] unfolding lists_inv_def cl
      by (auto dest: notin_set_remove1 split: option.splits)
    fix j
    assume "j < length (hub_members (close_torn i h))"
    then have "sub_inv ?h j" using hub_invD(3) [OF inv'] by (simp add: cl)
    then show "sub_inv (close_torn i h) j"
      using i by (cases "j = i") (auto simp: cl sub_inv_def owed_def resting_def dropping_def)
  qed
qed (use inv in \<open>simp add: close_torn_def\<close>)

lemma hub_inv_runs:
  assumes inv: "hub_inv h" and sh: "shape_inv h'"
    and same: "hub_members h' = hub_members h" "hub_subs h' = hub_subs h" "hub_fan h' = hub_fan h"
      "hub_teardown h' = hub_teardown h" "length (hub_runs h') = length (hub_runs h)"
    and canc: "\<forall>g\<in>set (hub_cancelling h'). g < length (hub_runs h)"
    and runs: "\<And>g. g < length (hub_runs h) \<Longrightarrow> run_log (run_of h' g) = run_log (run_of h g)"
      "\<And>g. g < length (hub_runs h) \<Longrightarrow> run_ready (run_of h g) \<Longrightarrow> run_ready (run_of h' g)"
  shows "hub_inv h'"
proof (rule hub_invI [OF sh])
  show "lists_inv h'"
    using hub_invD(2) [OF inv] canc unfolding lists_inv_def same by auto
  fix j
  assume "j < length (hub_members h')"
  then have j: "j < length (hub_members h)" by (simp add: same)
  then have "sub_run (member h j) < length (hub_runs h)"
    using hub_invD(2) [OF inv] by (simp add: lists_inv_def)
  then show "sub_inv h' j"
    using runs by (intro sub_inv_runs [OF hub_invD(3) [OF inv j]]) (simp_all add: same)
qed

text \<open>
  A run may change within its own side of the life line: the current one while it is
  subscribing or streaming, every other one while it is ending or over.
\<close>

lemma shape_inv_upd_run:
  assumes "shape_inv h" and "g < length (hub_runs h)" and "run_inv (u (run_of h g))"
    and "if hub_running h \<and> Suc g = length (hub_runs h)
         then run_phase (u (run_of h g)) \<in> {Subscribing, Streaming} \<and>
              (hub_fan h \<noteq> None \<longrightarrow> run_phase (u (run_of h g)) = Streaming)
         else run_phase (u (run_of h g)) \<in> {Ending, Over}"
  shows "shape_inv (upd_run g u h)"
proof -
  have g: "length (hub_runs h) - 1 = g \<longleftrightarrow> Suc g = length (hub_runs h)"
    using assms(2) by auto
  show ?thesis
  proof (cases "Suc g = length (hub_runs h)")
    case True
    with g have "length (hub_runs h) - 1 = g" by simp
    with True assms show ?thesis
      unfolding shape_inv_def by (auto simp: nth_list_update)
  next
    case False
    with g have "length (hub_runs h) - 1 \<noteq> g" by simp
    with False assms show ?thesis
      unfolding shape_inv_def by (auto simp: nth_list_update)
  qed
qed

lemma shape_inv_current:
  assumes "shape_inv h" and "hub_running h" and "g = length (hub_runs h) - 1"
  shows "Suc g = length (hub_runs h)" and "g < length (hub_runs h)" and "run_inv (run_of h g)"
proof -
  show g: "Suc g = length (hub_runs h)"
    using assms by (cases "hub_runs h") (auto simp: shape_inv_def)
  then show "g < length (hub_runs h)" by simp
  then show "run_inv (run_of h g)" using assms(1) by (simp add: shape_inv_def)
qed

lemma shape_inv_cancelling: "shape_inv (h\<lparr>hub_cancelling := gs\<rparr>) = shape_inv h"
  by (simp add: shape_inv_def)

lemma upd_run_inv:
  assumes "hub_inv h" and "g < length (hub_runs h)" and "shape_inv (upd_run g u h)"
    and "run_log (u (run_of h g)) = run_log (run_of h g)"
    and "run_ready (run_of h g) \<Longrightarrow> run_ready (u (run_of h g))"
  shows "hub_inv (upd_run g u h)"
  by (rule hub_inv_runs [OF assms(1,3)])
    (use hub_invD(2) [OF assms(1)] assms(2,4,5) in \<open>auto simp: lists_inv_def nth_list_update\<close>)

lemma markReady_inv [preserves]:
  assumes "hub_inv h"
  shows "hub_inv (markReady h)"
proof (cases "hub_running h \<and> run_phase (run_of h (length (hub_runs h) - 1)) = Subscribing")
  case True
  define g where "g = length (hub_runs h) - 1"
  note cur = shape_inv_current [OF hub_invD(1) [OF assms] _ g_def]
  have "hub_inv (upd_run g (\<lambda>r. r\<lparr>run_phase := Streaming, run_ready := True\<rparr>) h)"
    using cur True hub_invD(1) [OF assms]
    by (intro upd_run_inv shape_inv_upd_run assms) (auto simp: run_inv_def g_def)
  with True show ?thesis by (simp add: markReady_def Let_def g_def)
next
  case False
  with assms show ?thesis by (auto simp: markReady_def Let_def)
qed

lemma close_failed_inv [preserves]:
  assumes "hub_inv h"
  shows "hub_inv (close_failed g h)"
proof (cases "g < length (hub_runs h) \<and> run_phase (run_of h g) = Ending")
  case True
  have sh: "shape_inv h" by (rule hub_invD(1) [OF assms])
  have "\<not> (hub_running h \<and> Suc g = length (hub_runs h))"
  proof
    assume run: "hub_running h \<and> Suc g = length (hub_runs h)"
    then have "length (hub_runs h) - 1 = g" by (metis diff_Suc_1)
    with run sh True show False by (simp add: shape_inv_def)
  qed
  moreover have "run_inv (run_of h g)" using True sh by (simp add: shape_inv_def)
  ultimately have "hub_inv (upd_run g (\<lambda>r. r\<lparr>run_phase := Over, run_failed := True\<rparr>) h)"
    using True by (intro upd_run_inv shape_inv_upd_run assms sh) (auto simp: run_inv_def)
  with True show ?thesis by (simp add: close_failed_def)
qed (use assms in \<open>auto simp: close_failed_def\<close>)

lemma hub_inv_cancelling:
  assumes "hub_inv h" and "\<forall>g\<in>set gs. g < length (hub_runs h)"
  shows "hub_inv (h\<lparr>hub_cancelling := gs\<rparr>)"
  using assms(2) hub_invD(1) [OF assms(1)]
  by (intro hub_inv_runs [OF assms(1)]) (auto simp: shape_inv_cancelling)

lemma cancel_run_inv [preserves]:
  assumes "hub_inv h"
  shows "hub_inv (cancel_run g h)"
proof (cases "g \<in> set (hub_cancelling h)")
  case True
  have sh: "shape_inv h" by (rule hub_invD(1) [OF assms])
  have g: "g < length (hub_runs h)"
    using True hub_invD(2) [OF assms] by (simp add: lists_inv_def)
  have "shape_inv (upd_run g (\<lambda>r. r\<lparr>run_cancelled := True\<rparr>) h)"
  proof (rule shape_inv_upd_run [OF sh g])
    show "run_inv (run_of h g\<lparr>run_cancelled := True\<rparr>)"
      using sh g by (simp add: shape_inv_def run_inv_def)
    have "hub_running h \<and> Suc g = length (hub_runs h) \<Longrightarrow> length (hub_runs h) - 1 = g"
      by (metis diff_Suc_1)
    with sh g show "if hub_running h \<and> Suc g = length (hub_runs h)
         then run_phase (run_of h g\<lparr>run_cancelled := True\<rparr>) \<in> {Subscribing, Streaming} \<and>
              (hub_fan h \<noteq> None \<longrightarrow> run_phase (run_of h g\<lparr>run_cancelled := True\<rparr>) = Streaming)
         else run_phase (run_of h g\<lparr>run_cancelled := True\<rparr>) \<in> {Ending, Over}"
      by (auto simp: shape_inv_def)
  qed
  then have "hub_inv (upd_run g (\<lambda>r. r\<lparr>run_cancelled := True\<rparr>) h)"
    using g by (intro upd_run_inv assms) auto
  then have "hub_inv (upd_run g (\<lambda>r. r\<lparr>run_cancelled := True\<rparr>) h
      \<lparr>hub_cancelling := remove1 g (hub_cancelling h)\<rparr>)"
    by (rule hub_inv_cancelling)
      (use hub_invD(2) [OF assms] in \<open>auto simp: lists_inv_def dest: notin_set_remove1\<close>)
  with True show ?thesis by (simp add: cancel_run_def)
qed (use assms in \<open>auto simp: cancel_run_def\<close>)

lemma stop_hub_inv [preserves]:
  assumes "hub_inv h"
  shows "hub_inv (stop_hub h)"
proof -
  have "hub_cancel h = Some g \<Longrightarrow> g < length (hub_runs h)" for g
    using hub_invD(1) [OF assms] by (cases "hub_running h") (auto simp: shape_inv_def)
  moreover have "\<forall>g\<in>set (hub_cancelling h). g < length (hub_runs h)"
    using hub_invD(2) [OF assms] by (simp add: lists_inv_def)
  ultimately show ?thesis
    using assms by (auto simp: stop_hub_def intro!: hub_inv_cancelling split: option.splits)
qed

lemma attach_inv [preserves]:
  fixes h :: "'e eventHub"
  assumes inv: "hub_inv h"
  shows "hub_inv (attach h)"
proof -
  define g where "g = (if hub_running h then length (hub_runs h) - 1 else length (hub_runs h))"
  define h1 where "h1 = (if hub_running h then h
     else h\<lparr>hub_running := True, hub_cancel := Some g,
            hub_runs := hub_runs h @ [\<lparr>run_phase = Subscribing, run_ready = False,
              run_failed = False, run_cancelled = False, run_log = []\<rparr>]\<rparr>)"
  define s :: "'e eventSubscriber" where "s = \<lparr>sub_phase = Waiting, sub_run = g, sub_from = length (run_log (run_of h1 g)),
     sub_events = [], sub_taken = [], sub_closed = None\<rparr>"
  let ?n = "length (hub_members h)"
  have att: "attach h = h1\<lparr>hub_subs := hub_subs h @ [?n], hub_members := hub_members h @ [s]\<rparr>"
    by (simp add: attach_def g_def h1_def s_def Let_def)
  note sh = hub_invD(1) [OF inv] and li = hub_invD(2) [OF inv]
  have g1: "Suc g = length (hub_runs h1)" and r1: "hub_running h1"
    using shape_inv_current(1) [OF sh _ refl] by (auto simp: g_def h1_def)
  have same: "hub_subs h1 = hub_subs h" "hub_members h1 = hub_members h" "hub_fan h1 = hub_fan h"
    "hub_teardown h1 = hub_teardown h" "hub_cancelling h1 = hub_cancelling h"
    by (simp_all add: h1_def)
  have old: "run_of h1 k = run_of h k" if "k < length (hub_runs h)" for k
    using that by (simp add: h1_def nth_append)
  have sh1: "shape_inv h1"
    using sh by (cases "hub_running h")
      (auto simp: h1_def g_def shape_inv_def run_inv_def nth_append less_Suc_eq)
  have n: "?n \<notin> set (hub_subs h)"
    using li by (auto simp: lists_inv_def)
  show ?thesis
  proof (rule hub_invI)
    show "shape_inv (attach h)"
      using sh1 n r1 unfolding shape_inv_def att by (simp add: same)
    have fan_run: "hub_running h" if "hub_fan h \<noteq> None \<or> hub_subs h \<noteq> []"
      using that sh by (auto simp: shape_inv_def)
    have len: "length (hub_runs h) \<le> length (hub_runs h1)" by (simp add: h1_def)
    show "lists_inv (attach h)"
      unfolding lists_inv_def
    proof (intro conjI)
      show "\<forall>i<length (hub_members (attach h)). sub_run (member (attach h) i) < length (hub_runs (attach h))"
        using li g1 len by (auto simp: att lists_inv_def nth_append s_def less_Suc_eq)
      show "\<forall>i\<in>set (hub_subs (attach h)). i < length (hub_members (attach h)) \<and>
          Suc (sub_run (member (attach h) i)) = length (hub_runs (attach h))"
        using li g1 fan_run by (auto simp: att lists_inv_def nth_append s_def h1_def)
      show "\<forall>i\<in>set (hub_teardown (attach h)). i < length (hub_members (attach h))"
        using li by (auto simp: att same lists_inv_def)
      show "\<forall>k\<in>set (hub_cancelling (attach h)). k < length (hub_runs (attach h))"
        using li len by (auto simp: att same lists_inv_def)
      show "case hub_fan (attach h) of None \<Rightarrow> True
        | Some f \<Rightarrow> distinct (fan_rest f) \<and>
            (\<forall>i\<in>set (fan_rest f). i < length (hub_members (attach h)) \<and>
               Suc (sub_run (member (attach h) i)) = length (hub_runs (attach h))) \<and>
            (case fan_drop f of None \<Rightarrow> True
             | Some i \<Rightarrow> i \<notin> set (fan_rest f) \<and> i < length (hub_members (attach h)) \<and>
                 sub_closed (member (attach h) i) \<noteq> None)"
        using li fan_run by (auto simp: att same lists_inv_def nth_append h1_def split: option.splits)
    qed
    fix j
    assume j: "j < length (hub_members (attach h))"
    show "sub_inv (attach h) j"
    proof (cases "j = ?n")
      case True
      have "\<not> resting h ?n" and "\<not> dropping h ?n"
        using li by (auto simp: resting_def dropping_def lists_inv_def split: option.splits)
      then show ?thesis
        using True by (simp add: att sub_inv_def owed_def received_def resting_def dropping_def same s_def)
    next
      case False
      with j have j: "j < ?n" by (simp add: att)
      then have "sub_run (member h j) < length (hub_runs h)" using li by (simp add: lists_inv_def)
      then show ?thesis
        using hub_invD(3) [OF inv j] j
        by (simp add: att sub_inv_def owed_def resting_def dropping_def same old nth_append)
    qed
  qed
qed

lemma fanout_begin_inv [preserves]:
  assumes inv: "hub_inv h"
  shows "hub_inv (fanout_begin ev h)"
proof (cases "hub_running h \<and> run_phase (run_of h (length (hub_runs h) - 1)) = Streaming \<and> hub_fan h = None")
  case True
  define g where "g = length (hub_runs h) - 1"
  note sh = hub_invD(1) [OF inv] and li = hub_invD(2) [OF inv]
  note cur = shape_inv_current [OF sh _ g_def]
  let ?u = "\<lambda>r. r\<lparr>run_log := run_log r @ [ev]\<rparr>"
  have beg: "fanout_begin ev h =
      (upd_run g ?u h)\<lparr>hub_fan := Some \<lparr>fan_event = ev, fan_rest = hub_subs h, fan_drop = None\<rparr>\<rparr>"
    using True by (simp add: fanout_begin_def Let_def g_def)
  have sh': "shape_inv (upd_run g ?u h)"
    using cur True by (intro shape_inv_upd_run sh) (auto simp: run_inv_def g_def)
  have g': "Suc g = length (hub_runs h)" and gl: "g < length (hub_runs h)"
    using cur True by simp_all
  have phase: "run_phase (run_of h g) = Streaming" using True by (simp add: g_def)
  show ?thesis
  proof (rule hub_invI)
    show "shape_inv (fanout_begin ev h)"
      using sh' phase True gl g_def [symmetric] unfolding shape_inv_def beg by simp
    show "lists_inv (fanout_begin ev h)"
      using li sh unfolding lists_inv_def beg shape_inv_def by simp
    fix j
    assume "j < length (hub_members (fanout_begin ev h))"
    then have j: "j < length (hub_members h)" by (simp add: beg)
    have old: "sub_inv h j" by (rule hub_invD(3) [OF inv j])
    have off: "\<not> resting h j" "\<not> dropping h j"
      using True by (simp_all add: resting_def dropping_def)
    show "sub_inv (fanout_begin ev h) j"
    proof (cases "sub_run (member h j) = g")
      case True
      have "sub_from (member h j) \<le> length (run_log (run_of h g))"
        using old True by (simp add: sub_inv_def)
      then have ow: "owed (fanout_begin ev h) (member h j) = owed h (member h j) @ [ev]"
        using gl True by (simp add: owed_def beg)
      show ?thesis
        using old off ow True gl
        by (auto simp: sub_inv_def beg resting_def dropping_def)
    next
      case False
      then have "j \<notin> set (hub_subs h)"
        using li g' by (auto simp: lists_inv_def)
      with old off False show ?thesis
        by (simp add: sub_inv_def owed_def beg resting_def dropping_def)
    qed
  qed
qed (use inv in \<open>auto simp: fanout_begin_def Let_def\<close>)

lemma fanout_feed_inv [preserves]:
  assumes inv: "hub_inv h"
  shows "hub_inv (fanout_feed h)"
proof (cases "hub_fan h")
  case None
  with inv show ?thesis by (simp add: fanout_feed_def)
next
  case (Some f)
  note sh = hub_invD(1) [OF inv] and li = hub_invD(2) [OF inv]
  show ?thesis
  proof (cases "fan_drop f")
    case (Some i)
    note drop = Some
    have feed: "fanout_feed h = (detach i h)\<lparr>hub_fan := Some (f\<lparr>fan_drop := None\<rparr>)\<rparr>"
      using \<open>hub_fan h = Some f\<close> drop by (simp add: fanout_feed_def)
    have i: "i \<notin> set (fan_rest f)" "i < length (hub_members h)" "sub_closed (member h i) \<noteq> None"
      using li \<open>hub_fan h = Some f\<close> drop by (auto simp: lists_inv_def)
    show ?thesis
    proof (rule hub_invI)
      show "shape_inv (fanout_feed h)"
        using shape_inv_detach [OF sh, of i] \<open>hub_fan h = Some f\<close> unfolding shape_inv_def feed by auto
      show "lists_inv (fanout_feed h)"
        using lists_inv_detach [OF sh li, of i] \<open>hub_fan h = Some f\<close> drop
        unfolding lists_inv_def feed by simp
      fix j
      assume "j < length (hub_members (fanout_feed h))"
      then have "sub_inv h j" using hub_invD(3) [OF inv] by (simp add: feed)
      moreover have "distinct (hub_subs h)" using sh by (simp add: shape_inv_def)
      ultimately show "sub_inv (fanout_feed h) j"
        using \<open>hub_fan h = Some f\<close> drop i
        by (cases "j = i") (auto simp: feed sub_inv_def owed_def resting_def dropping_def)
    qed
  next
    case None
    note nodrop = None
    show ?thesis
    proof (cases "fan_rest f")
      case Nil
      have feed: "fanout_feed h = h\<lparr>hub_fan := None\<rparr>"
        using \<open>hub_fan h = Some f\<close> nodrop Nil by (simp add: fanout_feed_def)
      have "shape_inv (h\<lparr>hub_fan := None\<rparr>)" using sh by (auto simp: shape_inv_def)
      moreover have "lists_inv (h\<lparr>hub_fan := None\<rparr>)" using li by (auto simp: lists_inv_def)
      moreover have "sub_inv (h\<lparr>hub_fan := None\<rparr>) j" if "sub_inv h j" for j
        using that \<open>hub_fan h = Some f\<close> nodrop Nil
        by (simp add: sub_inv_def owed_def resting_def dropping_def)
      ultimately show ?thesis
        using hub_invD(3) [OF inv] by (simp add: hub_inv_def feed)
    next
      case (Cons i rest)
      let ?ev = "fan_event f"
      have i: "i < length (hub_members h)" "i \<notin> set rest" "distinct rest"
        using li \<open>hub_fan h = Some f\<close> Cons by (auto simp: lists_inv_def)
      have recv: "received (member h i) @ [?ev] = owed h (member h i)"
        using hub_invD(3) [OF inv i(1)] \<open>hub_fan h = Some f\<close> Cons
        by (simp add: sub_inv_def resting_def)
      show ?thesis
      proof (cases "length (sub_events (member h i)) < eventClientBuffer")
        case True
        let ?h = "upd_sub i (\<lambda>s. s\<lparr>sub_events := sub_events s @ [?ev]\<rparr>) h"
        have feed: "fanout_feed h = ?h\<lparr>hub_fan := Some (f\<lparr>fan_rest := rest\<rparr>)\<rparr>"
          using \<open>hub_fan h = Some f\<close> nodrop Cons True by (simp add: fanout_feed_def)
        show ?thesis
        proof (rule hub_invI)
          show "shape_inv (fanout_feed h)"
            using sh \<open>hub_fan h = Some f\<close> unfolding shape_inv_def feed by auto
          show "lists_inv (fanout_feed h)"
            using li \<open>hub_fan h = Some f\<close> nodrop Cons i unfolding lists_inv_def feed
            by (auto simp: nth_list_update)
          fix j
          assume "j < length (hub_members (fanout_feed h))"
          then have "sub_inv h j" using hub_invD(3) [OF inv] by (simp add: feed)
          then show "sub_inv (fanout_feed h) j"
            using \<open>hub_fan h = Some f\<close> nodrop Cons i recv True
            by (cases "j = i")
              (auto simp: feed sub_inv_def owed_def received_def resting_def dropping_def)
        qed
      next
        case False
        let ?h = "upd_sub i (close_sub eventClosedLagged) h"
        have feed: "fanout_feed h = ?h\<lparr>hub_fan := Some (f\<lparr>fan_rest := rest, fan_drop := Some i\<rparr>)\<rparr>"
          using \<open>hub_fan h = Some f\<close> nodrop Cons False by (simp add: fanout_feed_def)
        show ?thesis
        proof (rule hub_invI)
          show "shape_inv (fanout_feed h)"
            using sh \<open>hub_fan h = Some f\<close> unfolding shape_inv_def feed by auto
          show "lists_inv (fanout_feed h)"
            using li \<open>hub_fan h = Some f\<close> nodrop Cons i unfolding lists_inv_def feed
            by (auto simp: nth_list_update)
          fix j
          assume "j < length (hub_members (fanout_feed h))"
          then have "sub_inv h j" using hub_invD(3) [OF inv] by (simp add: feed)
          then show "sub_inv (fanout_feed h) j"
            using \<open>hub_fan h = Some f\<close> nodrop Cons i
            by (cases "j = i")
              (auto simp: feed sub_inv_def owed_def resting_def dropping_def)
        qed
      qed
    qed
  qed
qed

lemma run_end_inv [preserves]:
  assumes inv: "hub_inv h"
  shows "hub_inv (run_end engine h)"
proof (cases "hub_running h \<and> hub_fan h = None \<and> (engine \<or> run_cancelled (run_of h (length (hub_runs h) - 1)))")
  case True
  define g where "g = length (hub_runs h) - 1"
  note sh = hub_invD(1) [OF inv] and li = hub_invD(2) [OF inv]
  note cur = shape_inv_current [OF sh _ g_def]
  let ?u = "\<lambda>r. r\<lparr>run_phase := Ending\<rparr>"
  have fin: "run_end engine h = (upd_run g ?u h)
      \<lparr>hub_subs := [], hub_running := False, hub_cancel := None, hub_teardown := hub_teardown h @ hub_subs h\<rparr>"
    using True by (simp add: run_end_def Let_def g_def)
  have g': "Suc g = length (hub_runs h)" and gl: "g < length (hub_runs h)" and ri: "run_inv (run_of h g)"
    using cur True by simp_all
  have ph: "run_phase (run_of h g) \<in> {Subscribing, Streaming}"
    using sh True by (auto simp: shape_inv_def g_def)
  show ?thesis
  proof (rule hub_invI)
    have "run_inv (?u (run_of h g))" using ri ph by (auto simp: run_inv_def)
    moreover have "k < length (hub_runs h) \<Longrightarrow> k \<noteq> g \<Longrightarrow> run_phase (run_of h k) \<in> {Ending, Over}" for k
      using sh g' by (auto simp: shape_inv_def)
    ultimately show "shape_inv (run_end engine h)"
      using sh True gl unfolding shape_inv_def fin by (auto simp: nth_list_update)
    show "lists_inv (run_end engine h)"
      using li True unfolding lists_inv_def fin by auto
    fix j
    assume "j < length (hub_members (run_end engine h))"
    then have "sub_inv h j" using hub_invD(3) [OF inv] by (simp add: fin)
    with True gl show "sub_inv (run_end engine h) j"
      by (cases "sub_run (member h j) = g")
        (auto simp: fin sub_inv_def owed_def resting_def dropping_def)
  qed
qed (use inv in \<open>auto simp: run_end_def Let_def\<close>)

interpretation hub_sys: invariant_system hub_step "\<lambda>h. h = newEventHub" hub_inv
proof
  show "hub_inv (hub_step h e)" if "hub_inv h" for h :: "'a eventHub" and e
    using that by (cases e) (auto intro: preserves)
qed (auto intro: newEventHub_inv)

subsection \<open>What a client can rely on\<close>

text \<open>A demonstration run: two clients, one of which leaves.\<close>

definition hub_demo :: "string hub_event list" where
  "hub_demo = [Attach, MarkReady, AttachReady 0, FanoutBegin ''start'', Attach, FanoutFeed, FanoutFeed,
     AttachReady 1, FanoutBegin ''die'', FanoutFeed, TakeEvent 0, FanoutFeed, FanoutFeed]"

text \<open>
  C15: no event is lost silently.  At every moment of every interleaving, what a subscriber
  has been given is an unbroken, duplicate-free initial segment of what its run fanned out
  since it joined, and it is all of it whenever the subscriber is attached and no fan-out is
  under way.  A subscriber that is no longer attached has left by itself, has been told a
  reason, or stands in the list of those about to be told.  A buffer never outgrows its
  bound, and a handler gets past attach only when its run's subscription is live.
\<close>

theorem event_hub_no_gap:
  assumes "h = foldl hub_step newEventHub es" and "i < length (hub_members h)"
  shows "prefix (received (member h i)) (owed h (member h i)) \<and>
    (i \<in> set (hub_subs h) \<and> hub_fan h = None \<longrightarrow>
       received (member h i) = owed h (member h i)) \<and>
    (i \<notin> set (hub_subs h) \<longrightarrow> sub_phase (member h i) = Gone \<or>
       sub_closed (member h i) \<noteq> None \<or> i \<in> set (hub_teardown h)) \<and>
    length (sub_events (member h i)) \<le> 64 \<and>
    (sub_phase (member h i) = Serving \<longrightarrow> run_ready (run_of h (sub_run (member h i))))"
proof -
  have "hub_inv h"
    unfolding assms(1) by (rule hub_sys.start_run_inv) (rule refl)
  then have "sub_inv h i" using assms(2) by (rule hub_invD(3))
  then show ?thesis
    by (auto simp: sub_inv_def resting_def dropping_def eventClientBuffer_def)
qed

lemma event_hub_no_gap_witness:
  "received (member (foldl hub_step newEventHub hub_demo) 0) = [''start'', ''die''] \<and>
   received (member (foldl hub_step newEventHub hub_demo) 1) = [''die''] \<and>
   prefix (received (member (foldl hub_step newEventHub hub_demo) 1))
     (owed (foldl hub_step newEventHub hub_demo) (member (foldl hub_step newEventHub hub_demo) 1))"
proof -
  have "1 < length (hub_members (foldl hub_step newEventHub hub_demo))" by code_simp
  from event_hub_no_gap [OF refl this] show ?thesis by code_simp
qed

text \<open>
  There is one Engine subscription per process and it lives exactly as long as the hub
  says it runs: while the hub runs, its newest run is the only one that is subscribing or
  streaming, and while it does not, none is and no client is attached.  The failure channel of
  a run is closed exactly when the run is over.
\<close>

theorem event_hub_single_subscription:
  assumes "h = foldl hub_step newEventHub es"
  shows "(\<forall>g<length (hub_runs h). run_phase (run_of h g) \<in> {Subscribing, Streaming} \<longleftrightarrow>
            hub_running h \<and> Suc g = length (hub_runs h)) \<and>
    (\<forall>g<length (hub_runs h). run_failed (run_of h g) \<longleftrightarrow> run_phase (run_of h g) = Over) \<and>
    (\<not> hub_running h \<longrightarrow> hub_subs h = []) \<and>
    (\<forall>i\<in>set (hub_subs h). Suc (sub_run (member h i)) = length (hub_runs h))"
proof -
  have inv: "hub_inv h"
    unfolding assms by (rule hub_sys.start_run_inv) (rule refl)
  note sh = hub_invD(1) [OF inv]
  have "run_phase (run_of h g) \<in> {Subscribing, Streaming}"
    if "hub_running h" and "Suc g = length (hub_runs h)" for g
  proof -
    have "length (hub_runs h) - 1 = g" using that(2) by (metis diff_Suc_1)
    with that(1) sh show ?thesis by (auto simp: shape_inv_def)
  qed
  moreover have "hub_running h \<and> Suc g = length (hub_runs h)"
    if "g < length (hub_runs h)" and "run_phase (run_of h g) \<in> {Subscribing, Streaming}" for g
    using that sh by (auto simp: shape_inv_def)
  ultimately show ?thesis
    using sh hub_invD(2) [OF inv] by (auto simp: shape_inv_def run_inv_def lists_inv_def)
qed

lemma event_hub_single_subscription_witness:
  "length (hub_runs (foldl hub_step newEventHub hub_demo)) = 1 \<and>
   run_phase (run_of (foldl hub_step newEventHub hub_demo) 0) \<in> {Subscribing, Streaming}"
proof -
  have "length (hub_runs (foldl hub_step newEventHub hub_demo)) = 1"
    and "hub_running (foldl hub_step newEventHub hub_demo)" by code_simp+
  with event_hub_single_subscription [of "foldl hub_step newEventHub hub_demo" hub_demo] show ?thesis
    by simp
qed

text \<open>
  The window between detach's decision to stop a run and its cancel call.  A client that
  attaches in it joins a run that is about to be stopped: it is served, and then closed with
  the reason of an Engine failure although the Engine never ended the feed, or its attach
  fails outright.
\<close>

theorem event_hub_joins_stopping_run:
  "(\<exists>es. RunEnd True \<notin> set es \<and>
      (let h = foldl hub_step newEventHub (es :: string hub_event list)
       in sub_phase (member h 1) = Serving \<and> sub_closed (member h 1) = Some eventClosedEngine)) \<and>
   (\<exists>es. RunEnd True \<notin> set es \<and> hub_running (foldl hub_step newEventHub (es :: string hub_event list)) \<and>
      (\<exists>es'. RunEnd True \<notin> set es' \<and> Leave 1 \<notin> set es' \<and> CancelRun 0 \<in> set es' \<and>
         (let h = foldl hub_step (foldl hub_step newEventHub es) (Attach # es')
          in sub_phase (member h 1) = Gone)))"
proof
  show "\<exists>es. RunEnd True \<notin> set es \<and>
      (let h = foldl hub_step newEventHub (es :: string hub_event list)
       in sub_phase (member h 1) = Serving \<and> sub_closed (member h 1) = Some eventClosedEngine)"
    by (rule exI [of _ "[Attach, MarkReady, AttachReady 0, Leave 0, Attach, AttachReady 1,
          CancelRun 0, RunEnd False, CloseFailed 0, CloseTorn 1]"]) code_simp
  have "RunEnd True \<notin> set [CancelRun 0, RunEnd False, CloseFailed 0, AttachFailed 1 :: string hub_event] \<and>
      Leave 1 \<notin> set [CancelRun 0, RunEnd False, CloseFailed 0, AttachFailed 1 :: string hub_event] \<and>
      CancelRun 0 \<in> set [CancelRun 0, RunEnd False, CloseFailed 0, AttachFailed 1 :: string hub_event] \<and>
      (let h = foldl hub_step (foldl hub_step newEventHub
           [Attach, MarkReady, AttachReady 0, Leave 0 :: string hub_event])
           (Attach # [CancelRun 0, RunEnd False, CloseFailed 0, AttachFailed 1])
       in sub_phase (member h 1) = Gone)"
    by code_simp
  moreover have "RunEnd True \<notin> set [Attach, MarkReady, AttachReady 0, Leave 0 :: string hub_event] \<and>
      hub_running (foldl hub_step newEventHub [Attach, MarkReady, AttachReady 0, Leave 0 :: string hub_event])"
    by code_simp
  ultimately show "\<exists>es. RunEnd True \<notin> set es \<and>
      hub_running (foldl hub_step newEventHub (es :: string hub_event list)) \<and>
      (\<exists>es'. RunEnd True \<notin> set es' \<and> Leave 1 \<notin> set es' \<and> CancelRun 0 \<in> set es' \<and>
         (let h = foldl hub_step (foldl hub_step newEventHub es) (Attach # es')
          in sub_phase (member h 1) = Gone))"
    by blast
qed

end
