(* ===== verification/GoTime.thy ===== *)
theory GoTime
  imports Prelude
begin

section \<open>What the agent uses of package time\<close>

text \<open>
  time.Parse with the layout RFC3339Nano, as a recogniser (its value is in Calendar): a log request asks whether a
  string parses.  Go's general parser accepts a little more than the RFC: a one-digit hour, a
  comma before the fraction, a fraction of any length, and zone offsets up to 24:60.
\<close>

definition num2 :: "string \<Rightarrow> (int \<times> string) option" where
  "num2 s = (case s of
     a # b # r \<Rightarrow> if is_digit a \<and> is_digit b then Some (digits_value 0 [a, b], r) else None
   | _ \<Rightarrow> None)"

definition num1or2 :: "string \<Rightarrow> (int \<times> string) option" where
  "num1or2 s = (case num2 s of
     Some p \<Rightarrow> Some p
   | None \<Rightarrow> (case s of
       a # r \<Rightarrow> if is_digit a then Some (digits_value 0 [a], r) else None
     | [] \<Rightarrow> None))"

definition expect :: "char \<Rightarrow> string \<Rightarrow> string option" where
  "expect c s = (case s of x # r \<Rightarrow> if x = c then Some r else None | [] \<Rightarrow> None)"

definition leap_year :: "int \<Rightarrow> bool" where
  "leap_year y \<longleftrightarrow> y mod 4 = 0 \<and> (y mod 100 \<noteq> 0 \<or> y mod 400 = 0)"

definition days_in :: "int \<Rightarrow> int \<Rightarrow> int" where
  "days_in m y = (if m = 2 then (if leap_year y then 29 else 28)
     else if m \<in> {4, 6, 9, 11} then 30 else 31)"

definition parse_date :: "string \<Rightarrow> string option" where
  "parse_date s =
     (let yr = take 4 s
      in if length yr < 4 \<or> \<not> list_all is_digit yr then None
         else Option.bind (expect (CHR ''-'') (drop 4 s)) (\<lambda>s1.
              Option.bind (num2 s1) (\<lambda>(m, s2).
              Option.bind (expect (CHR ''-'') s2) (\<lambda>s3.
              Option.bind (num2 s3) (\<lambda>(d, s4).
                if 1 \<le> m \<and> m \<le> 12 \<and> 1 \<le> d \<and> d \<le> days_in m (digits_value 0 yr)
                then Some s4 else None)))))"

definition parse_clock :: "string \<Rightarrow> string option" where
  "parse_clock s =
     Option.bind (num1or2 s) (\<lambda>(h, s1).
     Option.bind (expect (CHR '':'') s1) (\<lambda>s2.
     Option.bind (num2 s2) (\<lambda>(m, s3).
     Option.bind (expect (CHR '':'') s3) (\<lambda>s4.
     Option.bind (num2 s4) (\<lambda>(sec, s5).
       if h < 24 \<and> m < 60 \<and> sec < 60 then Some s5 else None)))))"

definition skip_fraction :: "string \<Rightarrow> string" where
  "skip_fraction s = (case s of
     c # d # r \<Rightarrow>
       if (c = CHR ''.'' \<or> c = CHR '','') \<and> is_digit d then dropWhile is_digit (d # r) else s
   | _ \<Rightarrow> s)"

definition is_zone :: "string \<Rightarrow> bool" where
  "is_zone s \<longleftrightarrow> s = ''Z'' \<or>
     (length s = 6 \<and> (hd s = CHR ''+'' \<or> hd s = CHR ''-'') \<and> s ! 3 = CHR '':'' \<and>
      (case (num2 (drop 1 s), num2 (drop 4 s)) of
         (Some (h, _), Some (m, _)) \<Rightarrow> h \<le> 24 \<and> m \<le> 60
       | _ \<Rightarrow> False))"

definition is_rfc3339nano :: "string \<Rightarrow> bool" where
  "is_rfc3339nano s =
     (case Option.bind (parse_date s) (\<lambda>s1. Option.bind (expect (CHR ''T'') s1) parse_clock) of
        None \<Rightarrow> False
      | Some r \<Rightarrow> is_zone (skip_fraction r))"

lemma is_rfc3339nano_examples:
  "is_rfc3339nano ''2026-07-31T09:08:07.123456789Z''"
  "is_rfc3339nano ''2024-02-29T23:59:59+03:00''"
  "\<not> is_rfc3339nano ''2023-02-29T23:59:59Z''"
  "\<not> is_rfc3339nano ''panic:''"
  by code_simp+

subsection \<open>Formatting\<close>

text \<open>
  time.Unix(sec, 0).UTC().Format(time.RFC3339): the proleptic Gregorian date of a count of
  days since 1970-01-01, and the clock of the rest.
\<close>

definition civil_of_days :: "int \<Rightarrow> int \<times> int \<times> int" where
  "civil_of_days days =
     (let z = days + 719468; era = z div 146097; doe = z mod 146097;
          yoe = (doe - doe div 1460 + doe div 36524 - doe div 146096) div 365;
          doy = doe - (365 * yoe + yoe div 4 - yoe div 100);
          mp = (5 * doy + 2) div 153;
          d = doy - (153 * mp + 2) div 5 + 1;
          m = (if mp < 10 then mp + 3 else mp - 9)
      in (yoe + era * 400 + (if m \<le> 2 then 1 else 0), m, d))"

fun pad_digits :: "nat \<Rightarrow> int \<Rightarrow> string" where
  "pad_digits 0 n = []"
| "pad_digits (Suc k) n = pad_digits k (n div 10) @ [char_of (48 + nat (n mod 10))]"

definition format_year :: "int \<Rightarrow> string" where
  "format_year y = (let a = \<bar>y\<bar> in (if y < 0 then ''-'' else []) @
     pad_digits (if a < 10000 then 4 else if a < 100000 then 5 else if a < 1000000 then 6
                 else if a < 10000000 then 7 else if a < 100000000 then 8 else 9) a)"

definition format_rfc3339 :: "int \<Rightarrow> string" where
  "format_rfc3339 sec =
     (let (y, m, d) = civil_of_days (sec div 86400); t = sec mod 86400
      in format_year y @ ''-'' @ pad_digits 2 m @ ''-'' @ pad_digits 2 d @ ''T'' @
         pad_digits 2 (t div 3600) @ '':'' @ pad_digits 2 (t div 60 mod 60) @ '':'' @
         pad_digits 2 (t mod 60) @ ''Z'')"

lemma format_rfc3339_examples:
  "format_rfc3339 0 = ''1970-01-01T00:00:00Z''"
  "format_rfc3339 1709251199 = ''2024-02-29T23:59:59Z''"
  "format_rfc3339 (-1) = ''1969-12-31T23:59:59Z''"
  by code_simp+

end
