(* ===== verification/Docker.thy ===== *)
theory Docker
  imports Prelude
begin

section \<open>References, errors, protection and self-identification (internal/dockerx, internal/selfid)\<close>

text \<open>
  The boundary checks of the Docker client: the grammar of object references, the sentinel
  errors, the list cap, the operator's protected set and the agent's own identity.
\<close>

subsection \<open>Errors (errors.go)\<close>

text \<open>
  What package errdefs tells about an Engine error, and the agent's sentinels.  An Engine
  error that fits no sentinel is passed on as it is.
\<close>

record engine_error =
  ee_not_found :: bool
  ee_not_modified :: bool
  ee_conflict :: bool

datatype docker_error =
    ErrNotFound | ErrInvalidRef | ErrInvalidSince | ErrSelfProtected | ErrProtectedContainer
  | ErrSelfUnknown | ErrConflict | ErrNotModified | ErrEventFeedClosed
  | EngineFailure engine_error | LogStreamFailure

definition classify :: "engine_error \<Rightarrow> docker_error" where
  "classify e = (if ee_not_found e then ErrNotFound
     else if ee_not_modified e then ErrNotModified
     else if ee_conflict e then ErrConflict
     else EngineFailure e)"

subsection \<open>References (ref.go)\<close>

text \<open>The pattern \<open>^[A-Za-z0-9][A-Za-z0-9_.-]{0,127}$\<close>.\<close>

definition refPattern :: "string \<Rightarrow> bool" where
  "refPattern s \<longleftrightarrow> (case s of [] \<Rightarrow> False
     | c # cs \<Rightarrow> is_alnum c \<and> length cs \<le> 127 \<and> list_all is_ref_char cs)"

definition ValidateRef :: "string \<Rightarrow> docker_error option" where
  "ValidateRef ref = (if \<not> refPattern ref then Some ErrInvalidRef else None)"

text \<open>A path segment that a URL parser could read as more than one segment, or as a move.\<close>

definition path_safe :: "string \<Rightarrow> bool" where
  "path_safe s \<longleftrightarrow> s \<noteq> [] \<and> s \<noteq> ''.'' \<and> s \<noteq> ''..'' \<and>
     (\<forall>c\<in>set s. c \<notin> {CHR ''/'', CHR ''%'', CHR ''?'', CHR ''#'', CHR '':'', CHR 0x5C} \<and>
        32 < byte_of c \<and> byte_of c < 127)"

lemma is_ref_char_safe:
  assumes "is_ref_char c"
  shows "c \<notin> {CHR ''/'', CHR ''%'', CHR ''?'', CHR ''#'', CHR '':'', CHR 0x5C} \<and>
    32 < byte_of c \<and> byte_of c < 127"
  using assms by (auto simp: char_class_defs)

lemma is_alnum_ref_char: "is_alnum c \<Longrightarrow> is_ref_char c"
  by (simp add: is_ref_char_def)

subsection \<open>Lists (list.go)\<close>

definition maxListItems :: nat where "maxListItems = 500"

definition truncate_items :: "'a list \<Rightarrow> 'a list \<times> bool" where
  "truncate_items items = (if maxListItems < length items then (take maxListItems items, True)
     else (items, False))"

lemma truncate_items_eq: "truncate_items xs = (take 500 xs, 500 < length xs)"
  by (simp add: truncate_items_def maxListItems_def)

text \<open>A Go map may be nil; the DTO's never is.\<close>

definition defaultLabels :: "(string, string) gomap option \<Rightarrow> (string, string) gomap" where
  "defaultLabels m = (case m of None \<Rightarrow> [] | Some l \<Rightarrow> l)"

subsection \<open>The operator's protected set (protected.go)\<close>

text \<open>The pattern \<open>^(?:[0-9a-f]{12}|[0-9a-f]{64})$\<close>.\<close>

definition protectedIDPattern :: "string \<Rightarrow> bool" where
  "protectedIDPattern s \<longleftrightarrow> list_all is_lower_hex s \<and> (length s = 12 \<or> length s = 64)"

definition shortIDLength :: nat where "shortIDLength = 12"

record protectedSet =
  ps_names :: "string set"
  ps_ids :: "string set"

definition newProtectedSet :: "string list \<Rightarrow> protectedSet" where
  "newProtectedSet entries =
     foldl (\<lambda>p e. p\<lparr>ps_names := insert e (ps_names p),
                    ps_ids := (if protectedIDPattern e then insert e (ps_ids p) else ps_ids p)\<rparr>)
       \<lparr>ps_names = {}, ps_ids = {}\<rparr> entries"

definition trimContainerName :: "string \<Rightarrow> string" where
  "trimContainerName name = trim_prefix ''/'' name"

definition protected_matches :: "protectedSet \<Rightarrow> string \<Rightarrow> string list \<Rightarrow> bool" where
  "protected_matches p ident names \<longleftrightarrow>
     (if list_ex (\<lambda>n. trimContainerName n \<in> ps_names p) names then True
      else if ident \<in> ps_ids p then True
      else if shortIDLength \<le> length ident \<and> take shortIDLength ident \<in> ps_ids p then True
      else False)"

definition protected_empty :: "protectedSet \<Rightarrow> bool" where
  "protected_empty p \<longleftrightarrow> ps_names p = {}"

lemma newProtectedSet_eq:
  "newProtectedSet es = \<lparr>ps_names = set es, ps_ids = {e \<in> set es. protectedIDPattern e}\<rparr>"
proof -
  have "foldl (\<lambda>p e. p\<lparr>ps_names := insert e (ps_names p),
                    ps_ids := (if protectedIDPattern e then insert e (ps_ids p) else ps_ids p)\<rparr>)
       \<lparr>ps_names = A, ps_ids = B\<rparr> es =
     \<lparr>ps_names = A \<union> set es, ps_ids = B \<union> {e \<in> set es. protectedIDPattern e}\<rparr>" for A B
    by (induction es arbitrary: A B) auto
  then show ?thesis by (simp add: newProtectedSet_def)
qed

text \<open>
  What the operator can rely on: an entry protects the container it names, and, when it has
  the shape of an ID, the containers whose full or 12-digit ID it is; nothing else is
  protected, in particular no ID prefix of another length.
\<close>

definition entry_protects :: "string \<Rightarrow> string \<Rightarrow> string list \<Rightarrow> bool" where
  "entry_protects e ident names \<longleftrightarrow>
     e \<in> trimContainerName ` set names \<or>
     (list_all is_lower_hex e \<and>
       (length e = 64 \<and> ident = e \<or> length e = 12 \<and> prefix e ident))"

lemma prefix_take_eq: "length e = n \<Longrightarrow> prefix e s \<longleftrightarrow> n \<le> length s \<and> take n s = e"
  by (auto simp: prefix_def) (metis append_take_drop_id)

text \<open>
  The protected set matches a container exactly when one of the operator's entries
  protects it, by name, by full ID or by 12-digit short ID, and an empty list protects nothing.
\<close>

theorem protected_matches_spec:
  "protected_matches (newProtectedSet entries) ident names \<longleftrightarrow>
   (\<exists>e\<in>set entries. entry_protects e ident names)"
proof -
  have "ident \<in> ps_ids (newProtectedSet entries) \<or>
      (12 \<le> length ident \<and> take 12 ident \<in> ps_ids (newProtectedSet entries)) \<longleftrightarrow>
      (\<exists>e\<in>set entries. list_all is_lower_hex e \<and>
        (length e = 64 \<and> ident = e \<or> length e = 12 \<and> prefix e ident))"
    by (auto simp: newProtectedSet_eq protectedIDPattern_def prefix_take_eq)
  then show ?thesis
    by (auto simp: protected_matches_def shortIDLength_def entry_protects_def list_ex_iff)
      (auto simp: newProtectedSet_eq)
qed

subsection \<open>The agent's own container (selfid.go, self.go)\<close>

definition hostnameID12Pattern :: "string \<Rightarrow> bool" where
  "hostnameID12Pattern s \<longleftrightarrow> length s = 12 \<and> list_all is_lower_hex s"

text \<open>FindAllString of \<open>[0-9a-f]{64}\<close>: leftmost, non-overlapping.\<close>

function hexIDs_in_text :: "string \<Rightarrow> string list" where
  "hexIDs_in_text s =
     (if length s < 64 then []
      else if list_all is_lower_hex (take 64 s) then take 64 s # hexIDs_in_text (drop 64 s)
      else hexIDs_in_text (tl s))"
  by pat_completeness auto
termination by (relation "measure length") auto

declare hexIDs_in_text.simps [simp del]

text \<open>The files Detect looks at; an unreadable one is absent.\<close>

record self_files =
  sf_dockerenv :: bool
  sf_mountinfo :: "string option"
  sf_cgroup :: "string option"

definition hexIDsIn :: "string option \<Rightarrow> string list" where
  "hexIDsIn file = (case file of None \<Rightarrow> [] | Some data \<Rightarrow> hexIDs_in_text data)"

fun dedupe_loop :: "string list \<Rightarrow> string list \<Rightarrow> string list" where
  "dedupe_loop result [] = result"
| "dedupe_loop result (c # cs) =
     (if c \<in> set result then dedupe_loop result cs else dedupe_loop (result @ [c]) cs)"

definition dedupe :: "string list \<Rightarrow> string list" where
  "dedupe candidates = dedupe_loop [] candidates"

record selfid_result =
  sr_containerized :: bool
  sr_candidates :: "string list"
  sr_override :: string

definition Detect :: "self_files \<Rightarrow> string \<Rightarrow> (string \<Rightarrow> string) \<Rightarrow> selfid_result" where
  "Detect fs override env =
     (let c0 = (if override \<noteq> [] then [override] else []);
          c1 = c0 @ hexIDsIn (sf_mountinfo fs);
          c2 = c1 @ hexIDsIn (sf_cgroup fs);
          hostname = env ''HOSTNAME'';
          c3 = (if hostnameID12Pattern hostname then c2 @ [hostname] else c2)
      in \<lparr>sr_containerized = sf_dockerenv fs, sr_candidates = dedupe c3, sr_override = override\<rparr>)"

record selfInfo =
  si_containerized :: bool
  si_id :: string

text \<open>
  \<open>confirmSelf\<close> keeps the full ID of the first candidate the Engine knows; the Engine's
  answer to an inspect call is a parameter, and may change its state.
\<close>

fun confirmSelf_loop ::
  "(string \<Rightarrow> 'w \<Rightarrow> (engine_error + string) \<times> 'w) \<Rightarrow> bool \<Rightarrow> string list \<Rightarrow> 'w \<Rightarrow> selfInfo \<times> 'w" where
  "confirmSelf_loop inspect containerized [] w = (\<lparr>si_containerized = containerized, si_id = []\<rparr>, w)"
| "confirmSelf_loop inspect containerized (c # cs) w =
     (case inspect c w of
        (Inl e, w') \<Rightarrow> confirmSelf_loop inspect containerized cs w'
      | (Inr ident, w') \<Rightarrow> (\<lparr>si_containerized = containerized, si_id = ident\<rparr>, w'))"

definition confirmSelf ::
  "(string \<Rightarrow> 'w \<Rightarrow> (engine_error + string) \<times> 'w) \<Rightarrow> selfid_result \<Rightarrow> 'w \<Rightarrow> selfInfo \<times> 'w" where
  "confirmSelf inspect detected = confirmSelf_loop inspect (sr_containerized detected) (sr_candidates detected)"

definition resolveSelf ::
  "(string \<Rightarrow> 'w \<Rightarrow> (engine_error + string) \<times> 'w) \<Rightarrow> self_files \<Rightarrow> (string \<Rightarrow> string) \<Rightarrow> string \<Rightarrow>
     'w \<Rightarrow> selfInfo \<times> 'w" where
  "resolveSelf inspect fs env override = confirmSelf inspect (Detect fs override env)"

definition SelfKnown :: "selfInfo \<Rightarrow> bool" where
  "SelfKnown si \<longleftrightarrow> si_id si \<noteq> []"

lemma dedupe_loop_props:
  "distinct result \<Longrightarrow> distinct (dedupe_loop result cs) \<and> set (dedupe_loop result cs) = set result \<union> set cs
     \<and> prefix result (dedupe_loop result cs)"
proof (induction cs arbitrary: result)
  case (Cons c cs)
  show ?case
  proof (cases "c \<in> set result")
    case False
    with Cons.prems have "distinct (result @ [c])" by simp
    from Cons.IH [OF this] False show ?thesis
      by (auto dest: append_prefixD)
  qed (use Cons in auto)
qed simp

lemma hexIDs_in_text_shape: "x \<in> set (hexIDs_in_text s) \<Longrightarrow> length x = 64 \<and> list_all is_lower_hex x"
proof (induction s rule: hexIDs_in_text.induct)
  case (1 s)
  then show ?case
    by (subst (asm) (3) hexIDs_in_text.simps) (auto split: if_splits)
qed

lemma Detect_candidates:
  "distinct (sr_candidates (Detect fs override env)) \<and>
   (override \<noteq> [] \<longrightarrow> hd (sr_candidates (Detect fs override env)) = override) \<and>
   (\<forall>c\<in>set (sr_candidates (Detect fs override env)). c = override \<or>
      list_all is_lower_hex c \<and> length c \<in> {12, 64})"
proof -
  let ?rest = "hexIDsIn (sf_mountinfo fs) @ hexIDsIn (sf_cgroup fs) @
    (if hostnameID12Pattern (env ''HOSTNAME'') then [env ''HOSTNAME''] else [])"
  have eq: "sr_candidates (Detect fs override env) =
      dedupe ((if override \<noteq> [] then [override] else []) @ ?rest)"
    by (simp add: Detect_def Let_def)
  have rest: "\<forall>c\<in>set ?rest. list_all is_lower_hex c \<and> length c \<in> {12, 64}"
    by (auto simp: hexIDsIn_def hostnameID12Pattern_def dest: hexIDs_in_text_shape split: option.splits)
  have "override \<noteq> [] \<Longrightarrow> prefix [override] (dedupe (override # ?rest))"
    using dedupe_loop_props [of "[override]" ?rest] by (simp add: dedupe_def)
  then show ?thesis
    using rest dedupe_loop_props [of "[]" "(if override \<noteq> [] then [override] else []) @ ?rest"]
    unfolding eq dedupe_def by (auto simp: prefix_def)
qed

end
