(* ===== verification/Projection.thy ===== *)
theory Projection
  imports GoTime Docker "HOL-Library.Word"
begin

section \<open>What the agent tells about the host (the projections of internal/dockerx)\<close>

text \<open>
  The Engine's objects as records of the fields the code reads, the DTOs of types.go, and the
  functions between them.  A nil pointer or nil map is \<open>None\<close>; an invalid
  \<open>netip.Addr\<close> is \<open>None\<close> and a valid one its text; a Go map is listed in the
  order in which the range loop visits it.
\<close>

subsection \<open>DTOs (types.go)\<close>

record 'a list_result =
  lr_items :: "'a list"
  lr_truncated :: bool

record port =
  p_ip :: string
  p_private :: "16 word"
  p_public :: "16 word"
  p_protocol :: string

record mount =
  mt_type :: string
  mt_name :: string
  mt_source :: string
  mt_destination :: string
  mt_read_write :: bool

record endpoint_summary =
  es_network_name :: string
  es_network_id :: string
  es_ip_address :: string
  es_gateway :: string
  es_mac_address :: string
  es_aliases :: "string list"

record container_summary =
  cs_id :: string
  cs_names :: "string list"
  cs_image :: string
  cs_image_id :: string
  cs_command :: string
  cs_created_at :: string
  cs_state :: string
  cs_status :: string
  cs_health :: string
  cs_labels :: "(string, string) gomap"
  cs_ports :: "port list"
  cs_protected :: bool

record container_detail =
  cd_id :: string
  cd_name :: string
  cd_image :: string
  cd_image_id :: string
  cd_created_at :: string
  cd_state :: string
  cd_running :: bool
  cd_paused :: bool
  cd_restarting :: bool
  cd_exit_code :: int
  cd_started_at :: string
  cd_finished_at :: string
  cd_health :: string
  cd_restart_count :: int
  cd_restart_policy :: string
  cd_platform :: string
  cd_labels :: "(string, string) gomap"
  cd_command :: string
  cd_args :: "string list"
  cd_entrypoint :: "string list"
  cd_working_dir :: string
  cd_user :: string
  cd_mounts :: "mount list"
  cd_networks :: "endpoint_summary list"
  cd_ports :: "port list"
  cd_protected :: bool

record container_state_summary =
  css_id :: string
  css_name :: string
  css_state :: string
  css_health :: string

record container_event =
  ce_id :: string
  ce_name :: string
  ce_event :: string
  ce_health :: string
  ce_time :: string

record image_summary =
  is_id :: string
  is_parent_id :: string
  is_repo_tags :: "string list"
  is_repo_digests :: "string list"
  is_created_at :: string
  is_size :: int
  is_containers :: int
  is_labels :: "(string, string) gomap"

record image_detail =
  id_id :: string
  id_repo_tags :: "string list"
  id_repo_digests :: "string list"
  id_created_at :: string
  id_size :: int
  id_architecture :: string
  id_os :: string
  id_author :: string
  id_comment :: string

record network_summary =
  ns_id :: string
  ns_name :: string
  ns_driver :: string
  ns_scope :: string
  ns_created_at :: string
  ns_internal :: bool
  ns_enable_ipv6 :: bool
  ns_labels :: "(string, string) gomap"

record network_endpoint =
  ne_container_id :: string
  ne_name :: string
  ne_ipv4 :: string
  ne_ipv6 :: string

record network_detail = network_summary +
  nd_containers :: "network_endpoint list"

record volume_summary =
  vs_name :: string
  vs_driver :: string
  vs_mountpoint :: string
  vs_created_at :: string
  vs_scope :: string
  vs_labels :: "(string, string) gomap"
  vs_size_bytes :: "int option"

subsection \<open>The Engine's objects\<close>

record e_port_summary =
  eps_ip :: "string option"
  eps_private :: "16 word"
  eps_public :: "16 word"
  eps_type :: string

record e_summary =
  esu_id :: string
  esu_names :: "string list"
  esu_image :: string
  esu_image_id :: string
  esu_command :: string
  esu_created :: int
  esu_state :: string
  esu_status :: string
  esu_health :: "string option"
  esu_labels :: "(string, string) gomap option"
  esu_ports :: "e_port_summary list"

record e_mount_point =
  emp_type :: string
  emp_name :: string
  emp_source :: string
  emp_destination :: string
  emp_rw :: bool

record e_state =
  est_status :: string
  est_running :: bool
  est_paused :: bool
  est_restarting :: bool
  est_exit_code :: int
  est_started_at :: string
  est_finished_at :: string
  est_health :: "string option"

record e_config =
  ec_image :: string
  ec_labels :: "(string, string) gomap option"
  ec_working_dir :: string
  ec_user :: string
  ec_entrypoint :: "string list"
  ec_tty :: bool

record e_binding =
  eb_host_ip :: "string option"
  eb_host_port :: string

record e_endpoint =
  ee_network_id :: string
  ee_ip_address :: "string option"
  ee_gateway :: "string option"
  ee_mac_address :: string
  ee_aliases :: "string list"

record e_network_settings =
  ens_networks :: "(string \<times> e_endpoint option) list"
  ens_ports :: "((16 word \<times> string) \<times> e_binding list) list"

record e_inspect =
  ei_id :: string
  ei_name :: string
  ei_image :: string
  ei_created :: string
  ei_path :: string
  ei_args :: "string list"
  ei_platform :: string
  ei_restart_count :: int
  ei_mounts :: "e_mount_point list"
  ei_state :: "e_state option"
  ei_config :: "e_config option"
  ei_restart_policy :: "string option"
  ei_network_settings :: "e_network_settings option"

subsection \<open>Containers (containers.go)\<close>

definition unixToRFC3339 :: "int \<Rightarrow> string" where
  "unixToRFC3339 sec = (if sec = 0 then [] else format_rfc3339 sec)"

definition addr_text :: "string option \<Rightarrow> string" where
  "addr_text a = (case a of None \<Rightarrow> [] | Some s \<Rightarrow> s)"

definition zeroTimeToEmpty :: "string \<Rightarrow> string" where
  "zeroTimeToEmpty ts = (if ts = [] \<or> prefix ''0001'' ts then [] else ts)"

definition toPort :: "e_port_summary \<Rightarrow> port" where
  "toPort p = \<lparr>p_ip = addr_text (eps_ip p), p_private = eps_private p, p_public = eps_public p,
     p_protocol = eps_type p\<rparr>"

definition toMounts :: "e_mount_point list \<Rightarrow> mount list" where
  "toMounts ms = map (\<lambda>m. \<lparr>mt_type = emp_type m, mt_name = emp_name m, mt_source = emp_source m,
     mt_destination = emp_destination m, mt_read_write = emp_rw m\<rparr>) ms"

text \<open>strconv.ParseUint(s, 10, 16), and zero where it fails.\<close>

definition host_port :: "string \<Rightarrow> 16 word" where
  "host_port s = (if s \<noteq> [] \<and> list_all is_digit s \<and> digits_value 0 s < 65536
     then of_int (digits_value 0 s) else 0)"

definition toPortsFromPortMap :: "((16 word \<times> string) \<times> e_binding list) list \<Rightarrow> port list" where
  "toPortsFromPortMap ports = concat (map (\<lambda>((num, proto), bindings).
     if bindings = [] then [\<lparr>p_ip = [], p_private = num, p_public = 0, p_protocol = proto\<rparr>]
     else map (\<lambda>b. \<lparr>p_ip = addr_text (eb_host_ip b), p_private = num,
                    p_public = host_port (eb_host_port b), p_protocol = proto\<rparr>) bindings) ports)"

definition toEndpointSummaries :: "(string \<times> e_endpoint option) list \<Rightarrow> endpoint_summary list" where
  "toEndpointSummaries nets = concat (map (\<lambda>(name, ep). case ep of
       None \<Rightarrow> []
     | Some e \<Rightarrow> [\<lparr>es_network_name = name, es_network_id = ee_network_id e,
         es_ip_address = addr_text (ee_ip_address e), es_gateway = addr_text (ee_gateway e),
         es_mac_address = ee_mac_address e, es_aliases = ee_aliases e\<rparr>]) nets)"

definition toContainerSummary :: "e_summary \<Rightarrow> string \<Rightarrow> protectedSet \<Rightarrow> container_summary" where
  "toContainerSummary s selfID prot =
     \<lparr>cs_id = esu_id s, cs_names = esu_names s, cs_image = esu_image s, cs_image_id = esu_image_id s,
      cs_command = esu_command s, cs_created_at = unixToRFC3339 (esu_created s),
      cs_state = esu_state s, cs_status = esu_status s,
      cs_health = (case esu_health s of None \<Rightarrow> [] | Some h \<Rightarrow> h),
      cs_labels = defaultLabels (esu_labels s), cs_ports = map toPort (esu_ports s),
      cs_protected = (esu_id s = selfID \<and> selfID \<noteq> []) \<or>
        protected_matches prot (esu_id s) (esu_names s)\<rparr>"

definition toContainerDetail :: "e_inspect \<Rightarrow> string \<Rightarrow> protectedSet \<Rightarrow> container_detail" where
  "toContainerDetail r selfID prot =
     (let d0 = \<lparr>cd_id = ei_id r, cd_name = ei_name r, cd_image = [], cd_image_id = ei_image r,
            cd_created_at = ei_created r, cd_state = [], cd_running = False, cd_paused = False,
            cd_restarting = False, cd_exit_code = 0, cd_started_at = [], cd_finished_at = [],
            cd_health = [], cd_restart_count = ei_restart_count r, cd_restart_policy = [],
            cd_platform = ei_platform r, cd_labels = [], cd_command = ei_path r, cd_args = ei_args r,
            cd_entrypoint = [], cd_working_dir = [], cd_user = [], cd_mounts = toMounts (ei_mounts r),
            cd_networks = [], cd_ports = [],
            cd_protected = (ei_id r = selfID \<and> selfID \<noteq> []) \<or>
              protected_matches prot (ei_id r) [ei_name r]\<rparr>;
          d1 = (case ei_state r of None \<Rightarrow> d0
            | Some st \<Rightarrow> d0\<lparr>cd_state := est_status st, cd_running := est_running st,
                cd_paused := est_paused st, cd_restarting := est_restarting st,
                cd_exit_code := est_exit_code st,
                cd_started_at := zeroTimeToEmpty (est_started_at st),
                cd_finished_at := zeroTimeToEmpty (est_finished_at st),
                cd_health := (case est_health st of None \<Rightarrow> [] | Some h \<Rightarrow> h)\<rparr>);
          d2 = (case ei_config r of None \<Rightarrow> d1
            | Some c \<Rightarrow> d1\<lparr>cd_image := ec_image c, cd_labels := defaultLabels (ec_labels c),
                cd_working_dir := ec_working_dir c, cd_user := ec_user c,
                cd_entrypoint := ec_entrypoint c\<rparr>);
          d3 = (case ei_restart_policy r of None \<Rightarrow> d2 | Some p \<Rightarrow> d2\<lparr>cd_restart_policy := p\<rparr>)
      in (case ei_network_settings r of None \<Rightarrow> d3
          | Some n \<Rightarrow> d3\<lparr>cd_networks := toEndpointSummaries (ens_networks n),
              cd_ports := toPortsFromPortMap (ens_ports n)\<rparr>))"

lemma toContainerDetail_identity:
  "cd_id (toContainerDetail r selfID prot) = ei_id r"
  "cd_name (toContainerDetail r selfID prot) = ei_name r"
  "cd_protected (toContainerDetail r selfID prot) \<longleftrightarrow>
     (ei_id r = selfID \<and> selfID \<noteq> []) \<or> protected_matches prot (ei_id r) [ei_name r]"
  by (simp_all add: toContainerDetail_def Let_def split: option.splits)

definition containerHasTTY :: "e_inspect \<Rightarrow> bool" where
  "containerHasTTY r = (case ei_config r of None \<Rightarrow> False | Some c \<Rightarrow> ec_tty c)"

subsection \<open>Images, networks and volumes\<close>

record e_image_summary =
  eis_id :: string
  eis_parent_id :: string
  eis_repo_tags :: "string list"
  eis_repo_digests :: "string list"
  eis_created :: int
  eis_size :: int
  eis_containers :: int
  eis_labels :: "(string, string) gomap option"

record e_image_inspect =
  eii_id :: string
  eii_repo_tags :: "string list"
  eii_repo_digests :: "string list"
  eii_created :: string
  eii_size :: int
  eii_architecture :: string
  eii_os :: string
  eii_author :: string
  eii_comment :: string

record e_network =
  en_id :: string
  en_name :: string
  en_driver :: string
  en_scope :: string
  en_created :: int
  en_internal :: bool
  en_enable_ipv6 :: bool
  en_labels :: "(string, string) gomap option"

record e_net_endpoint =
  ene_name :: string
  ene_ipv4 :: "string option"
  ene_ipv6 :: "string option"

record e_volume =
  ev_name :: string
  ev_driver :: string
  ev_mountpoint :: string
  ev_created_at :: string
  ev_scope :: string
  ev_labels :: "(string, string) gomap option"
  ev_usage_size :: "int option"

definition toImageSummary :: "e_image_summary \<Rightarrow> image_summary" where
  "toImageSummary s = \<lparr>is_id = eis_id s, is_parent_id = eis_parent_id s,
     is_repo_tags = eis_repo_tags s, is_repo_digests = eis_repo_digests s,
     is_created_at = unixToRFC3339 (eis_created s), is_size = eis_size s,
     is_containers = eis_containers s, is_labels = defaultLabels (eis_labels s)\<rparr>"

definition toImageDetail :: "e_image_inspect \<Rightarrow> image_detail" where
  "toImageDetail r = \<lparr>id_id = eii_id r, id_repo_tags = eii_repo_tags r,
     id_repo_digests = eii_repo_digests r, id_created_at = eii_created r, id_size = eii_size r,
     id_architecture = eii_architecture r, id_os = eii_os r, id_author = eii_author r,
     id_comment = eii_comment r\<rparr>"

text \<open>The creation time of a network is a time.Time, here its Unix seconds.\<close>

definition toNetworkSummary :: "e_network \<Rightarrow> network_summary" where
  "toNetworkSummary n = \<lparr>ns_id = en_id n, ns_name = en_name n, ns_driver = en_driver n,
     ns_scope = en_scope n, ns_created_at = format_rfc3339 (en_created n),
     ns_internal = en_internal n, ns_enable_ipv6 = en_enable_ipv6 n,
     ns_labels = defaultLabels (en_labels n)\<rparr>"

definition toNetworkEndpoint :: "string \<Rightarrow> e_net_endpoint \<Rightarrow> network_endpoint" where
  "toNetworkEndpoint cid ep = \<lparr>ne_container_id = cid, ne_name = ene_name ep,
     ne_ipv4 = addr_text (ene_ipv4 ep), ne_ipv6 = addr_text (ene_ipv6 ep)\<rparr>"

definition toNetworkDetail :: "e_network \<Rightarrow> (string \<times> e_net_endpoint) list \<Rightarrow> network_detail" where
  "toNetworkDetail n containers = network_summary.extend (toNetworkSummary n)
     (network_detail.fields (map (\<lambda>(cid, ep). toNetworkEndpoint cid ep) containers))"

definition toVolumeSummary :: "e_volume \<Rightarrow> volume_summary" where
  "toVolumeSummary v = \<lparr>vs_name = ev_name v, vs_driver = ev_driver v, vs_mountpoint = ev_mountpoint v,
     vs_created_at = ev_created_at v, vs_scope = ev_scope v, vs_labels = defaultLabels (ev_labels v),
     vs_size_bytes = ev_usage_size v\<rparr>"

subsection \<open>Events (events.go)\<close>

text \<open>
  The Engine's action constants as constructors; any other action, among them a health action
  followed by free-form output, is \<open>OtherAction\<close>.
\<close>

datatype e_action =
  ActHealthy | ActUnhealthy | ActDie | ActStart | ActStop | ActOOM | OtherAction string

record e_message =
  em_is_container :: bool
  em_action :: e_action
  em_actor_id :: string
  em_attributes :: "(string, string) gomap"
  em_time :: int
  em_time_nano :: int

definition eventHealthStatus :: string where "eventHealthStatus = ''health_status''"

fun eventActions :: "e_action \<Rightarrow> string option" where
  "eventActions ActHealthy = Some eventHealthStatus"
| "eventActions ActUnhealthy = Some eventHealthStatus"
| "eventActions ActDie = Some ''die''"
| "eventActions ActStart = Some ''start''"
| "eventActions ActStop = Some ''stop''"
| "eventActions ActOOM = Some ''oom''"
| "eventActions (OtherAction s) = None"

fun eventHealthByAction :: "e_action \<Rightarrow> string" where
  "eventHealthByAction ActHealthy = ''healthy''"
| "eventHealthByAction ActUnhealthy = ''unhealthy''"
| "eventHealthByAction _ = []"

definition eventTime :: "e_message \<Rightarrow> string" where
  "eventTime msg =
     (if em_time_nano msg \<noteq> 0 then format_rfc3339 (em_time_nano msg div 1000000000)
      else if em_time msg \<noteq> 0 then format_rfc3339 (em_time msg)
      else [])"

definition toContainerEvent :: "e_message \<Rightarrow> container_event option" where
  "toContainerEvent msg =
     (if \<not> em_is_container msg then None
      else case eventActions (em_action msg) of
          None \<Rightarrow> None
        | Some action \<Rightarrow> Some
            \<lparr>ce_id = em_actor_id msg,
             ce_name = trimContainerName (gm_get_or [] (em_attributes msg) ''name''),
             ce_event = action, ce_health = eventHealthByAction (em_action msg),
             ce_time = eventTime msg\<rparr>)"

definition healthOrNone :: "string option \<Rightarrow> string" where
  "healthOrNone h = (case h of None \<Rightarrow> ''none''
     | Some s \<Rightarrow> if s \<in> {''none'', ''starting'', ''healthy'', ''unhealthy''} then s else ''none'')"

definition toContainerStateSummary :: "e_summary \<Rightarrow> container_state_summary" where
  "toContainerStateSummary s =
     \<lparr>css_id = esu_id s,
      css_name = (case esu_names s of [] \<Rightarrow> [] | n # _ \<Rightarrow> trimContainerName n),
      css_state = esu_state s, css_health = healthOrNone (esu_health s)\<rparr>"

text \<open>
  The event projection is an allowlist.  Only container events of the six known actions
  are forwarded, with one of five event names and one of three health values; the result
  depends on nothing of a message but its actor, its action, its time and its name attribute,
  so no label and no health check output can reach a client.
\<close>

theorem event_allowlist:
  "(case toContainerEvent msg of
      None \<Rightarrow> (if em_is_container msg then \<exists>s. em_action msg = OtherAction s else True)
    | Some ev \<Rightarrow> em_is_container msg \<and>
        ce_event ev \<in> {''health_status'', ''die'', ''start'', ''stop'', ''oom''} \<and>
        ce_health ev \<in> {[], ''healthy'', ''unhealthy''} \<and>
        (ce_health ev \<noteq> [] \<longleftrightarrow> ce_event ev = ''health_status'')) \<and>
   toContainerEvent (msg\<lparr>em_attributes := [(''name'', gm_get_or [] (em_attributes msg) ''name'')]\<rparr>) =
     toContainerEvent msg"
  by (cases "em_action msg")
    (auto simp: toContainerEvent_def eventHealthStatus_def eventTime_def gm_get_or_def)

end
