(* ===== verification/Framing.thy ===== *)
theory Framing
  imports GoTime
begin

section \<open>Docker's log framing (internal/dockerx/framing.go)\<close>

text \<open>
  Bytes are characters.  The reader is the bytes it still holds and the error it reports
  after them; the callback \<open>emit\<close> threads a state of its own and may fail.
\<close>

subsection \<open>Frames\<close>

definition frameHeaderLen :: nat where "frameHeaderLen = 8"
definition maxLogLineBytes :: nat where "maxLogLineBytes = 8192"
definition maxFramePayloadBytes :: nat where "maxFramePayloadBytes = 1048576"
definition streamStdout :: string where "streamStdout = ''stdout''"
definition streamStderr :: string where "streamStderr = ''stderr''"

datatype read_error = EOF | UnexpectedEOF | ReadFault
datatype frame_error = FrameRead read_error | UnknownStream nat | FrameTooLarge nat

record reader =
  rd_bytes :: string
  rd_end :: read_error

text \<open>io.ReadFull: all the bytes, the reader's own error where there are none, or a cut.\<close>

definition read_full :: "nat \<Rightarrow> reader \<Rightarrow> read_error + (string \<times> reader)" where
  "read_full n r =
     (if n \<le> length (rd_bytes r) then Inr (take n (rd_bytes r), r\<lparr>rd_bytes := drop n (rd_bytes r)\<rparr>)
      else if rd_bytes r = [] then Inl (rd_end r)
      else if rd_end r = EOF then Inl UnexpectedEOF
      else Inl (rd_end r))"

definition be32 :: "string \<Rightarrow> nat" where
  "be32 bs = foldl (\<lambda>n b. n * 256 + byte_of b) 0 bs"

definition readFrame :: "reader \<Rightarrow> frame_error + (string \<times> string \<times> reader)" where
  "readFrame r =
     (case read_full frameHeaderLen r of
        Inl e \<Rightarrow> Inl (FrameRead e)
      | Inr (header, r1) \<Rightarrow>
          let kind = byte_of (header ! 0); size = be32 (drop 4 header)
          in if kind \<noteq> 1 \<and> kind \<noteq> 2 then Inl (UnknownStream kind)
             else let stream = (if kind = 1 then streamStdout else streamStderr)
                  in if maxFramePayloadBytes < size then Inl (FrameTooLarge size)
                     else if size = 0 then Inr (stream, [], r1)
                     else (case read_full size r1 of
                             Inl e \<Rightarrow> Inl (FrameRead (if e = EOF then UnexpectedEOF else e))
                           | Inr (payload, r2) \<Rightarrow> Inr (stream, payload, r2)))"

subsection \<open>Lines\<close>

record log_line =
  ll_timestamp :: string
  ll_stream :: string
  ll_line :: string
  ll_truncated :: bool

type_synonym ('s, 'e) emit = "log_line \<Rightarrow> 's \<Rightarrow> 'e option \<times> 's"

definition nl :: char where "nl = CHR 0x0A"

definition extractTimestamp :: "string \<Rightarrow> string \<times> string" where
  "extractTimestamp line =
     (case cut (CHR '' '') line of
        None \<Rightarrow> ([], line)
      | Some (pre, rest) \<Rightarrow> if is_rfc3339nano pre then (pre, rest) else ([], line))"

definition mk_line :: "string \<Rightarrow> string \<Rightarrow> bool \<Rightarrow> log_line" where
  "mk_line stream bytes truncated =
     (let (ts, rest) = extractTimestamp (trim_suffix [CHR 0x0D] bytes)
      in \<lparr>ll_timestamp = ts, ll_stream = stream, ll_line = rest, ll_truncated = truncated\<rparr>)"

definition emitLine ::
  "string \<Rightarrow> string \<Rightarrow> bool \<Rightarrow> ('s, 'e) emit \<Rightarrow> 's \<Rightarrow> 'e option \<times> 's" where
  "emitLine stream bytes truncated emit s = emit (mk_line stream bytes truncated) s"

record line_state =
  ls_buf :: string
  ls_discarding :: bool

definition new_line_state :: line_state where
  "new_line_state = \<lparr>ls_buf = [], ls_discarding = False\<rparr>"

text \<open>The chunk up to the next newline, the rest of the data, and whether there was one.\<close>

definition next_chunk :: "string \<Rightarrow> string \<times> string \<times> bool" where
  "next_chunk data = (case cut nl data of
     Some (chunk, rest) \<Rightarrow> (chunk, rest, True) | None \<Rightarrow> (data, [], False))"

lemma next_chunk_shorter:
  assumes "next_chunk data = (chunk, rest, has)" and "data \<noteq> []"
  shows "length rest < length data"
  using assms by (auto simp: next_chunk_def dest: cut_Some_append split: option.splits)

text \<open>The loop of \<open>push\<close> on the state of one stream.\<close>

function push_loop ::
  "string \<Rightarrow> ('s, 'e) emit \<Rightarrow> line_state \<Rightarrow> string \<Rightarrow> 's \<Rightarrow> 'e option \<times> line_state \<times> 's" where
  "push_loop stream emit st data s =
     (if data = [] then (None, st, s)
      else let (chunk, rest, has) = next_chunk data
           in if ls_discarding st
              then push_loop stream emit (if has then st\<lparr>ls_discarding := False\<rparr> else st) rest s
              else let space = maxLogLineBytes - length (ls_buf st);
                       buf = ls_buf st @ take space chunk
                   in if space < length chunk
                      then (case emitLine stream buf True emit s of
                              (Some e, s') \<Rightarrow> (Some e, st\<lparr>ls_buf := buf\<rparr>, s')
                            | (None, s') \<Rightarrow>
                                push_loop stream emit
                                  (st\<lparr>ls_buf := [], ls_discarding := \<not> has\<rparr>) rest s')
                      else if has
                      then (case emitLine stream buf False emit s of
                              (Some e, s') \<Rightarrow> (Some e, st\<lparr>ls_buf := buf\<rparr>, s')
                            | (None, s') \<Rightarrow> push_loop stream emit (st\<lparr>ls_buf := []\<rparr>) rest s')
                      else push_loop stream emit (st\<lparr>ls_buf := buf\<rparr>) rest s)"
  by pat_completeness auto
termination
  by (relation "measure (\<lambda>(stream, emit, st, data, s). length data)")
    (auto dest: next_chunk_shorter [OF sym])

declare push_loop.simps [simp del]

type_synonym splitter = "(string, line_state) gomap"

definition newLineSplitter :: splitter where
  "newLineSplitter = []"

definition splitter_state :: "splitter \<Rightarrow> string \<Rightarrow> line_state" where
  "splitter_state sp stream = gm_get_or new_line_state sp stream"

definition push ::
  "splitter \<Rightarrow> string \<Rightarrow> string \<Rightarrow> ('s, 'e) emit \<Rightarrow> 's \<Rightarrow> 'e option \<times> splitter \<times> 's" where
  "push sp stream payload emit s =
     (let (err, st, s') = push_loop stream emit (splitter_state sp stream) payload s
      in (err, gm_put stream st sp, s'))"

text \<open>Go visits the map in an arbitrary order, which is an argument here.\<close>

fun flush ::
  "string list \<Rightarrow> splitter \<Rightarrow> ('s, 'e) emit \<Rightarrow> 's \<Rightarrow> 'e option \<times> splitter \<times> 's" where
  "flush [] sp emit s = (None, sp, s)"
| "flush (stream # order) sp emit s =
     (let st = splitter_state sp stream
      in if ls_buf st = [] then flush order sp emit s
         else (case emitLine stream (ls_buf st) False emit s of
                 (Some e, s') \<Rightarrow> (Some e, sp, s')
               | (None, s') \<Rightarrow> flush order (gm_put stream (st\<lparr>ls_buf := []\<rparr>) sp) emit s'))"

subsection \<open>What the splitter promises\<close>

text \<open>
  The specification: the bytes of one stream, split at newlines; a line longer than the bound
  is cut there and marked; an unterminated last line counts unless it is empty.
\<close>

type_synonym raw_line = "string \<times> bool"

definition bounded_line :: "string \<Rightarrow> raw_line" where
  "bounded_line l = (take maxLogLineBytes l, maxLogLineBytes < length l)"

definition whole_lines :: "string \<Rightarrow> string list" where
  "whole_lines bs = butlast (split_on nl bs)"

definition open_line :: "string \<Rightarrow> string" where
  "open_line bs = last (split_on nl bs)"

definition spec_lines :: "string \<Rightarrow> raw_line list" where
  "spec_lines bs = map bounded_line (whole_lines bs) @
     (if open_line bs = [] then [] else [bounded_line (open_line bs)])"

text \<open>What has been emitted after some bytes: an overlong open line is emitted at once.\<close>

definition lines_so_far :: "string \<Rightarrow> raw_line list" where
  "lines_so_far bs = map bounded_line (whole_lines bs) @
     (if maxLogLineBytes < length (open_line bs) then [bounded_line (open_line bs)] else [])"

definition state_after :: "string \<Rightarrow> line_state" where
  "state_after bs =
     (if maxLogLineBytes < length (open_line bs)
      then \<lparr>ls_buf = [], ls_discarding = True\<rparr>
      else \<lparr>ls_buf = open_line bs, ls_discarding = False\<rparr>)"

text \<open>Giving lines to a callback, up to its first error.\<close>

fun feed :: "('s, 'e) emit \<Rightarrow> log_line list \<Rightarrow> 's \<Rightarrow> 'e option \<times> 's" where
  "feed emit [] s = (None, s)"
| "feed emit (l # ls) s =
     (case emit l s of (Some e, s') \<Rightarrow> (Some e, s') | (None, s') \<Rightarrow> feed emit ls s')"

lemma feed_append:
  "feed emit (ls @ ms) s =
     (case feed emit ls s of (Some e, s') \<Rightarrow> (Some e, s') | (None, s') \<Rightarrow> feed emit ms s')"
  by (induction ls arbitrary: s) (auto split: prod.splits option.splits)

definition to_line :: "string \<Rightarrow> raw_line \<Rightarrow> log_line" where
  "to_line stream r = mk_line stream (fst r) (snd r)"

lemma split_on_append_chunk:
  "c \<notin> set ys \<Longrightarrow> split_on c (xs @ ys) = butlast (split_on c xs) @ [last (split_on c xs) @ ys]"
proof (induction xs)
  case (Cons x xs)
  obtain p ps where ps: "split_on c xs = p # ps" by (cases "split_on c xs") auto
  with Cons show ?case by (cases ps) auto
qed (simp add: split_on_none)

lemma split_on_append_sep_gen:
  "split_on c (xs @ c # ys) = split_on c xs @ split_on c ys"
  by (induction xs) (auto split: list.splits)

lemma lines_chunk:
  assumes "nl \<notin> set chunk"
  shows "whole_lines (bs @ chunk) = whole_lines bs"
    and "open_line (bs @ chunk) = open_line bs @ chunk"
    and "whole_lines (bs @ chunk @ [nl]) = whole_lines bs @ [open_line bs @ chunk]"
    and "open_line (bs @ chunk @ [nl]) = []"
proof -
  have s: "split_on nl (bs @ chunk @ [nl]) = split_on nl (bs @ chunk) @ [[]]"
    using split_on_append_sep_gen [of nl "bs @ chunk" "[]"] by simp
  show "whole_lines (bs @ chunk) = whole_lines bs"
    and "open_line (bs @ chunk) = open_line bs @ chunk"
    and "whole_lines (bs @ chunk @ [nl]) = whole_lines bs @ [open_line bs @ chunk]"
    and "open_line (bs @ chunk @ [nl]) = []"
    unfolding whole_lines_def open_line_def s using assms
    by (simp_all add: split_on_append_chunk butlast_append)
qed

lemma next_chunk_cases:
  assumes "next_chunk data = (chunk, rest, has)"
  shows "nl \<notin> set chunk" and "data = chunk @ (if has then nl # rest else rest)"
    and "\<not> has \<Longrightarrow> rest = []"
proof -
  have "nl \<notin> set (takeWhile (\<lambda>x. x \<noteq> nl) data)" by (auto dest: set_takeWhileD)
  with assms show "nl \<notin> set chunk"
    by (auto simp: next_chunk_def cut_def split: if_splits)
  show "data = chunk @ (if has then nl # rest else rest)" and "\<not> has \<Longrightarrow> rest = []"
    using assms by (auto simp: next_chunk_def dest: cut_Some_append split: option.splits)
qed

text \<open>One chunk: which lines it completes, and the state it leaves.\<close>

definition chunk_lines :: "string \<Rightarrow> string \<Rightarrow> bool \<Rightarrow> raw_line list" where
  "chunk_lines bs chunk has =
     (if maxLogLineBytes < length (open_line bs) then []
      else if maxLogLineBytes < length (open_line bs @ chunk) \<or> has
      then [bounded_line (open_line bs @ chunk)] else [])"

definition chunk_bytes :: "string \<Rightarrow> bool \<Rightarrow> string" where
  "chunk_bytes chunk has = chunk @ (if has then [nl] else [])"

lemma bounded_line_long:
  "maxLogLineBytes < length l \<Longrightarrow> bounded_line (l @ m) = bounded_line l"
  by (simp add: bounded_line_def)

lemma lines_so_far_chunk:
  assumes "nl \<notin> set chunk"
  shows "lines_so_far (bs @ chunk_bytes chunk has) = lines_so_far bs @ chunk_lines bs chunk has"
  using lines_chunk [OF assms, of bs]
  by (cases has) (auto simp: lines_so_far_def chunk_lines_def chunk_bytes_def bounded_line_long)

lemma state_after_chunk:
  assumes "nl \<notin> set chunk"
  shows "state_after (bs @ chunk_bytes chunk has) =
    (if has then new_line_state
     else if maxLogLineBytes < length (open_line bs @ chunk) then \<lparr>ls_buf = [], ls_discarding = True\<rparr>
     else \<lparr>ls_buf = open_line bs @ chunk, ls_discarding = False\<rparr>)"
  using lines_chunk [OF assms, of bs]
  by (cases has) (simp_all add: state_after_def chunk_bytes_def new_line_state_def)

definition new_lines :: "string \<Rightarrow> string \<Rightarrow> raw_line list" where
  "new_lines bs data = drop (length (lines_so_far bs)) (lines_so_far (bs @ data))"

lemma lines_so_far_extends: "\<exists>ms. lines_so_far (bs @ data) = lines_so_far bs @ ms"
proof (induction "length data" arbitrary: bs data rule: less_induct)
  case less
  show ?case
  proof (cases "data = []")
    case False
    obtain chunk rest has where n: "next_chunk data = (chunk, rest, has)" by (metis surj_pair)
    have data: "data = chunk_bytes chunk has @ rest"
      using next_chunk_cases(2) [OF n] by (simp add: chunk_bytes_def)
    obtain ms where "lines_so_far ((bs @ chunk_bytes chunk has) @ rest) =
        lines_so_far (bs @ chunk_bytes chunk has) @ ms"
      using less [OF next_chunk_shorter [OF n False]] by blast
    then show ?thesis
      using lines_so_far_chunk [OF next_chunk_cases(1) [OF n]] by (simp add: data)
  qed simp
qed

lemma new_lines_eq: "lines_so_far (bs @ data) = lines_so_far bs @ new_lines bs data"
  using lines_so_far_extends [of bs data] by (auto simp: new_lines_def)

lemma new_lines_step:
  assumes "next_chunk data = (chunk, rest, has)"
  shows "new_lines bs data = chunk_lines bs chunk has @ new_lines (bs @ chunk_bytes chunk has) rest"
proof -
  have data: "data = chunk_bytes chunk has @ rest"
    using next_chunk_cases(2) [OF assms] by (simp add: chunk_bytes_def)
  have "lines_so_far bs @ new_lines bs data =
      lines_so_far bs @ chunk_lines bs chunk has @ new_lines (bs @ chunk_bytes chunk has) rest"
    using new_lines_eq [of bs data] new_lines_eq [of "bs @ chunk_bytes chunk has" rest]
      lines_so_far_chunk [OF next_chunk_cases(1) [OF assms], of bs has]
    by (simp add: data)
  then show ?thesis by simp
qed

text \<open>The loop emits exactly the lines that its data completes, up to the first error.\<close>

lemma push_loop_feed:
  "case feed emit (map (to_line stream) (new_lines bs data)) s of
     (None, s') \<Rightarrow> push_loop stream emit (state_after bs) data s = (None, state_after (bs @ data), s')
   | (Some e, s') \<Rightarrow> \<exists>st. push_loop stream emit (state_after bs) data s = (Some e, st, s')"
proof (induction "length data" arbitrary: bs data s rule: less_induct)
  case less
  show ?case
  proof (cases "data = []")
    case True
    then show ?thesis by (simp add: push_loop.simps new_lines_def)
  next
    case False
    obtain chunk rest has where n: "next_chunk data = (chunk, rest, has)" by (metis surj_pair)
    note nc = next_chunk_cases [OF n]
    let ?bs = "bs @ chunk_bytes chunk has"
    have data: "data = chunk_bytes chunk has @ rest"
      using nc(2) by (simp add: chunk_bytes_def)
    have app: "?bs @ rest = bs @ data" by (simp add: data)
    have IH: "case feed emit (map (to_line stream) (new_lines ?bs rest)) s' of
        (None, s'') \<Rightarrow> push_loop stream emit (state_after ?bs) rest s' = (None, state_after (bs @ data), s'')
      | (Some e, s'') \<Rightarrow> \<exists>st. push_loop stream emit (state_after ?bs) rest s' = (Some e, st, s'')" for s'
      using less [OF next_chunk_shorter [OF n False], of ?bs s'] unfolding app .
    note step = new_lines_step [OF n, of bs] and st = state_after_chunk [OF nc(1), of bs has]
      and loop = push_loop.simps [of stream emit "state_after bs" data s]
    have emit_step: ?thesis
      if e: "push_loop stream emit (state_after bs) data s =
          (case emit (to_line stream r) s of
             (Some e, s') \<Rightarrow> (Some e, st0, s')
           | (None, s') \<Rightarrow> push_loop stream emit (state_after ?bs) rest s')"
        and r: "new_lines bs data = r # new_lines ?bs rest" for r st0
    proof -
      obtain err s' where em: "emit (to_line stream r) s = (err, s')" by fastforce
      from IH [of s'] show ?thesis
        unfolding e r by (cases err) (auto simp: em split: option.splits prod.splits)
    qed
    consider (disc) "maxLogLineBytes < length (open_line bs)"
      | (over) "length (open_line bs) \<le> maxLogLineBytes" "maxLogLineBytes < length (open_line bs @ chunk)"
      | (line) "length (open_line bs @ chunk) \<le> maxLogLineBytes" "has"
      | (part) "length (open_line bs @ chunk) \<le> maxLogLineBytes" "\<not> has"
      by (auto simp: not_le [symmetric])
    then show ?thesis
    proof cases
      case disc
      then have e: "push_loop stream emit (state_after bs) data s = push_loop stream emit (state_after ?bs) rest s"
        using False n st
        by (subst loop) (auto simp: state_after_def [of bs] new_line_state_def)
      from disc IH [of s] show ?thesis unfolding e by (simp add: step chunk_lines_def)
    next
      case over
      have buf: "open_line bs @ take (maxLogLineBytes - length (open_line bs)) chunk =
          take maxLogLineBytes (open_line bs @ chunk)"
        using over(1) by simp
      have "push_loop stream emit (state_after bs) data s =
          (case emit (to_line stream (bounded_line (open_line bs @ chunk))) s of
             (Some e, s') \<Rightarrow> (Some e, \<lparr>ls_buf = take maxLogLineBytes (open_line bs @ chunk), ls_discarding = False\<rparr>, s')
           | (None, s') \<Rightarrow> push_loop stream emit (state_after ?bs) rest s')"
        using False n st over buf
        by (subst loop)
          (auto simp: state_after_def [of bs] new_line_state_def emitLine_def to_line_def bounded_line_def
            Let_def split: prod.splits option.splits)
      then show ?thesis by (rule emit_step) (use over in \<open>simp add: step chunk_lines_def\<close>)
    next
      case line
      then have le: "length (open_line bs) \<le> maxLogLineBytes" by simp
      have "push_loop stream emit (state_after bs) data s =
          (case emit (to_line stream (bounded_line (open_line bs @ chunk))) s of
             (Some e, s') \<Rightarrow> (Some e, \<lparr>ls_buf = open_line bs @ chunk, ls_discarding = False\<rparr>, s')
           | (None, s') \<Rightarrow> push_loop stream emit (state_after ?bs) rest s')"
        using False n st line le
        by (subst loop)
          (auto simp: state_after_def [of bs] new_line_state_def emitLine_def to_line_def bounded_line_def
            Let_def split: prod.splits option.splits)
      then show ?thesis by (rule emit_step) (use line le in \<open>simp add: step chunk_lines_def\<close>)
    next
      case part
      then have le: "length (open_line bs) \<le> maxLogLineBytes" by simp
      have e: "push_loop stream emit (state_after bs) data s = push_loop stream emit (state_after ?bs) rest s"
        using False n st part le
        by (subst loop) (auto simp: state_after_def [of bs] Let_def)
      from part le IH [of s] show ?thesis unfolding e by (simp add: step chunk_lines_def)
    qed
  qed
qed

end
