(* ===== verification/Demux.thy ===== *)
theory Demux
  imports Framing
begin

section \<open>Demultiplexing a log stream (demuxNonTTY, demuxTTY in internal/dockerx/logs.go)\<close>

text \<open>
  The two readers over Docker's two stream formats, and what they promise: every line of
  every stream once, in order, however the bytes were framed or chunked.
\<close>

datatype 'e demux_error = EmitFailed 'e | FrameFailed frame_error

definition lift_emit :: "'e option \<times> 's \<Rightarrow> 'e demux_error option \<times> 's" where
  "lift_emit p = (map_option EmitFailed (fst p), snd p)"

lemma read_full_Inr:
  "read_full n r = Inr (bs, r') \<Longrightarrow>
   length (rd_bytes r') + n = length (rd_bytes r) \<and> rd_end r' = rd_end r"
  by (auto simp: read_full_def split: if_splits)

lemma readFrame_shorter:
  assumes "readFrame r = Inr (stream, payload, r')"
  shows "length (rd_bytes r') < length (rd_bytes r)"
proof -
  obtain header r1 where h: "read_full frameHeaderLen r = Inr (header, r1)"
    using assms by (auto simp: readFrame_def split: sum.splits)
  then have "length (rd_bytes r1) < length (rd_bytes r)"
    using read_full_Inr [OF h] by (simp add: frameHeaderLen_def)
  moreover have "length (rd_bytes r') \<le> length (rd_bytes r1)"
    using assms h by (auto simp: readFrame_def Let_def dest: read_full_Inr split: sum.splits if_splits)
  ultimately show ?thesis by simp
qed

text \<open>The loop over frames; \<open>order\<close> is the order in which flush visits the splitter's map.\<close>

function demux_loop ::
  "string list \<Rightarrow> ('s, 'e) emit \<Rightarrow> splitter \<Rightarrow> reader \<Rightarrow> 's \<Rightarrow> 'e demux_error option \<times> 's" where
  "demux_loop order emit sp r s =
     (case readFrame r of
        Inl e \<Rightarrow>
          if e = FrameRead EOF
          then (let (err, _, s') = flush order sp emit s in lift_emit (err, s'))
          else (Some (FrameFailed e), s)
      | Inr (stream, payload, r') \<Rightarrow>
          (case push sp stream payload emit s of
             (Some e, _, s') \<Rightarrow> (Some (EmitFailed e), s')
           | (None, sp', s') \<Rightarrow> demux_loop order emit sp' r' s'))"
  by pat_completeness auto
termination
  by (relation "measure (\<lambda>(order, emit, sp, r, s). length (rd_bytes r))")
    (auto dest: readFrame_shorter)

declare demux_loop.simps [simp del]

definition demuxNonTTY ::
  "string list \<Rightarrow> ('s, 'e) emit \<Rightarrow> reader \<Rightarrow> 's \<Rightarrow> 'e demux_error option \<times> 's" where
  "demuxNonTTY order emit r s = demux_loop order emit newLineSplitter r s"

text \<open>A TTY stream: the results of the calls of \<open>Read\<close>, then the reader's error.\<close>

fun demux_tty_loop ::
  "string list \<Rightarrow> ('s, 'e) emit \<Rightarrow> splitter \<Rightarrow> string list \<Rightarrow> read_error \<Rightarrow> 's
     \<Rightarrow> 'e demux_error option \<times> 's" where
  "demux_tty_loop order emit sp [] e s =
     (if e = EOF then (let (err, _, s') = flush order sp emit s in lift_emit (err, s'))
      else (Some (FrameFailed (FrameRead e)), s))"
| "demux_tty_loop order emit sp (chunk # chunks) e s =
     (if chunk = [] then demux_tty_loop order emit sp chunks e s
      else (case push sp streamStdout chunk emit s of
              (Some err, _, s') \<Rightarrow> (Some (EmitFailed err), s')
            | (None, sp', s') \<Rightarrow> demux_tty_loop order emit sp' chunks e s'))"

definition demuxTTY ::
  "string list \<Rightarrow> ('s, 'e) emit \<Rightarrow> string list \<Rightarrow> read_error \<Rightarrow> 's \<Rightarrow> 'e demux_error option \<times> 's" where
  "demuxTTY order emit chunks e s = demux_tty_loop order emit newLineSplitter chunks e s"

subsection \<open>What Docker sends\<close>

text \<open>A frame on the wire, as the Engine documents it.\<close>

definition be32_bytes :: "nat \<Rightarrow> string" where
  "be32_bytes n = map char_of [n div 16777216 mod 256, n div 65536 mod 256, n div 256 mod 256, n mod 256]"

definition encode_frame :: "string \<times> string \<Rightarrow> string" where
  "encode_frame f =
     (if fst f = streamStdout then CHR 0x01 else CHR 0x02) # [CHR 0x00, CHR 0x00, CHR 0x00] @
     be32_bytes (length (snd f)) @ snd f"

definition frame_ok :: "string \<times> string \<Rightarrow> bool" where
  "frame_ok f \<longleftrightarrow> fst f \<in> {streamStdout, streamStderr} \<and> length (snd f) \<le> maxFramePayloadBytes"

lemma be32_bytes:
  assumes "n < 4294967296"
  shows "be32 (be32_bytes n) = n"
proof -
  define a b c where "a = n div 256" and "b = a div 256" and "c = b div 256"
  have "n div 65536 = b" and "n div 16777216 = c"
    by (simp_all add: a_def b_def c_def flip: div_mult2_eq)
  moreover have "n = 256 * a + n mod 256" and "a = 256 * b + a mod 256" and "b = 256 * c + b mod 256"
    by (simp_all add: a_def b_def c_def)
  moreover have "c < 256" using assms by (simp add: a_def b_def c_def flip: div_mult2_eq)
  ultimately show ?thesis
    by (simp add: be32_def be32_bytes_def flip: a_def)
qed

lemma readFrame_encode:
  assumes "frame_ok f"
  shows "readFrame \<lparr>rd_bytes = encode_frame f @ rest, rd_end = e\<rparr> =
    Inr (fst f, snd f, \<lparr>rd_bytes = rest, rd_end = e\<rparr>)"
proof -
  let ?h = "(if fst f = streamStdout then CHR 0x01 else CHR 0x02) # [CHR 0x00, CHR 0x00, CHR 0x00] @
     be32_bytes (length (snd f))"
  have len: "length ?h = 8" by (simp add: be32_bytes_def)
  have "read_full frameHeaderLen \<lparr>rd_bytes = encode_frame f @ rest, rd_end = e\<rparr> =
      Inr (?h, \<lparr>rd_bytes = snd f @ rest, rd_end = e\<rparr>)"
    using len by (simp add: read_full_def frameHeaderLen_def encode_frame_def)
  moreover have "be32 (drop 4 ?h) = length (snd f)"
    using assms be32_bytes [of "length (snd f)"] by (simp add: frame_ok_def maxFramePayloadBytes_def)
  moreover have "byte_of (?h ! 0) = (if fst f = streamStdout then 1 else 2)"
    by simp
  ultimately show ?thesis
    using assms
    by (auto simp: readFrame_def Let_def frame_ok_def read_full_def streamStdout_def streamStderr_def)
qed

lemma readFrame_cut:
  assumes "frame_ok f" and "0 < k" and "k < length (encode_frame f)"
  shows "readFrame \<lparr>rd_bytes = take k (encode_frame f), rd_end = EOF\<rparr> = Inl (FrameRead UnexpectedEOF)"
proof (cases "k < 8")
  case True
  have "take k (encode_frame f) \<noteq> []" using assms(2,3) by auto
  with True assms(3) show ?thesis
    by (simp add: readFrame_def read_full_def frameHeaderLen_def)
next
  case False
  let ?h = "(if fst f = streamStdout then CHR 0x01 else CHR 0x02) # [CHR 0x00, CHR 0x00, CHR 0x00] @
     be32_bytes (length (snd f))"
  have len: "length ?h = 8" by (simp add: be32_bytes_def)
  have enc: "encode_frame f = ?h @ snd f" by (simp add: encode_frame_def)
  have k: "k - 8 < length (snd f)" using assms(3) False len by (simp only: enc length_append)
  have "take k (encode_frame f) = ?h @ take (k - 8) (snd f)"
    unfolding enc take_append len using False len by simp
  then have "read_full frameHeaderLen \<lparr>rd_bytes = take k (encode_frame f), rd_end = EOF\<rparr> =
      Inr (?h, \<lparr>rd_bytes = take (k - 8) (snd f), rd_end = EOF\<rparr>)"
    using len by (simp add: read_full_def frameHeaderLen_def)
  moreover have "be32 (drop 4 ?h) = length (snd f)"
    using assms(1) be32_bytes [of "length (snd f)"] by (simp add: frame_ok_def maxFramePayloadBytes_def)
  moreover have "byte_of (?h ! 0) = (if fst f = streamStdout then 1 else 2)"
    by simp
  ultimately show ?thesis
    using assms(1) k
    by (auto simp: readFrame_def Let_def frame_ok_def read_full_def)
qed

subsection \<open>Lines of a sequence of frames\<close>

definition bytes_of :: "string \<Rightarrow> (string \<times> string) list \<Rightarrow> string" where
  "bytes_of stream fs = concat (map snd (filter (\<lambda>f. fst f = stream) fs))"

text \<open>The lines the frames complete, after earlier ones; then the open lines at the end.\<close>

fun all_lines :: "(string \<times> string) list \<Rightarrow> (string \<times> string) list \<Rightarrow> log_line list" where
  "all_lines prev [] = []"
| "all_lines prev (f # fs) =
     map (to_line (fst f)) (new_lines (bytes_of (fst f) prev) (snd f)) @ all_lines (prev @ [f]) fs"

definition last_line :: "string \<Rightarrow> string \<Rightarrow> log_line list" where
  "last_line stream bs = (let st = state_after bs
     in if ls_buf st = [] then [] else [mk_line stream (ls_buf st) False])"

definition closing_lines :: "string list \<Rightarrow> (string \<times> string) list \<Rightarrow> log_line list" where
  "closing_lines order fs = concat (map (\<lambda>stream. last_line stream (bytes_of stream fs)) order)"

text \<open>The splitter's state of every stream is that of its bytes.\<close>

definition splitter_for :: "splitter \<Rightarrow> (string \<times> string) list \<Rightarrow> bool" where
  "splitter_for sp fs \<longleftrightarrow> (\<forall>stream. splitter_state sp stream = state_after (bytes_of stream fs))"

lemma state_after_Nil: "state_after [] = new_line_state"
  by (simp add: state_after_def open_line_def new_line_state_def)

lemma splitter_for_new: "splitter_for newLineSplitter []"
  by (simp add: splitter_for_def splitter_state_def newLineSplitter_def gm_get_or_def bytes_of_def
      state_after_Nil)

lemma bytes_of_snoc:
  "bytes_of stream (fs @ [f]) = bytes_of stream fs @ (if fst f = stream then snd f else [])"
  by (simp add: bytes_of_def)

lemma splitter_for_put:
  assumes "splitter_for sp fs"
  shows "splitter_for (gm_put (fst f) (state_after (bytes_of (fst f) (fs @ [f]))) sp) (fs @ [f])"
  using assms
  by (auto simp: splitter_for_def splitter_state_def gm_get_or_def gomap_simps bytes_of_snoc)

lemma push_feed:
  assumes "splitter_for sp fs"
  shows "case feed emit (map (to_line (fst f)) (new_lines (bytes_of (fst f) fs) (snd f))) s of
      (None, s') \<Rightarrow> \<exists>sp'. push sp (fst f) (snd f) emit s = (None, sp', s') \<and> splitter_for sp' (fs @ [f])
    | (Some e, s') \<Rightarrow> \<exists>sp'. push sp (fst f) (snd f) emit s = (Some e, sp', s')"
proof -
  have st: "splitter_state sp (fst f) = state_after (bytes_of (fst f) fs)"
    using assms by (simp add: splitter_for_def)
  have "bytes_of (fst f) fs @ snd f = bytes_of (fst f) (fs @ [f])" by (simp add: bytes_of_snoc)
  with push_loop_feed [where emit = emit and stream = "fst f" and bs = "bytes_of (fst f) fs" and
      data = "snd f" and s = s] splitter_for_put [OF assms, of f]
  show ?thesis
    unfolding push_def st
    by (auto simp: Let_def split: option.splits prod.splits)
qed

lemma flush_feed:
  assumes "\<forall>x\<in>set order. splitter_state sp x = state_after (bytes_of x fs)" and "distinct order"
  shows "\<exists>sp'. flush order sp emit s =
    (fst (feed emit (closing_lines order fs) s), sp', snd (feed emit (closing_lines order fs) s))"
  using assms
proof (induction order arbitrary: sp s)
  case (Cons x order)
  have x: "splitter_state sp x = state_after (bytes_of x fs)" using Cons.prems by simp
  show ?case
  proof (cases "ls_buf (state_after (bytes_of x fs)) = []")
    case True
    have "\<exists>sp'. flush order sp emit s =
        (fst (feed emit (closing_lines order fs) s), sp', snd (feed emit (closing_lines order fs) s))"
      using Cons by simp
    with True x show ?thesis by (simp add: closing_lines_def last_line_def)
  next
    case False
    let ?l = "mk_line x (ls_buf (state_after (bytes_of x fs))) False"
    let ?sp = "gm_put x (state_after (bytes_of x fs)\<lparr>ls_buf := []\<rparr>) sp"
    have rest: "\<forall>y\<in>set order. splitter_state ?sp y = state_after (bytes_of y fs)"
      using Cons.prems by (auto simp: splitter_state_def gm_get_or_def gomap_simps)
    have cl: "closing_lines (x # order) fs = ?l # closing_lines order fs"
      using False by (simp add: closing_lines_def last_line_def Let_def)
    obtain err s' where em: "emit ?l s = (err, s')" by fastforce
    have "\<exists>sp'. flush order ?sp emit s' =
        (fst (feed emit (closing_lines order fs) s'), sp', snd (feed emit (closing_lines order fs) s'))"
      using Cons.IH [OF rest, of s'] Cons.prems(2) by simp
    with False x em show ?thesis
      by (cases err) (simp_all add: cl emitLine_def Let_def)
  qed
qed (simp add: closing_lines_def)

subsection \<open>The loops\<close>

lemma demux_loop_frames:
  assumes "list_all frame_ok fs" and "splitter_for sp prev"
  shows "case feed emit (all_lines prev fs) s of
      (Some err, s') \<Rightarrow>
        demux_loop order emit sp \<lparr>rd_bytes = concat (map encode_frame fs) @ rest, rd_end = e\<rparr> s =
          (Some (EmitFailed err), s')
    | (None, s') \<Rightarrow> \<exists>sp'. splitter_for sp' (prev @ fs) \<and>
        demux_loop order emit sp \<lparr>rd_bytes = concat (map encode_frame fs) @ rest, rd_end = e\<rparr> s =
          demux_loop order emit sp' \<lparr>rd_bytes = rest, rd_end = e\<rparr> s'"
  using assms
proof (induction fs arbitrary: sp prev s)
  case Nil
  then show ?case by auto
next
  case (Cons f fs)
  let ?r = "\<lparr>rd_bytes = concat (map encode_frame fs) @ rest, rd_end = e\<rparr>"
  have rd: "readFrame \<lparr>rd_bytes = concat (map encode_frame (f # fs)) @ rest, rd_end = e\<rparr> =
      Inr (fst f, snd f, ?r)"
    using readFrame_encode [of f "concat (map encode_frame fs) @ rest" e] Cons.prems by simp
  obtain err s' where fd: "feed emit (map (to_line (fst f)) (new_lines (bytes_of (fst f) prev) (snd f))) s = (err, s')"
    by fastforce
  show ?case
  proof (cases err)
    case (Some x)
    with push_feed [OF Cons.prems(2), where emit = emit and f = f and s = s] fd obtain sp' where
      "push sp (fst f) (snd f) emit s = (Some x, sp', s')" by auto
    with fd Some show ?thesis
      by (subst demux_loop.simps) (simp add: rd [simplified] feed_append)
  next
    case None
    with push_feed [OF Cons.prems(2), where emit = emit and f = f and s = s] fd obtain sp' where
      p: "push sp (fst f) (snd f) emit s = (None, sp', s')" and sp': "splitter_for sp' (prev @ [f])" by auto
    have dl: "demux_loop order emit sp \<lparr>rd_bytes = concat (map encode_frame (f # fs)) @ rest, rd_end = e\<rparr> s =
        demux_loop order emit sp' ?r s'"
      by (subst demux_loop.simps) (simp add: rd [simplified] p)
    have fl: "feed emit (all_lines prev (f # fs)) s = feed emit (all_lines (prev @ [f]) fs) s'"
      using fd None by (simp add: feed_append)
    show ?thesis
      using Cons.IH [OF _ sp', of s'] Cons.prems(1) unfolding dl fl by (auto split: option.splits prod.splits)
  qed
qed

lemma demux_tty_chunks:
  assumes "splitter_for sp prev"
  shows "case feed emit (all_lines prev (map (Pair streamStdout) chunks)) s of
      (Some err, s') \<Rightarrow> demux_tty_loop order emit sp chunks e s = (Some (EmitFailed err), s')
    | (None, s') \<Rightarrow> \<exists>sp'. splitter_for sp' (prev @ map (Pair streamStdout) chunks) \<and>
        demux_tty_loop order emit sp chunks e s = demux_tty_loop order emit sp' [] e s'"
  using assms
proof (induction chunks arbitrary: sp prev s)
  case Nil
  then show ?case by auto
next
  case (Cons c chunks)
  let ?f = "(streamStdout, c)"
  show ?case
  proof (cases "c = []")
    case True
    have "splitter_for sp (prev @ [?f])"
      using Cons.prems True by (simp add: splitter_for_def bytes_of_snoc)
    moreover have "new_lines (bytes_of streamStdout prev) c = []"
      using True by (simp add: new_lines_def)
    moreover have e: "demux_tty_loop order emit sp (c # chunks) e s = demux_tty_loop order emit sp chunks e s"
      using True by simp
    ultimately show ?thesis
      using Cons.IH [of sp "prev @ [?f]" s] unfolding e by (auto split: option.splits prod.splits)
  next
    case False
    obtain err s' where fd: "feed emit (map (to_line streamStdout) (new_lines (bytes_of streamStdout prev) c)) s = (err, s')"
      by fastforce
    show ?thesis
    proof (cases err)
      case (Some x)
      with push_feed [OF Cons.prems, where emit = emit and f = ?f and s = s] fd obtain sp' where
        "push sp streamStdout c emit s = (Some x, sp', s')" by auto
      with fd Some False show ?thesis by (simp add: feed_append)
    next
      case None
      with push_feed [OF Cons.prems, where emit = emit and f = ?f and s = s] fd obtain sp' where
        p: "push sp streamStdout c emit s = (None, sp', s')" and sp': "splitter_for sp' (prev @ [?f])" by auto
      have dl: "demux_tty_loop order emit sp (c # chunks) e s = demux_tty_loop order emit sp' chunks e s'"
        using False p by simp
      have fl: "feed emit (all_lines prev (map (Pair streamStdout) (c # chunks))) s =
          feed emit (all_lines (prev @ [?f]) (map (Pair streamStdout) chunks)) s'"
        using fd None by (simp add: feed_append)
      show ?thesis
        using Cons.IH [OF sp', of s'] unfolding dl fl by (auto split: option.splits prod.splits)
    qed
  qed
qed

text \<open>The lines of one stream among all lines.\<close>

lemma ll_stream_to_line: "ll_stream (to_line stream r) = stream"
  by (simp add: to_line_def mk_line_def Let_def case_prod_beta)

lemma all_lines_of_stream:
  "map (to_line stream) (lines_so_far (bytes_of stream prev)) @
     filter (\<lambda>l. ll_stream l = stream) (all_lines prev fs) =
   map (to_line stream) (lines_so_far (bytes_of stream (prev @ fs)))"
proof (induction fs arbitrary: prev)
  case (Cons f fs)
  have "filter (\<lambda>l. ll_stream l = stream) (map (to_line (fst f)) rs) =
      (if fst f = stream then map (to_line stream) rs else [])" for rs
    by (induction rs) (auto simp: ll_stream_to_line)
  then have "map (to_line stream) (lines_so_far (bytes_of stream prev)) @
        filter (\<lambda>l. ll_stream l = stream) (all_lines prev (f # fs)) =
      map (to_line stream) (lines_so_far (bytes_of stream (prev @ [f]))) @
        filter (\<lambda>l. ll_stream l = stream) (all_lines (prev @ [f]) fs)"
    using new_lines_eq [of "bytes_of stream prev" "snd f"] by (auto simp: bytes_of_snoc)
  with Cons.IH [of "prev @ [f]"] show ?case by simp
qed simp

lemma lines_so_far_Nil [simp]: "lines_so_far [] = []"
  by (simp add: lines_so_far_def whole_lines_def open_line_def)

lemma last_line_stream: "l \<in> set (last_line x bs) \<Longrightarrow> ll_stream l = x"
  using ll_stream_to_line [of x "(ls_buf (state_after bs), False)"]
  by (auto simp: last_line_def to_line_def Let_def split: if_splits)

lemma spec_lines_closing:
  "map (to_line stream) (lines_so_far bs) @ last_line stream bs = map (to_line stream) (spec_lines bs)"
  by (auto simp: lines_so_far_def spec_lines_def last_line_def state_after_def bounded_line_def to_line_def Let_def)

lemma closing_lines_of_stream:
  assumes "distinct order"
  shows "filter (\<lambda>l. ll_stream l = stream) (closing_lines order fs) =
    (if stream \<in> set order then last_line stream (bytes_of stream fs) else [])"
  using assms
proof (induction order)
  case (Cons x order)
  have "filter (\<lambda>l. ll_stream l = stream) (last_line x (bytes_of x fs)) =
      (if x = stream then last_line x (bytes_of x fs) else [])"
    using last_line_stream [of _ x "bytes_of x fs"] by (auto intro: filter_True simp: filter_empty_conv)
  with Cons show ?case by (auto simp: closing_lines_def)
qed (simp add: closing_lines_def)

text \<open>Everything a clean stream of frames yields.\<close>

definition stream_lines :: "string list \<Rightarrow> (string \<times> string) list \<Rightarrow> log_line list" where
  "stream_lines order fs = all_lines [] fs @ closing_lines order fs"

lemma stream_lines_of_stream:
  assumes "distinct order" and "fst ` set fs \<subseteq> set order"
  shows "filter (\<lambda>l. ll_stream l = stream) (stream_lines order fs) =
    map (to_line stream) (spec_lines (bytes_of stream fs))"
proof -
  have empty: "bytes_of stream fs = []" if "stream \<notin> set order"
  proof -
    have "filter (\<lambda>f. fst f = stream) fs = []"
      using that assms(2) by (auto simp: filter_empty_conv)
    then show ?thesis by (simp add: bytes_of_def)
  qed
  have "filter (\<lambda>l. ll_stream l = stream) (all_lines [] fs) =
      map (to_line stream) (lines_so_far (bytes_of stream fs))"
    using all_lines_of_stream [of stream "[]" fs] by (simp add: bytes_of_def)
  then show ?thesis
    using empty spec_lines_closing [of stream "bytes_of stream fs"]
    by (auto simp: stream_lines_def closing_lines_of_stream [OF assms(1)])
      (simp add: last_line_def state_after_def open_line_def)
qed

lemma demux_flush:
  assumes "splitter_for sp fs" and "distinct order"
  shows "\<exists>sp'. flush order sp emit s =
    (fst (feed emit (closing_lines order fs) s), sp', snd (feed emit (closing_lines order fs) s))"
  using assms by (intro flush_feed) (simp_all add: splitter_for_def)

lemma demux_nontty_clean:
  assumes "list_all frame_ok fs" and "distinct order" and "set order = {streamStdout, streamStderr}"
  shows "demuxNonTTY order emit \<lparr>rd_bytes = concat (map encode_frame fs), rd_end = EOF\<rparr> s =
    lift_emit (feed emit (stream_lines order fs) s)"
proof -
  have eof: "demux_loop order emit sp \<lparr>rd_bytes = [], rd_end = EOF\<rparr> s' =
      lift_emit (feed emit (closing_lines order fs) s')" if "splitter_for sp fs" for sp s'
    using demux_flush [OF that assms(2), where emit = emit and s = s']
    by (subst demux_loop.simps) (auto simp: readFrame_def read_full_def frameHeaderLen_def)
  show ?thesis
    using demux_loop_frames [OF assms(1) splitter_for_new,
      where emit = emit and s = s and order = order and rest = "[]" and e = EOF]
    by (auto simp: demuxNonTTY_def stream_lines_def feed_append eof lift_emit_def
        split: option.splits prod.splits)
qed

text \<open>
  C33: the demultiplexer is faithful.  For every sequence of well-formed frames and every
  callback, demuxNonTTY gives the callback the same list of lines, stopping only at the
  callback's first error, and the lines of each stream are the newline-separated lines of
  that stream's bytes: none lost, none merged across streams, however the frames cut them;
  longer ones cut at the bound and marked, an unterminated last one included.
\<close>

theorem demux_nontty_faithful:
  assumes "list_all frame_ok fs" and "distinct order" and "set order = {streamStdout, streamStderr}"
  shows "demuxNonTTY order emit \<lparr>rd_bytes = concat (map encode_frame fs), rd_end = EOF\<rparr> s =
      lift_emit (feed emit (stream_lines order fs) s) \<and>
    filter (\<lambda>l. ll_stream l = stream) (stream_lines order fs) =
      map (to_line stream) (spec_lines (bytes_of stream fs))"
proof
  have "fst ` set fs \<subseteq> set order"
    using assms(1,3) by (auto simp: list_all_iff frame_ok_def)
  with assms(2) show "filter (\<lambda>l. ll_stream l = stream) (stream_lines order fs) =
      map (to_line stream) (spec_lines (bytes_of stream fs))"
    by (rule stream_lines_of_stream)
  show "demuxNonTTY order emit \<lparr>rd_bytes = concat (map encode_frame fs), rd_end = EOF\<rparr> s =
      lift_emit (feed emit (stream_lines order fs) s)"
    using assms by (rule demux_nontty_clean)
qed

text \<open>The callback of a bounded read: it keeps every line.\<close>

definition collect :: "log_line \<Rightarrow> log_line list \<Rightarrow> unit option \<times> log_line list" where
  "collect l ls = (None, ls @ [l])"

lemma feed_collect: "feed collect ls ms = (None, ms @ ls)"
  by (induction ls arbitrary: ms) (simp_all add: collect_def)

definition demo_frames :: "(string \<times> string) list" where
  "demo_frames =
     [(streamStdout, ''one'' @ [nl] @ ''tw''), (streamStderr, ''oops''), (streamStdout, ''o'' @ [nl])]"

lemma demux_nontty_faithful_witness:
  "demuxNonTTY [streamStderr, streamStdout] collect
     \<lparr>rd_bytes = concat (map encode_frame demo_frames), rd_end = EOF\<rparr> [] =
   (None, stream_lines [streamStderr, streamStdout] demo_frames) \<and>
   map ll_line (filter (\<lambda>l. ll_stream l = streamStdout)
     (stream_lines [streamStderr, streamStdout] demo_frames)) = [''one'', ''two'']"
proof -
  have "list_all frame_ok demo_frames"
    by (simp add: demo_frames_def frame_ok_def maxFramePayloadBytes_def)
  moreover have "distinct [streamStderr, streamStdout]"
    and "set [streamStderr, streamStdout] = {streamStdout, streamStderr}"
    by (auto simp: streamStdout_def streamStderr_def)
  ultimately have d: "demuxNonTTY [streamStderr, streamStdout] collect
      \<lparr>rd_bytes = concat (map encode_frame demo_frames), rd_end = EOF\<rparr> [] =
      lift_emit (feed collect (stream_lines [streamStderr, streamStdout] demo_frames) [])"
    and f: "filter (\<lambda>l. ll_stream l = streamStdout) (stream_lines [streamStderr, streamStdout] demo_frames) =
      map (to_line streamStdout) (spec_lines (bytes_of streamStdout demo_frames))"
    using demux_nontty_faithful [where fs = demo_frames and order = "[streamStderr, streamStdout]"
        and emit = collect and s = "[]" and stream = streamStdout] by blast+
  have "map ll_line (map (to_line streamStdout) (spec_lines (bytes_of streamStdout demo_frames))) =
      [''one'', ''two'']"
    by (simp add: demo_frames_def bytes_of_def spec_lines_def whole_lines_def open_line_def
        bounded_line_def to_line_def mk_line_def extractTimestamp_def cut_def trim_suffix_def
        maxLogLineBytes_def nl_def streamStdout_def streamStderr_def suffix_to_prefix)
  with d f show ?thesis by (simp add: feed_collect lift_emit_def)
qed

text \<open>
  A TTY stream gives the same lines however the reader chunks it: those of the
  concatenated bytes, all labelled stdout.
\<close>

theorem demux_tty_chunking:
  assumes "distinct order" and "streamStdout \<in> set order"
  shows "demuxTTY order emit chunks EOF s =
    lift_emit (feed emit (map (to_line streamStdout) (spec_lines (concat chunks))) s)"
proof -
  let ?fs = "map (Pair streamStdout) chunks"
  have other: "bytes_of x ?fs = []" if "x \<noteq> streamStdout" for x
    using that by (simp add: bytes_of_def filter_map comp_def)
  have bytes: "bytes_of streamStdout ?fs = concat chunks"
    by (simp add: bytes_of_def filter_map comp_def)
  have all: "filter (\<lambda>l. ll_stream l = streamStdout) ls = ls" if "\<forall>l\<in>set ls. ll_stream l = streamStdout"
    for ls using that by (simp add: filter_id_conv)
  have "\<forall>l\<in>set (all_lines prev (map (Pair streamStdout) cs)). ll_stream l = streamStdout" for prev cs
    by (induction cs arbitrary: prev) (auto simp: ll_stream_to_line)
  moreover have "l \<in> set (closing_lines order ?fs) \<Longrightarrow> ll_stream l = streamStdout" for l
    using other last_line_stream
    by (auto simp: closing_lines_def) (metis last_line_def last_line_stream list.distinct(1)
        list.set_cases state_after_Nil new_line_state_def line_state.select_convs(1) empty_iff list.set(1))
  ultimately have "\<forall>l\<in>set (stream_lines order ?fs). ll_stream l = streamStdout"
    by (auto simp: stream_lines_def)
  moreover have "fst ` set ?fs \<subseteq> set order" using assms(2) by auto
  ultimately have lines: "stream_lines order ?fs = map (to_line streamStdout) (spec_lines (concat chunks))"
    using stream_lines_of_stream [OF assms(1), of ?fs streamStdout] all by (simp add: bytes)
  have eof: "demux_tty_loop order emit sp [] EOF s' =
      lift_emit (feed emit (closing_lines order ?fs) s')" if "splitter_for sp ?fs" for sp s'
    using demux_flush [OF that assms(1), where emit = emit and s = s'] by auto
  have "demuxTTY order emit chunks EOF s = lift_emit (feed emit (stream_lines order ?fs) s)"
    using demux_tty_chunks [OF splitter_for_new, where emit = emit and s = s and order = order and
        chunks = chunks and e = EOF]
    by (auto simp: demuxTTY_def stream_lines_def feed_append eof lift_emit_def
        simp del: demux_tty_loop.simps split: option.splits prod.splits)
  then show ?thesis by (simp add: lines)
qed

lemma demux_tty_chunking_witness:
  "demuxTTY [streamStdout] collect [''on'', ''e'' @ [nl], ''two''] EOF [] =
   lift_emit (feed collect (map (to_line streamStdout) (spec_lines (concat [''on'', ''e'' @ [nl], ''two'']))) [])"
  by (rule demux_tty_chunking) simp_all

text \<open>
  A stream that ends inside a frame is never mistaken for one that ended.  The lines
  its whole frames complete are delivered, nothing else is, and the result is an unexpected
  end of file (or the callback's own error).
\<close>

theorem demux_cut_is_error:
  assumes "list_all frame_ok fs" and "frame_ok f" and "0 < k" and "k < length (encode_frame f)"
  shows "demuxNonTTY order emit
      \<lparr>rd_bytes = concat (map encode_frame fs) @ take k (encode_frame f), rd_end = EOF\<rparr> s =
    (case feed emit (all_lines [] fs) s of
       (Some e, s') \<Rightarrow> (Some (EmitFailed e), s')
     | (None, s') \<Rightarrow> (Some (FrameFailed (FrameRead UnexpectedEOF)), s'))"
proof -
  have cut: "demux_loop order emit sp \<lparr>rd_bytes = take k (encode_frame f), rd_end = EOF\<rparr> s' =
      (Some (FrameFailed (FrameRead UnexpectedEOF)), s')" for sp s'
    by (subst demux_loop.simps) (simp add: readFrame_cut [OF assms(2-4)])
  show ?thesis
    using demux_loop_frames [OF assms(1) splitter_for_new, where emit = emit and s = s and order = order and
        rest = "take k (encode_frame f)" and e = EOF]
    by (auto simp: demuxNonTTY_def cut split: option.splits prod.splits)
qed

lemma demux_cut_is_error_witness:
  "fst (demuxNonTTY [streamStdout] collect
      \<lparr>rd_bytes = concat (map encode_frame [(streamStdout, ''a'' @ [nl])]) @
         take 9 (encode_frame (streamStdout, ''bcd'')), rd_end = EOF\<rparr> []) =
   Some (FrameFailed (FrameRead UnexpectedEOF))"
proof -
  have "list_all frame_ok [(streamStdout, ''a'' @ [nl])]" and "frame_ok (streamStdout, ''bcd'')"
    by (simp_all add: frame_ok_def maxFramePayloadBytes_def)
  moreover have "0 < (9::nat)" and "9 < length (encode_frame (streamStdout, ''bcd''))"
    by (simp_all add: encode_frame_def be32_bytes_def)
  ultimately show ?thesis
    by (subst demux_cut_is_error) (simp_all add: feed_collect)
qed

subsection \<open>Bounds on any input\<close>

definition line_bounded :: "log_line \<Rightarrow> bool" where
  "line_bounded l \<longleftrightarrow> length (ll_line l) \<le> maxLogLineBytes"

lemma cut_length: "cut c xs = Some (p, r) \<Longrightarrow> length r \<le> length xs"
  by (drule cut_Some_append) simp

lemma mk_line_bounded: "length bytes \<le> maxLogLineBytes \<Longrightarrow> line_bounded (mk_line stream bytes t)"
  using trim_suffix_length [of "[CHR 0x0D]" bytes]
  by (auto simp: line_bounded_def mk_line_def extractTimestamp_def Let_def
      dest: cut_length split: option.splits prod.splits)

definition buf_bounded :: "line_state \<Rightarrow> bool" where
  "buf_bounded st \<longleftrightarrow> length (ls_buf st) \<le> maxLogLineBytes"

lemma push_loop_bounded:
  assumes "buf_bounded st" and "list_all line_bounded ls"
    and "push_loop stream collect st data ls = (err, st', ls')"
  shows "buf_bounded st' \<and> list_all line_bounded ls' \<and> err = None"
  using assms
proof (induction "length data" arbitrary: st data ls rule: less_induct)
  case less
  show ?case
  proof (cases "data = []")
    case True
    with less.prems show ?thesis by (simp add: push_loop.simps)
  next
    case False
    obtain chunk rest has where n: "next_chunk data = (chunk, rest, has)" by (metis surj_pair)
    note IH = less.hyps [OF next_chunk_shorter [OF n False]]
    let ?buf = "ls_buf st @ take (maxLogLineBytes - length (ls_buf st)) chunk"
    have buf: "length ?buf \<le> maxLogLineBytes" using less.prems(1) by (simp add: buf_bounded_def)
    have em: "emitLine stream ?buf t collect ls = (None, ls @ [mk_line stream ?buf t])" for t
      by (simp add: emitLine_def collect_def)
    have ls: "list_all line_bounded (ls @ [mk_line stream ?buf t])" for t
      using less.prems(2) mk_line_bounded [OF buf] by simp
    consider "ls_discarding st"
      | "\<not> ls_discarding st" "maxLogLineBytes - length (ls_buf st) < length chunk"
      | "\<not> ls_discarding st" "\<not> maxLogLineBytes - length (ls_buf st) < length chunk" "has"
      | "\<not> ls_discarding st" "\<not> maxLogLineBytes - length (ls_buf st) < length chunk" "\<not> has"
      by blast
    then show ?thesis
    proof cases
      case 1
      with False n less.prems(3)
      have "push_loop stream collect (if has then st\<lparr>ls_discarding := False\<rparr> else st) rest ls = (err, st', ls')"
        by (subst (asm) push_loop.simps) simp
      then show ?thesis by (rule IH [rotated 2]) (use less.prems in \<open>simp_all add: buf_bounded_def\<close>)
    next
      case 2
      with False n less.prems(3) em
      have "push_loop stream collect (st\<lparr>ls_buf := [], ls_discarding := \<not> has\<rparr>) rest
          (ls @ [mk_line stream ?buf True]) = (err, st', ls')"
        by (subst (asm) push_loop.simps) (simp add: Let_def)
      then show ?thesis by (rule IH [rotated 2]) (use ls in \<open>simp_all add: buf_bounded_def\<close>)
    next
      case 3
      with False n less.prems(3) em [of False]
      have "push_loop stream collect (st\<lparr>ls_buf := []\<rparr>) rest (ls @ [mk_line stream ?buf False]) = (err, st', ls')"
        by (subst (asm) push_loop.simps) (simp add: Let_def)
      then show ?thesis by (rule IH [rotated 2]) (use ls in \<open>simp_all add: buf_bounded_def\<close>)
    next
      case 4
      with False n less.prems(3)
      have "push_loop stream collect (st\<lparr>ls_buf := ?buf\<rparr>) rest ls = (err, st', ls')"
        by (subst (asm) push_loop.simps) (simp add: Let_def)
      then show ?thesis by (rule IH [rotated 2]) (use less.prems buf in \<open>simp_all add: buf_bounded_def\<close>)
    qed
  qed
qed

definition splitter_bounded :: "splitter \<Rightarrow> bool" where
  "splitter_bounded sp \<longleftrightarrow> (\<forall>stream. buf_bounded (splitter_state sp stream))"

lemma push_bounded:
  assumes "splitter_bounded sp" and "list_all line_bounded ls"
    and "push sp stream payload collect ls = (err, sp', ls')"
  shows "splitter_bounded sp' \<and> list_all line_bounded ls' \<and> err = None"
proof -
  obtain st where p: "push_loop stream collect (splitter_state sp stream) payload ls = (err, st, ls')"
    and sp': "sp' = gm_put stream st sp"
    using assms(3) by (auto simp: push_def Let_def split: prod.splits)
  have "buf_bounded st \<and> list_all line_bounded ls' \<and> err = None"
    using push_loop_bounded [OF _ assms(2) p] assms(1) by (simp add: splitter_bounded_def)
  with assms(1) show ?thesis
    by (auto simp: sp' splitter_bounded_def splitter_state_def gm_get_or_def gomap_simps)
qed

lemma flush_bounded:
  assumes "splitter_bounded sp" and "list_all line_bounded ls"
  shows "list_all line_bounded (snd (snd (flush order sp collect ls)))"
  using assms
proof (induction order arbitrary: sp ls)
  case (Cons x order)
  let ?st = "splitter_state sp x"
  have "list_all line_bounded (ls @ [mk_line x (ls_buf ?st) False])"
    using Cons.prems mk_line_bounded [of "ls_buf ?st" x False]
    by (simp add: splitter_bounded_def buf_bounded_def)
  moreover have "splitter_bounded (gm_put x (?st\<lparr>ls_buf := []\<rparr>) sp)"
    using Cons.prems(1)
    by (auto simp: splitter_bounded_def buf_bounded_def splitter_state_def gm_get_or_def gomap_simps)
  ultimately show ?case
    using Cons by (simp add: Let_def emitLine_def collect_def)
qed simp

lemma demux_loop_bounded:
  assumes "splitter_bounded sp" and "list_all line_bounded ls"
  shows "list_all line_bounded (snd (demux_loop order collect sp r ls))"
  using assms
proof (induction "length (rd_bytes r)" arbitrary: r sp ls rule: less_induct)
  case less
  show ?case
  proof (cases "readFrame r")
    case (Inl e)
    have "list_all line_bounded (snd (snd (flush order sp collect ls)))"
      using less.prems by (rule flush_bounded)
    with Inl less.prems(2) show ?thesis
      by (subst demux_loop.simps) (simp add: Let_def lift_emit_def case_prod_beta)
  next
    case (Inr p)
    obtain stream payload r' where p: "p = (stream, payload, r')" by (metis surj_pair)
    obtain err sp' ls' where q: "push sp stream payload collect ls = (err, sp', ls')" by (metis surj_pair)
    have b: "splitter_bounded sp' \<and> list_all line_bounded ls' \<and> err = None"
      using less.prems q by (rule push_bounded)
    then have "list_all line_bounded (snd (demux_loop order collect sp' r' ls'))"
      using less.hyps [OF readFrame_shorter] Inr p by blast
    with b q Inr p show ?thesis
      by (subst demux_loop.simps) simp
  qed
qed

text \<open>
  Memory stays bounded on any input whatsoever, well-formed or hostile: a frame's
  payload is never accepted beyond 1 MiB, no buffer outgrows 8 KiB and no line handed on is
  longer.
\<close>

theorem demux_memory_bounded:
  "list_all line_bounded (snd (demuxNonTTY order collect r [])) \<and>
   (\<forall>stream payload r'. readFrame r = Inr (stream, payload, r') \<longrightarrow> length payload \<le> 1048576) \<and>
   (\<forall>sp ls stream payload. splitter_bounded sp \<and> list_all line_bounded ls \<longrightarrow>
      splitter_bounded (fst (snd (push sp stream payload collect ls))))"
proof -
  have "splitter_bounded newLineSplitter"
    by (simp add: splitter_bounded_def splitter_state_def newLineSplitter_def gm_get_or_def
        new_line_state_def buf_bounded_def)
  then have "list_all line_bounded (snd (demuxNonTTY order collect r []))"
    by (simp add: demuxNonTTY_def demux_loop_bounded)
  moreover have "length payload \<le> 1048576" if "readFrame r = Inr (stream, payload, r')"
    for stream payload r'
    using that
    by (auto simp: readFrame_def Let_def read_full_def maxFramePayloadBytes_def split: sum.splits if_splits)
  moreover have "splitter_bounded (fst (snd (push sp stream payload collect ls)))"
    if "splitter_bounded sp" and "list_all line_bounded ls" for sp ls stream payload
    using push_bounded [OF that] by (metis prod.collapse)
  ultimately show ?thesis by blast
qed

lemma demux_memory_bounded_witness:
  "splitter_bounded (fst (snd (push newLineSplitter streamStdout ''abc'' collect [])))"
proof -
  have "splitter_bounded newLineSplitter"
    by (simp add: splitter_bounded_def splitter_state_def newLineSplitter_def gm_get_or_def
        new_line_state_def buf_bounded_def)
  then show ?thesis
    using demux_memory_bounded [of "[]" "\<lparr>rd_bytes = [], rd_end = EOF\<rparr>"] by simp
qed

end
