(* ===== verification/DockerClient.thy ===== *)
theory DockerClient
  imports Projection Demux
begin

section \<open>The Docker client (containers.go, images.go, networks.go, volumes.go, lifecycle.go, logs.go)\<close>

text \<open>
  The Engine is not part of the repository: its API is a parameter, one function per call,
  each of which may change the Engine's state.  The client records every call it makes, so
  that properties can speak about what reached the Engine.  Timeouts end a call with an
  error of the Engine parameter and are not modelled further.
\<close>

record log_options =
  lo_tail :: string
  lo_since :: string
  lo_follow :: bool

record log_stream =
  lst_chunks :: "string list"
  lst_end :: read_error

record 'w engine_api =
  api_container_list :: "bool \<Rightarrow> 'w \<Rightarrow> (engine_error + e_summary list) \<times> 'w"
  api_container_inspect :: "string \<Rightarrow> 'w \<Rightarrow> (engine_error + e_inspect) \<times> 'w"
  api_image_list :: "'w \<Rightarrow> (engine_error + e_image_summary list) \<times> 'w"
  api_image_inspect :: "string \<Rightarrow> 'w \<Rightarrow> (engine_error + e_image_inspect) \<times> 'w"
  api_network_list :: "'w \<Rightarrow> (engine_error + e_network list) \<times> 'w"
  api_network_inspect ::
    "string \<Rightarrow> 'w \<Rightarrow> (engine_error + (e_network \<times> (string \<times> e_net_endpoint) list)) \<times> 'w"
  api_volume_list :: "'w \<Rightarrow> (engine_error + e_volume list) \<times> 'w"
  api_volume_inspect :: "string \<Rightarrow> 'w \<Rightarrow> (engine_error + e_volume) \<times> 'w"
  api_container_start :: "string \<Rightarrow> 'w \<Rightarrow> engine_error option \<times> 'w"
  api_container_restart :: "string \<Rightarrow> int \<Rightarrow> 'w \<Rightarrow> engine_error option \<times> 'w"
  api_container_stop :: "string \<Rightarrow> int \<Rightarrow> 'w \<Rightarrow> engine_error option \<times> 'w"
  api_container_kill :: "string \<Rightarrow> 'w \<Rightarrow> engine_error option \<times> 'w"
  api_container_remove :: "string \<Rightarrow> 'w \<Rightarrow> engine_error option \<times> 'w"
  api_container_logs :: "string \<Rightarrow> log_options \<Rightarrow> 'w \<Rightarrow> (engine_error + log_stream) \<times> 'w"

datatype engine_call =
    CallContainerList bool | CallContainerInspect string
  | CallImageList | CallImageInspect string | CallNetworkList | CallNetworkInspect string
  | CallVolumeList | CallVolumeInspect string
  | CallStart string | CallRestart string int | CallStop string int | CallKill string
  | CallRemove string | CallLogs string log_options

text \<open>The state a client operation works on: the Engine's, and the calls made so far.\<close>

type_synonym 'w cw = "'w \<times> engine_call list"

definition calling :: "engine_call \<Rightarrow> ('w \<Rightarrow> 'a \<times> 'w) \<Rightarrow> 'w cw \<Rightarrow> 'a \<times> 'w cw" where
  "calling c f s = (let (r, w') = f (fst s) in (r, (w', snd s @ [c])))"

record client =
  c_self :: selfInfo
  c_protected :: protectedSet

subsection \<open>Reads\<close>

definition ListContainers ::
  "'w engine_api \<Rightarrow> client \<Rightarrow> bool \<Rightarrow> 'w cw \<Rightarrow> (docker_error + container_summary list_result) \<times> 'w cw" where
  "ListContainers api c all s =
     (case calling (CallContainerList all) (api_container_list api all) s of
        (Inl e, s') \<Rightarrow> (Inl (classify e), s')
      | (Inr items, s') \<Rightarrow>
          (let (xs, t) = truncate_items (map (\<lambda>i. toContainerSummary i (si_id (c_self c)) (c_protected c)) items)
           in (Inr \<lparr>lr_items = xs, lr_truncated = t\<rparr>, s')))"

definition InspectContainer ::
  "'w engine_api \<Rightarrow> client \<Rightarrow> string \<Rightarrow> 'w cw \<Rightarrow> (docker_error + container_detail) \<times> 'w cw" where
  "InspectContainer api c ref s =
     (case ValidateRef ref of
        Some e \<Rightarrow> (Inl e, s)
      | None \<Rightarrow>
          (case calling (CallContainerInspect ref) (api_container_inspect api ref) s of
             (Inl e, s') \<Rightarrow> (Inl (classify e), s')
           | (Inr r, s') \<Rightarrow> (Inr (toContainerDetail r (si_id (c_self c)) (c_protected c)), s')))"

definition ListImages :: "'w engine_api \<Rightarrow> 'w cw \<Rightarrow> (docker_error + image_summary list_result) \<times> 'w cw" where
  "ListImages api s =
     (case calling CallImageList (api_image_list api) s of
        (Inl e, s') \<Rightarrow> (Inl (classify e), s')
      | (Inr items, s') \<Rightarrow>
          (let (xs, t) = truncate_items (map toImageSummary items)
           in (Inr \<lparr>lr_items = xs, lr_truncated = t\<rparr>, s')))"

definition InspectImage :: "'w engine_api \<Rightarrow> string \<Rightarrow> 'w cw \<Rightarrow> (docker_error + image_detail) \<times> 'w cw" where
  "InspectImage api ref s =
     (case ValidateRef ref of
        Some e \<Rightarrow> (Inl e, s)
      | None \<Rightarrow>
          (case calling (CallImageInspect ref) (api_image_inspect api ref) s of
             (Inl e, s') \<Rightarrow> (Inl (classify e), s')
           | (Inr r, s') \<Rightarrow> (Inr (toImageDetail r), s')))"

definition ListNetworks :: "'w engine_api \<Rightarrow> 'w cw \<Rightarrow> (docker_error + network_summary list_result) \<times> 'w cw" where
  "ListNetworks api s =
     (case calling CallNetworkList (api_network_list api) s of
        (Inl e, s') \<Rightarrow> (Inl (classify e), s')
      | (Inr items, s') \<Rightarrow>
          (let (xs, t) = truncate_items (map toNetworkSummary items)
           in (Inr \<lparr>lr_items = xs, lr_truncated = t\<rparr>, s')))"

definition InspectNetwork :: "'w engine_api \<Rightarrow> string \<Rightarrow> 'w cw \<Rightarrow> (docker_error + network_detail) \<times> 'w cw" where
  "InspectNetwork api ref s =
     (case ValidateRef ref of
        Some e \<Rightarrow> (Inl e, s)
      | None \<Rightarrow>
          (case calling (CallNetworkInspect ref) (api_network_inspect api ref) s of
             (Inl e, s') \<Rightarrow> (Inl (classify e), s')
           | (Inr (n, eps), s') \<Rightarrow> (Inr (toNetworkDetail n eps), s')))"

definition ListVolumes :: "'w engine_api \<Rightarrow> 'w cw \<Rightarrow> (docker_error + volume_summary list_result) \<times> 'w cw" where
  "ListVolumes api s =
     (case calling CallVolumeList (api_volume_list api) s of
        (Inl e, s') \<Rightarrow> (Inl (classify e), s')
      | (Inr items, s') \<Rightarrow>
          (let (xs, t) = truncate_items (map toVolumeSummary items)
           in (Inr \<lparr>lr_items = xs, lr_truncated = t\<rparr>, s')))"

definition InspectVolume :: "'w engine_api \<Rightarrow> string \<Rightarrow> 'w cw \<Rightarrow> (docker_error + volume_summary) \<times> 'w cw" where
  "InspectVolume api ref s =
     (case ValidateRef ref of
        Some e \<Rightarrow> (Inl e, s)
      | None \<Rightarrow>
          (case calling (CallVolumeInspect ref) (api_volume_inspect api ref) s of
             (Inl e, s') \<Rightarrow> (Inl (classify e), s')
           | (Inr v, s') \<Rightarrow> (Inr (toVolumeSummary v), s')))"

definition ContainerStates ::
  "'w engine_api \<Rightarrow> 'w cw \<Rightarrow> (docker_error + container_state_summary list) \<times> 'w cw" where
  "ContainerStates api s =
     (case calling (CallContainerList True) (api_container_list api True) s of
        (Inl e, s') \<Rightarrow> (Inl (classify e), s')
      | (Inr items, s') \<Rightarrow> (Inr (fst (truncate_items (map toContainerStateSummary items))), s'))"

subsection \<open>Lifecycle\<close>

definition stopGraceSeconds :: int where "stopGraceSeconds = 10"

definition resolveTarget ::
  "'w engine_api \<Rightarrow> client \<Rightarrow> string \<Rightarrow> 'w cw \<Rightarrow> (docker_error + string) \<times> 'w cw" where
  "resolveTarget api c ref s =
     (case ValidateRef ref of
        Some e \<Rightarrow> (Inl e, s)
      | None \<Rightarrow>
          if si_containerized (c_self c) \<and> si_id (c_self c) = [] then (Inl ErrSelfUnknown, s)
          else (case InspectContainer api c ref s of
                  (Inl e, s') \<Rightarrow> (Inl e, s')
                | (Inr d, s') \<Rightarrow>
                    if cd_id d = si_id (c_self c) \<and> si_id (c_self c) \<noteq> [] then (Inl ErrSelfProtected, s')
                    else if protected_matches (c_protected c) (cd_id d) [cd_name d]
                         then (Inl ErrProtectedContainer, s')
                    else (Inr (cd_id d), s')))"

text \<open>What the five operations share: resolve, one call on the resolved ID, classify.\<close>

definition on_target ::
  "'w engine_api \<Rightarrow> client \<Rightarrow> (string \<Rightarrow> engine_call) \<Rightarrow> (string \<Rightarrow> 'w \<Rightarrow> engine_error option \<times> 'w) \<Rightarrow>
     string \<Rightarrow> 'w cw \<Rightarrow> docker_error option \<times> 'w cw" where
  "on_target api c call f ref s =
     (case resolveTarget api c ref s of
        (Inl e, s') \<Rightarrow> (Some e, s')
      | (Inr ident, s') \<Rightarrow>
          (case calling (call ident) (f ident) s' of
             (Some e, s'') \<Rightarrow> (Some (classify e), s'')
           | (None, s'') \<Rightarrow> (None, s'')))"

definition StartContainer :: "'w engine_api \<Rightarrow> client \<Rightarrow> string \<Rightarrow> 'w cw \<Rightarrow> docker_error option \<times> 'w cw" where
  "StartContainer api c = on_target api c CallStart (api_container_start api)"

definition RestartContainer :: "'w engine_api \<Rightarrow> client \<Rightarrow> string \<Rightarrow> 'w cw \<Rightarrow> docker_error option \<times> 'w cw" where
  "RestartContainer api c = on_target api c (\<lambda>i. CallRestart i stopGraceSeconds)
     (\<lambda>i. api_container_restart api i stopGraceSeconds)"

definition StopContainer :: "'w engine_api \<Rightarrow> client \<Rightarrow> string \<Rightarrow> 'w cw \<Rightarrow> docker_error option \<times> 'w cw" where
  "StopContainer api c = on_target api c (\<lambda>i. CallStop i stopGraceSeconds)
     (\<lambda>i. api_container_stop api i stopGraceSeconds)"

definition KillContainer :: "'w engine_api \<Rightarrow> client \<Rightarrow> string \<Rightarrow> 'w cw \<Rightarrow> docker_error option \<times> 'w cw" where
  "KillContainer api c = on_target api c CallKill (api_container_kill api)"

definition RemoveContainer :: "'w engine_api \<Rightarrow> client \<Rightarrow> string \<Rightarrow> 'w cw \<Rightarrow> docker_error option \<times> 'w cw" where
  "RemoveContainer api c = on_target api c CallRemove (api_container_remove api)"

datatype lifecycle_op = DoStart | DoRestart | DoStop | DoKill | DoRemove

fun lifecycle :: "'w engine_api \<Rightarrow> client \<Rightarrow> lifecycle_op \<Rightarrow> string \<Rightarrow> 'w cw \<Rightarrow> docker_error option \<times> 'w cw" where
  "lifecycle api c DoStart = StartContainer api c"
| "lifecycle api c DoRestart = RestartContainer api c"
| "lifecycle api c DoStop = StopContainer api c"
| "lifecycle api c DoKill = KillContainer api c"
| "lifecycle api c DoRemove = RemoveContainer api c"

subsection \<open>What reaches the Engine\<close>

fun call_target :: "engine_call \<Rightarrow> string option" where
  "call_target (CallStart i) = Some i"
| "call_target (CallRestart i g) = Some i"
| "call_target (CallStop i g) = Some i"
| "call_target (CallKill i) = Some i"
| "call_target (CallRemove i) = Some i"
| "call_target _ = None"

fun call_ref :: "engine_call \<Rightarrow> string option" where
  "call_ref (CallContainerInspect r) = Some r"
| "call_ref (CallImageInspect r) = Some r"
| "call_ref (CallNetworkInspect r) = Some r"
| "call_ref (CallVolumeInspect r) = Some r"
| "call_ref (CallLogs r opts) = Some r"
| "call_ref _ = None"

text \<open>A container the agent must never act on.\<close>

definition untouchable :: "client \<Rightarrow> e_inspect \<Rightarrow> bool" where
  "untouchable c r \<longleftrightarrow>
     (ei_id r = si_id (c_self c) \<and> si_id (c_self c) \<noteq> []) \<or>
     protected_matches (c_protected c) (ei_id r) [ei_name r] \<or>
     (si_containerized (c_self c) \<and> si_id (c_self c) = [])"

lemma resolveTarget_cases:
  "resolveTarget api c ref s =
    (if \<not> refPattern ref then (Inl ErrInvalidRef, s)
     else if si_containerized (c_self c) \<and> si_id (c_self c) = [] then (Inl ErrSelfUnknown, s)
     else (let (r, w') = api_container_inspect api ref (fst s);
               s' = (w', snd s @ [CallContainerInspect ref])
           in (case r of
                 Inl e \<Rightarrow> (Inl (classify e), s')
               | Inr d \<Rightarrow>
                   if ei_id d = si_id (c_self c) \<and> si_id (c_self c) \<noteq> [] then (Inl ErrSelfProtected, s')
                   else if protected_matches (c_protected c) (ei_id d) [ei_name d]
                   then (Inl ErrProtectedContainer, s') else (Inr (ei_id d), s'))))"
  by (simp add: resolveTarget_def InspectContainer_def ValidateRef_def calling_def Let_def
      toContainerDetail_identity split: prod.splits sum.splits)

lemma lifecycle_eq:
  "\<exists>call f. lifecycle api c op = on_target api c call f \<and> (\<forall>i. call_target (call i) = Some i)"
  by (cases op)
    (auto simp: StartContainer_def RestartContainer_def StopContainer_def KillContainer_def
      RemoveContainer_def intro!: exI)

text \<open>
  C2: no lifecycle operation can touch the agent's own container or a protected one.  Every
  operation makes at most one mutating call to the Engine, and it makes it only after the
  Engine has resolved the reference, on exactly the container ID the Engine answered, which is
  neither the agent's own nor protected; an agent that should know its container and does not
  makes no call at all.
\<close>

theorem lifecycle_never_touches_protected:
  assumes "lifecycle api c op ref (w, []) = (res, (w', calls))"
  shows "case filter (\<lambda>k. call_target k \<noteq> None) calls of
      [] \<Rightarrow> True
    | [k] \<Rightarrow> (\<exists>r. fst (api_container_inspect api ref w) = Inr r \<and>
        call_target k = Some (ei_id r) \<and> \<not> untouchable c r)
    | _ \<Rightarrow> False"
proof -
  obtain call f where op: "lifecycle api c op = on_target api c call f"
    and call: "\<And>i. call_target (call i) = Some i"
    using lifecycle_eq by metis
  show ?thesis
    using assms unfolding op on_target_def resolveTarget_cases
    by (auto simp: Let_def calling_def call untouchable_def
        split: prod.splits sum.splits option.splits if_splits)
qed

text \<open>An Engine with one container, for the witnesses.\<close>

definition demo_container :: e_inspect where
  "demo_container = \<lparr>ei_id = ''0123456789ab'', ei_name = ''/web'', ei_image = ''img'', ei_created = [],
     ei_path = [], ei_args = [], ei_platform = ''linux'', ei_restart_count = 0, ei_mounts = [],
     ei_state = None, ei_config = None, ei_restart_policy = None, ei_network_settings = None\<rparr>"

definition no_such :: engine_error where
  "no_such = \<lparr>ee_not_found = True, ee_not_modified = False, ee_conflict = False\<rparr>"

definition demo_engine :: "nat engine_api" where
  "demo_engine =
     \<lparr>api_container_list = (\<lambda>all w. (Inr [], w)),
      api_container_inspect = (\<lambda>ref w. if ref \<in> {''web'', ''0123456789ab''} then (Inr demo_container, w)
        else (Inl no_such, w)),
      api_image_list = (\<lambda>w. (Inr [], w)), api_image_inspect = (\<lambda>ref w. (Inl no_such, w)),
      api_network_list = (\<lambda>w. (Inr [], w)), api_network_inspect = (\<lambda>ref w. (Inl no_such, w)),
      api_volume_list = (\<lambda>w. (Inr [], w)), api_volume_inspect = (\<lambda>ref w. (Inl no_such, w)),
      api_container_start = (\<lambda>i w. (None, w + 1)),
      api_container_restart = (\<lambda>i g w. (None, w + 1)),
      api_container_stop = (\<lambda>i g w. (None, w + 1)),
      api_container_kill = (\<lambda>i w. (None, w + 1)),
      api_container_remove = (\<lambda>i w. (None, w + 1)),
      api_container_logs = (\<lambda>ref opts w. (Inr \<lparr>lst_chunks = [], lst_end = EOF\<rparr>, w))\<rparr>"

definition demo_client :: "string list \<Rightarrow> client" where
  "demo_client entries = \<lparr>c_self = \<lparr>si_containerized = False, si_id = []\<rparr>,
     c_protected = newProtectedSet entries\<rparr>"

lemma lifecycle_never_touches_protected_witness:
  "lifecycle demo_engine (demo_client [''db'']) DoStop ''web'' (0, []) =
     (None, (1, [CallContainerInspect ''web'', CallStop ''0123456789ab'' 10])) \<and>
   \<not> untouchable (demo_client [''db'']) demo_container"
proof -
  have "lifecycle demo_engine (demo_client [''db'']) DoStop ''web'' (0, []) =
     (None, (1, [CallContainerInspect ''web'', CallStop ''0123456789ab'' 10]))"
    by (simp add: StopContainer_def on_target_def resolveTarget_cases refPattern_def char_class_defs
        demo_engine_def demo_client_def demo_container_def newProtectedSet_eq protected_matches_def
        protectedIDPattern_def trimContainerName_def trim_prefix_def calling_def stopGraceSeconds_def shortIDLength_def
        Let_def)
  from this lifecycle_never_touches_protected [OF this] show ?thesis
    by (auto simp: demo_engine_def)
qed

text \<open>
  The client's flag tells the truth.  When the agent knows who it is, inspect marks a
  container protected exactly when every lifecycle operation on it is refused as the agent's
  own or as protected.
\<close>

theorem protected_flag_agrees:
  assumes "fst (InspectContainer api c ref s) = Inr d"
    and "\<not> (si_containerized (c_self c) \<and> si_id (c_self c) = [])"
  shows "cd_protected d \<longleftrightarrow>
    fst (lifecycle api c op ref s) \<in> {Some ErrSelfProtected, Some ErrProtectedContainer}"
proof -
  obtain call f where op: "lifecycle api c op = on_target api c call f"
    using lifecycle_eq by metis
  have cls: "classify e \<notin> {ErrSelfProtected, ErrProtectedContainer}" for e
    by (simp add: classify_def)
  show ?thesis
    using assms cls unfolding op on_target_def resolveTarget_cases InspectContainer_def
    by (auto simp: Let_def calling_def ValidateRef_def toContainerDetail_identity
        split: prod.splits sum.splits option.splits if_splits)
qed

lemma protected_flag_agrees_witness:
  "fst (InspectContainer demo_engine (demo_client [''web'']) ''web'' (0, [])) =
     Inr (toContainerDetail demo_container [] (newProtectedSet [''web''])) \<and>
   cd_protected (toContainerDetail demo_container [] (newProtectedSet [''web''])) \<and>
   fst (lifecycle demo_engine (demo_client [''web'']) DoRemove ''web'' (0, [])) \<in>
     {Some ErrSelfProtected, Some ErrProtectedContainer}"
proof -
  have i: "fst (InspectContainer demo_engine (demo_client [''web'']) ''web'' (0, [])) =
     Inr (toContainerDetail demo_container [] (newProtectedSet [''web'']))"
    by (simp add: InspectContainer_def ValidateRef_def refPattern_def char_class_defs calling_def
        demo_engine_def demo_client_def)
  have p: "cd_protected (toContainerDetail demo_container [] (newProtectedSet [''web'']))"
    by (simp add: toContainerDetail_identity newProtectedSet_eq protected_matches_def
        trimContainerName_def trim_prefix_def demo_container_def)
  show ?thesis
    using i p protected_flag_agrees [OF i, of DoRemove] by (simp add: demo_client_def)
qed

subsection \<open>Logs (logs.go)\<close>

record log_request =
  lq_tail :: int
  lq_since :: string

definition engineOptions :: "log_request \<Rightarrow> bool \<Rightarrow> docker_error + log_options" where
  "engineOptions o' follow =
     (if lq_since o' \<noteq> [] \<and> \<not> is_rfc3339nano (lq_since o') then Inl ErrInvalidSince
      else Inr \<lparr>lo_tail = (if 0 < lq_tail o' then itoa (lq_tail o') else ''all''),
                lo_since = lq_since o', lo_follow = follow\<rparr>)"

definition containerUsesTTY ::
  "'w engine_api \<Rightarrow> string \<Rightarrow> 'w cw \<Rightarrow> (docker_error + bool) \<times> 'w cw" where
  "containerUsesTTY api ref s =
     (case ValidateRef ref of
        Some e \<Rightarrow> (Inl e, s)
      | None \<Rightarrow>
          (case calling (CallContainerInspect ref) (api_container_inspect api ref) s of
             (Inl e, s') \<Rightarrow> (Inl (classify e), s')
           | (Inr r, s') \<Rightarrow> (Inr (containerHasTTY r), s')))"

text \<open>The reader both routes open: the container's TTY flag, the options, the Engine's stream.\<close>

definition open_logs ::
  "'w engine_api \<Rightarrow> string \<Rightarrow> log_request \<Rightarrow> bool \<Rightarrow> 'w cw \<Rightarrow> (docker_error + (bool \<times> log_stream)) \<times> 'w cw" where
  "open_logs api ref o' follow s =
     (case containerUsesTTY api ref s of
        (Inl e, s1) \<Rightarrow> (Inl e, s1)
      | (Inr tty, s1) \<Rightarrow>
          (case engineOptions o' follow of
             Inl e \<Rightarrow> (Inl e, s1)
           | Inr opts \<Rightarrow>
               (case calling (CallLogs ref opts) (api_container_logs api ref opts) s1 of
                  (Inl e, s2) \<Rightarrow> (Inl (classify e), s2)
                | (Inr st, s2) \<Rightarrow> (Inr (tty, st), s2))))"

definition demux ::
  "string list \<Rightarrow> bool \<Rightarrow> ('s, 'e) emit \<Rightarrow> log_stream \<Rightarrow> 's \<Rightarrow> 'e demux_error option \<times> 's" where
  "demux order tty emit st es =
     (if tty then demuxTTY order emit (lst_chunks st) (lst_end st) es
      else demuxNonTTY order emit \<lparr>rd_bytes = concat (lst_chunks st), rd_end = lst_end st\<rparr> es)"

definition maxHistoricalLines :: nat where "maxHistoricalLines = 2000"

definition capped_emit :: "(log_line list \<times> bool, unit) emit" where
  "capped_emit l st = (None,
     if length (fst st) = maxHistoricalLines then (fst st, True) else (fst st @ [l], snd st))"

definition ContainerLogs ::
  "string list \<Rightarrow> 'w engine_api \<Rightarrow> string \<Rightarrow> log_request \<Rightarrow> 'w cw \<Rightarrow>
     (docker_error + log_line list_result) \<times> 'w cw" where
  "ContainerLogs order api ref o' s =
     (case open_logs api ref o' False s of
        (Inl e, s') \<Rightarrow> (Inl e, s')
      | (Inr (tty, st), s') \<Rightarrow>
          (case demux order tty capped_emit st ([], False) of
             (Some e, _) \<Rightarrow> (Inl LogStreamFailure, s')
           | (None, (items, t)) \<Rightarrow> (Inr \<lparr>lr_items = items, lr_truncated = t\<rparr>, s')))"

datatype 'e stream_error = StreamRefused docker_error | StreamBroken "'e demux_error"

definition StreamContainerLogs ::
  "string list \<Rightarrow> 'w engine_api \<Rightarrow> string \<Rightarrow> log_request \<Rightarrow> ('s, 'e) emit \<Rightarrow> 's \<Rightarrow> 'w cw \<Rightarrow>
     'e stream_error option \<times> 's \<times> 'w cw" where
  "StreamContainerLogs order api ref o' emit es s =
     (case open_logs api ref o' True s of
        (Inl e, s') \<Rightarrow> (Some (StreamRefused e), es, s')
      | (Inr (tty, st), s') \<Rightarrow>
          (case demux order tty emit st es of (err, es') \<Rightarrow> (map_option StreamBroken err, es', s')))"

lemma feed_capped:
  "length items \<le> maxHistoricalLines \<Longrightarrow>
   feed capped_emit ls (items, t) =
     (None, (take maxHistoricalLines (items @ ls), t \<or> maxHistoricalLines < length items + length ls))"
proof (induction ls arbitrary: items t)
  case (Cons l ls)
  show ?case
  proof (cases "length items = maxHistoricalLines")
    case True
    with Cons.IH [of items True] show ?thesis by (simp add: capped_emit_def)
  next
    case False
    with Cons.prems Cons.IH [of "items @ [l]" t] show ?thesis by (simp add: capped_emit_def)
  qed
qed simp

text \<open>
  The bounded log fetch returns the first 2000 lines of what the container wrote and says
  whether there was more: nothing is lost below the cap, and nothing is kept above it.
\<close>

theorem container_logs_capped:
  assumes "open_logs api ref o' False s = (Inr (False, st), s')"
    and "concat (lst_chunks st) = concat (map encode_frame fs)" and "lst_end st = EOF"
    and "list_all frame_ok fs" and "distinct order" and "set order = {streamStdout, streamStderr}"
  shows "ContainerLogs order api ref o' s =
    (Inr \<lparr>lr_items = take 2000 (stream_lines order fs),
          lr_truncated = (2000 < length (stream_lines order fs))\<rparr>, s') \<and>
    (\<forall>stream. filter (\<lambda>l. ll_stream l = stream) (stream_lines order fs) =
       map (to_line stream) (spec_lines (bytes_of stream fs)))"
proof -
  have "fst ` set fs \<subseteq> set order"
    using assms(4,6) by (auto simp: list_all_iff frame_ok_def)
  then have lines: "filter (\<lambda>l. ll_stream l = stream) (stream_lines order fs) =
      map (to_line stream) (spec_lines (bytes_of stream fs))" for stream
    using assms(5) by (intro stream_lines_of_stream)
  have "demuxNonTTY order capped_emit \<lparr>rd_bytes = concat (map encode_frame fs), rd_end = EOF\<rparr> ([], False) =
      lift_emit (feed capped_emit (stream_lines order fs) ([], False))"
    using demux_nontty_clean [OF assms(4-6)] .
  with assms(1-3) lines show ?thesis
    by (simp add: ContainerLogs_def demux_def feed_capped lift_emit_def maxHistoricalLines_def)
qed

lemma container_logs_capped_witness:
  "fst (ContainerLogs [streamStdout, streamStderr]
     (demo_engine\<lparr>api_container_logs := (\<lambda>ref opts w.
        (Inr \<lparr>lst_chunks = map encode_frame demo_frames, lst_end = EOF\<rparr>, w))\<rparr>)
     ''web'' \<lparr>lq_tail = 10, lq_since = []\<rparr> (0, [])) =
   Inr \<lparr>lr_items = take 2000 (stream_lines [streamStdout, streamStderr] demo_frames),
        lr_truncated = (2000 < length (stream_lines [streamStdout, streamStderr] demo_frames))\<rparr>"
proof -
  let ?api = "demo_engine\<lparr>api_container_logs := (\<lambda>ref opts w.
        (Inr \<lparr>lst_chunks = map encode_frame demo_frames, lst_end = EOF\<rparr>, w))\<rparr>"
  let ?q = "\<lparr>lq_tail = 10, lq_since = []\<rparr>"
  have "list_all frame_ok demo_frames"
    by (simp add: demo_frames_def frame_ok_def maxFramePayloadBytes_def)
  moreover have "distinct [streamStdout, streamStderr]"
    by (simp add: streamStdout_def streamStderr_def)
  moreover have "\<exists>s'. open_logs ?api ''web'' ?q False (0, []) =
      (Inr (False, \<lparr>lst_chunks = map encode_frame demo_frames, lst_end = EOF\<rparr>), s')"
    by (simp add: open_logs_def containerUsesTTY_def ValidateRef_def refPattern_def char_class_defs
        calling_def demo_engine_def demo_container_def containerHasTTY_def engineOptions_def)
  ultimately show ?thesis
    using container_logs_capped [where api = ?api and ref = "''web''" and o' = ?q and s = "(0, [])"
        and fs = demo_frames and order = "[streamStdout, streamStderr]"] by fastforce
qed

subsection \<open>Reads change nothing and cannot leave the API's paths\<close>

datatype read_op =
    RListContainers bool | RInspectContainer string | RListImages | RInspectImage string
  | RListNetworks | RInspectNetwork string | RListVolumes | RInspectVolume string
  | RContainerStates | RContainerLogs string log_request | RStreamLogs string log_request

fun read_calls :: "'w engine_api \<Rightarrow> client \<Rightarrow> read_op \<Rightarrow> 'w \<Rightarrow> engine_call list" where
  "read_calls api c (RListContainers all) w = snd (snd (ListContainers api c all (w, [])))"
| "read_calls api c (RInspectContainer ref) w = snd (snd (InspectContainer api c ref (w, [])))"
| "read_calls api c RListImages w = snd (snd (ListImages api (w, [])))"
| "read_calls api c (RInspectImage ref) w = snd (snd (InspectImage api ref (w, [])))"
| "read_calls api c RListNetworks w = snd (snd (ListNetworks api (w, [])))"
| "read_calls api c (RInspectNetwork ref) w = snd (snd (InspectNetwork api ref (w, [])))"
| "read_calls api c RListVolumes w = snd (snd (ListVolumes api (w, [])))"
| "read_calls api c (RInspectVolume ref) w = snd (snd (InspectVolume api ref (w, [])))"
| "read_calls api c RContainerStates w = snd (snd (ContainerStates api (w, [])))"
| "read_calls api c (RContainerLogs ref o') w = snd (snd (ContainerLogs [] api ref o' (w, [])))"
| "read_calls api c (RStreamLogs ref o') w =
     snd (snd (snd (StreamContainerLogs [] api ref o' collect [] (w, []))))"

lemma refPattern_safe: "refPattern ref \<Longrightarrow> path_safe ref"
proof -
  assume r: "refPattern ref"
  have "list_all is_ref_char ref"
    using r by (auto simp: refPattern_def is_alnum_ref_char split: list.splits)
  then have "\<forall>c\<in>set ref. c \<notin> {CHR ''/'', CHR ''%'', CHR ''?'', CHR ''#'', CHR '':'', CHR 0x5C} \<and>
      32 < byte_of c \<and> byte_of c < 127"
    using is_ref_char_safe unfolding list_all_iff by blast
  moreover have "ref \<noteq> []" and "ref \<noteq> ''.''" and "ref \<noteq> ''..''"
    using r by (auto simp: refPattern_def char_class_defs)
  ultimately show ?thesis unfolding path_safe_def by blast
qed

definition call_safe :: "engine_call \<Rightarrow> bool" where
  "call_safe k \<longleftrightarrow> call_target k = None \<and>
     (case call_ref k of None \<Rightarrow> True | Some r \<Rightarrow> path_safe r)"

lemma open_logs_calls:
  "list_all call_safe (snd s) \<Longrightarrow> list_all call_safe (snd (snd (open_logs api ref o' follow s)))"
  by (auto simp: open_logs_def containerUsesTTY_def ValidateRef_def calling_def call_safe_def Let_def
      intro: refPattern_safe split: prod.splits sum.splits)

text \<open>
  C38: a read never changes anything on the host and never lets a client's reference out of
  its path segment: none of the calls it makes is a mutating one, and every reference that
  reaches the Engine is one plain segment without a slash, a dot segment, a query or an escape.
\<close>

theorem reads_are_confined:
  "list_all call_safe (read_calls api c op w)"
proof (cases op)
  case (RContainerLogs ref o')
  have "snd (ContainerLogs [] api ref o' (w, [])) = snd (open_logs api ref o' False (w, []))"
    by (simp add: ContainerLogs_def split: prod.splits sum.splits option.splits)
  with RContainerLogs show ?thesis using open_logs_calls [of "(w, [])" api ref o' False] by simp
next
  case (RStreamLogs ref o')
  have "snd (snd (StreamContainerLogs [] api ref o' collect [] (w, []))) =
      snd (open_logs api ref o' True (w, []))"
    by (simp add: StreamContainerLogs_def split: prod.splits sum.splits)
  with RStreamLogs show ?thesis using open_logs_calls [of "(w, [])" api ref o' True] by simp
qed (auto simp: ListContainers_def InspectContainer_def ListImages_def InspectImage_def
    ListNetworks_def InspectNetwork_def ListVolumes_def InspectVolume_def ContainerStates_def
    calling_def ValidateRef_def call_safe_def Let_def
    intro: refPattern_safe split: prod.splits sum.splits)

end
