(* ===== verification/Store.thy ===== *)
theory Store
  imports Prelude
begin

section \<open>The state store (internal/state: devices.go, pairing.go, audit.go, store.go)\<close>

text \<open>
  The SQLite database as its four tables.  A table is a list of rows in rowid order; a
  nullable column is an option; a time is nanoseconds since the epoch and a stored time its
  seconds.  SQLite executes a statement or a transaction entirely or not at all, so a driver
  error leaves the tables as they were: every operation takes the clock and a predicate that
  says which of its statements fail.  The hash of a pairing code is a parameter.
\<close>

record device_row =
  dr_id :: string
  dr_name :: string
  dr_paired_at :: int
  dr_last_seen_at :: "int option"
  dr_revoked_at :: "int option"

record cert_row =
  cr_serial :: string
  cr_device_id :: string
  cr_not_before :: int
  cr_not_after :: int
  cr_issued_at :: int
  cr_superseded_at :: "int option"

record code_row =
  pc_code_hash :: string
  pc_device_name :: string
  pc_created_at :: int
  pc_expires_at :: int
  pc_used_at :: "int option"
  pc_used_by :: "string option"

record audit_row =
  ar_id :: int
  ar_occurred_at :: int
  ar_device_id :: "string option"
  ar_operation :: string
  ar_target :: "string option"
  ar_outcome :: string
  ar_detail :: "string option"

record db =
  db_devices :: "device_row list"
  db_certs :: "cert_row list"
  db_codes :: "code_row list"
  db_audit :: "audit_row list"
  db_audit_seq :: int

definition empty_db :: db where
  "empty_db = \<lparr>db_devices = [], db_certs = [], db_codes = [], db_audit = [], db_audit_seq = 0\<rparr>"

datatype store_error =
  ErrDeviceNotFound | ErrPairingCodeInvalid | ErrConstraint | ErrBadTTL | StoreFailure

text \<open>The clock in nanoseconds, and which statements of the operation fail.\<close>

record store_env =
  se_now :: int
  se_fails :: "nat \<Rightarrow> bool"

definition unix :: "int \<Rightarrow> int" where
  "unix t = t div 1000000000"

type_synonym 'a stored = "(store_error + 'a) \<times> db"

subsection \<open>Devices (devices.go)\<close>

definition hex_digit :: "nat \<Rightarrow> char" where
  "hex_digit n = (if n < 10 then char_of (48 + n) else char_of (87 + n))"

definition hex_encode :: "string \<Rightarrow> string" where
  "hex_encode bs = concat (map (\<lambda>b. [hex_digit (byte_of b div 16), hex_digit (byte_of b mod 16)]) bs)"

definition deviceIDBytes :: nat where "deviceIDBytes = 8"

definition lastSeenResolution :: int where "lastSeenResolution = 60000000000"

record device =
  dev_id :: string
  dev_name :: string
  dev_paired_at :: int
  dev_last_seen_at :: "int option"
  dev_revoked_at :: "int option"

definition IsRevoked :: "device \<Rightarrow> bool" where
  "IsRevoked d \<longleftrightarrow> dev_revoked_at d \<noteq> None"

definition scanDevice :: "device_row \<Rightarrow> device" where
  "scanDevice r = \<lparr>dev_id = dr_id r, dev_name = dr_name r, dev_paired_at = dr_paired_at r * 1000000000,
     dev_last_seen_at = map_option (\<lambda>s. s * 1000000000) (dr_last_seen_at r),
     dev_revoked_at = map_option (\<lambda>s. s * 1000000000) (dr_revoked_at r)\<rparr>"

definition find_device :: "db \<Rightarrow> string \<Rightarrow> device_row option" where
  "find_device d ident = List.find (\<lambda>r. dr_id r = ident) (db_devices d)"

text \<open>UPDATE devices SET ... WHERE id = ? AND ...\<close>

definition update_device :: "string \<Rightarrow> (device_row \<Rightarrow> device_row) \<Rightarrow> db \<Rightarrow> db" where
  "update_device ident f d =
     d\<lparr>db_devices := map (\<lambda>r. if dr_id r = ident then f r else r) (db_devices d)\<rparr>"

text \<open>The random bytes of the ID are an argument.\<close>

definition CreateDevice :: "store_env \<Rightarrow> string \<Rightarrow> string \<Rightarrow> db \<Rightarrow> device stored" where
  "CreateDevice env rnd name d =
     (let ident = hex_encode (take deviceIDBytes rnd)
      in if se_fails env 0 then (Inl StoreFailure, d)
         else if find_device d ident \<noteq> None then (Inl ErrConstraint, d)
         else (Inr \<lparr>dev_id = ident, dev_name = name, dev_paired_at = se_now env,
                   dev_last_seen_at = None, dev_revoked_at = None\<rparr>,
               d\<lparr>db_devices := db_devices d @ [\<lparr>dr_id = ident, dr_name = name,
                   dr_paired_at = unix (se_now env), dr_last_seen_at = None, dr_revoked_at = None\<rparr>]\<rparr>))"

definition RenameDevice :: "store_env \<Rightarrow> string \<Rightarrow> string \<Rightarrow> db \<Rightarrow> unit stored" where
  "RenameDevice env ident name d =
     (if se_fails env 0 then (Inl StoreFailure, d)
      else if find_device d ident = None then (Inl ErrDeviceNotFound, d)
      else (Inr (), update_device ident (\<lambda>r. r\<lparr>dr_name := name\<rparr>) d))"

text \<open>ON DELETE CASCADE removes the device's certificates.\<close>

definition DeleteDevice :: "store_env \<Rightarrow> string \<Rightarrow> db \<Rightarrow> unit stored" where
  "DeleteDevice env ident d =
     (if se_fails env 0 then (Inl StoreFailure, d)
      else (Inr (), d\<lparr>db_devices := filter (\<lambda>r. dr_id r \<noteq> ident) (db_devices d),
                      db_certs := filter (\<lambda>c. cr_device_id c \<noteq> ident) (db_certs d)\<rparr>))"

definition RecordDeviceCert ::
  "store_env \<Rightarrow> string \<Rightarrow> string \<Rightarrow> int \<Rightarrow> int \<Rightarrow> db \<Rightarrow> unit stored" where
  "RecordDeviceCert env ident serial notBefore notAfter d =
     (if se_fails env 0 then (Inl StoreFailure, d)
      else if find_device d ident = None \<or> list_ex (\<lambda>c. cr_serial c = serial) (db_certs d)
      then (Inl ErrConstraint, d)
      else (Inr (), d\<lparr>db_certs := db_certs d @ [\<lparr>cr_serial = serial, cr_device_id = ident,
              cr_not_before = unix notBefore, cr_not_after = unix notAfter,
              cr_issued_at = unix (se_now env), cr_superseded_at = None\<rparr>]\<rparr>))"

definition SupersedePriorCerts :: "store_env \<Rightarrow> string \<Rightarrow> string \<Rightarrow> db \<Rightarrow> unit stored" where
  "SupersedePriorCerts env ident keep d =
     (if se_fails env 0 then (Inl StoreFailure, d)
      else (Inr (), d\<lparr>db_certs := map (\<lambda>c.
              if cr_device_id c = ident \<and> cr_serial c \<noteq> keep \<and> cr_superseded_at c = None
              then c\<lparr>cr_superseded_at := Some (unix (se_now env))\<rparr> else c) (db_certs d)\<rparr>))"

definition DeviceByCertSerial :: "store_env \<Rightarrow> string \<Rightarrow> db \<Rightarrow> store_error + device" where
  "DeviceByCertSerial env serial d =
     (if se_fails env 0 then Inl StoreFailure
      else case List.find (\<lambda>c. cr_serial c = serial) (db_certs d) of
          None \<Rightarrow> Inl ErrDeviceNotFound
        | Some c \<Rightarrow> (case find_device d (cr_device_id c) of
              None \<Rightarrow> Inl ErrDeviceNotFound
            | Some r \<Rightarrow> Inr (scanDevice r)))"

definition ListDevices :: "store_env \<Rightarrow> db \<Rightarrow> store_error + device list" where
  "ListDevices env d = (if se_fails env 0 then Inl StoreFailure
     else Inr (map scanDevice (sort_key (\<lambda>r. - dr_paired_at r) (db_devices d))))"

definition RevokeDevice :: "store_env \<Rightarrow> string \<Rightarrow> db \<Rightarrow> unit stored" where
  "RevokeDevice env ident d =
     (if se_fails env 0 then (Inl StoreFailure, d)
      else if find_device d ident = None then (Inl ErrDeviceNotFound, d)
      else if se_fails env 1 then (Inl StoreFailure, d)
      else (Inr (), update_device ident (\<lambda>r. if dr_revoked_at r = None
              then r\<lparr>dr_revoked_at := Some (unix (se_now env))\<rparr> else r) d))"

definition IsDeviceRevoked :: "store_env \<Rightarrow> string \<Rightarrow> db \<Rightarrow> store_error + bool" where
  "IsDeviceRevoked env ident d =
     (if se_fails env 0 then Inl StoreFailure
      else case find_device d ident of
          None \<Rightarrow> Inl ErrDeviceNotFound
        | Some r \<Rightarrow> Inr (dr_revoked_at r \<noteq> None))"

definition TouchDevice :: "store_env \<Rightarrow> string \<Rightarrow> db \<Rightarrow> unit stored" where
  "TouchDevice env ident d =
     (let threshold = unix (se_now env - lastSeenResolution)
      in if se_fails env 0 then (Inl StoreFailure, d)
         else (Inr (), update_device ident (\<lambda>r.
             (case dr_last_seen_at r of
                None \<Rightarrow> r\<lparr>dr_last_seen_at := Some (unix (se_now env))\<rparr>
              | Some t \<Rightarrow> if t < threshold then r\<lparr>dr_last_seen_at := Some (unix (se_now env))\<rparr> else r)) d))"

subsection \<open>Pairing codes (pairing.go)\<close>

definition DefaultPairingCodeTTL :: int where "DefaultPairingCodeTTL = 600000000000"

definition MintPairingCode ::
  "(string \<Rightarrow> string) \<Rightarrow> store_env \<Rightarrow> string \<Rightarrow> string \<Rightarrow> int \<Rightarrow> db \<Rightarrow> (string \<times> int) stored" where
  "MintPairingCode sha env code name ttl d =
     (if ttl \<le> 0 then (Inl ErrBadTTL, d)
      else if se_fails env 0 then (Inl StoreFailure, d)
      else if list_ex (\<lambda>c. pc_code_hash c = sha code) (db_codes d) then (Inl ErrConstraint, d)
      else (Inr (code, se_now env + ttl),
            d\<lparr>db_codes := db_codes d @ [\<lparr>pc_code_hash = sha code, pc_device_name = name,
                pc_created_at = unix (se_now env), pc_expires_at = unix (se_now env + ttl),
                pc_used_at = None, pc_used_by = None\<rparr>]\<rparr>))"

definition redeemable :: "string \<Rightarrow> int \<Rightarrow> code_row \<Rightarrow> bool" where
  "redeemable h now c \<longleftrightarrow> pc_code_hash c = h \<and> pc_used_at c = None \<and> now < pc_expires_at c"

text \<open>One conditional UPDATE ... RETURNING.\<close>

definition RedeemPairingCode ::
  "(string \<Rightarrow> string) \<Rightarrow> store_env \<Rightarrow> string \<Rightarrow> string \<Rightarrow> db \<Rightarrow> string stored" where
  "RedeemPairingCode sha env code ident d =
     (let now = unix (se_now env)
      in if se_fails env 0 then (Inl StoreFailure, d)
         else case List.find (redeemable (sha code) now) (db_codes d) of
             None \<Rightarrow> (Inl ErrPairingCodeInvalid, d)
           | Some c \<Rightarrow> (Inr (pc_device_name c),
               d\<lparr>db_codes := map (\<lambda>r. if redeemable (sha code) now r
                   then r\<lparr>pc_used_at := Some now, pc_used_by := Some ident\<rparr> else r) (db_codes d)\<rparr>))"

definition PrunePairingCodes :: "store_env \<Rightarrow> db \<Rightarrow> int stored" where
  "PrunePairingCodes env d =
     (if se_fails env 0 then (Inl StoreFailure, d)
      else (let keep = filter (\<lambda>c. \<not> pc_expires_at c < unix (se_now env)) (db_codes d)
            in (Inr (int (length (db_codes d)) - int (length keep)), d\<lparr>db_codes := keep\<rparr>)))"

subsection \<open>The audit trail (audit.go, store.go)\<close>

record audit_entry =
  ae_occurred_at :: "int option"
  ae_device_id :: string
  ae_operation :: string
  ae_target :: string
  ae_outcome :: string
  ae_detail :: string

definition OutcomeSuccess :: string where "OutcomeSuccess = ''success''"
definition OutcomeDeniedPolicy :: string where "OutcomeDeniedPolicy = ''denied_policy''"
definition OutcomeDeniedSelf :: string where "OutcomeDeniedSelf = ''denied_self''"
definition OutcomeDeniedProtected :: string where "OutcomeDeniedProtected = ''denied_protected''"
definition OutcomeNotFound :: string where "OutcomeNotFound = ''not_found''"
definition OutcomeInvalid :: string where "OutcomeInvalid = ''invalid''"
definition OutcomeConflict :: string where "OutcomeConflict = ''conflict''"
definition OutcomeUnavailable :: string where "OutcomeUnavailable = ''unavailable''"
definition OutcomeEngineError :: string where "OutcomeEngineError = ''engine_error''"
definition OutcomeInternalError :: string where "OutcomeInternalError = ''internal_error''"

definition AppendAudit :: "store_env \<Rightarrow> audit_entry \<Rightarrow> db \<Rightarrow> unit stored" where
  "AppendAudit env e d =
     (let occurredAt = (case ae_occurred_at e of None \<Rightarrow> se_now env | Some t \<Rightarrow> t)
      in if se_fails env 0 then (Inl StoreFailure, d)
         else (Inr (), d\<lparr>db_audit_seq := db_audit_seq d + 1,
             db_audit := db_audit d @ [\<lparr>ar_id = db_audit_seq d + 1, ar_occurred_at = unix occurredAt,
               ar_device_id = Some (ae_device_id e), ar_operation = ae_operation e,
               ar_target = Some (ae_target e), ar_outcome = ae_outcome e,
               ar_detail = Some (ae_detail e)\<rparr>]\<rparr>))"

text \<open>COALESCE(x, '') of the statements, and how scanAuditEntry reads a nullable column.\<close>

definition coalesce :: "string option \<Rightarrow> string" where
  "coalesce s = (case s of None \<Rightarrow> [] | Some t \<Rightarrow> t)"

text \<open>The newest rows first, a negative limit being none.\<close>

definition newest :: "int \<Rightarrow> audit_row list \<Rightarrow> audit_row list" where
  "newest limit rows = (let xs = rev (sort_key ar_id rows)
     in if limit < 0 then xs else take (nat limit) xs)"

definition ListAudit :: "store_env \<Rightarrow> int \<Rightarrow> db \<Rightarrow> store_error + audit_row list" where
  "ListAudit env limit d = (if se_fails env 0 then Inl StoreFailure else Inr (newest limit (db_audit d)))"

definition bucket :: "audit_row \<Rightarrow> string" where
  "bucket r = coalesce (ar_device_id r)"

text \<open>ROW_NUMBER() OVER (PARTITION BY bucket ORDER BY id DESC).\<close>

definition row_number :: "audit_row list \<Rightarrow> audit_row \<Rightarrow> int" where
  "row_number rows r = int (length (filter (\<lambda>q. bucket q = bucket r \<and> ar_id r \<le> ar_id q) rows))"

definition pruneAuditByDeviceShare :: "int \<Rightarrow> audit_row list \<Rightarrow> audit_row list" where
  "pruneAuditByDeviceShare maxRows rows =
     (let buckets = int (card (bucket ` set rows))
      in if buckets = 0 then rows
         else let perDevice = max 1 (maxRows div buckets)
              in filter (\<lambda>r. row_number rows r \<le> perDevice) rows)"

definition PruneAudit :: "store_env \<Rightarrow> int \<Rightarrow> int \<Rightarrow> db \<Rightarrow> int stored" where
  "PruneAudit env maxAge maxRows d =
     (if \<exists>i<5. se_fails env i then (Inl StoreFailure, d)
      else (let cutoff = unix (se_now env - maxAge);
                r0 = db_audit d;
                r1 = filter (\<lambda>r. \<not> ar_occurred_at r < cutoff) r0;
                r2 = pruneAuditByDeviceShare maxRows r1;
                keep = ar_id ` set (newest maxRows r2);
                r3 = filter (\<lambda>r. ar_id r \<in> keep) r2
            in (Inr (int (length r0) - int (length r3)), d\<lparr>db_audit := r3\<rparr>)))"

end
