(* ===== verification/StoreProps.thy ===== *)
theory StoreProps
  imports Store
begin

section \<open>What the state store keeps\<close>

text \<open>
  The operations of the store as one event type, the constraints of the schema as an
  invariant of every run, and the guarantees the rest of the agent builds on: revocation is
  permanent, a pairing code is good for one device, retention is bounded and fair.
\<close>

datatype store_op =
    StCreate string string | StRename string string | StDelete string
  | StRecordCert string string int int | StSupersede string string | StRevoke string
  | StTouch string | StMint string string int | StRedeem string string | StPruneCodes
  | StAppend audit_entry | StPruneAudit int int

fun store_step :: "(string \<Rightarrow> string) \<Rightarrow> db \<Rightarrow> store_env \<times> store_op \<Rightarrow> db" where
  "store_step sha d (env, StCreate rnd name) = snd (CreateDevice env rnd name d)"
| "store_step sha d (env, StRename ident name) = snd (RenameDevice env ident name d)"
| "store_step sha d (env, StDelete ident) = snd (DeleteDevice env ident d)"
| "store_step sha d (env, StRecordCert ident serial nb na) = snd (RecordDeviceCert env ident serial nb na d)"
| "store_step sha d (env, StSupersede ident keep) = snd (SupersedePriorCerts env ident keep d)"
| "store_step sha d (env, StRevoke ident) = snd (RevokeDevice env ident d)"
| "store_step sha d (env, StTouch ident) = snd (TouchDevice env ident d)"
| "store_step sha d (env, StMint code name ttl) = snd (MintPairingCode sha env code name ttl d)"
| "store_step sha d (env, StRedeem code ident) = snd (RedeemPairingCode sha env code ident d)"
| "store_step sha d (env, StPruneCodes) = snd (PrunePairingCodes env d)"
| "store_step sha d (env, StAppend e) = snd (AppendAudit env e d)"
| "store_step sha d (env, StPruneAudit age rows) = snd (PruneAudit env age rows d)"

lemmas store_op_defs =
  CreateDevice_def RenameDevice_def DeleteDevice_def RecordDeviceCert_def SupersedePriorCerts_def
  RevokeDevice_def TouchDevice_def MintPairingCode_def RedeemPairingCode_def PrunePairingCodes_def
  AppendAudit_def PruneAudit_def

subsection \<open>The schema's constraints\<close>

definition devices_inv :: "db \<Rightarrow> bool" where
  "devices_inv d \<longleftrightarrow> distinct (map dr_id (db_devices d)) \<and> distinct (map cr_serial (db_certs d)) \<and>
     (\<forall>c\<in>set (db_certs d). cr_device_id c \<in> set (map dr_id (db_devices d)))"

definition codes_inv :: "db \<Rightarrow> bool" where
  "codes_inv d \<longleftrightarrow> distinct (map pc_code_hash (db_codes d)) \<and>
     (\<forall>c\<in>set (db_codes d). pc_used_at c = None \<longleftrightarrow> pc_used_by c = None)"

definition audit_inv :: "db \<Rightarrow> bool" where
  "audit_inv d \<longleftrightarrow> sorted_wrt (<) (map ar_id (db_audit d)) \<and>
     (\<forall>r\<in>set (db_audit d). ar_id r \<le> db_audit_seq d)"

definition db_inv :: "db \<Rightarrow> bool" where
  "db_inv d \<longleftrightarrow> devices_inv d \<and> codes_inv d \<and> audit_inv d"

lemma find_device_None: "find_device d ident = None \<longleftrightarrow> ident \<notin> dr_id ` set (db_devices d)"
  by (auto simp: find_device_def find_None_iff)

lemma find_device_Some:
  "find_device d ident = Some r \<Longrightarrow> r \<in> set (db_devices d) \<and> dr_id r = ident"
  by (auto simp: find_device_def find_Some_iff)

lemma distinct_map_filter: "distinct (map f xs) \<Longrightarrow> distinct (map f (filter P xs))"
  by (induction xs) auto

lemma map_update_keys:
  assumes "\<And>r. k (f r) = k r"
  shows "map k (map (\<lambda>r. if P r then f r else r) xs) = map k xs"
  using assms by (induction xs) auto

lemma update_device_fields [simp]:
  "db_certs (update_device i f d) = db_certs d" "db_codes (update_device i f d) = db_codes d"
  "db_audit (update_device i f d) = db_audit d" "db_audit_seq (update_device i f d) = db_audit_seq d"
  by (simp_all add: update_device_def)

lemma devices_inv_update:
  assumes "devices_inv d" and "\<And>r. dr_id (f r) = dr_id r"
  shows "devices_inv (update_device i f d)"
proof -
  have "map dr_id (db_devices (update_device i f d)) = map dr_id (db_devices d)"
    using assms(2) by (simp add: update_device_def map_update_keys)
  with assms(1) show ?thesis unfolding devices_inv_def by simp
qed

lemma devices_inv_step: "devices_inv d \<Longrightarrow> devices_inv (store_step sha d e)"
proof -
  assume inv: "devices_inv d"
  obtain env op where e: "e = (env, op)" by fastforce
  show ?thesis
  proof (cases op)
    case (StCreate rnd name)
    with inv show ?thesis
      by (auto simp: e devices_inv_def store_op_defs find_device_None Let_def)
  next
    case (StRename ident name)
    with inv show ?thesis by (simp add: e RenameDevice_def devices_inv_update)
  next
    case (StDelete ident)
    with inv show ?thesis
      by (auto simp: e devices_inv_def store_op_defs distinct_map_filter)
  next
    case (StRecordCert ident serial nb na)
    with inv show ?thesis
      by (auto simp: e devices_inv_def store_op_defs find_device_None list_ex_iff)
  next
    case (StSupersede ident keep)
    with inv show ?thesis
      by (auto simp: e devices_inv_def store_op_defs comp_def if_distrib [of cr_serial] cong: if_cong)
  next
    case (StRevoke ident)
    with inv show ?thesis by (simp add: e RevokeDevice_def devices_inv_update)
  next
    case (StTouch ident)
    with inv show ?thesis
      by (auto simp: e TouchDevice_def Let_def intro!: devices_inv_update split: option.splits)
  qed (use inv in \<open>auto simp: e devices_inv_def store_op_defs Let_def split: option.splits\<close>)
qed

lemma codes_inv_step: "codes_inv d \<Longrightarrow> codes_inv (store_step sha d e)"
proof -
  assume inv: "codes_inv d"
  obtain env op where e: "e = (env, op)" by fastforce
  show ?thesis
  proof (cases op)
    case (StMint code name ttl)
    with inv show ?thesis
      by (auto simp: e codes_inv_def store_op_defs list_ex_iff)
  next
    case (StRedeem code ident)
    with inv show ?thesis
      by (auto simp: e codes_inv_def store_op_defs comp_def if_distrib [of pc_code_hash] Let_def
          cong: if_cong split: option.splits)
  next
    case StPruneCodes
    with inv show ?thesis
      by (auto simp: e codes_inv_def store_op_defs distinct_map_filter Let_def)
  qed (use inv in \<open>auto simp: e codes_inv_def store_op_defs Let_def\<close>)
qed

lemma sorted_wrt_map_filter: "sorted_wrt R (map f xs) \<Longrightarrow> sorted_wrt R (map f (filter P xs))"
  by (induction xs) auto

lemma share_subset: "\<exists>P. pruneAuditByDeviceShare maxRows rows = filter P rows"
  unfolding pruneAuditByDeviceShare_def Let_def
  by (cases "int (card (bucket ` set rows)) = 0") (auto intro: exI [of _ "\<lambda>_. True"])

lemma PruneAudit_filter:
  "\<exists>P. db_audit (snd (PruneAudit env age rows d)) = filter P (db_audit d)"
proof -
  obtain P where P: "pruneAuditByDeviceShare rows
      (filter (\<lambda>r. \<not> ar_occurred_at r < unix (se_now env - age)) (db_audit d)) =
      filter P (filter (\<lambda>r. \<not> ar_occurred_at r < unix (se_now env - age)) (db_audit d))"
    using share_subset by blast
  show ?thesis
    unfolding PruneAudit_def Let_def P by (auto intro: exI [of _ "\<lambda>_. True"])
qed

lemma audit_inv_step: "audit_inv d \<Longrightarrow> audit_inv (store_step sha d e)"
proof -
  assume inv: "audit_inv d"
  obtain env op where e: "e = (env, op)" by fastforce
  show ?thesis
  proof (cases op)
    case (StAppend x)
    with inv show ?thesis
      by (force simp: e audit_inv_def store_op_defs sorted_wrt_append Let_def)
  next
    case (StPruneAudit age rows)
    obtain P where "db_audit (snd (PruneAudit env age rows d)) = filter P (db_audit d)"
      using PruneAudit_filter by blast
    moreover have "db_audit_seq (snd (PruneAudit env age rows d)) = db_audit_seq d"
      by (simp add: PruneAudit_def Let_def)
    ultimately show ?thesis
      using StPruneAudit inv by (simp add: e audit_inv_def sorted_wrt_map_filter)
  qed (use inv in \<open>auto simp: e audit_inv_def store_op_defs Let_def split: option.splits\<close>)
qed

interpretation store_sys: invariant_system "store_step sha" "\<lambda>d. d = empty_db" db_inv for sha
proof
  show "db_inv d" if "d = empty_db" for d
    using that by (simp add: db_inv_def empty_db_def devices_inv_def codes_inv_def audit_inv_def)
qed (simp add: db_inv_def devices_inv_step codes_inv_step audit_inv_step)

text \<open>
  Whatever sequence of operations runs, at whatever times and whichever statements fail,
  the tables keep the constraints the agent relies on: one row per device, per certificate
  serial and per pairing code, no certificate without its device, a code is used exactly when
  somebody used it, and audit IDs only grow.
\<close>

theorem store_constraints:
  assumes "d = foldl (store_step sha) empty_db es"
  shows "distinct (map dr_id (db_devices d)) \<and> distinct (map cr_serial (db_certs d)) \<and>
    cr_device_id ` set (db_certs d) \<subseteq> dr_id ` set (db_devices d) \<and>
    distinct (map pc_code_hash (db_codes d)) \<and>
    (\<forall>c\<in>set (db_codes d). pc_used_at c = None \<longleftrightarrow> pc_used_by c = None) \<and>
    sorted_wrt (<) (map ar_id (db_audit d))"
proof -
  have "db_inv d"
    unfolding assms by (rule store_sys.start_run_inv) (rule refl)
  then show ?thesis
    by (auto simp: db_inv_def devices_inv_def codes_inv_def audit_inv_def)
qed

definition demo_senv :: "int \<Rightarrow> store_env" where
  "demo_senv s = \<lparr>se_now = s * 1000000000, se_fails = (\<lambda>i. False)\<rparr>"

definition demo_sha :: "string \<Rightarrow> string" where
  "demo_sha s = ''#'' @ s"

definition demo_ops :: "(store_env \<times> store_op) list" where
  "demo_ops = [(demo_senv 10, StCreate ''abcdefgh'' ''phone''), (demo_senv 10, StMint ''CODE'' ''phone'' 600000000000),
     (demo_senv 20, StRecordCert ''6162636465666768'' ''5f'' 0 9), (demo_senv 30, StDelete ''6162636465666768'')]"

lemma store_constraints_witness:
  "length (db_codes (foldl (store_step demo_sha) empty_db demo_ops)) = 1 \<and>
   db_certs (foldl (store_step demo_sha) empty_db demo_ops) = [] \<and>
   distinct (map dr_id (db_devices (foldl (store_step demo_sha) empty_db demo_ops)))"
proof -
  have "length (db_codes (foldl (store_step demo_sha) empty_db demo_ops)) = 1"
    and "db_certs (foldl (store_step demo_sha) empty_db demo_ops) = []"
    by code_simp+
  with store_constraints [of _ demo_sha demo_ops] show ?thesis by blast
qed

subsection \<open>Revocation is permanent\<close>

lemma find_device_update:
  assumes "\<And>r. dr_id (f r) = dr_id r"
  shows "find_device (update_device i f d) j =
    (if i = j then map_option f (find_device d j) else find_device d j)"
proof -
  have "List.find (\<lambda>r. dr_id r = j) (map (\<lambda>r. if dr_id r = i then f r else r) xs) =
      (if i = j then map_option f (List.find (\<lambda>r. dr_id r = j) xs) else List.find (\<lambda>r. dr_id r = j) xs)" for xs
    using assms by (induction xs) auto
  then show ?thesis by (simp add: find_device_def update_device_def)
qed

lemma find_device_append:
  "find_device d i = Some r \<Longrightarrow> List.find (\<lambda>r. dr_id r = i) (db_devices d @ rs) = Some r"
proof -
  have "List.find P xs = Some r \<Longrightarrow> List.find P (xs @ rs) = Some r" for P and xs :: "device_row list"
    by (induction xs) auto
  then show "find_device d i = Some r \<Longrightarrow> List.find (\<lambda>r. dr_id r = i) (db_devices d @ rs) = Some r"
    by (simp add: find_device_def)
qed

lemma find_device_filter:
  "i \<noteq> j \<Longrightarrow> List.find (\<lambda>r. dr_id r = i) (filter (\<lambda>r. dr_id r \<noteq> j) xs) = List.find (\<lambda>r. dr_id r = i) xs"
  by (induction xs) auto

definition revoked_since :: "db \<Rightarrow> string \<Rightarrow> int \<Rightarrow> bool" where
  "revoked_since d i t \<longleftrightarrow> (\<exists>r. find_device d i = Some r \<and> dr_revoked_at r = Some t)"

lemma revoked_since_update:
  assumes "revoked_since d i t" and "\<And>r. dr_id (f r) = dr_id r"
    and "\<And>r. dr_revoked_at r = Some t \<Longrightarrow> dr_revoked_at (f r) = Some t"
  shows "revoked_since (update_device j f d) i t"
  using assms by (auto simp: revoked_since_def find_device_update)

lemma revoked_since_same:
  "revoked_since d i t \<Longrightarrow> db_devices d' = db_devices d \<Longrightarrow> revoked_since d' i t"
  by (simp add: revoked_since_def find_device_def)

lemma revoked_since_step:
  assumes "revoked_since d i t" and "op \<noteq> StDelete i"
  shows "revoked_since (store_step sha d (env, op)) i t"
proof (cases op)
  case (StCreate rnd name)
  with assms show ?thesis
    by (auto simp: revoked_since_def CreateDevice_def Let_def)
      (auto simp: find_device_def dest: find_device_append [unfolded find_device_def])
next
  case (StRename ident name)
  with assms show ?thesis by (auto simp: RenameDevice_def intro: revoked_since_update)
next
  case (StDelete ident)
  with assms show ?thesis
    by (auto simp: DeleteDevice_def revoked_since_def find_device_def find_device_filter)
next
  case (StRevoke ident)
  with assms show ?thesis by (auto simp: RevokeDevice_def intro!: revoked_since_update)
next
  case (StTouch ident)
  with assms show ?thesis
    by (auto simp: TouchDevice_def Let_def intro!: revoked_since_update split: option.splits)
qed (use assms in \<open>auto simp: store_op_defs Let_def split: option.splits intro: revoked_since_same\<close>)

lemma revoked_since_run:
  "revoked_since d i t \<Longrightarrow> StDelete i \<notin> snd ` set es \<Longrightarrow> revoked_since (foldl (store_step sha) d es) i t"
proof (induction es arbitrary: d)
  case (Cons e es)
  obtain env op where "e = (env, op)" by fastforce
  with Cons revoked_since_step [of d i t op sha env] show ?case by auto
qed simp

lemma DeviceByCertSerial_row:
  "DeviceByCertSerial env serial d = Inr dv \<Longrightarrow>
     \<exists>c r. c \<in> set (db_certs d) \<and> cr_serial c = serial \<and>
       find_device d (cr_device_id c) = Some r \<and> dv = scanDevice r"
  using find_Some_iff nth_mem
  by (fastforce simp: DeviceByCertSerial_def find_Some_iff split: if_splits option.splits)

lemma RevokeDevice_revokes:
  assumes "fst (RevokeDevice env i d) = Inr ()"
  shows "\<exists>t. revoked_since (snd (RevokeDevice env i d)) i t"
proof -
  obtain y where y: "find_device d i = Some y" and ok: "\<not> se_fails env 0" "\<not> se_fails env 1"
    using assms by (auto simp: RevokeDevice_def split: if_splits)
  then show ?thesis
    by (cases "dr_revoked_at y") (simp_all add: RevokeDevice_def revoked_since_def find_device_update)
qed

text \<open>
  Revocation is permanent.  Once a device is revoked no later operation, renewal of its
  certificates and renaming included, makes it active again or moves the time of its
  revocation: as long as the row exists, the revocation check answers revoked and every
  certificate of the device resolves to a revoked device.
\<close>

theorem revocation_permanent:
  assumes "fst (RevokeDevice env i d) = Inr ()" and "StDelete i \<notin> snd ` set es"
    and "d' = foldl (store_step sha) (snd (RevokeDevice env i d)) es"
  shows "IsDeviceRevoked env' i d' = (if se_fails env' 0 then Inl StoreFailure else Inr True) \<and>
    (\<forall>serial dv. DeviceByCertSerial env' serial d' = Inr dv \<longrightarrow> dev_id dv = i \<longrightarrow> IsRevoked dv)"
proof -
  have "\<exists>t. revoked_since (snd (RevokeDevice env i d)) i t"
    using assms(1) by (rule RevokeDevice_revokes)
  then obtain t where "revoked_since d' i t"
    using revoked_since_run assms(2,3) by blast
  then obtain r where r: "find_device d' i = Some r" "dr_revoked_at r = Some t"
    by (auto simp: revoked_since_def)
  have "dev_id dv = i \<Longrightarrow> IsRevoked dv" if got: "DeviceByCertSerial env' serial d' = Inr dv" for serial dv
  proof -
    assume i: "dev_id dv = i"
    from DeviceByCertSerial_row [OF got]
    obtain c :: cert_row and q where "find_device d' (cr_device_id c) = Some q" and dv: "dv = scanDevice q"
      by blast
    with i find_device_Some [of d' "cr_device_id c" q] have "find_device d' i = Some q"
      by (auto simp: scanDevice_def)
    with r dv show "IsRevoked dv" by (simp add: IsRevoked_def scanDevice_def)
  qed
  with r show ?thesis by (auto simp: IsDeviceRevoked_def)
qed

definition demo_device_db :: db where
  "demo_device_db = snd (CreateDevice (demo_senv 10) ''abcdefgh'' ''phone'' empty_db)"

lemma revocation_permanent_witness:
  "IsDeviceRevoked (demo_senv 99) ''6162636465666768''
     (foldl (store_step demo_sha) (snd (RevokeDevice (demo_senv 20) ''6162636465666768'' demo_device_db))
        [(demo_senv 30, StTouch ''6162636465666768''), (demo_senv 40, StRevoke ''6162636465666768''),
         (demo_senv 50, StRename ''6162636465666768'' ''new'')]) = Inr True"
proof -
  have "fst (RevokeDevice (demo_senv 20) ''6162636465666768'' demo_device_db) = Inr ()"
    by code_simp
  then show ?thesis
    using revocation_permanent [of "demo_senv 20" "''6162636465666768''" demo_device_db
        "[(demo_senv 30, StTouch ''6162636465666768''), (demo_senv 40, StRevoke ''6162636465666768''),
          (demo_senv 50, StRename ''6162636465666768'' ''new'')]" _ demo_sha "demo_senv 99"]
    by (simp add: demo_senv_def)
qed

subsection \<open>A pairing code is good for one device\<close>

definition spent :: "db \<Rightarrow> string \<Rightarrow> bool" where
  "spent d h \<longleftrightarrow> (\<forall>c\<in>set (db_codes d). pc_code_hash c = h \<longrightarrow> pc_used_at c \<noteq> None)"

fun mints :: "(string \<Rightarrow> string) \<Rightarrow> store_op \<Rightarrow> string \<Rightarrow> bool" where
  "mints sha (StMint code name ttl) h \<longleftrightarrow> sha code = h"
| "mints sha _ h \<longleftrightarrow> False"

lemma spent_step:
  assumes "spent d h" and "\<not> mints sha op h"
  shows "spent (store_step sha d (env, op)) h"
  using assms by (cases op) (auto simp: spent_def store_op_defs Let_def split: option.splits)

lemma spent_run:
  "spent d h \<Longrightarrow> (\<And>op. op \<in> snd ` set es \<Longrightarrow> \<not> mints sha op h) \<Longrightarrow> spent (foldl (store_step sha) d es) h"
proof (induction es arbitrary: d)
  case (Cons e es)
  obtain env op where "e = (env, op)" by fastforce
  with Cons spent_step [of d h sha op env] show ?case by auto
qed simp

lemma redeem_spends:
  assumes "codes_inv d" and "fst (RedeemPairingCode sha env code dev d) = Inr name"
  shows "spent (snd (RedeemPairingCode sha env code dev d)) (sha code)"
proof -
  obtain c where c: "List.find (redeemable (sha code) (unix (se_now env))) (db_codes d) = Some c"
    and nf: "\<not> se_fails env 0"
    using assms(2) by (auto simp: RedeemPairingCode_def Let_def split: if_splits option.splits)
  then have cin: "c \<in> set (db_codes d)" "redeemable (sha code) (unix (se_now env)) c"
    by (auto simp: find_Some_iff)
  have "redeemable (sha code) (unix (se_now env)) x" if "x \<in> set (db_codes d)" "pc_code_hash x = sha code" for x
  proof -
    have "pc_code_hash x = pc_code_hash c" using that(2) cin(2) by (simp add: redeemable_def)
    then have "x = c"
      using assms(1) that(1) cin(1) by (auto simp: codes_inv_def distinct_map inj_on_def)
    with cin(2) show ?thesis by simp
  qed
  with nf c show ?thesis
    by (auto simp: RedeemPairingCode_def Let_def spent_def)
qed

text \<open>
  A pairing code is good for exactly one pairing.  After a redemption has succeeded, no
  redemption of the same code ever succeeds again, by whatever device, whatever runs in
  between and whatever the clock says, and a success proves that the code was unexpired at
  that moment.
\<close>

theorem pairing_code_single_use:
  assumes "d = foldl (store_step sha) empty_db es0"
    and "RedeemPairingCode sha env code dev d = (Inr name, d1)"
    and "\<forall>op\<in>snd ` set es. \<not> mints sha op (sha code)"
  shows "fst (RedeemPairingCode sha env' code dev' (foldl (store_step sha) d1 es)) =
      Inl (if se_fails env' 0 then StoreFailure else ErrPairingCodeInvalid) \<and>
    (\<exists>c\<in>set (db_codes d). pc_code_hash c = sha code \<and> pc_device_name c = name \<and>
       pc_used_at c = None \<and> unix (se_now env) < pc_expires_at c)"
proof
  have "db_inv d"
    unfolding assms(1) by (rule store_sys.start_run_inv) (rule refl)
  then have "spent d1 (sha code)"
    using redeem_spends [of d sha env code dev name] assms(2) by (simp add: db_inv_def)
  then have "spent (foldl (store_step sha) d1 es) (sha code)"
    using assms(3) by (intro spent_run) auto
  then have "List.find (redeemable (sha code) now) (db_codes (foldl (store_step sha) d1 es)) = None" for now
    by (auto simp: find_None_iff spent_def redeemable_def)
  then show "fst (RedeemPairingCode sha env' code dev' (foldl (store_step sha) d1 es)) =
      Inl (if se_fails env' 0 then StoreFailure else ErrPairingCodeInvalid)"
    by (simp add: RedeemPairingCode_def Let_def)
  show "\<exists>c\<in>set (db_codes d). pc_code_hash c = sha code \<and> pc_device_name c = name \<and>
       pc_used_at c = None \<and> unix (se_now env) < pc_expires_at c"
    using assms(2)
    by (auto simp: RedeemPairingCode_def Let_def redeemable_def find_Some_iff
        split: if_splits option.splits)
qed

lemma pairing_code_single_use_witness:
  "fst (RedeemPairingCode demo_sha (demo_senv 60) ''CODE'' ''dev1''
      (foldl (store_step demo_sha) empty_db demo_ops)) = Inr ''phone'' \<and>
   fst (RedeemPairingCode demo_sha (demo_senv 61) ''CODE'' ''dev2''
      (foldl (store_step demo_sha)
         (snd (RedeemPairingCode demo_sha (demo_senv 60) ''CODE'' ''dev1''
            (foldl (store_step demo_sha) empty_db demo_ops))) [(demo_senv 60, StPruneCodes)])) =
     Inl ErrPairingCodeInvalid"
proof -
  have r: "fst (RedeemPairingCode demo_sha (demo_senv 60) ''CODE'' ''dev1''
      (foldl (store_step demo_sha) empty_db demo_ops)) = Inr ''phone''"
    by code_simp
  then show ?thesis
    using pairing_code_single_use [OF refl, of demo_sha "demo_senv 60" "''CODE''" "''dev1''" demo_ops "''phone''"
        "snd (RedeemPairingCode demo_sha (demo_senv 60) ''CODE'' ''dev1'' (foldl (store_step demo_sha) empty_db demo_ops))"
        "[(demo_senv 60, StPruneCodes)]" "demo_senv 61" "''dev2''"]
    by (simp add: prod_eq_iff demo_senv_def)
qed

subsection \<open>A pairing code works until it expires\<close>

definition pending :: "db \<Rightarrow> string \<Rightarrow> string \<Rightarrow> int \<Rightarrow> bool" where
  "pending d h name expires \<longleftrightarrow> (\<exists>c\<in>set (db_codes d). pc_code_hash c = h \<and> pc_device_name c = name \<and>
     pc_expires_at c = expires \<and> pc_used_at c = None)"

fun redeems :: "(string \<Rightarrow> string) \<Rightarrow> store_op \<Rightarrow> string \<Rightarrow> bool" where
  "redeems sha (StRedeem code ident) h \<longleftrightarrow> sha code = h"
| "redeems sha _ h \<longleftrightarrow> False"

lemma pending_step:
  assumes "pending d h name expires" "\<not> redeems sha op h" "unix (se_now env) \<le> expires"
  shows "pending (store_step sha d (env, op)) h name expires"
proof -
  obtain c where c: "c \<in> set (db_codes d)" "pc_code_hash c = h" "pc_device_name c = name"
    "pc_expires_at c = expires" "pc_used_at c = None"
    using assms(1) by (auto simp: pending_def)
  show ?thesis
  proof (cases op)
    case (StRedeem code ident)
    have "\<not> redeemable (sha code) now c" for now
      using assms(2) c(2) StRedeem by (auto simp: redeemable_def)
    with StRedeem c show ?thesis
      by (auto simp: RedeemPairingCode_def pending_def Let_def split: option.splits intro!: bexI [of _ c])
  qed (use assms(3) c in \<open>auto simp: pending_def store_op_defs Let_def split: option.splits\<close>)
qed

lemma pending_run:
  "pending d h name expires \<Longrightarrow>
   (\<And>env op. (env, op) \<in> set es \<Longrightarrow> \<not> redeems sha op h \<and> unix (se_now env) \<le> expires) \<Longrightarrow>
   pending (foldl (store_step sha) d es) h name expires"
proof (induction es arbitrary: d)
  case (Cons e es)
  obtain env op where "e = (env, op)" by fastforce
  with Cons pending_step [of d h name expires sha op env] show ?case by auto
qed simp

text \<open>
  A code that was minted can be used.  Until the second it expires in, the first redemption
  of it succeeds and yields the device name it was minted for, whatever else happened to the
  store in between: other codes, retention passes, failed statements.
\<close>

theorem pairing_code_redeemable:
  assumes "d0 = foldl (store_step sha) empty_db es0"
    and "MintPairingCode sha env code name ttl d0 = (Inr (code, expires), d1)"
    and "\<forall>(e, op)\<in>set es. \<not> redeems sha op (sha code) \<and> se_now e \<le> expires"
    and "unix (se_now env') < unix expires" and "\<not> se_fails env' 0"
  shows "fst (RedeemPairingCode sha env' code dev (foldl (store_step sha) d1 es)) = Inr name"
proof -
  let ?d = "foldl (store_step sha) d1 es"
  have p1: "pending d1 (sha code) name (unix expires)"
    using assms(2) by (auto simp: MintPairingCode_def pending_def split: if_splits)
  have mono: "se_now e \<le> expires \<Longrightarrow> unix (se_now e) \<le> unix expires" for e
    by (simp add: unix_def zdiv_mono1)
  have "pending ?d (sha code) name (unix expires)"
    by (rule pending_run [OF p1]) (use assms(3) mono in blast)
  then obtain c where c: "c \<in> set (db_codes ?d)" "pc_device_name c = name"
    "redeemable (sha code) (unix (se_now env')) c" "pc_code_hash c = sha code"
    using assms(4) by (auto simp: pending_def redeemable_def)
  have run: "?d = foldl (store_step sha) empty_db (es0 @ (env, StMint code name ttl) # es)"
    by (simp add: assms(1) [symmetric] assms(2))
  have "db_inv ?d"
    unfolding run by (rule store_sys.start_run_inv) (rule refl)
  then have uniq: "\<And>x y. x \<in> set (db_codes ?d) \<Longrightarrow> y \<in> set (db_codes ?d) \<Longrightarrow> pc_code_hash x = pc_code_hash y \<Longrightarrow> x = y"
    by (auto simp: db_inv_def codes_inv_def distinct_map inj_on_def)
  obtain x where x: "List.find (redeemable (sha code) (unix (se_now env'))) (db_codes ?d) = Some x"
    using c by (cases "List.find (redeemable (sha code) (unix (se_now env'))) (db_codes ?d)")
      (auto simp: find_None_iff)
  then have "x \<in> set (db_codes ?d)" "pc_code_hash x = sha code"
    by (auto simp: find_Some_iff redeemable_def)
  then have "x = c" using uniq c by metis
  with x c assms(5) show ?thesis by (simp add: RedeemPairingCode_def Let_def)
qed

lemma pairing_code_redeemable_witness:
  "fst (RedeemPairingCode demo_sha (demo_senv 609) ''CODE'' ''dev''
      (foldl (store_step demo_sha)
        (snd (MintPairingCode demo_sha (demo_senv 10) ''CODE'' ''phone'' 600000000000 empty_db))
        [(demo_senv 600, StPruneCodes), (demo_senv 605, StRedeem ''OTHER'' ''x'')])) = Inr ''phone''"
proof -
  have m: "MintPairingCode demo_sha (demo_senv 10) ''CODE'' ''phone'' 600000000000 (foldl (store_step demo_sha) empty_db []) =
      (Inr (''CODE'', 610000000000), snd (MintPairingCode demo_sha (demo_senv 10) ''CODE'' ''phone'' 600000000000 empty_db))"
    by (simp add: MintPairingCode_def demo_senv_def empty_db_def)
  show ?thesis
    by (rule pairing_code_redeemable [OF refl m]) (simp_all add: demo_senv_def demo_sha_def unix_def)
qed

subsection \<open>Last seen\<close>

text \<open>
  The last-seen time of a device is accurate to a minute and costs at most one write a
  minute: after a touch that does not fail, the recorded time is no more than sixty seconds
  old, the row is rewritten only if it was older than that, and nothing else of the store
  changes.
\<close>

theorem touch_device_resolution:
  assumes "find_device d i = Some r" and "\<not> se_fails env 0"
  shows "\<exists>r' t. find_device (snd (TouchDevice env i d)) i = Some r' \<and> dr_last_seen_at r' = Some t \<and>
    unix (se_now env) - 60 \<le> t \<and>
    r' = (if dr_last_seen_at r = Some t then r else r\<lparr>dr_last_seen_at := Some (unix (se_now env))\<rparr>) \<and>
    (dr_last_seen_at r = None \<or> (\<exists>t0. dr_last_seen_at r = Some t0 \<and> (t0 < unix (se_now env) - 60 \<longleftrightarrow> t0 \<noteq> t))) \<and>
    db_certs (snd (TouchDevice env i d)) = db_certs d \<and> db_codes (snd (TouchDevice env i d)) = db_codes d \<and>
    db_audit (snd (TouchDevice env i d)) = db_audit d"
proof -
  have th: "unix (se_now env - lastSeenResolution) = unix (se_now env) - 60"
    by (simp add: unix_def lastSeenResolution_def)
  show ?thesis
    using assms
    by (cases "dr_last_seen_at r")
      (auto simp: TouchDevice_def Let_def th find_device_update split: option.splits)
qed

lemma touch_device_resolution_witness:
  "\<exists>r t. find_device (snd (TouchDevice (demo_senv 99) ''6162636465666768'' demo_device_db)) ''6162636465666768'' = Some r \<and>
    dr_last_seen_at r = Some t \<and> 39 \<le> t"
proof -
  have "\<not> Option.is_none (find_device demo_device_db ''6162636465666768'')" by code_simp
  then obtain r where r: "find_device demo_device_db ''6162636465666768'' = Some r"
    by (cases "find_device demo_device_db ''6162636465666768''") simp_all
  have "\<not> se_fails (demo_senv 99) 0" by (simp add: demo_senv_def)
  from touch_device_resolution [OF r this] show ?thesis
    by (auto simp: demo_senv_def unix_def)
qed

end
