(* ===== verification/Retention.thy ===== *)
theory Retention
  imports StoreProps
begin

section \<open>Retention (internal/state: store.go PruneAudit, pruner.go)\<close>

text \<open>
  The three passes of the audit retention, the retention of pairing codes and the loop that
  runs both.  The fair-share pass gives every device the same number of newest rows; the
  lemmas count the rows it leaves, so that the hard row cap that runs last has nothing to
  remove whenever the cap has room for one row per device.
\<close>

subsection \<open>Row numbers inside a bucket\<close>

lemma row_number_card:
  assumes "distinct rows"
  shows "row_number rows r = int (card {q \<in> set rows. bucket q = bucket r \<and> ar_id r \<le> ar_id q})"
  using assms distinct_card [of "filter (\<lambda>q. bucket q = bucket r \<and> ar_id r \<le> ar_id q) rows"]
  by (simp add: row_number_def)

lemma row_number_mono:
  assumes "distinct rows" "r \<in> set rows" "bucket r = bucket q" "ar_id r < ar_id q"
  shows "row_number rows q < row_number rows r"
proof -
  have "{x \<in> set rows. bucket x = bucket q \<and> ar_id q \<le> ar_id x} \<subset>
      {x \<in> set rows. bucket x = bucket r \<and> ar_id r \<le> ar_id x}" (is "?A \<subset> ?B")
  proof
    show "?A \<subseteq> ?B" using assms by auto
    have "r \<in> ?B" "r \<notin> ?A" using assms by auto
    then show "?A \<noteq> ?B" by blast
  qed
  then have "card {x \<in> set rows. bucket x = bucket q \<and> ar_id q \<le> ar_id x} <
      card {x \<in> set rows. bucket x = bucket r \<and> ar_id r \<le> ar_id x}"
    by (intro psubset_card_mono) auto
  then show ?thesis using assms(1) by (simp add: row_number_card)
qed

lemma row_number_pos: "distinct rows \<Longrightarrow> r \<in> set rows \<Longrightarrow> 1 \<le> row_number rows r"
  by (auto simp: row_number_card Suc_le_eq card_gt_0_iff)

definition ids_distinct :: "audit_row list \<Rightarrow> bool" where
  "ids_distinct rows \<longleftrightarrow> distinct (map ar_id rows)"

lemma ids_distinct_rows: "ids_distinct rows \<Longrightarrow> distinct rows"
  by (simp add: ids_distinct_def distinct_map)

lemma ids_distinct_filter: "ids_distinct rows \<Longrightarrow> ids_distinct (filter P rows)"
  by (simp add: ids_distinct_def distinct_map_filter)

lemma ids_distinct_eq:
  "ids_distinct rows \<Longrightarrow> r \<in> set rows \<Longrightarrow> q \<in> set rows \<Longrightarrow> ar_id r = ar_id q \<Longrightarrow> r = q"
  by (auto simp: ids_distinct_def distinct_map inj_on_def)

lemma audit_inv_ids: "audit_inv d \<Longrightarrow> ids_distinct (db_audit d)"
  unfolding audit_inv_def ids_distinct_def using strict_sorted_iff by blast

lemma bucket_quota:
  assumes "ids_distinct rows"
  shows "card {r \<in> set rows. bucket r = b \<and> row_number rows r \<le> k} \<le> nat k"
proof -
  let ?S = "{r \<in> set rows. bucket r = b \<and> row_number rows r \<le> k}"
  have "inj_on (row_number rows) ?S"
  proof (rule inj_onI)
    fix r q assume rq: "r \<in> ?S" "q \<in> ?S" "row_number rows r = row_number rows q"
    then have "\<not> ar_id r < ar_id q" "\<not> ar_id q < ar_id r"
      using row_number_mono [OF ids_distinct_rows [OF assms], of r q]
        row_number_mono [OF ids_distinct_rows [OF assms], of q r] by auto
    then have "ar_id r = ar_id q" by simp
    then show "r = q" using rq ids_distinct_eq [OF assms] by blast
  qed
  moreover have "row_number rows ` ?S \<subseteq> {1..k}"
    using row_number_pos [OF ids_distinct_rows [OF assms]] by auto
  ultimately have "card ?S \<le> card {1..k}" by (intro card_inj_on_le) auto
  then show ?thesis by simp
qed

lemma shares_fit:
  assumes "ids_distinct rows" and "0 \<le> k"
  shows "int (length (filter (\<lambda>r. row_number rows r \<le> k) rows)) \<le> int (card (bucket ` set rows)) * k"
proof -
  let ?S = "\<lambda>b. {r \<in> set rows. bucket r = b \<and> row_number rows r \<le> k}"
  have "length (filter (\<lambda>r. row_number rows r \<le> k) rows) = card {r \<in> set rows. row_number rows r \<le> k}"
    using distinct_card [of "filter (\<lambda>r. row_number rows r \<le> k) rows"] ids_distinct_rows [OF assms(1)]
    by simp
  also have "{r \<in> set rows. row_number rows r \<le> k} = (\<Union>b\<in>bucket ` set rows. ?S b)" by auto
  also have "card \<dots> \<le> (\<Sum>b\<in>bucket ` set rows. card (?S b))" by (rule card_UN_le) simp
  also have "\<dots> \<le> (\<Sum>b\<in>bucket ` set rows. nat k)"
    by (intro sum_mono bucket_quota assms)
  finally have "length (filter (\<lambda>r. row_number rows r \<le> k) rows) \<le> card (bucket ` set rows) * nat k"
    by simp
  then have "int (length (filter (\<lambda>r. row_number rows r \<le> k) rows)) \<le> int (card (bucket ` set rows) * nat k)"
    by (simp only: of_nat_le_iff)
  then show ?thesis using assms(2) by simp
qed

subsection \<open>The final pass\<close>

lemma newest_set_all: "limit < 0 \<or> int (length rows) \<le> limit \<Longrightarrow> set (newest limit rows) = set rows"
  by (auto simp: newest_def Let_def)

lemma newest_subset: "set (newest limit rows) \<subseteq> set rows"
  by (auto simp: newest_def Let_def dest: in_set_takeD)

definition row_cap :: "int \<Rightarrow> audit_row list \<Rightarrow> audit_row list" where
  "row_cap maxRows rows = filter (\<lambda>r. ar_id r \<in> ar_id ` set (newest maxRows rows)) rows"

lemma row_cap_all: "int (length rows) \<le> maxRows \<Longrightarrow> row_cap maxRows rows = rows"
  by (simp add: row_cap_def newest_set_all)

lemma row_cap_bound:
  assumes "ids_distinct rows" "0 \<le> maxRows"
  shows "int (length (row_cap maxRows rows)) \<le> maxRows"
proof -
  have "set (row_cap maxRows rows) = set (newest maxRows rows)"
    using assms(1) newest_subset [of maxRows rows] by (auto simp: row_cap_def dest: ids_distinct_eq)
  moreover have "length (row_cap maxRows rows) = card (set (row_cap maxRows rows))"
    using ids_distinct_rows [OF assms(1)] by (intro distinct_card [symmetric]) (simp add: row_cap_def)
  moreover have "card (set (newest maxRows rows)) \<le> nat maxRows"
    using card_length [of "newest maxRows rows"] assms(2) by (simp add: newest_def Let_def)
  ultimately show ?thesis using assms(2) by simp
qed

definition unexpired :: "int \<Rightarrow> db \<Rightarrow> audit_row list" where
  "unexpired cutoff d = filter (\<lambda>r. \<not> ar_occurred_at r < cutoff) (db_audit d)"

lemma PruneAudit_ok:
  assumes "PruneAudit env maxAge maxRows d = (Inr n, d')"
  shows "db_audit d' = row_cap maxRows
      (pruneAuditByDeviceShare maxRows (unexpired (unix (se_now env - maxAge)) d)) \<and>
    n = int (length (db_audit d)) - int (length (db_audit d'))"
  using assms by (auto simp: PruneAudit_def Let_def row_cap_def unexpired_def split: if_splits)

lemma PruneAudit_succeeds:
  "\<forall>i<5. \<not> se_fails env i \<Longrightarrow>
     \<exists>n. PruneAudit env maxAge maxRows d = (Inr n, snd (PruneAudit env maxAge maxRows d))"
  by (simp add: PruneAudit_def Let_def)

lemma share_filter:
  assumes "0 < int (card (bucket ` set rows))" "int (card (bucket ` set rows)) \<le> maxRows"
  shows "pruneAuditByDeviceShare maxRows rows =
    filter (\<lambda>r. row_number rows r \<le> maxRows div int (card (bucket ` set rows))) rows"
proof -
  have "1 \<le> maxRows div int (card (bucket ` set rows))"
    using assms pos_imp_zdiv_pos_iff [of "int (card (bucket ` set rows))" maxRows] by linarith
  with assms(1) show ?thesis
    by (simp add: pruneAuditByDeviceShare_def Let_def max_def)
qed

text \<open>
  C36: retention of the audit trail.  A successful prune leaves no row older than the age bound
  and no more than the row cap, removes exactly as many rows as it reports and changes none;
  and as long as the cap has room for one row per device that still has rows, whether a row
  survives depends on that device's own rows only: each device keeps exactly its newest
  maxRows/buckets rows, so a flood of one device cannot evict another's.
\<close>

theorem prune_audit_fair:
  assumes "d = foldl (store_step sha) empty_db es" and "0 \<le> maxRows"
    and "PruneAudit env maxAge maxRows d = (Inr n, d')"
    and "cutoff = unix (se_now env - maxAge)"
    and "share = maxRows div int (card (bucket ` set (unexpired cutoff d)))"
  shows "(\<exists>P. db_audit d' = filter P (db_audit d)) \<and>
    n = int (length (db_audit d)) - int (length (db_audit d')) \<and>
    int (length (db_audit d')) \<le> maxRows \<and>
    (\<forall>r\<in>set (db_audit d'). cutoff \<le> ar_occurred_at r) \<and>
    (int (card (bucket ` set (unexpired cutoff d))) \<le> maxRows \<longrightarrow>
      db_audit d' = filter (\<lambda>r. row_number (unexpired cutoff d) r \<le> share) (unexpired cutoff d))"
proof -
  let ?y = "unexpired cutoff d" and ?b = "int (card (bucket ` set (unexpired cutoff d)))"
  have "db_inv d"
    unfolding assms(1) by (rule store_sys.start_run_inv) (rule refl)
  then have ids: "ids_distinct ?y"
    by (simp add: db_inv_def audit_inv_ids unexpired_def ids_distinct_filter)
  have d': "db_audit d' = row_cap maxRows (pruneAuditByDeviceShare maxRows ?y)"
    and n: "n = int (length (db_audit d)) - int (length (db_audit d'))"
    using PruneAudit_ok [OF assms(3)] assms(4) by auto
  obtain P where P: "pruneAuditByDeviceShare maxRows ?y = filter P ?y"
    using share_subset by blast
  have "\<exists>P. db_audit d' = filter P (db_audit d)"
    using PruneAudit_filter [of env maxAge maxRows d] assms(3) by simp
  moreover have "int (length (db_audit d')) \<le> maxRows"
    unfolding d' P using assms(2) ids by (intro row_cap_bound ids_distinct_filter)
  moreover have "\<forall>r\<in>set (db_audit d'). cutoff \<le> ar_occurred_at r"
    unfolding d' P by (auto simp: row_cap_def unexpired_def)
  moreover have "db_audit d' = filter (\<lambda>r. row_number ?y r \<le> share) ?y" if le: "?b \<le> maxRows"
  proof (cases "?b = 0")
    case True
    then have "unexpired cutoff d = []" by simp
    with P show ?thesis by (simp add: d' row_cap_def)
  next
    case False
    then have "pruneAuditByDeviceShare maxRows ?y = filter (\<lambda>r. row_number ?y r \<le> share) ?y"
      unfolding assms(5) by (intro share_filter) (use le in linarith)+
    moreover have "int (length (filter (\<lambda>r. row_number ?y r \<le> share) ?y)) \<le> ?b * share"
      by (rule shares_fit [OF ids]) (use assms(2,5) in \<open>simp add: pos_imp_zdiv_nonneg_iff div_int_pos_iff\<close>)
    moreover have "?b * share \<le> maxRows"
      using mult_div_mod_eq [of ?b maxRows] pos_mod_sign [of ?b maxRows] False
      unfolding assms(5) by linarith
    ultimately show ?thesis by (simp add: d' row_cap_all)
  qed
  ultimately show ?thesis using n by blast
qed

definition demo_entry :: "string \<Rightarrow> int \<Rightarrow> audit_entry" where
  "demo_entry dev s = \<lparr>ae_occurred_at = Some (s * 1000000000), ae_device_id = dev,
     ae_operation = ''stop'', ae_target = ''web'', ae_outcome = OutcomeSuccess, ae_detail = []\<rparr>"

definition demo_trail :: "(store_env \<times> store_op) list" where
  "demo_trail = map (\<lambda>(dev, s). (demo_senv s, StAppend (demo_entry dev s)))
     [(''a'', 1), (''b'', 10), (''a'', 11), (''a'', 12), (''a'', 13)]"

lemma demo_append:
  "store_step demo_sha d (demo_senv s, StAppend (demo_entry dev s)) =
     d\<lparr>db_audit_seq := db_audit_seq d + 1, db_audit := db_audit d @
        [\<lparr>ar_id = db_audit_seq d + 1, ar_occurred_at = s, ar_device_id = Some dev, ar_operation = ''stop'',
          ar_target = Some ''web'', ar_outcome = OutcomeSuccess, ar_detail = Some []\<rparr>]\<rparr>"
  by (simp add: demo_entry_def demo_senv_def AppendAudit_def unix_def)

lemma demo_trail_rows:
  "db_audit (foldl (store_step demo_sha) empty_db demo_trail) =
   map (\<lambda>(i, dev, s). \<lparr>ar_id = i, ar_occurred_at = s, ar_device_id = Some dev, ar_operation = ''stop'',
     ar_target = Some ''web'', ar_outcome = OutcomeSuccess, ar_detail = Some []\<rparr>)
     [(1, ''a'', 1), (2, ''b'', 10), (3, ''a'', 11), (4, ''a'', 12), (5, ''a'', 13)]"
  unfolding demo_trail_def list.map prod.case foldl.simps demo_append empty_db_def
  by (simp del: store_step.simps)

lemma demo_unexpired:
  "unexpired 5 (foldl (store_step demo_sha) empty_db demo_trail) =
   map (\<lambda>(i, dev, s). \<lparr>ar_id = i, ar_occurred_at = s, ar_device_id = Some dev, ar_operation = ''stop'',
     ar_target = Some ''web'', ar_outcome = OutcomeSuccess, ar_detail = Some []\<rparr>)
     [(2, ''b'', 10), (3, ''a'', 11), (4, ''a'', 12), (5, ''a'', 13)]"
  by (simp add: unexpired_def demo_trail_rows)

lemma demo_buckets: "card (bucket ` set (unexpired 5 (foldl (store_step demo_sha) empty_db demo_trail))) = 2"
  by (simp add: demo_unexpired bucket_def coalesce_def)

lemma demo_shares:
  "map (\<lambda>r. (ar_device_id r, ar_id r))
     (filter (\<lambda>r. row_number (unexpired 5 (foldl (store_step demo_sha) empty_db demo_trail)) r \<le> 1)
        (unexpired 5 (foldl (store_step demo_sha) empty_db demo_trail))) = [(Some ''b'', 2), (Some ''a'', 5)]"
  by (simp add: demo_unexpired row_number_def bucket_def coalesce_def)

lemma prune_audit_fair_witness:
  "map (\<lambda>r. (ar_device_id r, ar_id r))
     (db_audit (snd (PruneAudit (demo_senv 20) 15000000000 2 (foldl (store_step demo_sha) empty_db demo_trail)))) =
   [(Some ''b'', 2), (Some ''a'', 5)]"
proof -
  let ?d = "foldl (store_step demo_sha) empty_db demo_trail"
  have "\<forall>i<5. \<not> se_fails (demo_senv 20) i" by (simp add: demo_senv_def)
  from PruneAudit_succeeds [OF this]
  obtain n where ok: "PruneAudit (demo_senv 20) 15000000000 2 ?d =
      (Inr n, snd (PruneAudit (demo_senv 20) 15000000000 2 ?d))"
    by blast
  show ?thesis
    using prune_audit_fair [OF refl _ ok refl refl] demo_buckets demo_shares
    by (simp add: demo_senv_def unix_def)
qed

text \<open>
  The row cap is hard: when more devices have rows than the cap allows, the final pass evicts
  the only row of the device that wrote longest ago.
\<close>

lemma prune_evicts_beyond_cap:
  "map ar_device_id (row_cap 1 (pruneAuditByDeviceShare 1
     (unexpired 5 (foldl (store_step demo_sha) empty_db demo_trail)))) = [Some ''a'']"
  by (simp add: pruneAuditByDeviceShare_def demo_buckets Let_def)
    (simp add: demo_unexpired row_cap_def newest_def row_number_def bucket_def coalesce_def Let_def)

subsection \<open>The pruning loop\<close>

text \<open>
  One pass of the loop: each retention is attempted whatever became of the other.  The two
  environments are the clock and the failures of the two transactions.
\<close>

datatype prune_log = PruneFailed string | Pruned string int

definition prune_report :: "string \<Rightarrow> int stored \<Rightarrow> prune_log list \<times> db" where
  "prune_report what r = (case r of
      (Inl e, d) \<Rightarrow> ([PruneFailed what], d)
    | (Inr n, d) \<Rightarrow> (if n > 0 then [Pruned what n] else [], d))"

record pruner =
  p_maxAge :: int
  p_maxRows :: int
  p_interval :: int

definition defaultPruneInterval :: int where "defaultPruneInterval = 21600000000000"

definition NewPruner :: "int \<Rightarrow> int \<Rightarrow> pruner" where
  "NewPruner maxAge maxRows = \<lparr>p_maxAge = maxAge, p_maxRows = maxRows, p_interval = defaultPruneInterval\<rparr>"

definition pruneAudit :: "pruner \<Rightarrow> store_env \<Rightarrow> db \<Rightarrow> prune_log list \<times> db" where
  "pruneAudit p env d = prune_report ''audit'' (PruneAudit env (p_maxAge p) (p_maxRows p) d)"

definition prunePairingCodes :: "store_env \<Rightarrow> db \<Rightarrow> prune_log list \<times> db" where
  "prunePairingCodes env d = prune_report ''pairing code'' (PrunePairingCodes env d)"

definition pruneOnce :: "pruner \<Rightarrow> store_env \<Rightarrow> store_env \<Rightarrow> db \<Rightarrow> prune_log list \<times> db" where
  "pruneOnce p env1 env2 d =
     (let (l1, d1) = pruneAudit p env1 d; (l2, d2) = prunePairingCodes env2 d1 in (l1 @ l2, d2))"

text \<open>
  What the loop selects on: a tick, or the end of its context.  Between two selections the rest
  of the agent has changed the tables, so every pass takes the tables it finds: the loop is a
  list of the passes it made.  It ends when the context does and not before.
\<close>

datatype prune_event = Tick | Done

fun prune_loop :: "prune_event list \<Rightarrow> nat \<times> bool" where
  "prune_loop [] = (0, False)"
| "prune_loop (Done # es) = (0, True)"
| "prune_loop (Tick # es) = (let (n, stopped) = prune_loop es in (Suc n, stopped))"

text \<open>The passes made and whether Run has returned.\<close>

definition Pruner_Run :: "bool \<Rightarrow> prune_event list \<Rightarrow> nat \<times> bool" where
  "Pruner_Run cancelled es =
     (if cancelled then (0, True) else (let (n, stopped) = prune_loop es in (Suc n, stopped)))"

lemma PrunePairingCodes_keeps:
  "db_audit (snd (PrunePairingCodes env d)) = db_audit d"
  by (simp add: PrunePairingCodes_def Let_def)

lemma prune_report_db [simp]: "snd (prune_report what r) = snd r"
  by (auto simp: prune_report_def split: prod.splits sum.splits)

lemma pruneOnce_db:
  "snd (pruneOnce p env1 env2 d) =
     snd (PrunePairingCodes env2 (snd (PruneAudit env1 (p_maxAge p) (p_maxRows p) d)))"
  by (simp add: pruneOnce_def pruneAudit_def prunePairingCodes_def Let_def split_beta)

text \<open>
  One pass of the pruner is the two retentions, independently: whatever fails in one, the
  other does its work.  No expired code outlives a pass whose second transaction succeeds, no
  row outlives the age bound if its first one does, and a failed transaction removes nothing
  and is logged.
\<close>

theorem prune_once_independent:
  "(if \<exists>i<5. se_fails env1 i then db_audit (snd (pruneOnce p env1 env2 d)) = db_audit d
    else list_all (\<lambda>r. unix (se_now env1 - p_maxAge p) \<le> ar_occurred_at r)
           (db_audit (snd (pruneOnce p env1 env2 d)))) \<and>
   (if se_fails env2 0 then db_codes (snd (pruneOnce p env1 env2 d)) = db_codes d
    else db_codes (snd (pruneOnce p env1 env2 d)) =
           filter (\<lambda>c. unix (se_now env2) \<le> pc_expires_at c) (db_codes d)) \<and>
   (PruneFailed ''audit'' \<in> set (fst (pruneOnce p env1 env2 d)) \<longleftrightarrow> (\<exists>i<5. se_fails env1 i)) \<and>
   (PruneFailed ''pairing code'' \<in> set (fst (pruneOnce p env1 env2 d)) \<longleftrightarrow> se_fails env2 0)"
proof -
  have ages: "list_all (\<lambda>r. unix (se_now env1 - p_maxAge p) \<le> ar_occurred_at r)
      (db_audit (snd (PruneAudit env1 (p_maxAge p) (p_maxRows p) d)))" if ok: "\<forall>i<5. \<not> se_fails env1 i"
  proof -
    from PruneAudit_succeeds [OF ok]
    obtain n where r: "PruneAudit env1 (p_maxAge p) (p_maxRows p) d =
        (Inr n, snd (PruneAudit env1 (p_maxAge p) (p_maxRows p) d))"
      by blast
    obtain P where "pruneAuditByDeviceShare (p_maxRows p) (unexpired (unix (se_now env1 - p_maxAge p)) d) =
        filter P (unexpired (unix (se_now env1 - p_maxAge p)) d)"
      using share_subset by blast
    with PruneAudit_ok [OF r] show ?thesis
      by (auto simp: list_all_iff row_cap_def unexpired_def)
  qed
  have codes: "db_codes (snd (PruneAudit env1 a m d)) = db_codes d" for a m
    by (simp add: PruneAudit_def Let_def)
  have "db_audit (snd (pruneOnce p env1 env2 d)) = db_audit d" if "\<exists>i<5. se_fails env1 i"
    using that by (simp add: pruneOnce_db PrunePairingCodes_keeps PruneAudit_def)
  moreover have "list_all (\<lambda>r. unix (se_now env1 - p_maxAge p) \<le> ar_occurred_at r)
      (db_audit (snd (pruneOnce p env1 env2 d)))" if "\<not> (\<exists>i<5. se_fails env1 i)"
    unfolding pruneOnce_db PrunePairingCodes_keeps using ages that by blast
  moreover have "if se_fails env2 0 then db_codes (snd (pruneOnce p env1 env2 d)) = db_codes d
    else db_codes (snd (pruneOnce p env1 env2 d)) =
           filter (\<lambda>c. unix (se_now env2) \<le> pc_expires_at c) (db_codes d)"
    by (simp add: pruneOnce_db PrunePairingCodes_def codes Let_def not_less)
  moreover have "PruneFailed ''audit'' \<in> set (fst (pruneOnce p env1 env2 d)) \<longleftrightarrow> (\<exists>i<5. se_fails env1 i)"
    by (auto simp: pruneOnce_def pruneAudit_def prunePairingCodes_def prune_report_def PruneAudit_def
        PrunePairingCodes_def Let_def split: prod.splits sum.splits)
  moreover have "PruneFailed ''pairing code'' \<in> set (fst (pruneOnce p env1 env2 d)) \<longleftrightarrow> se_fails env2 0"
    by (auto simp: pruneOnce_def pruneAudit_def prunePairingCodes_def prune_report_def PruneAudit_def
        PrunePairingCodes_def Let_def split: prod.splits sum.splits)
  ultimately show ?thesis by presburger
qed

end
