(* ===== verification/Schema.thy ===== *)
theory Schema
  imports Store
begin

section \<open>Opening and migrating the store (internal/state: schema.go, store.go)\<close>

text \<open>
  The database file as its tables (columns and rows), its indexes and the schema_meta table;
  an absent file has the contents of the empty database.  The schema scripts are lists of
  data-definition statements with SQLite's meaning for the forms they use; the types and
  constraints of the columns are left out here, what they enforce is in the operations of Store.
  A failure of the
  driver, of SQLite or of chmod can strike at every point of Open; a failed transaction is
  rolled back.
\<close>

record store_file =
  sf_tables :: "(string, string list \<times> string list list) gomap"
  sf_indexes :: "(string, string) gomap"
  sf_meta :: "(string, string) gomap option"

definition empty_file :: store_file where
  "empty_file = \<lparr>sf_tables = [], sf_indexes = [], sf_meta = None\<rparr>"

datatype ddl =
    DropTableIfExists string
  | CreateTable bool string "string list"
  | CreateIndex bool string string string

text \<open>The flag of a CREATE is its IF NOT EXISTS.\<close>

fun ddl_run :: "ddl \<Rightarrow> store_file \<Rightarrow> store_file option" where
  "ddl_run (DropTableIfExists t) f =
     Some (f\<lparr>sf_tables := gm_del t (sf_tables f), sf_indexes := filter (\<lambda>(i, t'). t' \<noteq> t) (sf_indexes f)\<rparr>)"
| "ddl_run (CreateTable lenient t cols) f =
     (if gm_get (sf_tables f) t \<noteq> None then (if lenient then Some f else None)
      else Some (f\<lparr>sf_tables := gm_put t (cols, []) (sf_tables f)\<rparr>))"
| "ddl_run (CreateIndex lenient i t col) f =
     (if gm_get (sf_indexes f) i \<noteq> None then (if lenient then Some f else None)
      else (case gm_get (sf_tables f) t of
          None \<Rightarrow> None
        | Some (cols, rows) \<Rightarrow> (if col \<in> set cols then Some (f\<lparr>sf_indexes := gm_put i t (sf_indexes f)\<rparr>) else None)))"

fun ddl_script :: "ddl list \<Rightarrow> store_file \<Rightarrow> store_file option" where
  "ddl_script [] f = Some f"
| "ddl_script (s # ss) f = (case ddl_run s f of None \<Rightarrow> None | Some f' \<Rightarrow> ddl_script ss f')"

definition currentSchemaVersion :: int where "currentSchemaVersion = 2"

definition schemaVersionKey :: string where "schemaVersionKey = ''version''"

definition schemaV1 :: "ddl list" where
  "schemaV1 = [
     CreateTable True ''devices'' [''id'', ''name'', ''cert_serial'', ''cert_not_after'', ''paired_at'', ''last_seen_at'', ''revoked_at''],
     CreateIndex True ''idx_devices_serial'' ''devices'' ''cert_serial'',
     CreateIndex True ''idx_devices_revoked'' ''devices'' ''revoked_at'',
     CreateTable True ''audit'' [''id'', ''occurred_at'', ''device_id'', ''operation'', ''target'', ''outcome'', ''detail''],
     CreateIndex True ''idx_audit_occurred'' ''audit'' ''occurred_at'']"

definition schemaV2 :: "ddl list" where
  "schemaV2 = [
     DropTableIfExists ''devices'',
     CreateTable False ''devices'' [''id'', ''name'', ''paired_at'', ''last_seen_at'', ''revoked_at''],
     CreateIndex False ''idx_devices_revoked'' ''devices'' ''revoked_at'',
     CreateTable False ''device_certs'' [''serial'', ''device_id'', ''not_before'', ''not_after'', ''issued_at'', ''superseded_at''],
     CreateIndex False ''idx_device_certs_device'' ''device_certs'' ''device_id'',
     CreateTable False ''pairing_codes'' [''code_hash'', ''device_name'', ''created_at'', ''expires_at'', ''used_at'', ''used_by''],
     CreateIndex False ''idx_pairing_codes_expires'' ''pairing_codes'' ''expires_at'']"

record migrationStep =
  ms_version :: int
  ms_sql :: "ddl list"

definition migrations :: "migrationStep list" where
  "migrations = [\<lparr>ms_version = 1, ms_sql = schemaV1\<rparr>, \<lparr>ms_version = 2, ms_sql = schemaV2\<rparr>]"

text \<open>What can fail, and what the world answers.\<close>

datatype open_point =
    SqlOpen | PingPoint | IntegrityQuery | CreateMeta | ReadVersion
  | BeginStep int | ExecStep int | StampStep int | CommitStep int

datatype chmod_result = ChmodOk | ChmodNotExist | ChmodError

record open_env =
  oe_fails :: "open_point \<Rightarrow> bool"
  oe_absent :: bool
  oe_integrity :: string
  oe_chmod :: "string \<Rightarrow> chmod_result"

datatype open_error =
  OpenFailed | ErrStateCorrupt | ErrSchemaTooNew | MigrationFailed | PermissionFailed

text \<open>The version, no row, or an error.\<close>

definition SchemaVersion :: "open_env \<Rightarrow> store_file \<Rightarrow> open_error + int option" where
  "SchemaVersion env f =
     (if oe_fails env ReadVersion then Inl MigrationFailed
      else case sf_meta f of
          None \<Rightarrow> Inl MigrationFailed
        | Some m \<Rightarrow> (case gm_get m schemaVersionKey of
              None \<Rightarrow> Inr None
            | Some raw \<Rightarrow> (case atoi raw of None \<Rightarrow> Inl ErrStateCorrupt | Some v \<Rightarrow> Inr (Some v))))"

definition currentVersionOrZero :: "open_env \<Rightarrow> store_file \<Rightarrow> open_error + int" where
  "currentVersionOrZero env f =
     (case SchemaVersion env f of
        Inl e \<Rightarrow> Inl e
      | Inr None \<Rightarrow> Inr 0
      | Inr (Some v) \<Rightarrow> Inr v)"

definition applyMigration ::
  "open_env \<Rightarrow> migrationStep \<Rightarrow> store_file \<Rightarrow> (open_error + unit) \<times> store_file" where
  "applyMigration env step f =
     (let v = ms_version step in
      if oe_fails env (BeginStep v) then (Inl MigrationFailed, f)
      else if oe_fails env (ExecStep v) then (Inl MigrationFailed, f)
      else case ddl_script (ms_sql step) f of
          None \<Rightarrow> (Inl MigrationFailed, f)
        | Some f1 \<Rightarrow>
            (if oe_fails env (StampStep v) then (Inl MigrationFailed, f)
             else case sf_meta f1 of
                 None \<Rightarrow> (Inl MigrationFailed, f)
               | Some m \<Rightarrow>
                   (if oe_fails env (CommitStep v) then (Inl MigrationFailed, f)
                    else (Inr (), f1\<lparr>sf_meta := Some (gm_put schemaVersionKey (itoa v) m)\<rparr>))))"

fun migrate_steps ::
  "open_env \<Rightarrow> int \<Rightarrow> migrationStep list \<Rightarrow> store_file \<Rightarrow> (open_error + unit) \<times> store_file" where
  "migrate_steps env version [] f = (Inr (), f)"
| "migrate_steps env version (step # steps) f =
     (if ms_version step \<le> version then migrate_steps env version steps f
      else case applyMigration env step f of
          (Inl e, f') \<Rightarrow> (Inl e, f')
        | (Inr u, f') \<Rightarrow> migrate_steps env version steps f')"

definition migrate :: "open_env \<Rightarrow> store_file \<Rightarrow> (open_error + unit) \<times> store_file" where
  "migrate env f =
     (if oe_fails env CreateMeta then (Inl MigrationFailed, f)
      else (let f0 = (if sf_meta f = None then f\<lparr>sf_meta := Some []\<rparr> else f)
            in case currentVersionOrZero env f0 of
                Inl e \<Rightarrow> (Inl e, f0)
              | Inr version \<Rightarrow>
                  (if version > currentSchemaVersion then (Inl ErrSchemaTooNew, f0)
                   else migrate_steps env version migrations f0)))"

definition verifyAndMigrate :: "open_env \<Rightarrow> store_file \<Rightarrow> (open_error + unit) \<times> store_file" where
  "verifyAndMigrate env f =
     (if oe_fails env PingPoint then (Inl ErrStateCorrupt, f)
      else if oe_fails env IntegrityQuery then (Inl ErrStateCorrupt, f)
      else if oe_integrity env \<noteq> ''ok'' then (Inl ErrStateCorrupt, f)
      else migrate env f)"

text \<open>The paths whose mode was set to 0600 before the loop ended.\<close>

fun tighten_loop :: "(string \<Rightarrow> chmod_result) \<Rightarrow> string list \<Rightarrow> (open_error + unit) \<times> string list" where
  "tighten_loop chmod [] = (Inr (), [])"
| "tighten_loop chmod (p # ps) =
     (case chmod p of
        ChmodError \<Rightarrow> (Inl PermissionFailed, [])
      | ChmodNotExist \<Rightarrow> tighten_loop chmod ps
      | ChmodOk \<Rightarrow> (let (r, done) = tighten_loop chmod ps in (r, p # done)))"

definition tightenPermissions :: "(string \<Rightarrow> chmod_result) \<Rightarrow> string \<Rightarrow> (open_error + unit) \<times> string list" where
  "tightenPermissions chmod dbPath =
     tighten_loop chmod [dbPath, dbPath @ ''-wal'', dbPath @ ''-shm'']"

text \<open>The store that Open hands out, as its FirstRun flag.\<close>

definition Open :: "open_env \<Rightarrow> string \<Rightarrow> store_file \<Rightarrow> (open_error + bool) \<times> store_file" where
  "Open env path f =
     (let firstRun = oe_absent env in
      if oe_fails env SqlOpen then (Inl OpenFailed, f)
      else case verifyAndMigrate env f of
          (Inl e, f') \<Rightarrow> (Inl e, f')
        | (Inr u, f') \<Rightarrow>
            (case fst (tightenPermissions (oe_chmod env) path) of
               Inl e \<Rightarrow> (Inl e, f')
             | Inr u' \<Rightarrow> (Inr firstRun, f')))"

subsection \<open>The schema of each version\<close>

definition table_columns :: "store_file \<Rightarrow> (string \<times> string list) list" where
  "table_columns f = map (\<lambda>(t, cols, rows). (t, cols)) (sf_tables f)"

definition table_rows :: "store_file \<Rightarrow> string \<Rightarrow> string list list" where
  "table_rows f t = (case gm_get (sf_tables f) t of None \<Rightarrow> [] | Some (cols, rows) \<Rightarrow> rows)"

definition audit_columns :: "string list" where
  "audit_columns = [''id'', ''occurred_at'', ''device_id'', ''operation'', ''target'', ''outcome'', ''detail'']"

definition schema_at :: "int \<Rightarrow> store_file \<Rightarrow> bool" where
  "schema_at v f \<longleftrightarrow>
     (if v = 0 then sf_tables f = [] \<and> sf_indexes f = [] \<and> (sf_meta f = None \<or> sf_meta f = Some [])
      else if v = 1 then
        table_columns f = [
          (''devices'', [''id'', ''name'', ''cert_serial'', ''cert_not_after'', ''paired_at'', ''last_seen_at'', ''revoked_at'']),
          (''audit'', audit_columns)] \<and>
        sf_indexes f = [(''idx_devices_serial'', ''devices''), (''idx_devices_revoked'', ''devices''),
          (''idx_audit_occurred'', ''audit'')] \<and>
        sf_meta f = Some [(''version'', ''1'')]
      else v = 2 \<and>
        table_columns f = [
          (''audit'', audit_columns),
          (''devices'', [''id'', ''name'', ''paired_at'', ''last_seen_at'', ''revoked_at'']),
          (''device_certs'', [''serial'', ''device_id'', ''not_before'', ''not_after'', ''issued_at'', ''superseded_at'']),
          (''pairing_codes'', [''code_hash'', ''device_name'', ''created_at'', ''expires_at'', ''used_at'', ''used_by''])] \<and>
        sf_indexes f = [(''idx_audit_occurred'', ''audit''), (''idx_devices_revoked'', ''devices''),
          (''idx_device_certs_device'', ''device_certs''), (''idx_pairing_codes_expires'', ''pairing_codes'')] \<and>
        sf_meta f = Some [(''version'', ''2'')])"

lemma table_columns_cons:
  "table_columns f = (t, c) # cs \<longleftrightarrow>
     (\<exists>rows ts. sf_tables f = (t, c, rows) # ts \<and> map (\<lambda>(t, cols, rows). (t, cols)) ts = cs)"
  by (auto simp: table_columns_def Cons_eq_map_conv map_eq_Cons_conv)

lemma columns_cons:
  "map (\<lambda>(t, cols, rows). (t, cols)) ts = (t, c) # cs \<longleftrightarrow>
     (\<exists>rows us. ts = (t, c, rows) # us \<and> map (\<lambda>(t, cols, rows). (t, cols)) us = cs)"
  by (auto simp: map_eq_Cons_conv)

lemma table_rows_meta [simp]: "table_rows (f\<lparr>sf_meta := m\<rparr>) t = table_rows f t"
  by (simp add: table_rows_def)

lemma itoa_versions: "itoa 1 = ''1''" "itoa 2 = ''2''" "atoi ''1'' = Some 1" "atoi ''2'' = Some 2"
  by code_simp+

lemmas ladder_simps = schema_at_def audit_columns_def schemaVersionKey_def
  table_columns_cons columns_cons table_columns_def itoa_versions

lemma script_v1:
  assumes "sf_tables f = []" "sf_indexes f = []"
  shows "\<exists>f1. ddl_script schemaV1 f = Some f1 \<and> sf_meta f1 = sf_meta f \<and>
     schema_at 1 (f1\<lparr>sf_meta := Some [(''version'', ''1'')]\<rparr>)"
  using assms by (simp add: schemaV1_def ladder_simps)

lemma script_v2:
  assumes "schema_at 1 f"
  shows "\<exists>f1. ddl_script schemaV2 f = Some f1 \<and> sf_meta f1 = sf_meta f \<and>
     schema_at 2 (f1\<lparr>sf_meta := Some [(''version'', ''2'')]\<rparr>) \<and> table_rows f1 ''audit'' = table_rows f ''audit''"
  using assms by (auto simp: schemaV2_def ladder_simps table_rows_def)

lemma apply_v1:
  assumes "schema_at 0 f" "sf_meta f = Some []" "applyMigration env \<lparr>ms_version = 1, ms_sql = schemaV1\<rparr> f = (r, f')"
  shows "(r = Inl MigrationFailed \<and> f' = f \<and> (\<exists>p. oe_fails env p)) \<or> (r = Inr () \<and> schema_at 1 f')"
proof -
  from assms(1) obtain f1 where "ddl_script schemaV1 f = Some f1" "sf_meta f1 = sf_meta f"
    "schema_at 1 (f1\<lparr>sf_meta := Some [(''version'', ''1'')]\<rparr>)"
    using script_v1 [of f] by (auto simp: schema_at_def)
  with assms(2,3) show ?thesis
    by (auto simp: applyMigration_def Let_def schemaVersionKey_def itoa_versions split: if_splits)
qed

lemma apply_v2:
  assumes "schema_at 1 f" "applyMigration env \<lparr>ms_version = 2, ms_sql = schemaV2\<rparr> f = (r, f')"
  shows "((r = Inl MigrationFailed \<and> f' = f \<and> (\<exists>p. oe_fails env p)) \<or> (r = Inr () \<and> schema_at 2 f')) \<and>
    table_rows f' ''audit'' = table_rows f ''audit''"
proof -
  from script_v2 [OF assms(1)] obtain f1 where f1: "ddl_script schemaV2 f = Some f1" "sf_meta f1 = sf_meta f"
    "schema_at 2 (f1\<lparr>sf_meta := Some [(''version'', ''2'')]\<rparr>)"
    "table_rows f1 ''audit'' = table_rows f ''audit''"
    by blast
  moreover have "sf_meta f = Some [(''version'', ''1'')]" using assms(1) by (simp add: schema_at_def)
  ultimately show ?thesis using assms(2)
    by (auto simp: applyMigration_def Let_def schemaVersionKey_def itoa_versions split: if_splits)
qed

lemma steps_from_1:
  assumes "schema_at 1 f" "migrate_steps env version [\<lparr>ms_version = 2, ms_sql = schemaV2\<rparr>] f = (r, f')" "version < 2"
  shows "(if r = Inr () then schema_at 2 f' else schema_at 1 f' \<and> (\<exists>p. oe_fails env p)) \<and>
    table_rows f' ''audit'' = table_rows f ''audit''"
  using assms apply_v2 [OF assms(1)]
  by (auto split: prod.splits sum.splits)

lemma steps_from_0:
  assumes "schema_at 0 f" "sf_meta f = Some []" "migrate_steps env 0 migrations f = (r, f')"
  shows "if r = Inr () then schema_at 2 f' else (schema_at 0 f' \<or> schema_at 1 f') \<and> (\<exists>p. oe_fails env p)"
proof -
  obtain r1 f1 where a: "applyMigration env \<lparr>ms_version = 1, ms_sql = schemaV1\<rparr> f = (r1, f1)" by fastforce
  from apply_v1 [OF assms(1,2) a] show ?thesis
  proof
    assume "r1 = Inl MigrationFailed \<and> f1 = f \<and> (\<exists>p. oe_fails env p)"
    with a assms show ?thesis by (auto simp: migrations_def)
  next
    assume "r1 = Inr () \<and> schema_at 1 f1"
    then have "schema_at 1 f1" and "migrate_steps env 0 [\<lparr>ms_version = 2, ms_sql = schemaV2\<rparr>] f1 = (r, f')"
      using a assms(3) by (simp_all add: migrations_def del: migrate_steps.simps(1))
    from steps_from_1 [OF this] show ?thesis by (auto split: if_splits)
  qed
qed

text \<open>Which version an Open finds and which it leaves.\<close>

definition ladder :: "open_env \<Rightarrow> int \<Rightarrow> store_file \<Rightarrow> bool \<Rightarrow> store_file \<Rightarrow> bool" where
  "ladder env v f ok f' \<longleftrightarrow> (\<exists>v'. schema_at v' f' \<and> v \<le> v' \<and> v' \<le> 2) \<and>
     (ok \<longrightarrow> schema_at 2 f') \<and> (v = 2 \<longrightarrow> f' = f) \<and>
     (1 \<le> v \<longrightarrow> table_rows f' ''audit'' = table_rows f ''audit'') \<and> (\<not> ok \<longrightarrow> (\<exists>p. oe_fails env p))"

lemma schema_at_versions: "schema_at v f \<Longrightarrow> v = 0 \<or> v = 1 \<or> v = 2"
  by (auto simp: schema_at_def split: if_splits)

lemma migrate_ladder:
  assumes "schema_at v f" and "migrate env f = (r, f')"
  shows "ladder env v f (r = Inr ()) f'"
proof (cases "oe_fails env CreateMeta \<or> oe_fails env ReadVersion")
  case True
  define f0 where "f0 = (if sf_meta f = None then f\<lparr>sf_meta := Some []\<rparr> else f)"
  have "sf_meta f = None \<Longrightarrow> v = 0"
    using schema_at_versions [OF assms(1)] assms(1) unfolding schema_at_def by force
  then have f0: "schema_at v f0" "v = 2 \<longrightarrow> f0 = f" "table_rows f0 t = table_rows f t" for t
    using assms(1) by (auto simp: f0_def schema_at_def [of 0])
  have "migrate env f = (Inl MigrationFailed, if oe_fails env CreateMeta then f else f0)"
  proof (cases "oe_fails env CreateMeta")
    case False
    then have "currentVersionOrZero env f0 = Inl MigrationFailed"
      using True by (simp add: currentVersionOrZero_def SchemaVersion_def)
    with False show ?thesis by (simp add: migrate_def Let_def f0_def [symmetric])
  qed (simp add: migrate_def)
  then have r: "r = Inl MigrationFailed" "f' = (if oe_fails env CreateMeta then f else f0)"
    using assms(2) by simp_all
  have "schema_at v f'" "v = 2 \<longrightarrow> f' = f" "table_rows f' ''audit'' = table_rows f ''audit''"
    using assms(1) f0 by (simp_all add: r(2))
  with True r(1) schema_at_versions [OF assms(1)] show ?thesis
    unfolding ladder_def by auto
next
  case False
  from schema_at_versions [OF assms(1)] consider "v = 0" | "v = 1" | "v = 2" by blast
  then show ?thesis
  proof cases
    case 1
    define f0 where "f0 = (if sf_meta f = None then f\<lparr>sf_meta := Some []\<rparr> else f)"
    have f0: "schema_at 0 f0" "sf_meta f0 = Some []"
      using assms(1) 1 by (auto simp: schema_at_def f0_def)
    have "migrate env f = migrate_steps env 0 migrations f0"
      using False f0(2)
      by (simp add: migrate_def Let_def f0_def [symmetric] currentVersionOrZero_def SchemaVersion_def
          schemaVersionKey_def currentSchemaVersion_def)
    with assms(2) have "migrate_steps env 0 migrations f0 = (r, f')" by simp
    from steps_from_0 [OF f0 this] 1 show ?thesis
      by (cases "r = Inr ()") (auto simp: ladder_def)
  next
    case 2
    then have "sf_meta f = Some [(''version'', ''1'')]" using assms(1) by (simp add: schema_at_def)
    then have "migrate env f = migrate_steps env 1 [\<lparr>ms_version = 2, ms_sql = schemaV2\<rparr>] f"
      using False
      by (simp add: migrate_def Let_def currentVersionOrZero_def SchemaVersion_def itoa_versions
          schemaVersionKey_def currentSchemaVersion_def migrations_def)
    with steps_from_1 [of f env 1 r f'] assms 2 show ?thesis
      by (auto simp: ladder_def split: if_splits)
  next
    case 3
    then have "sf_meta f = Some [(''version'', ''2'')]" using assms(1) by (simp add: schema_at_def)
    then have "migrate env f = (Inr (), f)"
      using False
      by (simp add: migrate_def Let_def currentVersionOrZero_def SchemaVersion_def itoa_versions
          schemaVersionKey_def currentSchemaVersion_def migrations_def)
    with assms 3 show ?thesis by (auto simp: ladder_def)
  qed
qed


lemma Open_cases:
  assumes "Open env path f = (r, f')"
  obtains (refused) "f' = f" "isl r" "(\<exists>p. oe_fails env p) \<or> oe_integrity env \<noteq> ''ok''"
  | (failed) e where "migrate env f = (Inl e, f')" "isl r"
  | (migrated) "migrate env f = (Inr (), f')"
      "r = Inr (oe_absent env) \<or> (isl r \<and> (\<exists>p. oe_chmod env p = ChmodError))"
proof (cases "oe_fails env SqlOpen \<or> oe_fails env PingPoint \<or> oe_fails env IntegrityQuery \<or> oe_integrity env \<noteq> ''ok''")
  case True
  then have "f' = f" "isl r"
    using assms by (auto simp: Open_def verifyAndMigrate_def Let_def split: if_splits)
  then show ?thesis using True refused by blast
next
  case False
  then have v: "verifyAndMigrate env f = migrate env f" "\<not> oe_fails env SqlOpen"
    by (simp_all add: verifyAndMigrate_def)
  obtain rm fm where m: "migrate env f = (rm, fm)" by fastforce
  have perm: "isl (fst (tighten_loop chmod ps)) \<Longrightarrow> \<exists>p. chmod p = ChmodError" for chmod ps
    by (induction ps) (auto split: chmod_result.splits prod.splits simp: Let_def)
  show ?thesis
  proof (cases rm)
    case (Inl e)
    with assms m v show ?thesis by (intro failed [of e]) (auto simp: Open_def Let_def)
  next
    case (Inr u)
    show ?thesis
    proof (cases "fst (tightenPermissions (oe_chmod env) path)")
      case (Inl e)
      with perm [of "oe_chmod env"] have "\<exists>p. oe_chmod env p = ChmodError"
        unfolding tightenPermissions_def by (metis sum.disc(1))
      with assms m v Inl \<open>rm = Inr u\<close> show ?thesis
        by (intro migrated) (auto simp: Open_def Let_def)
    next
      case (Inr w)
      with assms m v \<open>rm = Inr u\<close> show ?thesis
        by (intro migrated) (auto simp: Open_def Let_def)
    qed
  qed
qed

lemma Open_ladder:
  assumes "schema_at v f" and "Open env path f = (r, f')"
  shows "\<exists>ok. ladder env v f ok f' \<and> (r = Inr (oe_absent env) \<and> ok \<or>
      isl r \<and> ((\<exists>p. oe_fails env p) \<or> oe_integrity env \<noteq> ''ok'' \<or> (\<exists>p. oe_chmod env p = ChmodError))) \<or>
    f' = f \<and> isl r \<and> oe_integrity env \<noteq> ''ok''"
  using assms(2)
proof (cases rule: Open_cases)
  case refused
  then show ?thesis
    using assms(1) schema_at_versions [OF assms(1)] by (auto simp: ladder_def)
next
  case (failed e)
  then show ?thesis using migrate_ladder [OF assms(1) failed(1)] by (auto simp: ladder_def)
next
  case migrated
  then show ?thesis using migrate_ladder [OF assms(1) migrated(1)] by auto
qed

definition consistent :: "store_file \<Rightarrow> bool" where
  "consistent f \<longleftrightarrow> schema_at 0 f \<or> schema_at 1 f \<or> schema_at 2 f"

interpretation store_opens: invariant_system 
    "\<lambda>f (env, path). snd (Open env path f)" "\<lambda>f. f = empty_file" consistent
proof
  show "consistent f" if "f = empty_file" for f
    using that by (simp add: consistent_def schema_at_def empty_file_def)
next
  fix f and e :: "open_env \<times> string" assume c: "consistent f"
  obtain env path where e: "e = (env, path)" by fastforce
  obtain r f' where o: "Open env path f = (r, f')" by fastforce
  from c obtain v where v: "schema_at v f" by (auto simp: consistent_def)
  from Open_ladder [OF this o] have "\<exists>v'. schema_at v' f'"
    using v by (auto simp: ladder_def)
  then show "consistent (case e of (env, path) \<Rightarrow> snd (Open env path f))"
    using e o by (auto simp: consistent_def dest: schema_at_versions)
qed

text \<open>
  C35: the migration ladder is safe to interrupt.  However many starts of the agent failed on
  the way, at whatever point of opening, migrating or committing, the file holds exactly the
  schema of one version; the next start that meets no failure succeeds with the current schema
  and reports first run just when the file did not exist; a start never moves the schema back,
  leaves a current store exactly as it is, and no upgrade loses an audit row.
\<close>

theorem open_recovers:
  assumes "f = foldl (\<lambda>f (env, path). snd (Open env path f)) empty_file starts"
    and "Open env path f = (r, f')"
    and "schema_at v f"
  shows "v \<in> {0, 1, 2} \<and> (\<exists>v'. schema_at v' f' \<and> v \<le> v') \<and>
    (v = 2 \<longrightarrow> f' = f) \<and> (v = 1 \<longrightarrow> table_rows f' ''audit'' = table_rows f ''audit'') \<and>
    (\<not> isl r \<longrightarrow> r = Inr (oe_absent env) \<and> schema_at 2 f') \<and>
    ((\<forall>p. \<not> oe_fails env p) \<and> (\<forall>p. oe_chmod env p \<noteq> ChmodError) \<and> oe_integrity env = ''ok'' \<longrightarrow> \<not> isl r)"
proof -
  show ?thesis
    using Open_ladder [OF assms(3,2)] schema_at_versions [OF assms(3)] assms(3)
    by (auto simp: ladder_def)
qed

lemma open_recovers_witness:
  "snd (Open \<lparr>oe_fails = (\<lambda>p. p = CommitStep 2), oe_absent = True, oe_integrity = ''ok'', oe_chmod = (\<lambda>p. ChmodOk)\<rparr>
     ''devmon.db'' empty_file) \<noteq> empty_file \<and>
   (\<exists>f'. Open \<lparr>oe_fails = (\<lambda>p. False), oe_absent = False, oe_integrity = ''ok'', oe_chmod = (\<lambda>p. ChmodOk)\<rparr> ''devmon.db''
      (snd (Open \<lparr>oe_fails = (\<lambda>p. p = CommitStep 2), oe_absent = True, oe_integrity = ''ok'', oe_chmod = (\<lambda>p. ChmodOk)\<rparr>
        ''devmon.db'' empty_file)) = (Inr False, f') \<and> schema_at 2 f')"
proof -
  let ?e1 = "\<lparr>oe_fails = (\<lambda>p. p = CommitStep 2), oe_absent = True, oe_integrity = ''ok'', oe_chmod = (\<lambda>p. ChmodOk)\<rparr>"
  let ?e2 = "\<lparr>oe_fails = (\<lambda>p. False), oe_absent = False, oe_integrity = ''ok'', oe_chmod = (\<lambda>p. ChmodOk)\<rparr>"
  let ?f = "snd (Open ?e1 ''devmon.db'' empty_file)"
  have run: "?f = foldl (\<lambda>f (env, path). snd (Open env path f)) empty_file [(?e1, ''devmon.db'')]" by simp
  have one: "sf_meta ?f = Some [(''version'', ''1'')]" by code_simp
  obtain v where v: "schema_at v ?f"
    using store_opens.start_run_inv [OF refl, of "[(?e1, ''devmon.db'')]"] by (auto simp: consistent_def)
  obtain r f' where o: "Open ?e2 ''devmon.db'' ?f = (r, f')" by fastforce
  from open_recovers [OF run o v] have "r = Inr False" "schema_at 2 f'" by auto
  with o one show ?thesis by (auto simp: empty_file_def)
qed

text \<open>
  A store written by a newer agent is never opened and never changed, and a store whose
  version is not a number is reported as corrupt and left alone too, whatever else fails.
\<close>

theorem newer_store_refused:
  assumes "sf_meta f = Some m" and "gm_get m schemaVersionKey = Some raw"
    and "\<forall>n. atoi raw = Some n \<longrightarrow> 2 < n"
  shows "isl (fst (Open env path f)) \<and> snd (Open env path f) = f \<and>
    (if (\<forall>p. \<not> oe_fails env p) \<and> oe_integrity env = ''ok''
     then fst (Open env path f) = Inl (if atoi raw = None then ErrStateCorrupt else ErrSchemaTooNew)
     else True)"
proof -
  have "migrate env f = (Inl (if oe_fails env CreateMeta \<or> oe_fails env ReadVersion then MigrationFailed
      else if atoi raw = None then ErrStateCorrupt else ErrSchemaTooNew), f)"
    using assms
    by (cases "atoi raw")
      (simp_all add: migrate_def Let_def currentVersionOrZero_def SchemaVersion_def currentSchemaVersion_def)
  then show ?thesis
    by (simp add: Open_def verifyAndMigrate_def Let_def)
qed

lemma newer_store_refused_witness:
  "fst (Open \<lparr>oe_fails = (\<lambda>p. False), oe_absent = False, oe_integrity = ''ok'', oe_chmod = (\<lambda>p. ChmodOk)\<rparr> ''devmon.db''
     (empty_file\<lparr>sf_meta := Some [(''version'', ''3'')]\<rparr>)) = Inl ErrSchemaTooNew"
proof -
  have three: "atoi ''3'' = Some 3" by code_simp
  show ?thesis
    using newer_store_refused [of "empty_file\<lparr>sf_meta := Some [(''version'', ''3'')]\<rparr>" "[(''version'', ''3'')]" "''3''"
      "\<lparr>oe_fails = (\<lambda>p. False), oe_absent = False, oe_integrity = ''ok'', oe_chmod = (\<lambda>p. ChmodOk)\<rparr>" "''devmon.db''"]
    by (simp add: three schemaVersionKey_def)
qed

end
