(* ===== verification/Certs.thy ===== *)
theory Certs
  imports Store
begin

section \<open>Issuing device certificates (internal/certs/issue.go, pki.go)\<close>

text \<open>
  Parsing a request, checking its signature, creating a certificate and PEM belong to Go's
  crypto library and are a parameter; what goes into the certificate is the agent's decision
  and is modelled.  The certificate authority's key is inside the parameter \<open>x_create\<close>.
\<close>

datatype curve = P256 | OtherCurve

datatype public_key = ECDSAKey curve string | OtherKey string

record csr =
  csr_signature_ok :: bool
  csr_key :: public_key

datatype ext_key_usage = ClientAuth | ServerAuth

record certificate =
  x_serial :: nat
  x_common_name :: string
  x_not_before :: int
  x_not_after :: int
  x_digital_signature :: bool
  x_ext_key_usage :: "ext_key_usage list"
  x_is_ca :: bool

record x509_api =
  x_parse_csr :: "string \<Rightarrow> csr option"
  x_create :: "certificate \<Rightarrow> public_key \<Rightarrow> string option"
  x_pem_encode :: "string \<Rightarrow> string \<Rightarrow> string"
  x_pem_decode :: "string \<Rightarrow> (string \<times> string) option"

definition pemTypeCertificate :: string where "pemTypeCertificate = ''CERTIFICATE''"

definition deviceCertValidity :: int where "deviceCertValidity = 90 * 24 * 3600 * 1000000000"

definition serialBits :: nat where "serialBits = 128"

text \<open>big.Int.Text(16).\<close>

function text16 :: "nat \<Rightarrow> string" where
  "text16 n = (if n < 16 then [hex_digit n] else text16 (n div 16) @ [hex_digit (n mod 16)])"
  by pat_completeness auto
termination by (relation "measure (\<lambda>n. n)") auto

declare text16.simps [simp del]

datatype issue_error = BadCSR | BadSignature | NotECDSA | NotP256 | NoEntropy | CreateFailed

definition device_template :: "nat \<Rightarrow> string \<Rightarrow> int \<Rightarrow> certificate" where
  "device_template serial commonName now =
     \<lparr>x_serial = serial, x_common_name = commonName,
      x_not_before = now - 60000000000, x_not_after = now + deviceCertValidity,
      x_digital_signature = True, x_ext_key_usage = [ClientAuth], x_is_ca = False\<rparr>"

text \<open>The serial number is the answer of rand.Int below \<open>2 ^ serialBits\<close>, or its failure.\<close>

definition IssueDeviceCert ::
  "x509_api \<Rightarrow> nat option \<Rightarrow> string \<Rightarrow> string \<Rightarrow> int \<Rightarrow> issue_error + (string \<times> string \<times> int)" where
  "IssueDeviceCert api rnd csrDER commonName now =
     (case x_parse_csr api csrDER of
        None \<Rightarrow> Inl BadCSR
      | Some r \<Rightarrow>
          if \<not> csr_signature_ok r then Inl BadSignature
          else (case csr_key r of
              OtherKey k \<Rightarrow> Inl NotECDSA
            | ECDSAKey c k \<Rightarrow>
                if c \<noteq> P256 then Inl NotP256
                else (case rnd of
                    None \<Rightarrow> Inl NoEntropy
                  | Some serialNum \<Rightarrow>
                      (let t = device_template serialNum commonName now in
                       case x_create api t (csr_key r) of
                         None \<Rightarrow> Inl CreateFailed
                       | Some der \<Rightarrow> Inr (x_pem_encode api pemTypeCertificate der, text16 serialNum, x_not_after t)))))"

subsection \<open>Serial numbers as text\<close>

lemma hex_digit_code:
  "k < 16 \<Longrightarrow> (of_char (hex_digit k) :: nat) = (if k < 10 then 48 + k else 87 + k)"
  by (simp add: hex_digit_def)

lemma hex_digit_inj: "i < 16 \<Longrightarrow> j < 16 \<Longrightarrow> hex_digit i = hex_digit j \<Longrightarrow> i = j"
proof -
  assume i: "i < 16" and j: "j < 16" and "hex_digit i = hex_digit j"
  then have "(if i < 10 then 48 + i else 87 + i) = (if j < 10 then 48 + j else 87 + j)"
    unfolding hex_digit_code [OF i, symmetric] hex_digit_code [OF j, symmetric] by simp
  with i j show "i = j" by (cases "i < 10"; cases "j < 10") simp_all
qed

lemma text16_nonempty: "text16 n \<noteq> []"
  by (subst text16.simps) simp

lemma text16_inj: "text16 m = text16 n \<Longrightarrow> m = n"
proof (induction m arbitrary: n rule: text16.induct)
  case (1 m)
  have long: "length (text16 k) = 1 \<longleftrightarrow> k < 16" for k
    using text16_nonempty [of "k div 16"] by (subst text16.simps) auto
  show ?case
  proof (cases "m < 16")
    case True
    then have "n < 16" using long "1.prems" by metis
    with True "1.prems" show ?thesis
      using text16.simps [of m] text16.simps [of n] by (auto intro: hex_digit_inj)
  next
    case False
    then have "\<not> n < 16" using long "1.prems" by metis
    with False "1.prems" have "text16 (m div 16) @ [hex_digit (m mod 16)] = text16 (n div 16) @ [hex_digit (n mod 16)]"
      using text16.simps [of m] text16.simps [of n] by simp
    then have "m div 16 = n div 16" "m mod 16 = n mod 16"
      using "1.IH" [of "n div 16"] False by (auto intro: hex_digit_inj)
    then show ?thesis by (metis div_mult_mod_eq)
  qed
qed

text \<open>
  What a device certificate says is the agent's decision.  A certificate is issued only for
  a request whose signature verifies and whose key is ECDSA on P-256; its common name is the
  identity the agent passes in, whatever the request asked for; it can only authenticate a
  client, it is no authority, it is valid for ninety days from a minute ago, and the serial
  handed to the registry is the serial inside it.
\<close>

theorem device_cert_template:
  assumes "IssueDeviceCert api rnd csrDER name now = Inr (pem, serial, until)"
  shows "\<exists>r k n der. x_parse_csr api csrDER = Some r \<and> csr_signature_ok r \<and> csr_key r = ECDSAKey P256 k \<and>
    rnd = Some n \<and> serial = text16 n \<and> until = now + 90 * 86400 * 1000000000 \<and>
    x_create api \<lparr>x_serial = n, x_common_name = name, x_not_before = now - 60 * 1000000000,
      x_not_after = until, x_digital_signature = True, x_ext_key_usage = [ClientAuth], x_is_ca = False\<rparr>
      (ECDSAKey P256 k) = Some der \<and> pem = x_pem_encode api ''CERTIFICATE'' der"
proof -
  obtain r where r: "x_parse_csr api csrDER = Some r" "csr_signature_ok r"
    using assms by (auto simp: IssueDeviceCert_def split: option.splits if_splits)
  with assms obtain k where k: "csr_key r = ECDSAKey P256 k"
    by (auto simp: IssueDeviceCert_def split: public_key.splits if_splits)
  with r assms obtain n where n: "rnd = Some n"
    by (auto simp: IssueDeviceCert_def split: option.splits)
  with r k assms obtain der where "x_create api (device_template n name now) (csr_key r) = Some der"
    by (auto simp: IssueDeviceCert_def Let_def split: option.splits)
  with r k n assms show ?thesis
    by (simp add: IssueDeviceCert_def device_template_def deviceCertValidity_def pemTypeCertificate_def)
qed

definition demo_x509 :: x509_api where
  "demo_x509 = \<lparr>x_parse_csr = (\<lambda>der. if der = ''bad'' then None
       else Some \<lparr>csr_signature_ok = True, csr_key = ECDSAKey P256 der\<rparr>),
     x_create = (\<lambda>t k. Some (x_common_name t)), x_pem_encode = (\<lambda>t der. t @ '':'' @ der),
     x_pem_decode = (\<lambda>s. Some (''CERTIFICATE REQUEST'', s))\<rparr>"

lemma device_cert_template_witness:
  "IssueDeviceCert demo_x509 (Some 255) ''key'' ''dev1'' 0 =
     Inr (''CERTIFICATE:dev1'', text16 255, 7776000000000000) \<and>
   x_common_name (device_template 255 ''dev1'' 0) = ''dev1''"
proof -
  have i: "IssueDeviceCert demo_x509 (Some 255) ''key'' ''dev1'' 0 =
     Inr (''CERTIFICATE:dev1'', text16 255, 7776000000000000)"
    by (simp add: IssueDeviceCert_def demo_x509_def device_template_def deviceCertValidity_def
        pemTypeCertificate_def Let_def)
  from device_cert_template [OF i] i show ?thesis
    by (simp add: device_template_def)
qed

end
