(* ===== verification/Http.thy ===== *)
theory Http
  imports Policy RateLimit Config DockerClient StoreProps Certs GoTime
begin

section \<open>Requests, responses and middleware (internal/httpapi: respond.go, middleware.go, ratelimit.go, policygate.go, audit.go)\<close>

text \<open>
  A handler maps a request, its environment, its context and the server's state to a response,
  the refined context and the new state.  Middleware is a function between handlers, composed
  as in the source.  Every access to the store goes through one of two functions: the first
  applies whatever the rest of the agent did to the tables meanwhile, so that a handler never
  assumes that it runs alone, and the second also records the write, so that properties can
  speak about what one request did.  Logging is left out, and the JSON text of a body is in Wire.
\<close>

record request =
  rq_method :: string
  rq_path :: "string list"
  rq_query :: "(string \<times> string) list"
  rq_remote :: string
  rq_cert :: "nat option"
  rq_body :: string

text \<open>The certificate is the serial number of the leaf the TLS layer has verified.\<close>

datatype store_call =
    AtLookup | AtTouch | AtCreate | AtRedeem | AtRename | AtRecord | AtRollback | AtSupersede
  | AtRevoke | AtAudit

record env =
  ev_now :: int
  ev_global_now :: int
  ev_limit_now :: int
  ev_store :: "store_call \<Rightarrow> store_env"
  ev_between :: "store_call \<Rightarrow> db \<Rightarrow> db"
  ev_device_rnd :: string
  ev_serial_rnd :: "nat option"
  ev_order :: "string list"

datatype json_outcome = JsonObject "string \<Rightarrow> string" | JsonBad | JsonShort

record statusResponse =
  sr_api_version :: string
  sr_agent_version :: string
  sr_policy_mode :: string
  sr_server_time :: string
  sr_ca_fingerprint :: string

record pairResponse =
  pr_device_id :: string
  pr_certificate_pem :: string
  pr_ca_certificate_pem :: string
  pr_not_after :: string

record renewResponse =
  rr_certificate_pem :: string
  rr_not_after :: string

datatype body =
    NoBody | ErrorBody string | StatusBody statusResponse | PairBody pairResponse | RenewBody renewResponse
  | ContainersBody "container_summary list_result" | ContainerBody container_detail
  | ImagesBody "image_summary list_result" | ImageBody image_detail
  | NetworksBody "network_summary list_result" | NetworkBody network_detail
  | VolumesBody "volume_summary list_result" | VolumeBody volume_summary
  | LogsBody "log_line list_result"
  | MuxBody

record response =
  rs_code :: int
  rs_headers :: "(string \<times> string) list"
  rs_body :: body

record audit_inflight =
  ai_operation :: string
  ai_target :: string
  ai_outcome :: string
  ai_detail :: string
  ai_device_id :: string

record ctx =
  cx_vars :: "(string \<times> string) list"
  cx_device :: "device option"
  cx_audit :: "audit_inflight option"

record ca =
  ca_pem :: string
  ca_fingerprint :: string

text \<open>What the server is built with: the fields that never change, and the code outside src/.\<close>

record ('w, 'l) server =
  sv_mode :: mode
  sv_ca :: "ca option"
  sv_docker :: "client option"
  sv_version :: string
  sv_globalLimit :: rat
  sv_statusLimit :: rat
  sv_pairLimit :: rat
  sv_deviceLimit :: rat
  sv_engine :: "'w engine_api"
  sv_limiter :: "'l limiter_api"
  sv_x509 :: x509_api
  sv_sha :: "string \<Rightarrow> string"
  sv_json :: "string \<Rightarrow> json_outcome"

record ('w, 'l) world =
  w_db :: db
  w_ops :: "store_op list"
  w_engine :: "'w cw"
  w_global :: 'l
  w_status :: "'l registry"
  w_pair :: "'l registry"
  w_device :: "'l registry"

type_synonym ('w, 'l) handler =
  "request \<Rightarrow> env \<Rightarrow> ctx \<Rightarrow> ('w, 'l) world \<Rightarrow> response \<times> ctx \<times> ('w, 'l) world"

definition store_read :: "env \<Rightarrow> store_call \<Rightarrow> (store_env \<Rightarrow> db \<Rightarrow> 'a) \<Rightarrow> ('w, 'l) world \<Rightarrow> 'a \<times> ('w, 'l) world" where
  "store_read env c f w =
     (let d = ev_between env c (w_db w) in (f (ev_store env c) d, w\<lparr>w_db := d\<rparr>))"

definition store_write ::
  "env \<Rightarrow> store_call \<Rightarrow> store_op \<Rightarrow> (store_env \<Rightarrow> db \<Rightarrow> 'a stored) \<Rightarrow> ('w, 'l) world \<Rightarrow>
     (store_error + 'a) \<times> ('w, 'l) world" where
  "store_write env c op f w =
     (let (r, d) = f (ev_store env c) (ev_between env c (w_db w))
      in (r, w\<lparr>w_db := d, w_ops := w_ops w @ [op]\<rparr>))"

definition on_engine :: "('w cw \<Rightarrow> 'a \<times> 'w cw) \<Rightarrow> ('w, 'l) world \<Rightarrow> 'a \<times> ('w, 'l) world" where
  "on_engine f w = (let (r, e) = f (w_engine w) in (r, w\<lparr>w_engine := e\<rparr>))"

subsection \<open>Responses (respond.go)\<close>

definition writeJSON :: "int \<Rightarrow> body \<Rightarrow> response" where
  "writeJSON code b = \<lparr>rs_code = code, rs_headers = [(''Content-Type'', ''application/json''),
     (''Cache-Control'', ''no-store''), (''X-Content-Type-Options'', ''nosniff'')], rs_body = b\<rparr>"

definition writeError :: "int \<Rightarrow> string \<Rightarrow> response" where
  "writeError code msg = writeJSON code (ErrorBody msg)"

definition noContent :: response where
  "noContent = \<lparr>rs_code = 204, rs_headers = [], rs_body = NoBody\<rparr>"

subsection \<open>The audit entry in flight (audit.go)\<close>

definition opPair :: string where "opPair = ''pair''"
definition opRenew :: string where "opRenew = ''renew''"
definition opUnpairSelf :: string where "opUnpairSelf = ''unpair_self''"

definition setAuditOutcome :: "string \<Rightarrow> string \<Rightarrow> ctx \<Rightarrow> ctx" where
  "setAuditOutcome outcome detail cx =
     cx\<lparr>cx_audit := map_option (\<lambda>e. e\<lparr>ai_outcome := outcome, ai_detail := detail\<rparr>) (cx_audit cx)\<rparr>"

definition setAuditDeviceID :: "string \<Rightarrow> ctx \<Rightarrow> ctx" where
  "setAuditDeviceID ident cx = cx\<lparr>cx_audit := map_option (\<lambda>e. e\<lparr>ai_device_id := ident\<rparr>) (cx_audit cx)\<rparr>"

definition audit_row_of :: "ctx \<Rightarrow> audit_inflight \<Rightarrow> audit_entry" where
  "audit_row_of cx e =
     \<lparr>ae_occurred_at = None,
      ae_device_id = (case cx_device cx of Some d \<Rightarrow> dev_id d | None \<Rightarrow> ai_device_id e),
      ae_operation = ai_operation e, ae_target = ai_target e,
      ae_outcome = ai_outcome e, ae_detail = ai_detail e\<rparr>"

text \<open>A failed append never changes the response.\<close>

definition recordAudit :: "env \<Rightarrow> ctx \<Rightarrow> audit_inflight \<Rightarrow> ('w, 'l) world \<Rightarrow> ('w, 'l) world" where
  "recordAudit env cx e w =
     snd (store_write env AtAudit (StAppend (audit_row_of cx e)) (\<lambda>se. AppendAudit se (audit_row_of cx e)) w)"

text \<open>What the three audit middlewares share: seed the entry, run, record what it has become.\<close>

definition audited :: "audit_inflight \<Rightarrow> ('w, 'l) handler \<Rightarrow> ('w, 'l) handler" where
  "audited entry next rq env cx w =
     (let (resp, cx', w') = next rq env (cx\<lparr>cx_audit := Some entry\<rparr>) w;
          entry' = (case cx_audit cx' of None \<Rightarrow> entry | Some e \<Rightarrow> e)
      in (resp, cx, recordAudit env cx entry' w'))"

definition seed_entry :: "string \<Rightarrow> string \<Rightarrow> audit_inflight" where
  "seed_entry operation target = \<lparr>ai_operation = operation, ai_target = target,
     ai_outcome = OutcomeSuccess, ai_detail = [], ai_device_id = []\<rparr>"

definition pathValue :: "string \<Rightarrow> ctx \<Rightarrow> string" where
  "pathValue name cx = (case map_of (cx_vars cx) name of None \<Rightarrow> [] | Some v \<Rightarrow> v)"

definition withAudit :: "operation \<Rightarrow> ('w, 'l) handler \<Rightarrow> ('w, 'l) handler" where
  "withAudit op next rq env cx = audited (seed_entry op (pathValue ''id'' cx)) next rq env cx"

definition withIdentityAudit :: "string \<Rightarrow> ('w, 'l) handler \<Rightarrow> ('w, 'l) handler" where
  "withIdentityAudit operation next = audited (seed_entry operation []) next"

definition withPairAudit :: "('w, 'l) handler \<Rightarrow> ('w, 'l) handler" where
  "withPairAudit next = audited (seed_entry opPair []) next"

subsection \<open>Authentication (middleware.go)\<close>

definition msgClientCertRequired :: string where "msgClientCertRequired = ''client certificate required''"

definition requireDevice :: "('w, 'l) handler \<Rightarrow> ('w, 'l) handler" where
  "requireDevice next rq env cx w =
     (case rq_cert rq of
        None \<Rightarrow> (writeError 401 msgClientCertRequired, cx, w)
      | Some n \<Rightarrow>
          (let (found, w1) = store_read env AtLookup (\<lambda>se. DeviceByCertSerial se (text16 n)) w
           in case found of
               Inl e \<Rightarrow> (writeError 401 msgClientCertRequired, cx, w1)
             | Inr dv \<Rightarrow>
                 if IsRevoked dv then (writeError 401 msgClientCertRequired, cx, w1)
                 else (let (r, w2) = store_write env AtTouch (StTouch (dev_id dv)) (\<lambda>se. TouchDevice se (dev_id dv)) w1
                       in next rq env (cx\<lparr>cx_device := Some dv\<rparr>) w2)))"

subsection \<open>Policy (policygate.go)\<close>

definition msgPolicyForbidden :: string where
  "msgPolicyForbidden = ''operation not permitted by host policy''"

definition requireOp :: "('w, 'l) server \<Rightarrow> operation \<Rightarrow> ('w, 'l) handler \<Rightarrow> ('w, 'l) handler" where
  "requireOp sv op next rq env cx w =
     (if \<not> Allows (sv_mode sv) op
      then (writeError 403 msgPolicyForbidden, setAuditOutcome OutcomeDeniedPolicy [] cx, w)
      else next rq env cx w)"

subsection \<open>Rate limits (ratelimit.go)\<close>

definition msgRateLimited :: string where "msgRateLimited = ''rate limit exceeded''"
definition headerRetryAfter :: string where "headerRetryAfter = ''Retry-After''"
definition msgInternal :: string where "msgInternal = ''internal error''"

text \<open>The caller's address without its port.\<close>

definition clientIP :: "request \<Rightarrow> string" where
  "clientIP rq = (case SplitHostPort (rq_remote rq) of Inl e \<Rightarrow> rq_remote rq | Inr (host, port) \<Rightarrow> host)"

text \<open>
  \<open>rate.Limit\<close> is a float64; the rates are exact rationals here.  The two agree on the rounded
  up quotient for every configurable rate.
\<close>

definition tooManyRequests :: "rat \<Rightarrow> response" where
  "tooManyRequests rl =
     (let retryAfter = \<lceil>1 / rl\<rceil>; retryAfter' = (if retryAfter < 1 then 1 else retryAfter);
          resp = writeError 429 msgRateLimited
      in resp\<lparr>rs_headers := (headerRetryAfter, itoa retryAfter') # rs_headers resp\<rparr>)"

definition withGlobalUnauthLimit :: "('w, 'l) server \<Rightarrow> ('w, 'l) handler \<Rightarrow> ('w, 'l) handler" where
  "withGlobalUnauthLimit sv next rq env cx w =
     (let (ok, g) = allowN1 (sv_limiter sv) (w_global w) (ev_global_now env); w1 = w\<lparr>w_global := g\<rparr>
      in if \<not> ok then (tooManyRequests (sv_globalLimit sv), cx, w1) else next rq env cx w1)"

datatype tier = TierStatus | TierPair

fun tier_registry :: "tier \<Rightarrow> ('w, 'l) world \<Rightarrow> 'l registry" where
  "tier_registry TierStatus w = w_status w"
| "tier_registry TierPair w = w_pair w"

fun set_tier_registry :: "tier \<Rightarrow> 'l registry \<Rightarrow> ('w, 'l) world \<Rightarrow> ('w, 'l) world" where
  "set_tier_registry TierStatus r w = w\<lparr>w_status := r\<rparr>"
| "set_tier_registry TierPair r w = w\<lparr>w_pair := r\<rparr>"

definition withIPLimit :: "('w, 'l) server \<Rightarrow> tier \<Rightarrow> rat \<Rightarrow> ('w, 'l) handler \<Rightarrow> ('w, 'l) handler" where
  "withIPLimit sv t rl next rq env cx w =
     (let now = ev_limit_now env;
          ((allowed, keyed), reg) = Allow (sv_limiter sv) (tier_registry t w) (clientIP rq) now;
          w1 = set_tier_registry t reg w;
          (allowed', w2) = (if keyed then (allowed, w1)
            else (let (ok, g) = allowN1 (sv_limiter sv) (w_global w1) now in (ok, w1\<lparr>w_global := g\<rparr>)))
      in if \<not> allowed' then (tooManyRequests rl, cx, w2) else next rq env cx w2)"

definition withDeviceLimit :: "('w, 'l) server \<Rightarrow> ('w, 'l) handler \<Rightarrow> ('w, 'l) handler" where
  "withDeviceLimit sv next rq env cx w =
     (case cx_device cx of
        None \<Rightarrow> (writeError 500 msgInternal, cx, w)
      | Some dv \<Rightarrow>
          (let ((allowed, keyed), reg) = Allow (sv_limiter sv) (w_device w) (dev_id dv) (ev_limit_now env);
               w1 = w\<lparr>w_device := reg\<rparr>
           in if \<not> allowed then (tooManyRequests (sv_deviceLimit sv), cx, w1) else next rq env cx w1))"

end
