(* ===== verification/Identity.thy ===== *)
theory Identity
  imports Http
begin

section \<open>Pairing, renewal, self-revocation (internal/httpapi: pair.go, device.go)\<close>

text \<open>
  The three routes that change a device's identity.  A pairing is a sequence of store
  operations with the rest of the agent running in between; a failure after the first of them
  deletes the device row again.
\<close>

definition maxPairBodyBytes :: nat where "maxPairBodyBytes = 8192"
definition maxRenewBodyBytes :: nat where "maxRenewBodyBytes = 8192"
definition msgPairFailed :: string where "msgPairFailed = ''pairing failed''"
definition msgPairInternalError :: string where "msgPairInternalError = ''internal error''"
definition pendingDeviceName :: string where "pendingDeviceName = ''pending''"
definition pemTypeCertificateRequest :: string where "pemTypeCertificateRequest = ''CERTIFICATE REQUEST''"
definition msgRenewFailed :: string where "msgRenewFailed = ''renewal failed''"
definition msgDeviceInternalError :: string where "msgDeviceInternalError = ''internal error''"

text \<open>
  The JSON decoder reads the body through a reader that fails after the limit: a value that is
  not complete by then is too large, and one that the body ends inside of is malformed.
\<close>

datatype decode_failure = TooLarge | Malformed

definition decode_body :: "('w, 'l) server \<Rightarrow> nat \<Rightarrow> string \<Rightarrow> decode_failure + (string \<Rightarrow> string)" where
  "decode_body sv maxBytes b =
     (case sv_json sv (take maxBytes b) of
        JsonObject f \<Rightarrow> Inr f
      | JsonBad \<Rightarrow> Inl Malformed
      | JsonShort \<Rightarrow> Inl (if maxBytes < length b then TooLarge else Malformed))"

definition decode_error :: "decode_failure \<Rightarrow> response" where
  "decode_error e = (case e of
       TooLarge \<Rightarrow> writeError 413 ''request body too large''
     | Malformed \<Rightarrow> writeError 400 ''malformed request body'')"

definition decodePairRequest :: "('w, 'l) server \<Rightarrow> request \<Rightarrow> response + (string \<times> string)" where
  "decodePairRequest sv rq = (case decode_body sv maxPairBodyBytes (rq_body rq) of
       Inl e \<Rightarrow> Inl (decode_error e)
     | Inr f \<Rightarrow> Inr (f ''pairing_code'', f ''csr_pem''))"

definition decodeRenewRequest :: "('w, 'l) server \<Rightarrow> request \<Rightarrow> response + string" where
  "decodeRenewRequest sv rq = (case decode_body sv maxRenewBodyBytes (rq_body rq) of
       Inl e \<Rightarrow> Inl (decode_error e)
     | Inr f \<Rightarrow> Inr (f ''csr_pem''))"

definition decodeCSRPEM :: "('w, 'l) server \<Rightarrow> string \<Rightarrow> string option" where
  "decodeCSRPEM sv csrPEM = (case x_pem_decode (sv_x509 sv) csrPEM of
       None \<Rightarrow> None
     | Some (t, bytes) \<Rightarrow> (if t \<noteq> pemTypeCertificateRequest then None else Some bytes))"

definition deleteOrphanedDevice :: "env \<Rightarrow> string \<Rightarrow> ('w, 'l) world \<Rightarrow> ('w, 'l) world" where
  "deleteOrphanedDevice env ident w =
     snd (store_write env AtRollback (StDelete ident) (\<lambda>se. DeleteDevice se ident) w)"

text \<open>Whether the code itself was refused, or the pairing failed for another reason.\<close>

datatype pair_error = PairCodeInvalid | PairFailed

definition pair_error_of :: "store_error \<Rightarrow> pair_error" where
  "pair_error_of e = (if e = ErrPairingCodeInvalid then PairCodeInvalid else PairFailed)"

definition pairDevice ::
  "('w, 'l) server \<Rightarrow> ca \<Rightarrow> env \<Rightarrow> string \<Rightarrow> string \<Rightarrow> ('w, 'l) world \<Rightarrow>
     (pair_error + pairResponse) \<times> ('w, 'l) world" where
  "pairDevice sv c env code csrDER w =
     (case store_write env AtCreate (StCreate (ev_device_rnd env) pendingDeviceName)
             (\<lambda>se. CreateDevice se (ev_device_rnd env) pendingDeviceName) w of
        (Inl e, w1) \<Rightarrow> (Inl (pair_error_of e), w1)
      | (Inr dv, w1) \<Rightarrow>
     (case store_write env AtRedeem (StRedeem code (dev_id dv))
             (\<lambda>se. RedeemPairingCode (sv_sha sv) se code (dev_id dv)) w1 of
        (Inl e, w2) \<Rightarrow> (Inl (pair_error_of e), deleteOrphanedDevice env (dev_id dv) w2)
      | (Inr deviceName, w2) \<Rightarrow>
     (case store_write env AtRename (StRename (dev_id dv) deviceName)
             (\<lambda>se. RenameDevice se (dev_id dv) deviceName) w2 of
        (Inl e, w3) \<Rightarrow> (Inl (pair_error_of e), deleteOrphanedDevice env (dev_id dv) w3)
      | (Inr u, w3) \<Rightarrow>
     (case IssueDeviceCert (sv_x509 sv) (ev_serial_rnd env) csrDER (dev_id dv) (ev_now env) of
        Inl e \<Rightarrow> (Inl PairFailed, deleteOrphanedDevice env (dev_id dv) w3)
      | Inr (certPEM, serial, notAfter) \<Rightarrow>
     (case store_write env AtRecord (StRecordCert (dev_id dv) serial (ev_now env) notAfter)
             (\<lambda>se. RecordDeviceCert se (dev_id dv) serial (ev_now env) notAfter) w3 of
        (Inl e, w4) \<Rightarrow> (Inl (pair_error_of e), deleteOrphanedDevice env (dev_id dv) w4)
      | (Inr u', w4) \<Rightarrow>
          (Inr \<lparr>pr_device_id = dev_id dv, pr_certificate_pem = certPEM, pr_ca_certificate_pem = ca_pem c,
                pr_not_after = format_rfc3339 (unix notAfter)\<rparr>, w4))))))"

definition handlePair :: "('w, 'l) server \<Rightarrow> ('w, 'l) handler" where
  "handlePair sv rq env cx w =
     (case sv_ca sv of
        None \<Rightarrow> (writeError 500 msgPairInternalError, setAuditOutcome OutcomeInternalError [] cx, w)
      | Some c \<Rightarrow>
     (case decodePairRequest sv rq of
        Inl resp \<Rightarrow> (resp, cx, w)
      | Inr (code, csrPEM) \<Rightarrow>
     (case decodeCSRPEM sv csrPEM of
        None \<Rightarrow> (writeError 401 msgPairFailed, setAuditOutcome OutcomeInvalid ''malformed csr'' cx, w)
      | Some csrDER \<Rightarrow>
     (case pairDevice sv c env code csrDER w of
        (Inl PairCodeInvalid, w') \<Rightarrow>
          (writeError 401 msgPairFailed,
           setAuditOutcome OutcomeInvalid ''invalid or expired pairing code'' cx, w')
      | (Inl PairFailed, w') \<Rightarrow>
          (writeError 500 msgPairInternalError, setAuditOutcome OutcomeInternalError [] cx, w')
      | (Inr resp, w') \<Rightarrow>
          (writeJSON 201 (PairBody resp), setAuditDeviceID (pr_device_id resp) cx, w')))))"

definition renewDevice ::
  "('w, 'l) server \<Rightarrow> env \<Rightarrow> string \<Rightarrow> string \<Rightarrow> ('w, 'l) world \<Rightarrow> (unit + renewResponse) \<times> ('w, 'l) world" where
  "renewDevice sv env ident csrDER w =
     (case IssueDeviceCert (sv_x509 sv) (ev_serial_rnd env) csrDER ident (ev_now env) of
        Inl e \<Rightarrow> (Inl (), w)
      | Inr (certPEM, serial, notAfter) \<Rightarrow>
     (case store_write env AtRecord (StRecordCert ident serial (ev_now env) notAfter)
             (\<lambda>se. RecordDeviceCert se ident serial (ev_now env) notAfter) w of
        (Inl e, w1) \<Rightarrow> (Inl (), w1)
      | (Inr u, w1) \<Rightarrow>
     (case store_write env AtSupersede (StSupersede ident serial)
             (\<lambda>se. SupersedePriorCerts se ident serial) w1 of
        (Inl e, w2) \<Rightarrow> (Inl (), w2)
      | (Inr u', w2) \<Rightarrow>
          (Inr \<lparr>rr_certificate_pem = certPEM, rr_not_after = format_rfc3339 (unix notAfter)\<rparr>, w2))))"

definition handleRenew :: "('w, 'l) server \<Rightarrow> ('w, 'l) handler" where
  "handleRenew sv rq env cx w =
     (case sv_ca sv of
        None \<Rightarrow> (writeError 500 msgDeviceInternalError, setAuditOutcome OutcomeInternalError [] cx, w)
      | Some c \<Rightarrow>
     (case cx_device cx of
        None \<Rightarrow> (writeError 500 msgDeviceInternalError, cx, w)
      | Some dv \<Rightarrow>
     (case decodeRenewRequest sv rq of
        Inl resp \<Rightarrow> (resp, setAuditOutcome OutcomeInvalid ''malformed request body'' cx, w)
      | Inr csrPEM \<Rightarrow>
     (case decodeCSRPEM sv csrPEM of
        None \<Rightarrow> (writeError 401 msgRenewFailed, setAuditOutcome OutcomeInvalid ''malformed csr'' cx, w)
      | Some csrDER \<Rightarrow>
     (case renewDevice sv env (dev_id dv) csrDER w of
        (Inl e, w') \<Rightarrow>
          (writeError 500 msgDeviceInternalError, setAuditOutcome OutcomeInternalError [] cx, w')
      | (Inr resp, w') \<Rightarrow> (writeJSON 200 (RenewBody resp), cx, w'))))))"

definition handleUnpairSelf :: "('w, 'l) handler" where
  "handleUnpairSelf rq env cx w =
     (case cx_device cx of
        None \<Rightarrow> (writeError 500 msgDeviceInternalError, cx, w)
      | Some dv \<Rightarrow>
     (case store_write env AtRevoke (StRevoke (dev_id dv)) (\<lambda>se. RevokeDevice se (dev_id dv)) w of
        (Inl e, w') \<Rightarrow>
          (writeError 500 msgDeviceInternalError, setAuditOutcome OutcomeInternalError [] cx, w')
      | (Inr u, w') \<Rightarrow> (noContent, cx, w')))"

end
