(* ===== verification/Api.thy ===== *)
theory Api
  imports Identity
begin

section \<open>The routes (internal/httpapi: status.go, reads.go, lifecycle.go, logs.go, server.go)\<close>

text \<open>
  The handlers of the status, read, log and lifecycle routes, the route table with the
  middleware in front of each, and the dispatch by method and path.  The two handlers that
  stream are a parameter of the table.
\<close>

subsection \<open>Status\<close>

definition APIVersion :: string where "APIVersion = ''v1''"

definition handleStatus :: "('w, 'l) server \<Rightarrow> ('w, 'l) handler" where
  "handleStatus sv rq env cx w =
     (writeJSON 200 (StatusBody \<lparr>sr_api_version = APIVersion, sr_agent_version = sv_version sv,
        sr_policy_mode = mode_String (sv_mode sv), sr_server_time = format_rfc3339 (unix (ev_now env)),
        sr_ca_fingerprint = (case sv_ca sv of None \<Rightarrow> [] | Some c \<Rightarrow> ca_fingerprint c)\<rparr>), cx, w)"

subsection \<open>Failures of the Docker client (reads.go)\<close>

definition msgInvalidRef :: string where "msgInvalidRef = ''invalid object reference''"
definition msgNotFound :: string where "msgNotFound = ''not found''"
definition msgEngineUnavailable :: string where "msgEngineUnavailable = ''docker engine unavailable''"
definition msgSelfProtected :: string where "msgSelfProtected = ''the agent cannot act on itself''"
definition msgProtectedContainer :: string where
  "msgProtectedContainer = ''container is protected by host configuration''"
definition msgSelfUnknown :: string where "msgSelfUnknown = ''agent cannot identify its own container''"
definition msgContainerConflict :: string where "msgContainerConflict = ''container is running''"

definition writeDockerError :: "docker_error \<Rightarrow> ctx \<Rightarrow> response \<times> ctx" where
  "writeDockerError err cx =
     (case err of
        ErrInvalidRef \<Rightarrow> (writeError 400 msgInvalidRef, setAuditOutcome OutcomeInvalid [] cx)
      | ErrNotFound \<Rightarrow> (writeError 404 msgNotFound, setAuditOutcome OutcomeNotFound [] cx)
      | ErrNotModified \<Rightarrow> (noContent, cx)
      | ErrSelfProtected \<Rightarrow> (writeError 403 msgSelfProtected, setAuditOutcome OutcomeDeniedSelf [] cx)
      | ErrProtectedContainer \<Rightarrow>
          (writeError 403 msgProtectedContainer, setAuditOutcome OutcomeDeniedProtected [] cx)
      | ErrSelfUnknown \<Rightarrow> (writeError 503 msgSelfUnknown, setAuditOutcome OutcomeUnavailable [] cx)
      | ErrConflict \<Rightarrow> (writeError 409 msgContainerConflict, setAuditOutcome OutcomeConflict [] cx)
      | _ \<Rightarrow> (writeError 502 msgEngineUnavailable, setAuditOutcome OutcomeEngineError [] cx))"

text \<open>The body of a handler behind requireDocker.\<close>

definition requireDocker :: "('w, 'l) server \<Rightarrow> (client \<Rightarrow> ('w, 'l) handler) \<Rightarrow> ('w, 'l) handler" where
  "requireDocker sv h rq env cx w =
     (case sv_docker sv of None \<Rightarrow> (writeError 502 msgEngineUnavailable, cx, w) | Some c \<Rightarrow> h c rq env cx w)"

text \<open>What the eight read handlers share: one call of the client, then its result or its error.\<close>

definition read_reply ::
  "('w cw \<Rightarrow> (docker_error + 'a) \<times> 'w cw) \<Rightarrow> ('a \<Rightarrow> body) \<Rightarrow> ctx \<Rightarrow> ('w, 'l) world \<Rightarrow>
     response \<times> ctx \<times> ('w, 'l) world" where
  "read_reply f mk cx w =
     (case on_engine f w of
        (Inl e, w') \<Rightarrow> (let (resp, cx') = writeDockerError e cx in (resp, cx', w'))
      | (Inr x, w') \<Rightarrow> (writeJSON 200 (mk x), cx, w'))"

definition queryGet :: "string \<Rightarrow> request \<Rightarrow> string" where
  "queryGet name rq = (case map_of (rq_query rq) name of None \<Rightarrow> [] | Some v \<Rightarrow> v)"

text \<open>strconv.ParseBool: its true and its false spellings; an error reads as false.\<close>

definition listAllParam :: "request \<Rightarrow> bool" where
  "listAllParam rq \<longleftrightarrow> queryGet ''all'' rq \<in> {''1'', ''t'', ''T'', ''TRUE'', ''true'', ''True''}"

definition handleListContainers :: "('w, 'l) server \<Rightarrow> ('w, 'l) handler" where
  "handleListContainers sv = requireDocker sv (\<lambda>c rq env cx w.
     read_reply (ListContainers (sv_engine sv) c (listAllParam rq)) ContainersBody cx w)"

definition handleInspectContainer :: "('w, 'l) server \<Rightarrow> ('w, 'l) handler" where
  "handleInspectContainer sv = requireDocker sv (\<lambda>c rq env cx w.
     read_reply (InspectContainer (sv_engine sv) c (pathValue ''id'' cx)) ContainerBody cx w)"

definition handleListImages :: "('w, 'l) server \<Rightarrow> ('w, 'l) handler" where
  "handleListImages sv = requireDocker sv (\<lambda>c rq env cx w.
     read_reply (ListImages (sv_engine sv)) ImagesBody cx w)"

definition handleInspectImage :: "('w, 'l) server \<Rightarrow> ('w, 'l) handler" where
  "handleInspectImage sv = requireDocker sv (\<lambda>c rq env cx w.
     read_reply (InspectImage (sv_engine sv) (pathValue ''id'' cx)) ImageBody cx w)"

definition handleListNetworks :: "('w, 'l) server \<Rightarrow> ('w, 'l) handler" where
  "handleListNetworks sv = requireDocker sv (\<lambda>c rq env cx w.
     read_reply (ListNetworks (sv_engine sv)) NetworksBody cx w)"

definition handleInspectNetwork :: "('w, 'l) server \<Rightarrow> ('w, 'l) handler" where
  "handleInspectNetwork sv = requireDocker sv (\<lambda>c rq env cx w.
     read_reply (InspectNetwork (sv_engine sv) (pathValue ''id'' cx)) NetworkBody cx w)"

definition handleListVolumes :: "('w, 'l) server \<Rightarrow> ('w, 'l) handler" where
  "handleListVolumes sv = requireDocker sv (\<lambda>c rq env cx w.
     read_reply (ListVolumes (sv_engine sv)) VolumesBody cx w)"

definition handleInspectVolume :: "('w, 'l) server \<Rightarrow> ('w, 'l) handler" where
  "handleInspectVolume sv = requireDocker sv (\<lambda>c rq env cx w.
     read_reply (InspectVolume (sv_engine sv) (pathValue ''name'' cx)) VolumeBody cx w)"

subsection \<open>Logs\<close>

definition defaultHistoricalTail :: int where "defaultHistoricalTail = 200"
definition defaultStreamTail :: int where "defaultStreamTail = 100"
definition minTail :: int where "minTail = 1"
definition maxTail :: int where "maxTail = 2000"
definition msgInvalidSince :: string where "msgInvalidSince = ''invalid since timestamp''"

definition tailParam :: "request \<Rightarrow> int \<Rightarrow> int" where
  "tailParam rq def =
     (let raw = queryGet ''tail'' rq
      in if raw = [] then def
         else case atoi raw of
             None \<Rightarrow> def
           | Some n \<Rightarrow> (if n < minTail \<or> maxTail < n then def else n))"

definition sinceParam :: "request \<Rightarrow> string option" where
  "sinceParam rq =
     (let raw = queryGet ''since'' rq
      in if raw = [] then Some [] else if \<not> is_rfc3339nano raw then None else Some raw)"

definition handleContainerLogs :: "('w, 'l) server \<Rightarrow> ('w, 'l) handler" where
  "handleContainerLogs sv = requireDocker sv (\<lambda>c rq env cx w.
     case sinceParam rq of
       None \<Rightarrow> (writeError 400 msgInvalidSince, cx, w)
     | Some since \<Rightarrow>
         read_reply (ContainerLogs (ev_order env) (sv_engine sv) (pathValue ''id'' cx)
             \<lparr>lq_tail = tailParam rq defaultHistoricalTail, lq_since = since\<rparr>) LogsBody cx w)"

subsection \<open>Lifecycle\<close>

definition handleLifecycle :: "('w, 'l) server \<Rightarrow> lifecycle_op \<Rightarrow> ('w, 'l) handler" where
  "handleLifecycle sv act = requireDocker sv (\<lambda>c rq env cx w.
     case on_engine (lifecycle (sv_engine sv) c act (pathValue ''id'' cx)) w of
       (Some e, w') \<Rightarrow> (let (resp, cx') = writeDockerError e cx in (resp, cx', w'))
     | (None, w') \<Rightarrow> (noContent, setAuditOutcome OutcomeSuccess [] cx, w'))"

definition handleStartContainer :: "('w, 'l) server \<Rightarrow> ('w, 'l) handler" where
  "handleStartContainer sv = handleLifecycle sv DoStart"
definition handleRestartContainer :: "('w, 'l) server \<Rightarrow> ('w, 'l) handler" where
  "handleRestartContainer sv = handleLifecycle sv DoRestart"
definition handleStopContainer :: "('w, 'l) server \<Rightarrow> ('w, 'l) handler" where
  "handleStopContainer sv = handleLifecycle sv DoStop"
definition handleKillContainer :: "('w, 'l) server \<Rightarrow> ('w, 'l) handler" where
  "handleKillContainer sv = handleLifecycle sv DoKill"
definition handleRemoveContainer :: "('w, 'l) server \<Rightarrow> ('w, 'l) handler" where
  "handleRemoveContainer sv = handleLifecycle sv DoRemove"

subsection \<open>The route table (server.go)\<close>

datatype segment = Lit string | Var string

record ('w, 'l) route =
  rt_method :: string
  rt_path :: "segment list"
  rt_handler :: "('w, 'l) handler"

record ('w, 'l) stream_handlers =
  sh_logs :: "('w, 'l) handler"
  sh_events :: "('w, 'l) handler"

definition route_read :: "('w, 'l) server \<Rightarrow> segment list \<Rightarrow> ('w, 'l) handler \<Rightarrow> ('w, 'l) route" where
  "route_read sv path h = \<lparr>rt_method = ''GET'', rt_path = path,
     rt_handler = requireDevice (withDeviceLimit sv (requireOp sv OpRead h))\<rparr>"

definition route_logs :: "('w, 'l) server \<Rightarrow> segment list \<Rightarrow> ('w, 'l) handler \<Rightarrow> ('w, 'l) route" where
  "route_logs sv path h = \<lparr>rt_method = ''GET'', rt_path = path,
     rt_handler = requireDevice (withDeviceLimit sv (requireOp sv OpLogs h))\<rparr>"

definition route_mutate ::
  "('w, 'l) server \<Rightarrow> string \<Rightarrow> segment list \<Rightarrow> operation \<Rightarrow> ('w, 'l) handler \<Rightarrow> ('w, 'l) route" where
  "route_mutate sv meth path op h = \<lparr>rt_method = meth, rt_path = path,
     rt_handler = requireDevice (withDeviceLimit sv (withAudit op (requireOp sv op h)))\<rparr>"

definition routes :: "('w, 'l) server \<Rightarrow> ('w, 'l) stream_handlers \<Rightarrow> ('w, 'l) route list" where
  "routes sv sh =
    [\<lparr>rt_method = ''GET'', rt_path = [Lit ''v1'', Lit ''status''],
      rt_handler = withGlobalUnauthLimit sv (withIPLimit sv TierStatus (sv_statusLimit sv) (handleStatus sv))\<rparr>,
     \<lparr>rt_method = ''POST'', rt_path = [Lit ''v1'', Lit ''pair''],
      rt_handler = withGlobalUnauthLimit sv (withIPLimit sv TierPair (sv_pairLimit sv) (withPairAudit (handlePair sv)))\<rparr>,
     \<lparr>rt_method = ''POST'', rt_path = [Lit ''v1'', Lit ''device'', Lit ''renew''],
      rt_handler = requireDevice (withDeviceLimit sv (withIdentityAudit opRenew (handleRenew sv)))\<rparr>,
     \<lparr>rt_method = ''DELETE'', rt_path = [Lit ''v1'', Lit ''device'', Lit ''self''],
      rt_handler = requireDevice (withDeviceLimit sv (withIdentityAudit opUnpairSelf handleUnpairSelf))\<rparr>,
     route_read sv [Lit ''v1'', Lit ''containers''] (handleListContainers sv),
     route_read sv [Lit ''v1'', Lit ''containers'', Var ''id''] (handleInspectContainer sv),
     route_read sv [Lit ''v1'', Lit ''images''] (handleListImages sv),
     route_read sv [Lit ''v1'', Lit ''images'', Var ''id''] (handleInspectImage sv),
     route_read sv [Lit ''v1'', Lit ''networks''] (handleListNetworks sv),
     route_read sv [Lit ''v1'', Lit ''networks'', Var ''id''] (handleInspectNetwork sv),
     route_read sv [Lit ''v1'', Lit ''volumes''] (handleListVolumes sv),
     route_read sv [Lit ''v1'', Lit ''volumes'', Var ''name''] (handleInspectVolume sv),
     route_logs sv [Lit ''v1'', Lit ''containers'', Var ''id'', Lit ''logs''] (handleContainerLogs sv),
     route_logs sv [Lit ''v1'', Lit ''containers'', Var ''id'', Lit ''logs'', Lit ''stream''] (sh_logs sh),
     route_read sv [Lit ''v1'', Lit ''events'', Lit ''stream''] (sh_events sh),
     route_mutate sv ''POST'' [Lit ''v1'', Lit ''containers'', Var ''id'', Lit ''start''] OpStart (handleStartContainer sv),
     route_mutate sv ''POST'' [Lit ''v1'', Lit ''containers'', Var ''id'', Lit ''restart''] OpRestart (handleRestartContainer sv),
     route_mutate sv ''POST'' [Lit ''v1'', Lit ''containers'', Var ''id'', Lit ''stop''] OpStop (handleStopContainer sv),
     route_mutate sv ''POST'' [Lit ''v1'', Lit ''containers'', Var ''id'', Lit ''kill''] OpKill (handleKillContainer sv),
     route_mutate sv ''DELETE'' [Lit ''v1'', Lit ''containers'', Var ''id''] OpDelete (handleRemoveContainer sv)]"

text \<open>
  net/http's ServeMux for the patterns in use: literal segments, single-segment wildcards that
  match any non-empty segment, GET matching HEAD too.  The path is the cleaned and decoded one;
  no two patterns of the table overlap.
\<close>

fun match_path :: "segment list \<Rightarrow> string list \<Rightarrow> (string \<times> string) list option" where
  "match_path [] [] = Some []"
| "match_path (Lit l # ps) (s # ss) = (if l = s then match_path ps ss else None)"
| "match_path (Var v # ps) (s # ss) =
     (if s = [] then None else map_option (\<lambda>vs. (v, s) # vs) (match_path ps ss))"
| "match_path _ _ = None"

definition match_method :: "string \<Rightarrow> string \<Rightarrow> bool" where
  "match_method pat meth \<longleftrightarrow> pat = meth \<or> (pat = ''GET'' \<and> meth = ''HEAD'')"

fun find_route :: "('w, 'l) route list \<Rightarrow> request \<Rightarrow> (('w, 'l) route \<times> (string \<times> string) list) option" where
  "find_route [] rq = None"
| "find_route (r # rs) rq =
     (case match_path (rt_path r) (rq_path rq) of
        Some vs \<Rightarrow> (if match_method (rt_method r) (rq_method rq) then Some (r, vs) else find_route rs rq)
      | None \<Rightarrow> find_route rs rq)"

definition mux_reply :: "('w, 'l) route list \<Rightarrow> request \<Rightarrow> response" where
  "mux_reply rs rq =
     \<lparr>rs_code = (if list_ex (\<lambda>r. match_path (rt_path r) (rq_path rq) \<noteq> None) rs then 405 else 404),
      rs_headers = [(''Content-Type'', ''text/plain; charset=utf-8''), (''X-Content-Type-Options'', ''nosniff'')],
      rs_body = MuxBody\<rparr>"

definition serve ::
  "('w, 'l) server \<Rightarrow> ('w, 'l) stream_handlers \<Rightarrow> request \<Rightarrow> env \<Rightarrow> ('w, 'l) world \<Rightarrow> response \<times> ('w, 'l) world" where
  "serve sv sh rq env w =
     (case find_route (routes sv sh) rq of
        None \<Rightarrow> (mux_reply (routes sv sh) rq, w)
      | Some (r, vs) \<Rightarrow>
          (let (resp, cx, w') = rt_handler r rq env \<lparr>cx_vars = vs, cx_device = None, cx_audit = None\<rparr> w
           in (resp, w')))"

text \<open>The route a request is logged under (withRoute): a registered pattern or a fixed literal.\<close>

definition unmatchedRoute :: string where "unmatchedRoute = ''(unmatched)''"

fun segment_text :: "segment \<Rightarrow> string" where
  "segment_text (Lit l) = ''/'' @ l"
| "segment_text (Var v) = ''/{'' @ v @ ''}''"

definition route_text :: "('w, 'l) route \<Rightarrow> string" where
  "route_text r = rt_method r @ '' '' @ concat (map segment_text (rt_path r))"

definition withRoute :: "('w, 'l) route list \<Rightarrow> request \<Rightarrow> string" where
  "withRoute rs rq = (case find_route rs rq of None \<Rightarrow> unmatchedRoute | Some (r, vs) \<Rightarrow> route_text r)"

subsection \<open>Building the server\<close>

definition unauthGlobalPerSec :: int where "unauthGlobalPerSec = 50"
definition unauthGlobalBurst :: nat where "unauthGlobalBurst = 100"
definition guardedBurstMultiplier :: nat where "guardedBurstMultiplier = 2"
definition rateLimitMaxKeys :: nat where "rateLimitMaxKeys = 4096"
definition secondsPerMinute :: int where "secondsPerMinute = 60"
definition defaultRateStatusPerMin :: int where "defaultRateStatusPerMin = 30"
definition defaultRatePairPerMin :: int where "defaultRatePairPerMin = 5"
definition defaultRateGuardedPerSec :: int where "defaultRateGuardedPerSec = 20"

definition floorRatePerX :: "int \<Rightarrow> int \<Rightarrow> int" where
  "floorRatePerX v def = (if v < 1 then def else v)"

definition NewServer ::
  "config \<Rightarrow> ca option \<Rightarrow> client option \<Rightarrow> string \<Rightarrow> 'w engine_api \<Rightarrow> 'l limiter_api \<Rightarrow> x509_api \<Rightarrow>
     (string \<Rightarrow> string) \<Rightarrow> (string \<Rightarrow> json_outcome) \<Rightarrow> ('w, 'l) server" where
  "NewServer cfg c dc ver eng lapi x sha js =
     (let statusPerMin = floorRatePerX (RateStatusPerMin cfg) defaultRateStatusPerMin;
          pairPerMin = floorRatePerX (RatePairPerMin cfg) defaultRatePairPerMin;
          guardedPerSec = floorRatePerX (RateGuardedPerSec cfg) defaultRateGuardedPerSec
      in \<lparr>sv_mode = PolicyMode cfg, sv_ca = c, sv_docker = dc, sv_version = ver,
          sv_globalLimit = of_int unauthGlobalPerSec,
          sv_statusLimit = of_int statusPerMin / of_int secondsPerMinute,
          sv_pairLimit = of_int pairPerMin / of_int secondsPerMinute,
          sv_deviceLimit = of_int guardedPerSec,
          sv_engine = eng, sv_limiter = lapi, sv_x509 = x, sv_sha = sha, sv_json = js\<rparr>)"

definition fresh_world ::
  "config \<Rightarrow> 'l limiter_api \<Rightarrow> db \<Rightarrow> 'w \<Rightarrow> ('w, 'l) world" where
  "fresh_world cfg lapi d e =
     (let statusPerMin = floorRatePerX (RateStatusPerMin cfg) defaultRateStatusPerMin;
          pairPerMin = floorRatePerX (RatePairPerMin cfg) defaultRatePairPerMin;
          guardedPerSec = floorRatePerX (RateGuardedPerSec cfg) defaultRateGuardedPerSec
      in \<lparr>w_db = d, w_ops = [], w_engine = (e, []),
          w_global = newLimiter lapi (of_int unauthGlobalPerSec) unauthGlobalBurst,
          w_status = NewRegistry (of_int statusPerMin / of_int secondsPerMinute) (nat statusPerMin) rateLimitMaxKeys,
          w_pair = NewRegistry (of_int pairPerMin / of_int secondsPerMinute) (nat pairPerMin) rateLimitMaxKeys,
          w_device = NewRegistry (of_int guardedPerSec) (nat guardedPerSec * guardedBurstMultiplier) rateLimitMaxKeys\<rparr>)"

end
