(* ===== verification/ApiProps.thy ===== *)
theory ApiProps
  imports Api
begin

section \<open>What a request can do\<close>

text \<open>
  The guards in front of the handlers are characterised once, by the case rules
  \<open>guarded_cases\<close> and \<open>audited_cases\<close>; two locales state what the handlers behind them promise:
  a read handler changes nothing, and an audited handler writes no audit row itself.  Each is
  interpreted on every handler of the route table.
\<close>

subsection \<open>The guards\<close>

text \<open>The device a request authenticates as.\<close>

definition caller :: "request \<Rightarrow> env \<Rightarrow> ('w, 'l) world \<Rightarrow> device option" where
  "caller rq env w =
     (case rq_cert rq of
        None \<Rightarrow> None
      | Some n \<Rightarrow>
          (case DeviceByCertSerial (ev_store env AtLookup) (text16 n) (ev_between env AtLookup (w_db w)) of
             Inl e \<Rightarrow> None
           | Inr dv \<Rightarrow> if IsRevoked dv then None else Some dv))"

definition has_token :: "('w, 'l) server \<Rightarrow> env \<Rightarrow> ('w, 'l) world \<Rightarrow> device \<Rightarrow> bool" where
  "has_token sv env w dv \<longleftrightarrow> fst (fst (Allow (sv_limiter sv) (w_device w) (dev_id dv) (ev_limit_now env)))"

lemma store_read_eq [simp]:
  "store_read env c f w = (f (ev_store env c) (ev_between env c (w_db w)), w\<lparr>w_db := ev_between env c (w_db w)\<rparr>)"
  by (simp add: store_read_def Let_def)

lemma store_write_fields:
  assumes "store_write env c op f w = (r, w')"
  shows "w_ops w' = w_ops w @ [op]" "w_engine w' = w_engine w" "w_device w' = w_device w"
    "w_global w' = w_global w" "w_status w' = w_status w" "w_pair w' = w_pair w"
    "r = fst (f (ev_store env c) (ev_between env c (w_db w)))"
    "w_db w' = snd (f (ev_store env c) (ev_between env c (w_db w)))"
  using assms by (auto simp: store_write_def Let_def split: prod.splits)

lemma guarded_cases:
  assumes "requireDevice (withDeviceLimit sv next) rq env cx w = (resp, cx', w')"
  obtains (refused) "caller rq env w = None" "resp = writeError 401 msgClientCertRequired"
      "w_ops w' = w_ops w" "w_engine w' = w_engine w" "w_device w' = w_device w"
  | (throttled) dv where "caller rq env w = Some dv" "\<not> has_token sv env w dv"
      "resp = tooManyRequests (sv_deviceLimit sv)"
      "w_ops w' = w_ops w @ [StTouch (dev_id dv)]" "w_engine w' = w_engine w"
  | (admitted) dv w1 where "caller rq env w = Some dv" "has_token sv env w dv"
      "next rq env (cx\<lparr>cx_device := Some dv\<rparr>) w1 = (resp, cx', w')"
      "w_ops w1 = w_ops w @ [StTouch (dev_id dv)]" "w_engine w1 = w_engine w"
proof (cases "caller rq env w")
  case None
  then have "resp = writeError 401 msgClientCertRequired \<and> w_ops w' = w_ops w \<and> w_engine w' = w_engine w \<and>
      w_device w' = w_device w"
    using assms by (auto simp: caller_def requireDevice_def Let_def split: option.splits sum.splits if_splits)
  with None show ?thesis using refused by blast
next
  case (Some dv)
  then obtain n where n: "rq_cert rq = Some n"
    and d: "DeviceByCertSerial (ev_store env AtLookup) (text16 n) (ev_between env AtLookup (w_db w)) = Inr dv"
    and r: "\<not> IsRevoked dv"
    by (auto simp: caller_def split: option.splits sum.splits if_splits)
  define wa where "wa = w\<lparr>w_db := ev_between env AtLookup (w_db w)\<rparr>"
  obtain u w2 where t: "store_write env AtTouch (StTouch (dev_id dv)) (\<lambda>se. TouchDevice se (dev_id dv)) wa = (u, w2)"
    by fastforce
  note f = store_write_fields [OF t]
  obtain allowed keyed reg where a: "Allow (sv_limiter sv) (w_device w) (dev_id dv) (ev_limit_now env) = ((allowed, keyed), reg)"
    by (metis prod.exhaust)
  have eq: "requireDevice (withDeviceLimit sv next) rq env cx w =
      (if \<not> allowed then (tooManyRequests (sv_deviceLimit sv), cx\<lparr>cx_device := Some dv\<rparr>, w2\<lparr>w_device := reg\<rparr>)
       else next rq env (cx\<lparr>cx_device := Some dv\<rparr>) (w2\<lparr>w_device := reg\<rparr>))"
    using n d r t a f
    by (simp add: requireDevice_def withDeviceLimit_def Let_def wa_def [symmetric]) (simp add: wa_def)
  have tok: "has_token sv env w dv = allowed" by (simp add: has_token_def a)
  show ?thesis
  proof (cases allowed)
    case True
    with Some tok assms eq f show ?thesis
      by (intro admitted [of dv "w2\<lparr>w_device := reg\<rparr>"]) (simp_all add: wa_def)
  next
    case False
    with Some tok assms eq f show ?thesis
      by (intro throttled [of dv]) (auto simp: wa_def)
  qed
qed

lemma audited_cases:
  assumes "audited entry next rq env cx w = (resp, cx', w')"
  obtains cx1 w1 e where "next rq env (cx\<lparr>cx_audit := Some entry\<rparr>) w = (resp, cx1, w1)"
    "cx_audit cx1 = Some e \<or> (cx_audit cx1 = None \<and> e = entry)"
    "w_ops w' = w_ops w1 @ [StAppend (audit_row_of cx e)]" "w_engine w' = w_engine w1"
    "w_db w' = snd (AppendAudit (ev_store env AtAudit) (audit_row_of cx e) (ev_between env AtAudit (w_db w1)))"
proof -
  obtain resp1 cx1 w1 where n: "next rq env (cx\<lparr>cx_audit := Some entry\<rparr>) w = (resp1, cx1, w1)"
    by (metis prod.exhaust)
  define e where "e = (case cx_audit cx1 of None \<Rightarrow> entry | Some e \<Rightarrow> e)"
  obtain u w2 where s: "store_write env AtAudit (StAppend (audit_row_of cx e)) (\<lambda>se. AppendAudit se (audit_row_of cx e)) w1 = (u, w2)"
    by fastforce
  have "resp = resp1" "w' = w2"
    using assms n s by (simp_all add: audited_def Let_def recordAudit_def e_def [symmetric])
  with n store_write_fields [OF s] show ?thesis
    by (intro that [of cx1 w1 e]) (auto simp: e_def split: option.splits)
qed

subsection \<open>Reads\<close>

definition engine_quiet :: "('w, 'l) world \<Rightarrow> ('w, 'l) world \<Rightarrow> bool" where
  "engine_quiet w w' \<longleftrightarrow> (\<exists>ks. snd (w_engine w') = snd (w_engine w) @ ks \<and> (\<forall>k\<in>set ks. call_target k = None))"

lemma engine_quiet_refl: "w_engine w' = w_engine w \<Longrightarrow> engine_quiet w w'"
  by (simp add: engine_quiet_def)

lemma engine_quiet_trans: "w_engine w1 = w_engine w \<Longrightarrow> engine_quiet w1 w' \<Longrightarrow> engine_quiet w w'"
  by (simp add: engine_quiet_def)

locale read_handler =
  fixes h :: "('w, 'l) handler"
  assumes h_reads: "h rq env cx w = (resp, cx', w') \<Longrightarrow>
    engine_quiet w w' \<and> w_ops w' = w_ops w"
begin

lemma gated:
  "requireOp sv op h rq env cx w = (resp, cx', w') \<Longrightarrow>
    engine_quiet w w' \<and> w_ops w' = w_ops w"
  using h_reads by (auto simp: requireOp_def engine_quiet_refl split: if_splits)

lemma guarded:
  assumes "requireDevice (withDeviceLimit sv (requireOp sv op h)) rq env cx w = (resp, cx', w')"
  shows "engine_quiet w w'"
    and "w_ops w' = w_ops w @ (case caller rq env w of None \<Rightarrow> [] | Some dv \<Rightarrow> [StTouch (dev_id dv)])"
  using assms
  by (cases rule: guarded_cases; force dest: gated intro: engine_quiet_refl engine_quiet_trans)+

end

lemma read_reply_reads:
  assumes f: "\<And>s. \<exists>ks. snd (snd (f s)) = snd s @ ks \<and> (\<forall>k\<in>set ks. call_target k = None)"
    and r: "read_reply f mk cx w = (resp, cx', w')"
  shows "engine_quiet w w' \<and> w_ops w' = w_ops w"
proof -
  have "w' = w\<lparr>w_engine := snd (f (w_engine w))\<rparr>"
    using r by (auto simp: read_reply_def on_engine_def Let_def split: prod.splits sum.splits)
  with f [of "w_engine w"] show ?thesis by (simp add: engine_quiet_def)
qed

lemma read_handler_docker:
  assumes "\<And>c rq env cx w resp cx' w'. h c rq env cx w = (resp, cx', w') \<Longrightarrow>
      engine_quiet w w' \<and> w_ops w' = w_ops w"
  shows "read_handler (requireDocker sv h)"
  using assms by unfold_locales (auto simp: requireDocker_def engine_quiet_refl split: option.splits)

lemmas read_call_simps = calling_def Let_def ValidateRef_def

lemma reads_quiet:
  "\<exists>ks. snd (snd (ListContainers api c all s)) = snd s @ ks \<and> (\<forall>k\<in>set ks. call_target k = None)"
  "\<exists>ks. snd (snd (InspectContainer api c ref s)) = snd s @ ks \<and> (\<forall>k\<in>set ks. call_target k = None)"
  "\<exists>ks. snd (snd (ListImages api s)) = snd s @ ks \<and> (\<forall>k\<in>set ks. call_target k = None)"
  "\<exists>ks. snd (snd (InspectImage api ref s)) = snd s @ ks \<and> (\<forall>k\<in>set ks. call_target k = None)"
  "\<exists>ks. snd (snd (ListNetworks api s)) = snd s @ ks \<and> (\<forall>k\<in>set ks. call_target k = None)"
  "\<exists>ks. snd (snd (InspectNetwork api ref s)) = snd s @ ks \<and> (\<forall>k\<in>set ks. call_target k = None)"
  "\<exists>ks. snd (snd (ListVolumes api s)) = snd s @ ks \<and> (\<forall>k\<in>set ks. call_target k = None)"
  "\<exists>ks. snd (snd (InspectVolume api ref s)) = snd s @ ks \<and> (\<forall>k\<in>set ks. call_target k = None)"
  by (auto simp: ListContainers_def InspectContainer_def ListImages_def InspectImage_def ListNetworks_def
      InspectNetwork_def ListVolumes_def InspectVolume_def read_call_simps split: prod.splits sum.splits)

lemma open_logs_quiet:
  "\<exists>ks. snd (snd (open_logs api ref o' follow s)) = snd s @ ks \<and> (\<forall>k\<in>set ks. call_target k = None)"
  by (auto simp: open_logs_def containerUsesTTY_def read_call_simps split: prod.splits sum.splits)

lemma logs_quiet:
  "\<exists>ks. snd (snd (ContainerLogs order api ref o' s)) = snd s @ ks \<and> (\<forall>k\<in>set ks. call_target k = None)"
proof -
  have "snd (ContainerLogs order api ref o' s) = snd (open_logs api ref o' False s)"
    by (simp add: ContainerLogs_def split: prod.splits sum.splits option.splits)
  then show ?thesis using open_logs_quiet [of api ref o' False s] by simp
qed

interpretation list_containers: read_handler "handleListContainers sv" for sv
  unfolding handleListContainers_def by (rule read_handler_docker, erule read_reply_reads [OF reads_quiet(1)])

interpretation inspect_container: read_handler "handleInspectContainer sv" for sv
  unfolding handleInspectContainer_def by (rule read_handler_docker, erule read_reply_reads [OF reads_quiet(2)])

interpretation list_images: read_handler "handleListImages sv" for sv
  unfolding handleListImages_def by (rule read_handler_docker, erule read_reply_reads [OF reads_quiet(3)])

interpretation inspect_image: read_handler "handleInspectImage sv" for sv
  unfolding handleInspectImage_def by (rule read_handler_docker, erule read_reply_reads [OF reads_quiet(4)])

interpretation list_networks: read_handler "handleListNetworks sv" for sv
  unfolding handleListNetworks_def by (rule read_handler_docker, erule read_reply_reads [OF reads_quiet(5)])

interpretation inspect_network: read_handler "handleInspectNetwork sv" for sv
  unfolding handleInspectNetwork_def by (rule read_handler_docker, erule read_reply_reads [OF reads_quiet(6)])

interpretation list_volumes: read_handler "handleListVolumes sv" for sv
  unfolding handleListVolumes_def by (rule read_handler_docker, erule read_reply_reads [OF reads_quiet(7)])

interpretation inspect_volume: read_handler "handleInspectVolume sv" for sv
  unfolding handleInspectVolume_def by (rule read_handler_docker, erule read_reply_reads [OF reads_quiet(8)])

lemma container_logs_reads:
  assumes "(case sinceParam rq of
       None \<Rightarrow> (writeError 400 msgInvalidSince, cx, w)
     | Some since \<Rightarrow> read_reply (ContainerLogs (ev_order env) (sv_engine sv) (pathValue ''id'' cx)
             \<lparr>lq_tail = tailParam rq defaultHistoricalTail, lq_since = since\<rparr>) LogsBody cx w) = (resp, cx', w')"
  shows "engine_quiet w w' \<and> w_ops w' = w_ops w"
  using assms by (cases "sinceParam rq") (auto simp: engine_quiet_refl dest: read_reply_reads [OF logs_quiet])

interpretation container_logs: read_handler "handleContainerLogs sv" for sv
  unfolding handleContainerLogs_def by (rule read_handler_docker, erule container_logs_reads)

subsection \<open>Lifecycle\<close>

fun op_call :: "lifecycle_op \<Rightarrow> string \<Rightarrow> engine_call" where
  "op_call DoStart i = CallStart i"
| "op_call DoRestart i = CallRestart i stopGraceSeconds"
| "op_call DoStop i = CallStop i stopGraceSeconds"
| "op_call DoKill i = CallKill i"
| "op_call DoRemove i = CallRemove i"

fun op_name :: "lifecycle_op \<Rightarrow> operation" where
  "op_name DoStart = OpStart"
| "op_name DoRestart = OpRestart"
| "op_name DoStop = OpStop"
| "op_name DoKill = OpKill"
| "op_name DoRemove = OpDelete"

lemma op_call_target [simp]: "call_target (op_call act i) = Some i"
  by (cases act) simp_all

lemma op_call_fun:
  "op_call DoStart = CallStart" "op_call DoRestart = (\<lambda>i. CallRestart i stopGraceSeconds)"
  "op_call DoStop = (\<lambda>i. CallStop i stopGraceSeconds)" "op_call DoKill = CallKill" "op_call DoRemove = CallRemove"
  by (simp_all add: fun_eq_iff)

lemma lifecycle_on_target: "\<exists>f. lifecycle api c act = on_target api c (op_call act) f"
  by (cases act)
    (simp add: op_call_fun StartContainer_def RestartContainer_def StopContainer_def KillContainer_def
      RemoveContainer_def, blast)+

text \<open>The calls one lifecycle operation makes: reads, then at most the one it is for.\<close>

lemma lifecycle_calls:
  assumes "lifecycle api c act ref s = (res, s')"
  shows "\<exists>ks. snd s' = snd s @ ks \<and> (\<forall>k\<in>set ks. call_target k = None \<or>
    (\<exists>r. fst (api_container_inspect api ref (fst s)) = Inr r \<and> k = op_call act (ei_id r) \<and> \<not> untouchable c r))"
proof -
  obtain f where f: "lifecycle api c act = on_target api c (op_call act) f"
    using lifecycle_on_target by blast
  show ?thesis
    using assms unfolding f on_target_def resolveTarget_cases
    by (auto simp: Let_def calling_def untouchable_def split: prod.splits sum.splits option.splits if_splits)
qed

definition mutates_only ::
  "('w, 'l) server \<Rightarrow> lifecycle_op \<Rightarrow> string \<Rightarrow> ('w, 'l) world \<Rightarrow> ('w, 'l) world \<Rightarrow> bool" where
  "mutates_only sv act ref w w' \<longleftrightarrow>
     (\<exists>ks. snd (w_engine w') = snd (w_engine w) @ ks \<and> (\<forall>k\<in>set ks. call_target k = None \<or>
        (\<exists>c r. sv_docker sv = Some c \<and> fst (api_container_inspect (sv_engine sv) ref (fst (w_engine w))) = Inr r \<and>
           k = op_call act (ei_id r) \<and> \<not> untouchable c r)))"

lemma handleLifecycle_effect:
  assumes "handleLifecycle sv act rq env cx w = (resp, cx', w')"
  shows "w_ops w' = w_ops w" and "w_db w' = w_db w" and "mutates_only sv act (pathValue ''id'' cx) w w'"
proof -
  have "w_ops w' = w_ops w \<and> w_db w' = w_db w \<and> mutates_only sv act (pathValue ''id'' cx) w w'"
  proof (cases "sv_docker sv")
    case None
    with assms show ?thesis
      by (auto simp: handleLifecycle_def requireDocker_def mutates_only_def)
  next
    case (Some c)
    obtain res e where l: "lifecycle (sv_engine sv) c act (pathValue ''id'' cx) (w_engine w) = (res, e)"
      by (meson surj_pair)
    with assms Some have "w' = w\<lparr>w_engine := e\<rparr>"
      by (auto simp: handleLifecycle_def requireDocker_def on_engine_def Let_def
          split: option.splits prod.splits)
    with lifecycle_calls [OF l] Some show ?thesis
      by (auto simp: mutates_only_def)
  qed
  then show "w_ops w' = w_ops w" "w_db w' = w_db w" "mutates_only sv act (pathValue ''id'' cx) w w'"
    by auto
qed

lemma mutates_only_engine: "w_engine w' = w_engine w \<Longrightarrow> mutates_only sv act ref w w'"
  by (simp add: mutates_only_def)

lemma gated_lifecycle:
  assumes "requireOp sv (op_name act) (handleLifecycle sv act) rq env cx w = (resp, cx', w')"
  shows "w_ops w' = w_ops w" and "w_db w' = w_db w"
    and "if Allows (sv_mode sv) (op_name act) then mutates_only sv act (pathValue ''id'' cx) w w'
         else w_engine w' = w_engine w \<and> resp = writeError 403 msgPolicyForbidden \<and>
           cx' = setAuditOutcome OutcomeDeniedPolicy [] cx"
  using assms handleLifecycle_effect [of sv act rq env cx w resp cx' w']
  by (auto simp: requireOp_def split: if_splits)

subsection \<open>Handlers under audit\<close>

fun is_append :: "store_op \<Rightarrow> bool" where
  "is_append (StAppend e) \<longleftrightarrow> True"
| "is_append _ \<longleftrightarrow> False"

definition writes_no_row :: "('w, 'l) world \<Rightarrow> ('w, 'l) world \<Rightarrow> bool" where
  "writes_no_row w w' \<longleftrightarrow> (\<exists>ops. w_ops w' = w_ops w @ ops \<and> list_all (\<lambda>op. \<not> is_append op) ops)"

lemma writes_no_row_intros:
  "w_ops w' = w_ops w \<Longrightarrow> writes_no_row w w'"
  "w_ops w' = w_ops w @ [op] \<Longrightarrow> \<not> is_append op \<Longrightarrow> writes_no_row w w'"
  "writes_no_row w w1 \<Longrightarrow> writes_no_row w1 w' \<Longrightarrow> writes_no_row w w'"
  by (auto simp: writes_no_row_def)

locale audited_handler =
  fixes h :: "('w, 'l) handler"
  assumes h_rows: "h rq env cx w = (resp, cx', w') \<Longrightarrow> writes_no_row w w'"
    and h_entry: "h rq env cx w = (resp, cx', w') \<Longrightarrow> cx_audit cx = Some e \<Longrightarrow>
      \<exists>e'. cx_audit cx' = Some e' \<and> ai_operation e' = ai_operation e \<and> ai_target e' = ai_target e"
begin

text \<open>Exactly one row, written last, under the operation and target the middleware chose.\<close>

lemma one_row:
  assumes "audited entry h rq env cx w = (resp, cx', w')"
  shows "\<exists>ops row. w_ops w' = w_ops w @ ops @ [StAppend row] \<and> list_all (\<lambda>op. \<not> is_append op) ops \<and>
    ae_operation row = ai_operation entry \<and> ae_target row = ai_target entry \<and>
    (\<forall>dv. cx_device cx = Some dv \<longrightarrow> ae_device_id row = dev_id dv)"
  using assms
proof (cases rule: audited_cases)
  case (1 cx1 w1 e)
  from h_rows [OF 1(1)] obtain ops where ops: "w_ops w1 = w_ops w @ ops" "list_all (\<lambda>op. \<not> is_append op) ops"
    by (auto simp: writes_no_row_def)
  from h_entry [OF 1(1)] 1(2) have "ai_operation e = ai_operation entry" "ai_target e = ai_target entry"
    by auto
  with ops 1(3) show ?thesis
    by (intro exI [of _ ops] exI [of _ "audit_row_of cx e"]) (simp add: audit_row_of_def)
qed

end

lemma setAudit_entry:
  "cx_audit cx = Some e \<Longrightarrow> \<exists>e'. cx_audit (setAuditOutcome out det cx) = Some e' \<and>
     ai_operation e' = ai_operation e \<and> ai_target e' = ai_target e"
  "cx_audit cx = Some e \<Longrightarrow> \<exists>e'. cx_audit (setAuditDeviceID i cx) = Some e' \<and>
     ai_operation e' = ai_operation e \<and> ai_target e' = ai_target e"
  by (simp_all add: setAuditOutcome_def setAuditDeviceID_def)

lemma writeDockerError_entry:
  "writeDockerError err cx = (resp, cx') \<Longrightarrow> cx_audit cx = Some e \<Longrightarrow>
     \<exists>e'. cx_audit cx' = Some e' \<and> ai_operation e' = ai_operation e \<and> ai_target e' = ai_target e"
  by (auto simp: writeDockerError_def setAuditOutcome_def split: docker_error.splits)

lemma handleLifecycle_entry:
  "handleLifecycle sv act rq env cx w = (resp, cx', w') \<Longrightarrow> cx_audit cx = Some e \<Longrightarrow>
     \<exists>e'. cx_audit cx' = Some e' \<and> ai_operation e' = ai_operation e \<and> ai_target e' = ai_target e"
  by (auto simp: handleLifecycle_def requireDocker_def Let_def
      split: option.splits prod.splits dest: writeDockerError_entry intro: setAudit_entry)

interpretation gated_lifecycle: audited_handler "requireOp sv op (handleLifecycle sv act)" for sv op act
proof
  fix rq env cx and w :: "('a, 'b) world" and resp cx' w'
  assume "requireOp sv op (handleLifecycle sv act) rq env cx w = (resp, cx', w')"
  then show "writes_no_row w w'"
    by (auto simp: requireOp_def split: if_splits
        dest!: handleLifecycle_effect(1) intro: writes_no_row_intros(1))
next
  fix rq env cx and w :: "('a, 'b) world" and resp cx' w' e
  assume "requireOp sv op (handleLifecycle sv act) rq env cx w = (resp, cx', w')" "cx_audit cx = Some e"
  then show "\<exists>e'. cx_audit cx' = Some e' \<and> ai_operation e' = ai_operation e \<and> ai_target e' = ai_target e"
    by (auto simp: requireOp_def split: if_splits dest: handleLifecycle_entry intro: setAudit_entry)
qed

text \<open>A step that writes no row and leaves the Engine alone.\<close>

definition calm :: "('w, 'l) world \<Rightarrow> ('w, 'l) world \<Rightarrow> bool" where
  "calm w w' \<longleftrightarrow> writes_no_row w w' \<and> w_engine w' = w_engine w"

lemma calm_refl: "calm w w"
  by (simp add: calm_def writes_no_row_intros(1))

lemma calm_trans: "calm w w1 \<Longrightarrow> calm w1 w' \<Longrightarrow> calm w w'"
  by (auto simp: calm_def intro: writes_no_row_intros(3))

lemma store_write_calm: "store_write env c op f w = (r, w') \<Longrightarrow> \<not> is_append op \<Longrightarrow> calm w w'"
  by (auto simp: calm_def dest: store_write_fields(1,2) intro: writes_no_row_intros(2))

lemma delete_calm: "calm w (deleteOrphanedDevice env i w)"
  unfolding deleteOrphanedDevice_def
  by (metis store_write_calm is_append.simps(4) prod.collapse)

lemma calm_delete: "calm w w1 \<Longrightarrow> calm w (deleteOrphanedDevice env i w1)"
  using calm_trans delete_calm by blast

lemma pairDevice_calm: "pairDevice sv c env code csrDER w = (r, w') \<Longrightarrow> calm w w'"
  unfolding pairDevice_def
  by (auto split: prod.splits sum.splits dest!: store_write_calm intro!: calm_delete)
    (blast intro: calm_trans)+

lemma renewDevice_calm: "renewDevice sv env i csrDER w = (r, w') \<Longrightarrow> calm w w'"
  unfolding renewDevice_def
  by (auto split: prod.splits sum.splits dest!: store_write_calm intro: calm_refl calm_trans)

lemma handlePair_calm: "handlePair sv rq env cx w = (resp, cx', w') \<Longrightarrow> calm w w'"
  by (auto simp: handlePair_def calm_refl split: option.splits sum.splits prod.splits pair_error.splits
      dest: pairDevice_calm)

lemma handleRenew_calm: "handleRenew sv rq env cx w = (resp, cx', w') \<Longrightarrow> calm w w'"
  by (auto simp: handleRenew_def calm_refl split: option.splits sum.splits prod.splits
      dest: renewDevice_calm)

lemma handleUnpairSelf_calm: "handleUnpairSelf rq env cx w = (resp, cx', w') \<Longrightarrow> calm w w'"
  by (auto simp: handleUnpairSelf_def calm_refl split: option.splits sum.splits prod.splits
      dest: store_write_calm)

locale identity_handler = audited_handler +
  assumes h_calm: "h rq env cx w = (resp, cx', w') \<Longrightarrow> calm w w'"

interpretation pair_handler: identity_handler "handlePair sv" for sv
proof
  fix rq env cx and w :: "('a, 'b) world" and resp cx' w' e
  assume "handlePair sv rq env cx w = (resp, cx', w')" "cx_audit cx = Some e"
  then show "\<exists>e'. cx_audit cx' = Some e' \<and> ai_operation e' = ai_operation e \<and> ai_target e' = ai_target e"
    by (auto simp: handlePair_def split: option.splits sum.splits prod.splits pair_error.splits
        intro: setAudit_entry)
qed (use handlePair_calm calm_def in blast)+

interpretation renew_handler: identity_handler "handleRenew sv" for sv
proof
  fix rq env cx and w :: "('a, 'b) world" and resp cx' w' e
  assume "handleRenew sv rq env cx w = (resp, cx', w')" "cx_audit cx = Some e"
  then show "\<exists>e'. cx_audit cx' = Some e' \<and> ai_operation e' = ai_operation e \<and> ai_target e' = ai_target e"
    by (auto simp: handleRenew_def split: option.splits sum.splits prod.splits intro: setAudit_entry)
qed (use handleRenew_calm calm_def in blast)+

interpretation unpair_handler: identity_handler handleUnpairSelf
proof
  fix rq env cx and w :: "('a, 'b) world" and resp cx' w' e
  assume "handleUnpairSelf rq env cx w = (resp, cx', w')" "cx_audit cx = Some e"
  then show "\<exists>e'. cx_audit cx' = Some e' \<and> ai_operation e' = ai_operation e \<and> ai_target e' = ai_target e"
    by (auto simp: handleUnpairSelf_def split: option.splits sum.splits prod.splits intro: setAudit_entry)
qed (use handleUnpairSelf_calm calm_def in blast)+

subsection \<open>Dispatch\<close>

lemma find_route_Some:
  "find_route rs rq = Some (r, vs) \<Longrightarrow>
     r \<in> set rs \<and> match_path (rt_path r) (rq_path rq) = Some vs \<and> match_method (rt_method r) (rq_method rq)"
  by (induction rs) (auto split: option.splits if_splits)

lemma match_path_vars:
  "match_path ps ss = Some vs \<Longrightarrow> map_of vs v = Some x \<Longrightarrow> x \<in> set ss"
proof (induction ps ss arbitrary: vs rule: match_path.induct)
  case (3 v' ps s ss)
  then show ?case by (auto split: if_splits)
qed (auto split: if_splits)

definition start_ctx :: "(string \<times> string) list \<Rightarrow> ctx" where
  "start_ctx vs = \<lparr>cx_vars = vs, cx_device = None, cx_audit = None\<rparr>"

definition guard_read :: "('w, 'l) server \<Rightarrow> operation \<Rightarrow> ('w, 'l) handler \<Rightarrow> ('w, 'l) handler" where
  "guard_read sv op h = requireDevice (withDeviceLimit sv (requireOp sv op h))"

definition guard_identity :: "('w, 'l) server \<Rightarrow> string \<Rightarrow> ('w, 'l) handler \<Rightarrow> ('w, 'l) handler" where
  "guard_identity sv op h = requireDevice (withDeviceLimit sv (withIdentityAudit op h))"

definition guard_mutate :: "('w, 'l) server \<Rightarrow> lifecycle_op \<Rightarrow> ('w, 'l) handler" where
  "guard_mutate sv act = requireDevice (withDeviceLimit sv
     (withAudit (op_name act) (requireOp sv (op_name act) (handleLifecycle sv act))))"

definition open_status :: "('w, 'l) server \<Rightarrow> ('w, 'l) handler" where
  "open_status sv = withGlobalUnauthLimit sv (withIPLimit sv TierStatus (sv_statusLimit sv) (handleStatus sv))"

definition open_pair :: "('w, 'l) server \<Rightarrow> ('w, 'l) handler" where
  "open_pair sv = withGlobalUnauthLimit sv (withIPLimit sv TierPair (sv_pairLimit sv) (withPairAudit (handlePair sv)))"

definition known_route :: "(('w, 'l) handler \<Rightarrow> bool) \<Rightarrow> ('w, 'l) server \<Rightarrow> ('w, 'l) route \<Rightarrow> bool" where
  "known_route P sv r \<longleftrightarrow>
     (rt_path r = [Lit ''v1'', Lit ''status''] \<and> rt_method r = ''GET'' \<and> rt_handler r = open_status sv) \<or>
     (rt_path r = [Lit ''v1'', Lit ''pair''] \<and> rt_method r = ''POST'' \<and> rt_handler r = open_pair sv) \<or>
     (rt_path r = [Lit ''v1'', Lit ''device'', Lit ''renew''] \<and> rt_method r = ''POST'' \<and>
        rt_handler r = guard_identity sv opRenew (handleRenew sv)) \<or>
     (rt_path r = [Lit ''v1'', Lit ''device'', Lit ''self''] \<and> rt_method r = ''DELETE'' \<and>
        rt_handler r = guard_identity sv opUnpairSelf handleUnpairSelf) \<or>
     (\<exists>op h s ss. rt_handler r = guard_read sv op h \<and> P h \<and> rt_method r = ''GET'' \<and>
        rt_path r = Lit ''v1'' # Lit s # ss \<and> s \<noteq> ''status'' \<and> s \<noteq> ''pair'') \<or>
     (\<exists>act ss. rt_handler r = guard_mutate sv act \<and> rt_method r \<noteq> ''GET'' \<and>
        rt_path r = Lit ''v1'' # Lit ''containers'' # Var ''id'' # ss)"

lemma known_routeE:
  assumes "known_route P sv r"
  obtains (status) "rt_path r = [Lit ''v1'', Lit ''status'']" "rt_method r = ''GET''" "rt_handler r = open_status sv"
  | (pair) "rt_path r = [Lit ''v1'', Lit ''pair'']" "rt_method r = ''POST''" "rt_handler r = open_pair sv"
  | (renew) "rt_path r = [Lit ''v1'', Lit ''device'', Lit ''renew'']" "rt_method r = ''POST''"
      "rt_handler r = guard_identity sv opRenew (handleRenew sv)"
  | (unpair) "rt_path r = [Lit ''v1'', Lit ''device'', Lit ''self'']" "rt_method r = ''DELETE''"
      "rt_handler r = guard_identity sv opUnpairSelf handleUnpairSelf"
  | (reads) op h s ss where "rt_handler r = guard_read sv op h" "P h" "rt_method r = ''GET''"
      "rt_path r = Lit ''v1'' # Lit s # ss" "s \<noteq> ''status''" "s \<noteq> ''pair''"
  | (mutate) act ss where "rt_handler r = guard_mutate sv act" "rt_method r \<noteq> ''GET''"
      "rt_path r = Lit ''v1'' # Lit ''containers'' # Var ''id'' # ss"
  using assms unfolding known_route_def
  by (elim disjE conjE exE) blast+

lemma known_read:
  assumes "P h" "s \<noteq> ''status''" "s \<noteq> ''pair''"
  shows "known_route P sv (route_read sv (Lit ''v1'' # Lit s # ss) h)"
    and "known_route P sv (route_logs sv (Lit ''v1'' # Lit s # ss) h)"
  using assms unfolding known_route_def route_read_def route_logs_def guard_read_def by auto

lemma known_mutate:
  assumes "meth \<noteq> ''GET''" "h = handleLifecycle sv act" "op = op_name act"
  shows "known_route P sv (route_mutate sv meth (Lit ''v1'' # Lit ''containers'' # Var ''id'' # ss) op h)"
  using assms unfolding known_route_def route_mutate_def guard_mutate_def by auto

lemma routes_known:
  assumes "\<And>h. read_handler h \<Longrightarrow> P h" "P (sh_logs sh)" "P (sh_events sh)"
  shows "list_all (known_route P sv) (routes sv sh)"
proof -
  note reading = list_containers.read_handler_axioms [THEN assms(1)]
    inspect_container.read_handler_axioms [THEN assms(1)] list_images.read_handler_axioms [THEN assms(1)]
    inspect_image.read_handler_axioms [THEN assms(1)] list_networks.read_handler_axioms [THEN assms(1)]
    inspect_network.read_handler_axioms [THEN assms(1)] list_volumes.read_handler_axioms [THEN assms(1)]
    inspect_volume.read_handler_axioms [THEN assms(1)] container_logs.read_handler_axioms [THEN assms(1)] assms(2,3)
  have acts: "known_route P sv (route_mutate sv ''POST'' (Lit ''v1'' # Lit ''containers'' # Var ''id'' # ss) OpStart (handleStartContainer sv))"
    "known_route P sv (route_mutate sv ''POST'' (Lit ''v1'' # Lit ''containers'' # Var ''id'' # ss) OpRestart (handleRestartContainer sv))"
    "known_route P sv (route_mutate sv ''POST'' (Lit ''v1'' # Lit ''containers'' # Var ''id'' # ss) OpStop (handleStopContainer sv))"
    "known_route P sv (route_mutate sv ''POST'' (Lit ''v1'' # Lit ''containers'' # Var ''id'' # ss) OpKill (handleKillContainer sv))"
    "known_route P sv (route_mutate sv ''DELETE'' (Lit ''v1'' # Lit ''containers'' # Var ''id'' # ss) OpDelete (handleRemoveContainer sv))" for ss
    by (rule known_mutate [where act = DoStart] known_mutate [where act = DoRestart]
          known_mutate [where act = DoStop] known_mutate [where act = DoKill] known_mutate [where act = DoRemove];
        simp add: handleStartContainer_def handleRestartContainer_def handleStopContainer_def
          handleKillContainer_def handleRemoveContainer_def)+
  have plain: "known_route P sv \<lparr>rt_method = ''GET'', rt_path = [Lit ''v1'', Lit ''status''], rt_handler = open_status sv\<rparr>"
    "known_route P sv \<lparr>rt_method = ''POST'', rt_path = [Lit ''v1'', Lit ''pair''], rt_handler = open_pair sv\<rparr>"
    "known_route P sv \<lparr>rt_method = ''POST'', rt_path = [Lit ''v1'', Lit ''device'', Lit ''renew''],
       rt_handler = guard_identity sv opRenew (handleRenew sv)\<rparr>"
    "known_route P sv \<lparr>rt_method = ''DELETE'', rt_path = [Lit ''v1'', Lit ''device'', Lit ''self''],
       rt_handler = guard_identity sv opUnpairSelf handleUnpairSelf\<rparr>"
    by (simp_all add: known_route_def)
  show ?thesis
    unfolding routes_def open_status_def [symmetric] open_pair_def [symmetric] guard_identity_def [symmetric] list.pred_inject
    by (intro conjI known_read reading acts plain TrueI; simp)
qed

lemma served:
  assumes "serve sv sh rq env w = (resp, w')"
    and "\<And>h. read_handler h \<Longrightarrow> P h" and "P (sh_logs sh)" and "P (sh_events sh)"
  obtains (unmatched) "find_route (routes sv sh) rq = None" "resp = mux_reply (routes sv sh) rq" "w' = w"
  | (routed) r vs cx' where "find_route (routes sv sh) rq = Some (r, vs)" "known_route P sv r"
      "match_path (rt_path r) (rq_path rq) = Some vs"
      "rt_handler r rq env (start_ctx vs) w = (resp, cx', w')"
proof (cases "find_route (routes sv sh) rq")
  case None
  with assms(1) show ?thesis by (intro unmatched) (auto simp: serve_def)
next
  case (Some p)
  obtain r vs where p: "p = (r, vs)" by fastforce
  have "known_route P sv r" "match_path (rt_path r) (rq_path rq) = Some vs"
    using find_route_Some [OF Some [unfolded p]] routes_known [of P, OF assms(2-4), of sv] by (auto simp: list_all_iff)
  moreover obtain cx' where "rt_handler r rq env (start_ctx vs) w = (resp, cx', w')"
    using assms(1) Some p by (auto simp: serve_def start_ctx_def Let_def split: prod.splits)
  ultimately show ?thesis using Some p by (intro routed) simp_all
qed

lemma served_any:
  assumes "serve sv sh rq env w = (resp, w')"
  obtains (unmatched) "find_route (routes sv sh) rq = None" "resp = mux_reply (routes sv sh) rq" "w' = w"
  | (routed) r vs cx' where "find_route (routes sv sh) rq = Some (r, vs)" "known_route (\<lambda>h. True) sv r"
      "match_path (rt_path r) (rq_path rq) = Some vs"
      "rt_handler r rq env (start_ctx vs) w = (resp, cx', w')"
  by (rule served [where P = "(\<lambda>h. True)", OF assms(1)]) (use assms that in auto)

lemma served_quietly:
  assumes "serve sv sh rq env w = (resp, w')"
    and "read_handler (sh_logs sh)" and "read_handler (sh_events sh)"
  obtains (unmatched) "find_route (routes sv sh) rq = None" "resp = mux_reply (routes sv sh) rq" "w' = w"
  | (routed) r vs cx' where "find_route (routes sv sh) rq = Some (r, vs)" "known_route read_handler sv r"
      "match_path (rt_path r) (rq_path rq) = Some vs"
      "rt_handler r rq env (start_ctx vs) w = (resp, cx', w')"
  by (rule served [where P = "read_handler", OF assms(1)]) (use assms that in auto)

subsection \<open>What each kind of route does\<close>

text \<open>
  What a container operation can answer, and the outcome its audit row must then carry: the
  refusal by policy, success, and the failures of the client.
\<close>

definition policy_reply :: "response \<times> string" where
  "policy_reply = (writeError 403 msgPolicyForbidden, OutcomeDeniedPolicy)"

definition engine_replies :: "(response \<times> string) list" where
  "engine_replies =
     [(noContent, OutcomeSuccess),
      (writeError 400 msgInvalidRef, OutcomeInvalid),
      (writeError 404 msgNotFound, OutcomeNotFound),
      (writeError 403 msgSelfProtected, OutcomeDeniedSelf),
      (writeError 403 msgProtectedContainer, OutcomeDeniedProtected),
      (writeError 503 msgSelfUnknown, OutcomeUnavailable),
      (writeError 409 msgContainerConflict, OutcomeConflict),
      (writeError 502 msgEngineUnavailable, OutcomeEngineError)]"

definition op_reply :: "('w, 'l) server \<Rightarrow> operation \<Rightarrow> response \<times> string \<Rightarrow> bool" where
  "op_reply sv op p \<longleftrightarrow> (if Allows (sv_mode sv) op then p \<in> set engine_replies else p = policy_reply)"

lemma writeDockerError_reply:
  assumes "writeDockerError err cx = (resp, cx')" "cx_audit cx = Some e" "ai_outcome e = OutcomeSuccess"
    "ai_detail e = []"
  shows "\<exists>e'. cx_audit cx' = Some e' \<and> (resp, ai_outcome e') \<in> set engine_replies \<and> ai_detail e' = []"
proof -
  have "resp = fst (writeDockerError err cx)" "cx' = snd (writeDockerError err cx)"
    using assms(1) by simp_all
  with assms(2-4) show ?thesis
    by (cases err) (simp_all add: writeDockerError_def setAuditOutcome_def engine_replies_def)
qed

lemma gated_lifecycle_reply:
  assumes "requireOp sv (op_name act) (handleLifecycle sv act) rq env cx w = (resp, cx', w')"
    and "sv_docker sv = Some c" "cx_audit cx = Some e" "ai_outcome e = OutcomeSuccess" "ai_detail e = []"
  shows "\<exists>e'. cx_audit cx' = Some e' \<and> op_reply sv (op_name act) (resp, ai_outcome e') \<and> ai_detail e' = []"
proof (cases "Allows (sv_mode sv) (op_name act)")
  case True
  obtain res w1 where l: "on_engine (lifecycle (sv_engine sv) c act (pathValue ''id'' cx)) w = (res, w1)"
    by (meson surj_pair)
  have eq: "requireOp sv (op_name act) (handleLifecycle sv act) rq env cx w = (case res of
      Some err \<Rightarrow> (let (resp, cx') = writeDockerError err cx in (resp, cx', w1))
    | None \<Rightarrow> (noContent, setAuditOutcome OutcomeSuccess [] cx, w1))"
    using True assms(2) by (simp add: requireOp_def handleLifecycle_def requireDocker_def l)
  show ?thesis
  proof (cases res)
    case None
    with assms(1,3) eq True show ?thesis
      by (auto simp: setAuditOutcome_def op_reply_def engine_replies_def)
  next
    case (Some err)
    with assms(1) eq have "writeDockerError err cx = (resp, cx')" by (simp add: Let_def split: prod.splits)
    from writeDockerError_reply [OF this assms(3-5)] True show ?thesis by (simp add: op_reply_def)
  qed
next
  case False
  with assms show ?thesis
    by (auto simp: requireOp_def setAuditOutcome_def op_reply_def policy_reply_def)
qed

lemma guard_mutate_cases:
  assumes "guard_mutate sv act rq env cx w = (resp, cx', w')"
  obtains (refused) "caller rq env w = None" "resp = writeError 401 msgClientCertRequired"
      "w_ops w' = w_ops w" "w_engine w' = w_engine w"
  | (throttled) dv where "caller rq env w = Some dv" "\<not> has_token sv env w dv"
      "resp = tooManyRequests (sv_deviceLimit sv)"
      "w_ops w' = w_ops w @ [StTouch (dev_id dv)]" "w_engine w' = w_engine w"
  | (admitted) dv row where "caller rq env w = Some dv" "has_token sv env w dv"
      "w_ops w' = w_ops w @ [StTouch (dev_id dv), StAppend row]"
      "ae_device_id row = dev_id dv" "ae_operation row = op_name act" "ae_target row = pathValue ''id'' cx"
      "sv_docker sv \<noteq> None \<Longrightarrow> op_reply sv (op_name act) (resp, ae_outcome row) \<and> ae_detail row = []"
      "if Allows (sv_mode sv) (op_name act) then mutates_only sv act (pathValue ''id'' cx) w w'
       else w_engine w' = w_engine w \<and> resp = writeError 403 msgPolicyForbidden"
  using assms unfolding guard_mutate_def
proof (cases rule: guarded_cases)
  case (admitted dv w1)
  let ?cx = "cx\<lparr>cx_device := Some dv\<rparr>" and ?seed = "seed_entry (op_name act) (pathValue ''id'' cx)"
  have "audited ?seed (requireOp sv (op_name act) (handleLifecycle sv act)) rq env ?cx w1 = (resp, cx', w')"
    using admitted(3) by (simp add: withAudit_def pathValue_def)
  then show ?thesis
  proof (cases rule: audited_cases)
    case (1 cx1 w2 e)
    let ?cxa = "?cx\<lparr>cx_audit := Some ?seed\<rparr>"
    have pv: "pathValue ''id'' ?cxa = pathValue ''id'' cx" by (simp add: pathValue_def)
    from gated_lifecycle.h_entry [OF 1(1)] 1(2) have e: "ai_operation e = op_name act" "ai_target e = pathValue ''id'' cx"
      "cx_audit cx1 = Some e"
      by (auto simp: seed_entry_def)
    have out: "sv_docker sv \<noteq> None \<Longrightarrow> op_reply sv (op_name act) (resp, ai_outcome e) \<and> ai_detail e = []"
      using gated_lifecycle_reply [OF 1(1)] e(3) by (auto simp: seed_entry_def)
    note g = gated_lifecycle [OF 1(1), unfolded pv]
    have eff: "if Allows (sv_mode sv) (op_name act) then mutates_only sv act (pathValue ''id'' cx) w w'
        else w_engine w' = w_engine w \<and> resp = writeError 403 msgPolicyForbidden"
      using g(3) 1(4) admitted(5) by (auto simp: mutates_only_def split: if_splits)
    show ?thesis
      using admitted(1,2,4) 1(3) g(1) e out eff
      by (intro that(3) [of dv "audit_row_of ?cx e"]) (simp_all add: audit_row_of_def)
  qed
qed (use that(1,2) in blast)+

subsection \<open>The rows of a request\<close>

definition rows_written :: "('w, 'l) world \<Rightarrow> ('w, 'l) world \<Rightarrow> audit_entry list \<Rightarrow> bool" where
  "rows_written w w' rows \<longleftrightarrow>
     (\<exists>ops. w_ops w' = w_ops w @ ops \<and> filter is_append ops = map StAppend rows \<and>
        (rows \<noteq> [] \<longrightarrow> last ops = StAppend (last rows)))"

lemma rows_written_none: "w_ops w' = w_ops w @ ops \<Longrightarrow> list_all (\<lambda>op. \<not> is_append op) ops \<Longrightarrow> rows_written w w' []"
  by (auto simp: rows_written_def filter_empty_conv list_all_iff)

lemma rows_written_same: "w_ops w' = w_ops w \<Longrightarrow> rows_written w w' []"
  by (rule rows_written_none [where ops = "[]"]) simp_all

lemma rows_written_one:
  "w_ops w' = w_ops w @ ops @ [StAppend row] \<Longrightarrow> list_all (\<lambda>op. \<not> is_append op) ops \<Longrightarrow> rows_written w w' [row]"
  by (auto simp: rows_written_def filter_empty_conv list_all_iff)

lemma guard_read_rows:
  "guard_read sv op h rq env cx w = (resp, cx', w') \<Longrightarrow> read_handler h \<Longrightarrow> rows_written w w' []"
  unfolding guard_read_def
  by (drule (1) read_handler.guarded(2) [rotated]) (auto intro: rows_written_none split: option.splits)

text \<open>What the guarded mutating routes write: one row if the guards let the request in.\<close>

definition guarded_rows :: "('w, 'l) server \<Rightarrow> request \<Rightarrow> env \<Rightarrow> ('w, 'l) world \<Rightarrow> ('w, 'l) world \<Rightarrow> bool" where
  "guarded_rows sv rq env w w' \<longleftrightarrow>
     (if \<exists>dv. caller rq env w = Some dv \<and> has_token sv env w dv
      then \<exists>dv row. caller rq env w = Some dv \<and> rows_written w w' [row] \<and> ae_device_id row = dev_id dv
      else rows_written w w' [])"

lemma guarded_rows_none:
  "caller rq env w = None \<Longrightarrow> w_ops w' = w_ops w \<Longrightarrow> guarded_rows sv rq env w w'"
  "caller rq env w = Some dv \<Longrightarrow> \<not> has_token sv env w dv \<Longrightarrow> w_ops w' = w_ops w @ [StTouch i] \<Longrightarrow>
     guarded_rows sv rq env w w'"
  by (auto simp: guarded_rows_def rows_written_same intro: rows_written_none)

lemma guarded_rows_one:
  "caller rq env w = Some dv \<Longrightarrow> has_token sv env w dv \<Longrightarrow>
   w_ops w' = w_ops w @ StTouch i # ops @ [StAppend row] \<Longrightarrow> list_all (\<lambda>op. \<not> is_append op) ops \<Longrightarrow>
   ae_device_id row = dev_id dv \<Longrightarrow> guarded_rows sv rq env w w'"
  using rows_written_one [of w' w "StTouch i # ops" row] by (auto simp: guarded_rows_def)

lemma guard_mutate_rows:
  "guard_mutate sv act rq env cx w = (resp, cx', w') \<Longrightarrow> guarded_rows sv rq env w w'"
  by (erule guard_mutate_cases)
    (simp_all add: guarded_rows_none guarded_rows_one [where ops = "[]"])

context identity_handler begin

lemma identity_cases:
  assumes "guard_identity sv op h rq env cx w = (resp, cx', w')"
  obtains (refused) "caller rq env w = None" "resp = writeError 401 msgClientCertRequired"
      "w_ops w' = w_ops w" "w_engine w' = w_engine w"
  | (throttled) dv where "caller rq env w = Some dv" "\<not> has_token sv env w dv"
      "resp = tooManyRequests (sv_deviceLimit sv)"
      "w_ops w' = w_ops w @ [StTouch (dev_id dv)]" "w_engine w' = w_engine w"
  | (admitted) dv ops row where "caller rq env w = Some dv" "has_token sv env w dv"
      "w_ops w' = w_ops w @ StTouch (dev_id dv) # ops @ [StAppend row]" "list_all (\<lambda>op. \<not> is_append op) ops"
      "ae_device_id row = dev_id dv" "ae_operation row = op" "ae_target row = []" "w_engine w' = w_engine w"
  using assms unfolding guard_identity_def
proof (cases rule: guarded_cases)
  case (admitted dv w1)
  then have a: "audited (seed_entry op []) h rq env (cx\<lparr>cx_device := Some dv\<rparr>) w1 = (resp, cx', w')"
    by (simp add: withIdentityAudit_def)
  then have "w_engine w' = w_engine w1"
  proof (cases rule: audited_cases)
    case (1 cx1 w2 e)
    with h_calm [OF 1(1)] show ?thesis by (simp add: calm_def)
  qed
  with one_row [OF a] admitted show ?thesis
    by (auto simp: seed_entry_def intro: that(3))
qed (use that(1,2) in blast)+

lemma identity_rows:
  "guard_identity sv op h rq env cx w = (resp, cx', w') \<Longrightarrow> guarded_rows sv rq env w w'"
  by (erule identity_cases) (simp_all add: guarded_rows_none guarded_rows_one)

end

end
