(* ===== verification/Guarantees.thy ===== *)
theory Guarantees
  imports ApiProps
begin

section \<open>The guarantees of the API\<close>

text \<open>
  The properties of whole requests, through routing, middleware, handler, store and Engine:
  what a mutation of the host needs, what an unauthenticated caller can cause and learn, which
  requests leave a row in the audit trail, and that the row tells the truth.
\<close>

subsection \<open>The open routes\<close>

definition pair_admitted :: "('w, 'l) server \<Rightarrow> request \<Rightarrow> env \<Rightarrow> ('w, 'l) world \<Rightarrow> bool" where
  "pair_admitted sv rq env w =
     (let (ok, g) = allowN1 (sv_limiter sv) (w_global w) (ev_global_now env);
          ((allowed, keyed), reg) = Allow (sv_limiter sv) (w_pair w) (clientIP rq) (ev_limit_now env)
      in ok \<and> (if keyed then allowed else fst (allowN1 (sv_limiter sv) g (ev_limit_now env))))"

lemma open_limits:
  assumes "withGlobalUnauthLimit sv (withIPLimit sv t rl h) rq env cx w = (resp, cx', w')"
  obtains (throttled) "resp = tooManyRequests (sv_globalLimit sv) \<or> resp = tooManyRequests rl"
      "w_ops w' = w_ops w" "w_engine w' = w_engine w" "w_db w' = w_db w" "t = TierPair \<Longrightarrow> \<not> pair_admitted sv rq env w"
  | (admitted) w1 where "h rq env cx w1 = (resp, cx', w')" "w_ops w1 = w_ops w" "w_engine w1 = w_engine w"
      "w_db w1 = w_db w" "t = TierPair \<Longrightarrow> pair_admitted sv rq env w"
proof -
  obtain ok g where g: "allowN1 (sv_limiter sv) (w_global w) (ev_global_now env) = (ok, g)" by fastforce
  obtain allowed keyed reg where a: "Allow (sv_limiter sv) (tier_registry t (w\<lparr>w_global := g\<rparr>)) (clientIP rq) (ev_limit_now env) =
      ((allowed, keyed), reg)" by (metis prod.exhaust)
  obtain ok2 g2 where g2: "allowN1 (sv_limiter sv) g (ev_limit_now env) = (ok2, g2)" by fastforce
  have reg: "w_global (set_tier_registry t reg (w\<lparr>w_global := g\<rparr>)) = g"
    "w_ops (set_tier_registry t reg v) = w_ops v" "w_engine (set_tier_registry t reg v) = w_engine v"
    "w_db (set_tier_registry t reg v) = w_db v" for v
    by (cases t; simp)+
  have adm: "t = TierPair \<Longrightarrow> pair_admitted sv rq env w = (ok \<and> (if keyed then allowed else ok2))"
    using g a g2 by (simp add: pair_admitted_def)
  define w2 where "w2 = (set_tier_registry t reg (w\<lparr>w_global := g\<rparr>))\<lparr>w_global := (if keyed then g else g2)\<rparr>"
  have w2: "w_ops w2 = w_ops w" "w_engine w2 = w_engine w" "w_db w2 = w_db w"
    by (simp_all add: w2_def reg)
  have setg: "(set_tier_registry t reg (w\<lparr>w_global := g\<rparr>))\<lparr>w_global := g\<rparr> = set_tier_registry t reg (w\<lparr>w_global := g\<rparr>)"
    by (cases t) simp_all
  have eq: "withGlobalUnauthLimit sv (withIPLimit sv t rl h) rq env cx w =
      (if \<not> ok then (tooManyRequests (sv_globalLimit sv), cx, w\<lparr>w_global := g\<rparr>)
       else if \<not> (if keyed then allowed else ok2) then (tooManyRequests rl, cx, w2) else h rq env cx w2)"
    by (cases keyed) (simp_all add: withGlobalUnauthLimit_def withIPLimit_def g a g2 reg w2_def setg)
  show ?thesis
  proof (cases "ok \<and> (if keyed then allowed else ok2)")
    case True
    with assms eq adm w2 show ?thesis by (intro admitted [of w2]) (auto split: if_splits)
  next
    case False
    with assms eq adm w2 show ?thesis by (intro throttled) (auto split: if_splits)
  qed
qed

lemma open_pair_cases:
  assumes "open_pair sv rq env cx w = (resp, cx', w')"
  obtains (throttled) "\<not> pair_admitted sv rq env w" "w_ops w' = w_ops w" "w_engine w' = w_engine w"
      "resp = tooManyRequests (sv_globalLimit sv) \<or> resp = tooManyRequests (sv_pairLimit sv)"
  | (admitted) ops row where "pair_admitted sv rq env w" "w_engine w' = w_engine w"
      "w_ops w' = w_ops w @ ops @ [StAppend row]" "list_all (\<lambda>op. \<not> is_append op) ops"
      "ae_operation row = opPair" "ae_target row = []"
  using assms unfolding open_pair_def
proof (cases rule: open_limits)
  case (admitted w1)
  then have a: "audited (seed_entry opPair []) (handlePair sv) rq env cx w1 = (resp, cx', w')"
    by (simp add: withPairAudit_def)
  then have "w_engine w' = w_engine w1"
  proof (cases rule: audited_cases)
    case (1 cx1 w2 e)
    with handlePair_calm [OF 1(1)] show ?thesis by (simp add: calm_def)
  qed
  with pair_handler.one_row [OF a] admitted show ?thesis
    by (auto simp: seed_entry_def intro: that(2))
qed (use that(1) in blast)

lemma open_status_effect:
  assumes "open_status sv rq env cx w = (resp, cx', w')"
  shows "w_ops w' = w_ops w" "w_engine w' = w_engine w" "w_db w' = w_db w"
  using assms unfolding open_status_def
  by (cases rule: open_limits; simp add: handleStatus_def; fail)+

subsection \<open>What a mutation needs\<close>

lemma match_lits: "match_path (map Lit ls) ss = Some vs \<Longrightarrow> ss = ls \<and> vs = []"
proof (induction ls arbitrary: ss)
  case Nil
  then show ?case by (cases ss) simp_all
next
  case (Cons l ls)
  then show ?case by (cases ss) (auto split: if_splits)
qed

lemma container_path:
  "match_path (Lit ''v1'' # Lit ''containers'' # Var ''id'' # ss) path = Some vs \<Longrightarrow>
     pathValue ''id'' (start_ctx vs) = path ! 2"
  by (cases path rule: list.exhaust; cases "tl path" rule: list.exhaust; cases "tl (tl path)" rule: list.exhaust)
    (auto simp: pathValue_def start_ctx_def split: if_splits)

lemma quiet_or_mutate:
  assumes "known_route read_handler sv r" "rt_handler r rq env cx w = (resp, cx', w')"
  obtains (quiet) "engine_quiet w w'"
  | (mutate) act ss where "rt_handler r = guard_mutate sv act"
      "rt_path r = Lit ''v1'' # Lit ''containers'' # Var ''id'' # ss"
  using assms(1)
proof (cases rule: known_routeE)
  case status
  with assms(2) show ?thesis by (intro quiet engine_quiet_refl) (auto dest: open_status_effect(2))
next
  case pair
  with assms(2) show ?thesis by (intro quiet engine_quiet_refl) (auto elim: open_pair_cases)
next
  case renew
  with assms(2) have "guard_identity sv opRenew (handleRenew sv) rq env cx w = (resp, cx', w')" by simp
  then have "w_engine w' = w_engine w" by (cases rule: renew_handler.identity_cases)
  then show ?thesis by (intro quiet engine_quiet_refl)
next
  case unpair
  with assms(2) have "guard_identity sv opUnpairSelf handleUnpairSelf rq env cx w = (resp, cx', w')" by simp
  then have "w_engine w' = w_engine w" by (cases rule: unpair_handler.identity_cases)
  then show ?thesis by (intro quiet engine_quiet_refl)
next
  case (reads op h s ss)
  with assms(2) show ?thesis
    using read_handler.guarded(1) [OF reads(2)] by (intro quiet) (simp add: guard_read_def)
qed (rule mutate)


text \<open>A host with one paired device and one container, for the witnesses.\<close>

definition demo_sv :: "mode \<Rightarrow> (nat, bool) server" where
  "demo_sv m = \<lparr>sv_mode = m, sv_ca = Some \<lparr>ca_pem = ''CA'', ca_fingerprint = ''ff''\<rparr>,
     sv_docker = Some (demo_client [''db'']), sv_version = ''1'', sv_globalLimit = 50, sv_statusLimit = 1 / 2,
     sv_pairLimit = 1 / 12, sv_deviceLimit = 20, sv_engine = demo_engine,
     sv_limiter = \<lparr>newLimiter = (\<lambda>r b. True), allowN1 = (\<lambda>l now. (l, l)), tokensAt = (\<lambda>l now. 0)\<rparr>,
     sv_x509 = demo_x509, sv_sha = demo_sha,
     sv_json = (\<lambda>b. JsonObject (\<lambda>f. if f = ''pairing_code'' then ''CODE'' else b))\<rparr>"

definition quiet_streams :: "(nat, bool) stream_handlers" where
  "quiet_streams = \<lparr>sh_logs = (\<lambda>rq env cx w. (noContent, cx, w)), sh_events = (\<lambda>rq env cx w. (noContent, cx, w))\<rparr>"

lemma quiet_streams: "read_handler (sh_logs quiet_streams)" "read_handler (sh_events quiet_streams)"
  by (unfold_locales; simp add: quiet_streams_def engine_quiet_refl)+

definition demo_rq_env :: "int \<Rightarrow> env" where
  "demo_rq_env s = \<lparr>ev_now = s * 1000000000, ev_global_now = s, ev_limit_now = s, ev_store = (\<lambda>c. demo_senv s),
     ev_between = (\<lambda>c d. d), ev_device_rnd = ''abcdefgh'', ev_serial_rnd = Some 255, ev_order = []\<rparr>"

definition demo_request :: "string \<Rightarrow> string list \<Rightarrow> nat option \<Rightarrow> request" where
  "demo_request meth path cert = \<lparr>rq_method = meth, rq_path = path, rq_query = [], rq_remote = ''10.0.0.9:5000'',
     rq_cert = cert, rq_body = ''csr''\<rparr>"

definition demo_paired :: db where
  "demo_paired = snd (RecordDeviceCert (demo_senv 11) ''6162636465666768'' ''ff'' 0 0 demo_device_db)"

definition demo_world :: "db \<Rightarrow> (nat, bool) world" where
  "demo_world d = \<lparr>w_db = d, w_ops = [], w_engine = (0, []), w_global = True, w_status = NewRegistry 1 30 4096,
     w_pair = NewRegistry 1 5 4096, w_device = NewRegistry 20 40 4096\<rparr>"

lemma demo_lookup:
  "DeviceByCertSerial (demo_senv 20) (text16 255) demo_paired =
     Inr \<lparr>dev_id = ''6162636465666768'', dev_name = ''phone'', dev_paired_at = 10000000000,
          dev_last_seen_at = None, dev_revoked_at = None\<rparr>"
  by code_simp

lemma demo_stop_route:
  "find_route (routes sv sh) (demo_request ''POST'' [''v1'', ''containers'', ref, ''stop''] cert) =
     (if ref = [] then None else Some (route_mutate sv ''POST'' [Lit ''v1'', Lit ''containers'', Var ''id'', Lit ''stop''] OpStop
        (handleStopContainer sv), [(''id'', ref)]))"
  by (simp add: routes_def demo_request_def route_mutate_def route_read_def route_logs_def match_method_def)

lemma demo_resolve:
  "lifecycle demo_engine (demo_client [''db'']) DoStop ''web'' (0, []) =
     (None, (1, [CallContainerInspect ''web'', CallStop ''0123456789ab'' 10]))"
  by (simp add: StopContainer_def on_target_def resolveTarget_cases refPattern_def char_class_defs
      demo_engine_def demo_client_def demo_container_def newProtectedSet_eq protected_matches_def
      protectedIDPattern_def trimContainerName_def trim_prefix_def calling_def stopGraceSeconds_def shortIDLength_def
      Let_def)

lemma demo_stop:
  "\<exists>w'. serve (demo_sv ModeDefault) quiet_streams
     (demo_request ''POST'' [''v1'', ''containers'', ''web'', ''stop''] (Some 255)) (demo_rq_env 20) (demo_world demo_paired) =
     (noContent, w') \<and> w_engine w' = (1, [CallContainerInspect ''web'', CallStop ''0123456789ab'' 10])"
  unfolding serve_def demo_stop_route
  by (simp add: route_mutate_def requireDevice_def demo_request_def demo_lookup
      demo_rq_env_def demo_world_def IsRevoked_def withDeviceLimit_def Allow_def NewRegistry_def
      demo_sv_def withAudit_def audited_def requireOp_def Allows_def minMode_def op_defs pathValue_def
      handleStopContainer_def handleLifecycle_def requireDocker_def on_engine_def demo_resolve
      store_write_def recordAudit_def split_beta Let_def del: lifecycle.simps)


subsection \<open>The audit trail is complete\<close>

definition admitted :: "('w, 'l) server \<Rightarrow> ('w, 'l) stream_handlers \<Rightarrow> request \<Rightarrow> env \<Rightarrow> ('w, 'l) world \<Rightarrow> bool" where
  "admitted sv sh rq env w \<longleftrightarrow>
     (case find_route (routes sv sh) rq of
        None \<Rightarrow> False
      | Some (r, vs) \<Rightarrow> rt_method r \<noteq> ''GET'' \<and>
          (if rt_path r = [Lit ''v1'', Lit ''pair''] then pair_admitted sv rq env w
           else (case caller rq env w of None \<Rightarrow> False | Some dv \<Rightarrow> has_token sv env w dv)))"

text \<open>
  C5: the audit trail is complete and cannot be flooded.  A request that changes something
  writes exactly one row, after everything else it does, if it got past authentication and the
  rate limits, whatever became of it afterwards, a refusal by policy included; every other
  request writes none.  Except on the pairing route, which has no caller yet, the row carries
  the authenticated device.
\<close>

theorem one_row_per_mutation:
  assumes "serve sv sh rq env w = (resp, w')"
    and "read_handler (sh_logs sh)" and "read_handler (sh_events sh)"
  shows "\<exists>rows. rows_written w w' rows \<and> length rows = (if admitted sv sh rq env w then 1 else 0) \<and>
    (rq_path rq = [''v1'', ''pair''] \<or>
     list_all (\<lambda>row. \<exists>dv. caller rq env w = Some dv \<and> ae_device_id row = dev_id dv) rows)"
  using assms(1-3)
proof (cases rule: served_quietly)
  case unmatched
  then have "rows_written w w' []" "\<not> admitted sv sh rq env w"
    by (auto simp: admitted_def intro: rows_written_none)
  then show ?thesis by (intro exI [of _ "[]"]) simp
next
  case (routed r vs cx')
  have none: ?thesis if "rows_written w w' []" "\<not> admitted sv sh rq env w"
    using that by (intro exI [of _ "[]"]) simp
  have guarded: ?thesis if "guarded_rows sv rq env w w'" "rt_method r \<noteq> ''GET''" "rt_path r \<noteq> [Lit ''v1'', Lit ''pair'']"
  proof (cases "\<exists>dv. caller rq env w = Some dv \<and> has_token sv env w dv")
    case True
    with that(1) obtain dv row where "caller rq env w = Some dv" "rows_written w w' [row]" "ae_device_id row = dev_id dv"
      by (auto simp: guarded_rows_def)
    with True that(2,3) routed(1) show ?thesis
      by (intro exI [of _ "[row]"]) (auto simp: admitted_def)
  next
    case False
    with that(1) routed(1) that(3) show ?thesis
      by (intro none) (auto simp: guarded_rows_def admitted_def split: option.splits)
  qed
  from routed(2) show ?thesis
  proof (cases rule: known_routeE)
    case status
    with routed(1,4) show ?thesis
      by (intro none) (auto simp: admitted_def dest: open_status_effect(1) intro: rows_written_same)
  next
    case pair
    then have path: "rq_path rq = [''v1'', ''pair'']"
      using routed(3) match_lits [of "[''v1'', ''pair'']"] by simp
    from routed(4) [unfolded pair] show ?thesis
    proof (cases rule: open_pair_cases)
      case throttled
      with pair routed(1) show ?thesis by (intro none) (auto simp: admitted_def intro: rows_written_same)
    next
      case (admitted ops row)
      with pair path routed(1) rows_written_one show ?thesis
        by (intro exI [of _ "[row]"]) (auto simp: admitted_def)
    qed
  next
    case renew
    with renew_handler.identity_rows routed(4) show ?thesis by (intro guarded) auto
  next
    case unpair
    with unpair_handler.identity_rows routed(4) show ?thesis by (intro guarded) auto
  next
    case (reads op h s ss)
    with routed(1,4) guard_read_rows show ?thesis by (intro none) (auto simp: admitted_def)
  next
    case (mutate act ss)
    with guard_mutate_rows routed(4) show ?thesis by (intro guarded) auto
  qed
qed

lemma demo_has_token: "has_token (demo_sv m) env (demo_world d) dv"
  by (simp add: has_token_def demo_sv_def Allow_def demo_world_def NewRegistry_def)

lemma demo_refused:
  "\<exists>w'. serve (demo_sv ModeReadOnly) quiet_streams
     (demo_request ''POST'' [''v1'', ''containers'', ''web'', ''stop''] (Some 255)) (demo_rq_env 20) (demo_world demo_paired) =
     (writeError 403 msgPolicyForbidden, w') \<and>
   w_ops w' = [StTouch ''6162636465666768'',
     StAppend \<lparr>ae_occurred_at = None, ae_device_id = ''6162636465666768'', ae_operation = ''stop'',
       ae_target = ''web'', ae_outcome = OutcomeDeniedPolicy, ae_detail = []\<rparr>]"
  unfolding serve_def demo_stop_route
  by (simp add: route_mutate_def requireDevice_def demo_request_def demo_lookup
      demo_rq_env_def demo_world_def IsRevoked_def withDeviceLimit_def Allow_def NewRegistry_def
      demo_sv_def withAudit_def audited_def requireOp_def Allows_def minMode_def op_defs split_beta Let_def
      less_eq_mode_def store_write_def recordAudit_def audit_row_of_def setAuditOutcome_def seed_entry_def
      pathValue_def)

lemma one_row_per_mutation_witness:
  "\<exists>w' row. serve (demo_sv ModeReadOnly) quiet_streams
     (demo_request ''POST'' [''v1'', ''containers'', ''web'', ''stop''] (Some 255)) (demo_rq_env 20) (demo_world demo_paired) =
     (writeError 403 msgPolicyForbidden, w') \<and> rows_written (demo_world demo_paired) w' [row] \<and>
     ae_device_id row = ''6162636465666768''"
proof -
  let ?rq = "demo_request ''POST'' [''v1'', ''containers'', ''web'', ''stop''] (Some 255)"
  obtain w' where s: "serve (demo_sv ModeReadOnly) quiet_streams ?rq (demo_rq_env 20) (demo_world demo_paired) =
     (writeError 403 msgPolicyForbidden, w')"
    using demo_refused by blast
  have c: "caller ?rq (demo_rq_env 20) (demo_world demo_paired) =
      Some \<lparr>dev_id = ''6162636465666768'', dev_name = ''phone'', dev_paired_at = 10000000000,
          dev_last_seen_at = None, dev_revoked_at = None\<rparr>"
    by (simp add: caller_def demo_request_def demo_rq_env_def demo_world_def demo_lookup IsRevoked_def)
  have a: "admitted (demo_sv ModeReadOnly) quiet_streams ?rq (demo_rq_env 20) (demo_world demo_paired)"
    by (simp add: admitted_def demo_stop_route c demo_has_token) (simp add: route_mutate_def)
  from one_row_per_mutation [OF s quiet_streams] a c obtain rows where
    "rows_written (demo_world demo_paired) w' rows" "length rows = 1"
    "list_all (\<lambda>row. ae_device_id row = ''6162636465666768'') rows"
    by (auto simp: demo_request_def)
  with s show ?thesis by (cases rows) auto
qed

subsection \<open>The audit trail tells the truth\<close>

lemmas outcome_defs = OutcomeSuccess_def OutcomeDeniedPolicy_def OutcomeDeniedSelf_def OutcomeDeniedProtected_def
  OutcomeNotFound_def OutcomeInvalid_def OutcomeConflict_def OutcomeUnavailable_def OutcomeEngineError_def
  OutcomeInternalError_def

lemma reply_success:
  "p \<in> set engine_replies \<or> p = policy_reply \<Longrightarrow>
     (snd p = OutcomeSuccess \<longleftrightarrow> fst p = noContent) \<and> rs_code (fst p) \<noteq> 500"
  by (auto simp: engine_replies_def policy_reply_def outcome_defs writeError_def writeJSON_def noContent_def)



subsection \<open>What an unauthenticated caller can do\<close>

lemma stranger_refused:
  assumes "serve sv sh rq env w = (resp, w')" and "caller rq env w = None"
    and "rq_path rq \<notin> {[''v1'', ''status''], [''v1'', ''pair'']}"
  shows "resp = (if find_route (routes sv sh) rq = None then mux_reply (routes sv sh) rq
      else writeError 401 ''client certificate required'') \<and>
    w_ops w' = w_ops w \<and> w_engine w' = w_engine w \<and> w_device w' = w_device w"
  using assms(1)
proof (cases rule: served_any)
  case (routed r vs cx')
  have refused: "resp = writeError 401 msgClientCertRequired \<and> w_ops w' = w_ops w \<and>
      w_engine w' = w_engine w \<and> w_device w' = w_device w"
    if "rt_handler r = requireDevice (withDeviceLimit sv next)" for "next"
    using routed(4) [unfolded that] by (cases rule: guarded_cases) (use assms(2) in auto)
  from routed(2) show ?thesis
  proof (cases rule: known_routeE)
    case status
    with routed(3) match_lits [of "[''v1'', ''status'']"] assms(3) show ?thesis by simp
  next
    case pair
    with routed(3) match_lits [of "[''v1'', ''pair'']"] assms(3) show ?thesis by simp
  qed (use refused routed(1) in \<open>simp_all add: guard_identity_def guard_read_def guard_mutate_def msgClientCertRequired_def\<close>)
qed simp

text \<open>
  C6: an unauthenticated caller can do nothing and learns nothing.  On every path but status
  and pairing, a request without a certificate, with an unknown one, with one of a revoked
  device or at a time the registry cannot be read gets the same answer, which depends only on
  whether the path and method exist; it causes no write to the store, no call to the Engine and
  takes no token of any device.
\<close>

theorem unauthenticated_learns_nothing:
  assumes "serve sv sh rq env w = (resp, w')" and "caller rq env w = None"
    and "rq_path rq \<notin> {[''v1'', ''status''], [''v1'', ''pair'']}"
  shows "resp = (if find_route (routes sv sh) rq = None then mux_reply (routes sv sh) rq
      else writeError 401 ''client certificate required'') \<and>
    w_ops w' = w_ops w \<and> w_engine w' = w_engine w \<and> w_device w' = w_device w"
  using assms by (rule stranger_refused)

lemma unauthenticated_learns_nothing_witness:
  "\<exists>w'. serve (demo_sv ModeFull) quiet_streams
     (demo_request ''POST'' [''v1'', ''containers'', ''web'', ''stop''] (Some 254)) (demo_rq_env 20) (demo_world demo_paired) =
     (writeError 401 ''client certificate required'', w') \<and> w_ops w' = []"
proof -
  let ?rq = "demo_request ''POST'' [''v1'', ''containers'', ''web'', ''stop''] (Some 254)"
  have "DeviceByCertSerial (demo_senv 20) (text16 254) demo_paired = Inl ErrDeviceNotFound" by code_simp
  then have c: "caller ?rq (demo_rq_env 20) (demo_world demo_paired) = None"
    by (simp add: caller_def demo_request_def demo_rq_env_def demo_world_def)
  have p: "rq_path ?rq \<notin> {[''v1'', ''status''], [''v1'', ''pair'']}" by (simp add: demo_request_def)
  obtain resp w' where s: "serve (demo_sv ModeFull) quiet_streams ?rq (demo_rq_env 20) (demo_world demo_paired) = (resp, w')"
    by fastforce
  from unauthenticated_learns_nothing [OF s c p] s show ?thesis
    by (auto simp: demo_stop_route demo_world_def)
qed

subsection \<open>Throttling\<close>

text \<open>
  A throttled caller is told an honest whole number of seconds, and nothing else happens:
  for the rates the server is built with, the Retry-After of each tier is at least one second
  and is the least whole number of seconds in which the tier's limiter earns one token.
\<close>

theorem retry_after_sound:
  assumes "0 < rl"
  shows "\<exists>n. tooManyRequests rl =
      \<lparr>rs_code = 429, rs_headers = [(''Retry-After'', itoa n), (''Content-Type'', ''application/json''),
         (''Cache-Control'', ''no-store''), (''X-Content-Type-Options'', ''nosniff'')],
       rs_body = ErrorBody ''rate limit exceeded''\<rparr> \<and>
    1 \<le> n \<and> 1 \<le> of_int n * rl \<and> (\<forall>m. 1 \<le> m \<and> 1 \<le> of_int m * rl \<longrightarrow> n \<le> m)"
proof -
  define n where "n = (if \<lceil>1 / rl\<rceil> < 1 then 1 else \<lceil>1 / rl\<rceil>)"
  have enough: "1 \<le> of_int m * rl \<longleftrightarrow> \<lceil>1 / rl\<rceil> \<le> m" for m
    using assms by (simp add: ceiling_le_iff divide_le_eq)
  have "1 \<le> \<lceil>1 / rl\<rceil>" using assms by (simp add: le_ceiling_iff)
  then have n: "1 \<le> n" "n = \<lceil>1 / rl\<rceil>" by (simp_all add: n_def)
  have "tooManyRequests rl =
      \<lparr>rs_code = 429, rs_headers = [(''Retry-After'', itoa n), (''Content-Type'', ''application/json''),
         (''Cache-Control'', ''no-store''), (''X-Content-Type-Options'', ''nosniff'')],
       rs_body = ErrorBody ''rate limit exceeded''\<rparr>"
    by (simp add: tooManyRequests_def n_def Let_def headerRetryAfter_def writeError_def writeJSON_def msgRateLimited_def)
  with n enough show ?thesis by (intro exI [of _ n]) auto
qed

lemma retry_after_sound_witness:
  "\<exists>n. tooManyRequests (1 / 12) = \<lparr>rs_code = 429, rs_headers = [(''Retry-After'', itoa n), (''Content-Type'', ''application/json''),
         (''Cache-Control'', ''no-store''), (''X-Content-Type-Options'', ''nosniff'')],
       rs_body = ErrorBody ''rate limit exceeded''\<rparr> \<and> n \<le> 12"
proof -
  have "(0::rat) < 1 / 12" by simp
  from retry_after_sound [OF this] obtain n where n: "tooManyRequests (1 / 12) =
      \<lparr>rs_code = 429, rs_headers = [(''Retry-After'', itoa n), (''Content-Type'', ''application/json''),
         (''Cache-Control'', ''no-store''), (''X-Content-Type-Options'', ''nosniff'')],
       rs_body = ErrorBody ''rate limit exceeded''\<rparr>"
    "\<forall>m. 1 \<le> m \<and> 1 \<le> of_int m * (1 / 12 :: rat) \<longrightarrow> n \<le> m"
    by blast
  from n(2) [rule_format, of 12] n(1) show ?thesis by auto
qed

end
