(* ===== verification/Enrolment.thy ===== *)
theory Enrolment
  imports Guarantees
begin

section \<open>What pairing and renewal guarantee\<close>

text \<open>
  Pairing is five store operations with the rest of the agent running in between.  The rest of
  the agent is arbitrary in the property about failures; the property about success relies on
  it leaving the device being paired alone, which its random identifier makes sure of.
\<close>

lemma delete_effect:
  "\<not> se_fails (ev_store env AtRollback) 0 \<Longrightarrow>
     find_device (w_db (deleteOrphanedDevice env i w)) i = None \<and>
     i \<notin> cr_device_id ` set (db_certs (w_db (deleteOrphanedDevice env i w)))"
  by (auto simp: deleteOrphanedDevice_def store_write_def DeleteDevice_def find_device_def find_None_iff Let_def)

definition pair_id :: "env \<Rightarrow> string" where
  "pair_id env = hex_encode (take deviceIDBytes (ev_device_rnd env))"

lemma find_append:
  "List.find P (xs @ ys) = (case List.find P xs of None \<Rightarrow> List.find P ys | Some y \<Rightarrow> Some y)"
  by (induction xs) auto

lemma CreateDevice_ok:
  "CreateDevice se rnd name d = (Inr dv, d') \<Longrightarrow>
     dev_id dv = hex_encode (take deviceIDBytes rnd) \<and> find_device d (dev_id dv) = None \<and>
     (\<exists>r. find_device d' (dev_id dv) = Some r \<and> dr_revoked_at r = None)"
  by (auto simp: CreateDevice_def Let_def find_device_def find_append split: if_splits)

lemma CreateDevice_err: "CreateDevice se rnd name d = (Inl e, d') \<Longrightarrow> d' = d"
  by (auto simp: CreateDevice_def Let_def split: if_splits)

text \<open>
  C7: a failed pairing leaves nothing behind.  Whatever made it fail, a refused code, a failing
  statement or a bad request for a certificate, and whatever the rest of the agent did
  meanwhile: if the device row could not be created the tables are as they were found, and
  otherwise the row and every certificate of it are gone again, provided only that the deletion
  itself succeeds.
\<close>

theorem failed_pairing_leaves_nothing:
  assumes "pairDevice sv c env code csrDER w = (Inl e, w')"
    and "\<not> se_fails (ev_store env AtRollback) 0"
  shows "if isl (fst (CreateDevice (ev_store env AtCreate) (ev_device_rnd env) pendingDeviceName
        (ev_between env AtCreate (w_db w))))
     then w_db w' = ev_between env AtCreate (w_db w)
     else find_device (w_db w') (pair_id env) = None \<and>
       pair_id env \<notin> cr_device_id ` set (db_certs (w_db w'))"
proof -
  let ?d = "ev_between env AtCreate (w_db w)"
  obtain r w1 where w1: "store_write env AtCreate (StCreate (ev_device_rnd env) pendingDeviceName)
      (\<lambda>se. CreateDevice se (ev_device_rnd env) pendingDeviceName) w = (r, w1)" by fastforce
  note f = store_write_fields(7,8) [OF w1]
  show ?thesis
  proof (cases r)
    case (Inl x)
    with assms(1) w1 have "w' = w1" by (simp add: pairDevice_def)
    with f Inl show ?thesis
      using CreateDevice_err [of "ev_store env AtCreate" "ev_device_rnd env" pendingDeviceName ?d x]
      by (metis isl_def prod.collapse)
  next
    case (Inr dv)
    then have id: "dev_id dv = pair_id env" and ok: "\<not> isl (fst (CreateDevice (ev_store env AtCreate) (ev_device_rnd env) pendingDeviceName ?d))"
      using f CreateDevice_ok [of "ev_store env AtCreate" "ev_device_rnd env" pendingDeviceName ?d dv]
      by (auto simp: pair_id_def prod_eq_iff)
    have "\<exists>w2. w' = deleteOrphanedDevice env (dev_id dv) w2"
      using assms(1) Inr w1 by (auto simp: pairDevice_def split: prod.splits sum.splits)
    with delete_effect [OF assms(2)] ok show ?thesis by (auto simp: id)
  qed
qed

lemma pairDevice_success:
  assumes "pairDevice sv c env code csrDER w = (Inr resp, w')"
  obtains dv name pem serial until w1 w2 w3 where
    "store_write env AtCreate (StCreate (ev_device_rnd env) pendingDeviceName)
       (\<lambda>se. CreateDevice se (ev_device_rnd env) pendingDeviceName) w = (Inr dv, w1)"
    "store_write env AtRedeem (StRedeem code (dev_id dv))
       (\<lambda>se. RedeemPairingCode (sv_sha sv) se code (dev_id dv)) w1 = (Inr name, w2)"
    "store_write env AtRename (StRename (dev_id dv) name) (\<lambda>se. RenameDevice se (dev_id dv) name) w2 = (Inr (), w3)"
    "IssueDeviceCert (sv_x509 sv) (ev_serial_rnd env) csrDER (dev_id dv) (ev_now env) = Inr (pem, serial, until)"
    "store_write env AtRecord (StRecordCert (dev_id dv) serial (ev_now env) until)
       (\<lambda>se. RecordDeviceCert se (dev_id dv) serial (ev_now env) until) w3 = (Inr (), w')"
    "pr_device_id resp = dev_id dv" "pr_certificate_pem resp = pem"
  using assms by (auto simp: pairDevice_def split: prod.splits sum.splits)

lemma RedeemPairingCode_ok:
  "RedeemPairingCode sha se code i d = (Inr name, d') \<Longrightarrow>
     db_devices d' = db_devices d \<and>
     (\<exists>c\<in>set (db_codes d). redeemable (sha code) (unix (se_now se)) c \<and> pc_device_name c = name)"
  by (auto simp: RedeemPairingCode_def Let_def find_Some_iff split: if_splits option.splits)

lemma RecordDeviceCert_ok:
  assumes "RecordDeviceCert se i serial nb na d = (Inr (), d')"
  shows "db_devices d' = db_devices d" and "find_device d i \<noteq> None"
    and "List.find (\<lambda>c. cr_serial c = s) (db_certs d') =
      (if s = serial then Some \<lparr>cr_serial = serial, cr_device_id = i, cr_not_before = unix nb,
         cr_not_after = unix na, cr_issued_at = unix (se_now se), cr_superseded_at = None\<rparr>
       else List.find (\<lambda>c. cr_serial c = s) (db_certs d))"
proof -
  have "\<not> list_ex (\<lambda>c. cr_serial c = serial) (db_certs d)" "find_device d i \<noteq> None"
    using assms by (auto simp: RecordDeviceCert_def split: if_splits)
  moreover from this(1) have "List.find (\<lambda>c. cr_serial c = serial) (db_certs d) = None"
    by (auto simp: find_None_iff list_ex_iff)
  ultimately show "db_devices d' = db_devices d" "find_device d i \<noteq> None"
    "List.find (\<lambda>c. cr_serial c = s) (db_certs d') =
      (if s = serial then Some \<lparr>cr_serial = serial, cr_device_id = i, cr_not_before = unix nb,
         cr_not_after = unix na, cr_issued_at = unix (se_now se), cr_superseded_at = None\<rparr>
       else List.find (\<lambda>c. cr_serial c = s) (db_certs d))"
    using assms by (auto simp: RecordDeviceCert_def find_append split: if_splits option.splits)
qed

lemma store_write_db:
  "store_write env c op f w = (r, w') \<Longrightarrow> f (ev_store env c) (ev_between env c (w_db w)) = (r, w_db w')"
  using store_write_fields(7,8) by (metis prod.collapse)

text \<open>The tables the redemption finds.\<close>

definition redeem_tables :: "env \<Rightarrow> ('w, 'l) world \<Rightarrow> db" where
  "redeem_tables env w = ev_between env AtRedeem
     (snd (CreateDevice (ev_store env AtCreate) (ev_device_rnd env) pendingDeviceName
       (ev_between env AtCreate (w_db w))))"

text \<open>
  C13: a successful pairing grants exactly what was promised.  The code was unexpired and unused
  when it was redeemed; from then on the serial of the issued certificate resolves, whenever
  the registry can be read, to the new device, which is active and carries the name the operator
  gave the code, not one of the request's choosing.
\<close>

theorem pairing_grants_access:
  assumes "pairDevice sv c env code csrDER w = (Inr resp, w')"
    and "\<forall>k d. find_device (ev_between env k d) (pair_id env) = find_device d (pair_id env)"
  shows "\<exists>n dv row. ev_serial_rnd env = Some n \<and>
    row \<in> set (db_codes (redeem_tables env w)) \<and>
    redeemable (sv_sha sv code) (unix (se_now (ev_store env AtRedeem))) row \<and>
    (\<forall>se. DeviceByCertSerial se (text16 n) (w_db w') = (if se_fails se 0 then Inl StoreFailure else Inr dv)) \<and>
    dev_id dv = pr_device_id resp \<and> pr_device_id resp = pair_id env \<and>
    dev_name dv = pc_device_name row \<and> \<not> IsRevoked dv"
  using assms(1)
proof (cases rule: pairDevice_success)
  case (1 dv name pem serial until w1 w2 w3)
  note create = CreateDevice_ok [OF store_write_db [OF 1(1)]]
  have id: "dev_id dv = pair_id env" using create by (simp add: pair_id_def)
  obtain r where r: "find_device (w_db w1) (pair_id env) = Some r" "dr_revoked_at r = None"
    using create id by auto
  note redeem = RedeemPairingCode_ok [OF store_write_db [OF 1(2)]]
  have r2: "find_device (w_db w2) (pair_id env) = Some r"
    using redeem r(1) assms(2) by (simp add: find_device_def)
  have "find_device (w_db w3) (pair_id env) = Some (r\<lparr>dr_name := name\<rparr>)"
  proof -
    have "w_db w3 = update_device (pair_id env) (\<lambda>r. r\<lparr>dr_name := name\<rparr>) (ev_between env AtRename (w_db w2))"
      using store_write_db [OF 1(3)] by (auto simp: RenameDevice_def id split: if_splits)
    with r2 assms(2) show ?thesis by (simp add: find_device_update)
  qed
  then have r3: "find_device (ev_between env AtRecord (w_db w3)) (pair_id env) = Some (r\<lparr>dr_name := name\<rparr>)"
    using assms(2) by simp
  note rec = RecordDeviceCert_ok [OF store_write_db [OF 1(5)]]
  have r4: "find_device (w_db w') (pair_id env) = Some (r\<lparr>dr_name := name\<rparr>)"
    using rec(1) r3 by (simp add: find_device_def)
  obtain n where n: "ev_serial_rnd env = Some n" "serial = text16 n"
    using 1(4) by (auto simp: IssueDeviceCert_def Let_def split: option.splits public_key.splits if_splits)
  have tables: "ev_between env AtRedeem (w_db w1) = redeem_tables env w"
    using store_write_db [OF 1(1)] by (simp add: redeem_tables_def)
  obtain row where row: "row \<in> set (db_codes (redeem_tables env w))"
    "redeemable (sv_sha sv code) (unix (se_now (ev_store env AtRedeem))) row" "pc_device_name row = name"
    using redeem unfolding tables by blast
  have "DeviceByCertSerial se (text16 n) (w_db w') =
      (if se_fails se 0 then Inl StoreFailure else Inr (scanDevice (r\<lparr>dr_name := name\<rparr>)))" for se
    using rec(3) [of "text16 n"] r4 by (simp add: DeviceByCertSerial_def n id)
  moreover have "dev_id (scanDevice (r\<lparr>dr_name := name\<rparr>)) = pair_id env"
    using find_device_Some [OF r2] by (simp add: scanDevice_def)
  moreover have "\<not> IsRevoked (scanDevice (r\<lparr>dr_name := name\<rparr>))" "dev_name (scanDevice (r\<lparr>dr_name := name\<rparr>)) = name"
    using r(2) by (simp_all add: scanDevice_def IsRevoked_def)
  ultimately show ?thesis
    using n row 1(6) id
    by (intro exI [of _ n] exI [of _ "scanDevice (r\<lparr>dr_name := name\<rparr>)"] exI [of _ row]) auto
qed

definition demo_fresh :: "(nat, bool) world" where
  "demo_fresh = demo_world (empty_db\<lparr>db_codes := [\<lparr>pc_code_hash = ''#CODE'', pc_device_name = ''phone'',
     pc_created_at = 10, pc_expires_at = 610, pc_used_at = None, pc_used_by = None\<rparr>]\<rparr>)"

lemma demo_pairing:
  "\<exists>w' resp. pairDevice (demo_sv ModeDefault) \<lparr>ca_pem = ''CA'', ca_fingerprint = ''ff''\<rparr> (demo_rq_env 60) code ''csr''
     demo_fresh = (if code = ''CODE'' then Inr resp else Inl PairCodeInvalid, w')"
  by (simp add: pairDevice_def demo_fresh_def demo_world_def demo_sv_def demo_rq_env_def demo_senv_def store_write_def
      CreateDevice_def RedeemPairingCode_def redeemable_def RenameDevice_def RecordDeviceCert_def IssueDeviceCert_def
      demo_x509_def demo_sha_def find_device_def update_device_def empty_db_def unix_def pair_error_of_def Let_def)

lemma pairing_grants_access_witness:
  "\<exists>w' resp. pairDevice (demo_sv ModeDefault) \<lparr>ca_pem = ''CA'', ca_fingerprint = ''ff''\<rparr> (demo_rq_env 60) ''CODE'' ''csr''
     demo_fresh = (Inr resp, w') \<and>
   (\<exists>dv. DeviceByCertSerial (demo_senv 61) (text16 255) (w_db w') = Inr dv \<and> dev_name dv = ''phone'')"
proof -
  obtain resp w' where p: "pairDevice (demo_sv ModeDefault) \<lparr>ca_pem = ''CA'', ca_fingerprint = ''ff''\<rparr>
      (demo_rq_env 60) ''CODE'' ''csr'' demo_fresh = (Inr resp, w')"
    using demo_pairing [of "''CODE''"] by auto
  have b: "\<forall>k d. find_device (ev_between (demo_rq_env 60) k d) (pair_id (demo_rq_env 60)) =
      find_device d (pair_id (demo_rq_env 60))"
    by (simp add: demo_rq_env_def)
  have codes: "db_codes (redeem_tables (demo_rq_env 60) demo_fresh) =
      [\<lparr>pc_code_hash = ''#CODE'', pc_device_name = ''phone'',
        pc_created_at = 10, pc_expires_at = 610, pc_used_at = None, pc_used_by = None\<rparr>]"
    by (simp add: redeem_tables_def CreateDevice_def demo_fresh_def demo_world_def demo_rq_env_def Let_def)
  from pairing_grants_access [OF p b] p codes show ?thesis
    by (auto simp: demo_rq_env_def demo_senv_def)
qed

lemma failed_pairing_leaves_nothing_witness:
  "\<exists>w'. pairDevice (demo_sv ModeDefault) \<lparr>ca_pem = ''CA'', ca_fingerprint = ''ff''\<rparr> (demo_rq_env 60) ''WRONG'' ''csr''
     demo_fresh = (Inl PairCodeInvalid, w') \<and> find_device (w_db w') (pair_id (demo_rq_env 60)) = None"
proof -
  obtain w' where p: "pairDevice (demo_sv ModeDefault) \<lparr>ca_pem = ''CA'', ca_fingerprint = ''ff''\<rparr>
      (demo_rq_env 60) ''WRONG'' ''csr'' demo_fresh = (Inl PairCodeInvalid, w')"
    using demo_pairing [of "''WRONG''"] by auto
  have f: "\<not> se_fails (ev_store (demo_rq_env 60) AtRollback) 0" by (simp add: demo_rq_env_def demo_senv_def)
  have "\<not> isl (fst (CreateDevice (ev_store (demo_rq_env 60) AtCreate) (ev_device_rnd (demo_rq_env 60)) pendingDeviceName
        (ev_between (demo_rq_env 60) AtCreate (w_db demo_fresh))))"
    by (simp add: CreateDevice_def demo_rq_env_def demo_senv_def demo_fresh_def demo_world_def find_device_def
        empty_db_def Let_def)
  with failed_pairing_leaves_nothing [OF p f] p show ?thesis by auto
qed

lemma lookup_cong:
  assumes "db_devices d' = db_devices d"
    and "map_option cr_device_id (List.find (\<lambda>c. cr_serial c = s) (db_certs d')) =
         map_option cr_device_id (List.find (\<lambda>c. cr_serial c = s) (db_certs d))"
  shows "DeviceByCertSerial se s d' = DeviceByCertSerial se s d"
  using assms by (auto simp: DeviceByCertSerial_def find_device_def split: option.splits)

lemma lookup_record:
  assumes "RecordDeviceCert se' i serial nb na d = (r, d')" and "\<not> se_fails se 0"
  shows "DeviceByCertSerial se s d = Inr dv \<Longrightarrow> DeviceByCertSerial se s d' = Inr dv"
    and "r = Inr () \<Longrightarrow> \<exists>dv. DeviceByCertSerial se serial d' = Inr dv \<and> dev_id dv = i"
proof -
  assume a: "DeviceByCertSerial se s d = Inr dv"
  show "DeviceByCertSerial se s d' = Inr dv"
  proof (cases "r = Inr ()")
    case True
    note rec = RecordDeviceCert_ok [OF assms(1) [unfolded True]]
    have "s \<noteq> serial"
      using assms(1) a True by (auto simp: RecordDeviceCert_def DeviceByCertSerial_def find_Some_iff list_ex_iff
          split: if_splits option.splits dest!: nth_mem)
    then show ?thesis using a rec(1,3) lookup_cong [of d' d s se] by simp
  next
    case False
    then have "d' = d" using assms(1) by (auto simp: RecordDeviceCert_def split: if_splits)
    with a show ?thesis by simp
  qed
next
  assume r: "r = Inr ()"
  note rec = RecordDeviceCert_ok [OF assms(1) [unfolded r]]
  then obtain x where "find_device d i = Some x" by auto
  with rec find_device_Some [OF this] assms(2) show "\<exists>dv. DeviceByCertSerial se serial d' = Inr dv \<and> dev_id dv = i"
    by (auto simp: DeviceByCertSerial_def find_device_def scanDevice_def)
qed

lemma lookup_supersede:
  assumes "SupersedePriorCerts se' i keep d = (r, d')"
  shows "DeviceByCertSerial se s d' = DeviceByCertSerial se s d"
proof -
  have keep: "map_option cr_device_id (List.find (\<lambda>c. cr_serial c = s) (map f xs)) =
      map_option cr_device_id (List.find (\<lambda>c. cr_serial c = s) xs)"
    if "\<And>c. cr_serial (f c) = cr_serial c \<and> cr_device_id (f c) = cr_device_id c" for f and xs :: "cert_row list"
    using that by (induction xs) auto
  show ?thesis
  proof (cases "se_fails se' 0")
    case False
    then have d': "d' = d\<lparr>db_certs := map (\<lambda>c. if cr_device_id c = i \<and> cr_serial c \<noteq> keep \<and> cr_superseded_at c = None
        then c\<lparr>cr_superseded_at := Some (unix (se_now se'))\<rparr> else c) (db_certs d)\<rparr>"
      using assms by (simp add: SupersedePriorCerts_def)
    show ?thesis unfolding d' by (rule lookup_cong) (simp_all add: keep)
  qed (use assms in \<open>simp add: SupersedePriorCerts_def\<close>)
qed

text \<open>
  C14: renewal never strands a device.  Whatever the renewal ends in, every certificate that
  admitted the device before it still does, so a lost response costs nothing; and if it
  succeeds, the new certificate admits the same device.
\<close>

theorem renewal_keeps_access:
  assumes "renewDevice sv env i csrDER w = (r, w')"
    and "\<forall>k d s. DeviceByCertSerial se s (ev_between env k d) = DeviceByCertSerial se s d"
    and "\<not> se_fails se 0"
  shows "(\<forall>s dv. DeviceByCertSerial se s (w_db w) = Inr dv \<longrightarrow> DeviceByCertSerial se s (w_db w') = Inr dv) \<and>
    (\<not> isl r \<longrightarrow> (\<exists>n dv. ev_serial_rnd env = Some n \<and>
       DeviceByCertSerial se (text16 n) (w_db w') = Inr dv \<and> dev_id dv = i))"
proof -
  have between: "DeviceByCertSerial se s (ev_between env k d) = DeviceByCertSerial se s d" for k d s
    using assms(2) by blast
  show ?thesis
  proof (cases "IssueDeviceCert (sv_x509 sv) (ev_serial_rnd env) csrDER i (ev_now env)")
    case (Inl e)
    with assms(1) show ?thesis by (auto simp: renewDevice_def)
  next
    case (Inr p)
    then obtain pem serial until where issued: "IssueDeviceCert (sv_x509 sv) (ev_serial_rnd env) csrDER i (ev_now env) =
        Inr (pem, serial, until)" by (metis prod.exhaust)
    obtain n where n: "ev_serial_rnd env = Some n" "serial = text16 n"
      using issued by (auto simp: IssueDeviceCert_def Let_def split: option.splits public_key.splits if_splits)
    obtain r1 w1 where w1: "store_write env AtRecord (StRecordCert i serial (ev_now env) until)
        (\<lambda>se. RecordDeviceCert se i serial (ev_now env) until) w = (r1, w1)" by fastforce
    note rec = lookup_record [OF store_write_db [OF w1] assms(3)]
    show ?thesis
    proof (cases r1)
      case (Inl e)
      with assms(1) w1 issued have "w' = w1" "isl r" by (auto simp: renewDevice_def)
      with rec(1) between show ?thesis by auto
    next
      case (Inr u)
      obtain r2 w2 where w2: "store_write env AtSupersede (StSupersede i serial)
          (\<lambda>se. SupersedePriorCerts se i serial) w1 = (r2, w2)" by fastforce
      have "w' = w2"
        using assms(1) w1 w2 issued Inr by (auto simp: renewDevice_def split: sum.splits)
      moreover have "DeviceByCertSerial se s (w_db w2) = DeviceByCertSerial se s (w_db w1)" for s
        using lookup_supersede [OF store_write_db [OF w2]] between by simp
      ultimately show ?thesis using rec between n Inr by auto
    qed
  qed
qed

lemma renewal_keeps_access_witness:
  "DeviceByCertSerial (demo_senv 20) (text16 255) (w_db (snd (renewDevice (demo_sv ModeDefault)
     ((demo_rq_env 60)\<lparr>ev_serial_rnd := Some 4096\<rparr>) ''6162636465666768'' ''csr'' (demo_world demo_paired)))) =
   DeviceByCertSerial (demo_senv 20) (text16 255) demo_paired"
proof -
  obtain r w' where r: "renewDevice (demo_sv ModeDefault) ((demo_rq_env 60)\<lparr>ev_serial_rnd := Some 4096\<rparr>)
      ''6162636465666768'' ''csr'' (demo_world demo_paired) = (r, w')" by fastforce
  have "w_db (demo_world demo_paired) = demo_paired" by (simp add: demo_world_def)
  with renewal_keeps_access [OF r, of "demo_senv 20"] r demo_lookup show ?thesis
    by (simp add: demo_rq_env_def demo_senv_def)
qed

lemma write_eq:
  "writeError c m = writeError c' m' \<longleftrightarrow> c = c' \<and> m = m'"
  "writeJSON c b = writeError c' m' \<longleftrightarrow> c = c' \<and> b = ErrorBody m'"
  by (auto simp: writeError_def writeJSON_def)

text \<open>
  The pairing route refuses in one voice.  Every answer but the certificate itself is one of
  five fixed responses; an unknown, an expired and a used code and a malformed request for a
  certificate all get the same one; and what the audit row then says is an outcome and one of
  two fixed remarks, never the code or the request.
\<close>

theorem pair_refusals_uniform:
  assumes "handlePair sv rq env cx w = (resp, cx', w')"
    and "cx_audit cx = Some (seed_entry opPair [])" and "sv_ca sv \<noteq> None"
  shows "(\<exists>p. resp = writeJSON 201 (PairBody p)) \<or>
    resp \<in> {writeError 401 ''pairing failed'', writeError 500 ''internal error'',
      writeError 413 ''request body too large'', writeError 400 ''malformed request body''} \<and>
    (\<exists>e. cx_audit cx' = Some e \<and>
      (ai_outcome e, ai_detail e) \<in>
        (if resp = writeError 401 ''pairing failed''
         then {(OutcomeInvalid, ''malformed csr''), (OutcomeInvalid, ''invalid or expired pairing code'')}
         else if resp = writeError 500 ''internal error'' then {(OutcomeInternalError, [])}
         else {(OutcomeSuccess, [])}))"
proof -
  obtain c where c: "sv_ca sv = Some c" using assms(3) by blast
  have d: "decode_error x = (if x = TooLarge then writeError 413 ''request body too large''
      else writeError 400 ''malformed request body'')" for x
    by (cases x) (simp_all add: decode_error_def)
  show ?thesis
    using assms(1,2) c
    by (auto simp: handlePair_def decodePairRequest_def setAuditOutcome_def seed_entry_def msgPairFailed_def
        msgPairInternalError_def d write_eq
        split: sum.splits option.splits prod.splits pair_error.splits if_splits)
qed

lemma demo_expired:
  "\<exists>cx' w'. handlePair (demo_sv ModeDefault) (demo_request ''POST'' [''v1'', ''pair''] None) (demo_rq_env 700)
     cx demo_fresh = (writeError 401 ''pairing failed'', cx', w')"
proof -
  have "\<exists>w'. pairDevice (demo_sv ModeDefault) \<lparr>ca_pem = ''CA'', ca_fingerprint = ''ff''\<rparr> (demo_rq_env 700) ''CODE''
      der demo_fresh = (Inl PairCodeInvalid, w')" for der
    by (simp add: pairDevice_def demo_fresh_def demo_world_def demo_sv_def demo_rq_env_def demo_senv_def store_write_def
        CreateDevice_def RedeemPairingCode_def redeemable_def demo_sha_def find_device_def empty_db_def unix_def
        pair_error_of_def Let_def)
  then obtain w' where "pairDevice (demo_sv ModeDefault) \<lparr>ca_pem = ''CA'', ca_fingerprint = ''ff''\<rparr> (demo_rq_env 700)
      ''CODE'' der demo_fresh = (Inl PairCodeInvalid, w' der)" for der
    by metis
  moreover have "sv_ca (demo_sv ModeDefault) = Some \<lparr>ca_pem = ''CA'', ca_fingerprint = ''ff''\<rparr>"
    "sv_json (demo_sv ModeDefault) = (\<lambda>b. JsonObject (\<lambda>f. if f = ''pairing_code'' then ''CODE'' else b))"
    by (simp_all add: demo_sv_def)
  ultimately show ?thesis
    by (cases "decodeCSRPEM (demo_sv ModeDefault) (take maxPairBodyBytes (rq_body (demo_request ''POST'' [''v1'', ''pair''] None)))")
      (simp_all add: handlePair_def decodePairRequest_def decode_body_def msgPairFailed_def)
qed

lemma pair_refusals_uniform_witness:
  "\<exists>cx' w' e. handlePair (demo_sv ModeDefault) (demo_request ''POST'' [''v1'', ''pair''] None) (demo_rq_env 700)
     (start_ctx []\<lparr>cx_audit := Some (seed_entry opPair [])\<rparr>) demo_fresh =
     (writeError 401 ''pairing failed'', cx', w') \<and> cx_audit cx' = Some e \<and> ai_outcome e = OutcomeInvalid"
proof -
  let ?cx = "start_ctx []\<lparr>cx_audit := Some (seed_entry opPair [])\<rparr>"
  obtain cx' w' where h: "handlePair (demo_sv ModeDefault) (demo_request ''POST'' [''v1'', ''pair''] None)
      (demo_rq_env 700) ?cx demo_fresh = (writeError 401 ''pairing failed'', cx', w')"
    using demo_expired by blast
  have "writeError 401 ''pairing failed'' \<noteq> writeJSON 201 (PairBody p)" for p
    by (simp add: writeError_def writeJSON_def)
  with pair_refusals_uniform [OF h] h show ?thesis by (auto simp: demo_sv_def)
qed

end
