(* ===== verification/JsonText.thy ===== *)
theory JsonText
  imports Certs
begin

section \<open>The JSON text of what is sent (encoding/json as sse.go and respond.go call it)\<close>

text \<open>
  \<open>json.Marshal\<close> of what the agent sends: objects and lists of strings, booleans and integers.
  A string is escaped the way the standard library does it: control characters, the quote, the
  backslash, the three HTML characters and the two Unicode line separators, with every byte
  that is not part of valid UTF-8 replaced.  The reader is what a client does with the text.
\<close>

datatype json = JString string | JBool bool | JInt int | JArray "json list" | JObject "(string \<times> json) list"

subsection \<open>UTF-8 (unicode/utf8)\<close>

text \<open>The length a first byte announces and the range it allows the second one.\<close>

definition utf8_lead :: "nat \<Rightarrow> (nat \<times> nat \<times> nat) option" where
  "utf8_lead b =
     (if 0xC2 \<le> b \<and> b \<le> 0xDF then Some (2, 0x80, 0xBF)
      else if b = 0xE0 then Some (3, 0xA0, 0xBF)
      else if b = 0xED then Some (3, 0x80, 0x9F)
      else if 0xE1 \<le> b \<and> b \<le> 0xEF then Some (3, 0x80, 0xBF)
      else if b = 0xF0 then Some (4, 0x90, 0xBF)
      else if 0xF1 \<le> b \<and> b \<le> 0xF3 then Some (4, 0x80, 0xBF)
      else if b = 0xF4 then Some (4, 0x80, 0x8F)
      else None)"

definition is_continuation :: "char \<Rightarrow> bool" where
  "is_continuation c \<longleftrightarrow> 0x80 \<le> byte_of c \<and> byte_of c \<le> 0xBF"

text \<open>How many bytes the rune at the head of a string takes; 0 if it is not valid.\<close>

definition utf8_seq :: "char \<Rightarrow> string \<Rightarrow> nat" where
  "utf8_seq c s =
     (case utf8_lead (byte_of c) of
        None \<Rightarrow> 0
      | Some (n, lo, hi) \<Rightarrow>
          (if n \<le> Suc (length s) \<and> lo \<le> byte_of (hd s) \<and> byte_of (hd s) \<le> hi \<and>
              list_all is_continuation (take (n - 2) (tl s)) then n else 0))"

definition rune_error :: string where "rune_error = [CHR 0xEF, CHR 0xBF, CHR 0xBD]"
definition line_separator :: string where "line_separator = [CHR 0xE2, CHR 0x80, CHR 0xA8]"
definition paragraph_separator :: string where "paragraph_separator = [CHR 0xE2, CHR 0x80, CHR 0xA9]"

text \<open>A string with every invalid byte replaced.\<close>

fun to_valid :: "string \<Rightarrow> string" where
  "to_valid [] = []"
| "to_valid (c # s) =
     (if byte_of c < 0x80 then c # to_valid s
      else if utf8_seq c s = 0 then rune_error @ to_valid s
      else c # take (utf8_seq c s - 1) s @ to_valid (drop (utf8_seq c s - 1) s))"

subsection \<open>Writing\<close>

abbreviation quote :: char where "quote \<equiv> CHR 0x22"
abbreviation backslash :: char where "backslash \<equiv> CHR 0x5C"

definition html_safe :: "char \<Rightarrow> bool" where
  "html_safe c \<longleftrightarrow> 0x20 \<le> byte_of c \<and> byte_of c < 0x80 \<and> c \<notin> {quote, backslash, CHR ''&'', CHR ''<'', CHR ''>''}"

definition unicode_escape :: "nat \<Rightarrow> string" where
  "unicode_escape v = [backslash, CHR ''u'', hex_digit (v div 4096 mod 16), hex_digit (v div 256 mod 16),
     hex_digit (v div 16 mod 16), hex_digit (v mod 16)]"

definition json_ascii :: "char \<Rightarrow> string" where
  "json_ascii c =
     (if html_safe c then [c]
      else if c = quote \<or> c = backslash then [backslash, c]
      else if c = CHR 0x08 then [backslash, CHR ''b'']
      else if c = CHR 0x0C then [backslash, CHR ''f'']
      else if c = CHR 0x0A then [backslash, CHR ''n'']
      else if c = CHR 0x0D then [backslash, CHR ''r'']
      else if c = CHR 0x09 then [backslash, CHR ''t'']
      else unicode_escape (byte_of c))"

fun json_chars :: "string \<Rightarrow> string" where
  "json_chars [] = []"
| "json_chars (c # s) =
     (if byte_of c < 0x80 then json_ascii c @ json_chars s
      else let n = utf8_seq c s; rune = c # take (n - 1) s
        in if n = 0 then unicode_escape 0xFFFD @ json_chars s
           else if rune = line_separator then unicode_escape 0x2028 @ json_chars (drop (n - 1) s)
           else if rune = paragraph_separator then unicode_escape 0x2029 @ json_chars (drop (n - 1) s)
           else rune @ json_chars (drop (n - 1) s))"

definition json_string :: "string \<Rightarrow> string" where
  "json_string s = quote # json_chars s @ [quote]"

fun intercalate :: "string \<Rightarrow> string list \<Rightarrow> string" where
  "intercalate sep [] = []"
| "intercalate sep [x] = x"
| "intercalate sep (x # y # ys) = x @ sep @ intercalate sep (y # ys)"

fun marshal :: "json \<Rightarrow> string" where
  "marshal (JString s) = json_string s"
| "marshal (JBool b) = (if b then ''true'' else ''false'')"
| "marshal (JInt i) = itoa i"
| "marshal (JArray js) = ''['' @ intercalate '','' (map marshal js) @ '']''"
| "marshal (JObject ms) =
     ''{'' @ intercalate '','' (map (\<lambda>m. json_string (fst m) @ '':'' @ marshal (snd m)) ms) @ ''}''"

text \<open>A line of text, and what a client makes of it: no byte below the space.\<close>

lemma hex_digit_byte: "k < 16 \<Longrightarrow> byte_of (hex_digit k) = (if k < 10 then 48 + k else 87 + k)"
  by (rule hex_digit_code)

lemma hex_digit_clean: "k < 16 \<Longrightarrow> 0x20 \<le> byte_of (hex_digit k)"
  by (simp add: hex_digit_byte)

lemma json_ascii_clean: "\<forall>x\<in>set (json_ascii c). 0x20 \<le> byte_of x"
  by (auto simp: json_ascii_def html_safe_def unicode_escape_def hex_digit_clean)

lemma utf8_seq_cases:
  assumes "utf8_seq c s \<noteq> 0"
  obtains n where "utf8_seq c s = Suc (Suc n)" "0x80 \<le> byte_of c"
    "\<forall>x\<in>set (take (Suc n) s). 0x80 \<le> byte_of x" "Suc n \<le> length s"
proof -
  obtain n lo hi where l: "utf8_lead (byte_of c) = Some (n, lo, hi)"
    and n: "utf8_seq c s = n" "n \<le> Suc (length s)" "lo \<le> byte_of (hd s)"
      "list_all is_continuation (take (n - 2) (tl s))"
    using assms by (auto simp: utf8_seq_def split: option.splits if_splits)
  have r: "2 \<le> n" "0x80 \<le> lo" "0x80 \<le> byte_of c"
    using l by (auto simp: utf8_lead_def split: if_splits)
  then obtain m where m: "n = Suc (Suc m)" by (metis Suc_le_D Suc_le_mono numeral_2_eq_2)
  with n(2) obtain d t where s: "s = d # t" by (cases s) auto
  have "\<forall>x\<in>set (take (Suc m) s). 0x80 \<le> byte_of x"
    using n(3,4) r(2) by (auto simp: s m list_all_iff is_continuation_def)
  with n(1,2) m r(3) show thesis by (intro that [of m]) auto
qed

lemma separators_differ: "paragraph_separator \<noteq> line_separator"
  by (simp add: paragraph_separator_def line_separator_def)

lemma json_chars_clean: "\<forall>x\<in>set (json_chars s). 0x20 \<le> byte_of x"
proof (induction s rule: to_valid.induct)
  case (2 c s)
  show ?case
  proof (cases "byte_of c < 0x80")
    case True
    with 2 json_ascii_clean [of c] show ?thesis by auto
  next
    case high: False
    have esc: "\<forall>x\<in>set (unicode_escape v). 0x20 \<le> byte_of x" for v
      by (simp add: unicode_escape_def hex_digit_clean)
    show ?thesis
    proof (cases "utf8_seq c s = 0")
      case True
      with high 2 esc show ?thesis by auto
    next
      case False
      from utf8_seq_cases [OF this] obtain n where n: "utf8_seq c s = Suc (Suc n)"
        "\<forall>x\<in>set (take (Suc n) s). 0x80 \<le> byte_of x" by metis
      have rune: "\<forall>x\<in>set (c # take (Suc n) s). 0x20 \<le> byte_of x"
        using n(2) high by auto
      have rest: "\<forall>x\<in>set (json_chars (drop (Suc n) s)). 0x20 \<le> byte_of x"
        using 2(3) [OF high False] n(1) by simp
      have "json_chars (c # s) \<in> {unicode_escape 0x2028 @ json_chars (drop (Suc n) s),
          unicode_escape 0x2029 @ json_chars (drop (Suc n) s), (c # take (Suc n) s) @ json_chars (drop (Suc n) s)}"
        using high False n(1) by (simp add: Let_def)
      with rune rest esc show ?thesis by (auto simp del: json_chars.simps)
    qed
  qed
qed simp

lemma intercalate_set: "x \<in> set (intercalate sep xs) \<Longrightarrow> x \<in> set sep \<or> (\<exists>y\<in>set xs. x \<in> set y)"
  by (induction sep xs rule: intercalate.induct) auto

lemma itoa_digits:
  obtains ds where "itoa i = (if i < 0 then CHR ''-'' # ds else ds)" "ds \<noteq> []" "list_all is_digit ds"
    "digits_value 0 ds = \<bar>i\<bar>"
  using digits_of_digits [of "\<bar>i\<bar>"] that by (cases "i < 0") (auto simp: itoa_def)

lemma itoa_clean: "x \<in> set (itoa i) \<Longrightarrow> 0x20 \<le> byte_of x"
  by (rule itoa_digits [of i]) (auto simp: list_all_iff is_digit_def split: if_splits)

lemma marshal_clean: "x \<in> set (marshal j) \<Longrightarrow> 0x20 \<le> byte_of x"
proof (induction j)
  case (JString s)
  with json_chars_clean [of s] show ?case by (auto simp: json_string_def)
next
  case (JArray js)
  then show ?case by (auto dest!: intercalate_set)
next
  case (JObject ms)
  have key: "y \<in> set (json_string k) \<Longrightarrow> 0x20 \<le> byte_of y" for y k
    using json_chars_clean [of k] by (auto simp: json_string_def)
  from JObject.prems consider "x \<in> {CHR ''{'', CHR ''}'', CHR '',''}"
    | m where "m \<in> set ms" "x \<in> set (json_string (fst m)) \<or> x = CHR '':'' \<or> x \<in> set (marshal (snd m))"
    by (auto dest!: intercalate_set)
  then show ?case
  proof cases
    case (2 m)
    have "x \<in> set (marshal (snd m)) \<Longrightarrow> 0x20 \<le> byte_of x"
      using JObject.IH [of m "snd m"] 2(1) by (cases m) auto
    with 2(2) key show ?thesis by auto
  qed auto
qed (auto split: if_splits dest: itoa_clean)

subsection \<open>Reading\<close>

text \<open>A reader for the same texts: the rest of the input is returned with the value.\<close>

definition hex_value :: "char \<Rightarrow> nat option" where
  "hex_value c =
     (if is_digit c then Some (byte_of c - 48)
      else if 97 \<le> byte_of c \<and> byte_of c \<le> 102 then Some (byte_of c - 87)
      else if 65 \<le> byte_of c \<and> byte_of c \<le> 70 then Some (byte_of c - 55)
      else None)"

definition utf8_encode :: "nat \<Rightarrow> string" where
  "utf8_encode v =
     (if v < 0x80 then [char_of v]
      else if v < 0x800 then [char_of (0xC0 + v div 64), char_of (0x80 + v mod 64)]
      else [char_of (0xE0 + v div 4096), char_of (0x80 + v div 64 mod 64), char_of (0x80 + v mod 64)])"

definition short_escape :: "char \<Rightarrow> char option" where
  "short_escape c = map_of
     [(quote, quote), (backslash, backslash), (CHR ''/'', CHR ''/''), (CHR ''b'', CHR 0x08), (CHR ''f'', CHR 0x0C),
      (CHR ''n'', CHR 0x0A), (CHR ''r'', CHR 0x0D), (CHR ''t'', CHR 0x09)] c"

fun read_chars :: "string \<Rightarrow> (string \<times> string) option" where
  "read_chars [] = None"
| "read_chars (c # s) =
     (if c = quote then Some ([], s)
      else if c \<noteq> backslash then map_option (\<lambda>(x, r). (c # x, r)) (read_chars s)
      else (case s of
          [] \<Rightarrow> None
        | e # t \<Rightarrow>
            (if e = CHR ''u'' then
               (case t of
                  h3 # h2 # h1 # h0 # u \<Rightarrow>
                    (case (hex_value h3, hex_value h2, hex_value h1, hex_value h0) of
                       (Some v3, Some v2, Some v1, Some v0) \<Rightarrow>
                         map_option (\<lambda>(x, r). (utf8_encode (4096 * v3 + 256 * v2 + 16 * v1 + v0) @ x, r)) (read_chars u)
                     | _ \<Rightarrow> None)
                | _ \<Rightarrow> None)
             else (case short_escape e of
                 None \<Rightarrow> None
               | Some d \<Rightarrow> map_option (\<lambda>(x, r). (d # x, r)) (read_chars t)))))"

lemma hex_value_digit: "k < 16 \<Longrightarrow> hex_value (hex_digit k) = Some k"
  by (auto simp: hex_value_def is_digit_def hex_digit_byte)

lemma read_unicode_escape:
  assumes "v < 65536"
  shows "read_chars (unicode_escape v @ t) = map_option (\<lambda>(x, r). (utf8_encode v @ x, r)) (read_chars t)"
proof -
  have d: "v div 256 = v div 16 div 16" "v div 4096 = v div 16 div 16 div 16"
    by (simp_all add: div_mult2_eq [symmetric])
  have "v div 16 div 16 div 16 < 16" using assms by (simp add: div_mult2_eq [symmetric])
  then have top: "v div 4096 mod 16 = v div 16 div 16 div 16" by (simp add: d)
  have "4096 * a + 256 * (b mod 16) + 16 * (c mod 16) + v mod 16 = v"
    if "c = v div 16" "b = c div 16" "a = b div 16" for a b c
    using mult_div_mod_eq [of 16 v] mult_div_mod_eq [of 16 c] mult_div_mod_eq [of 16 b] that by linarith
  from this [OF refl refl refl]
  have "4096 * (v div 4096 mod 16) + 256 * (v div 256 mod 16) + 16 * (v div 16 mod 16) + v mod 16 = v"
    unfolding top unfolding d .
  moreover have "read_chars (unicode_escape v @ t) =
      map_option (\<lambda>(x, r). (utf8_encode (4096 * (v div 4096 mod 16) + 256 * (v div 256 mod 16) +
        16 * (v div 16 mod 16) + v mod 16) @ x, r)) (read_chars t)"
    by (simp add: unicode_escape_def hex_value_digit del: mod_less)
  ultimately show ?thesis by (simp only:)
qed

lemma read_json_ascii:
  assumes "byte_of c < 0x80"
  shows "read_chars (json_ascii c @ t) = map_option (\<lambda>(x, r). (c # x, r)) (read_chars t)"
proof -
  consider "html_safe c" | "\<not> html_safe c" "c \<in> {quote, backslash, CHR 0x08, CHR 0x0C, CHR 0x0A, CHR 0x0D, CHR 0x09}"
    | "\<not> html_safe c" "c \<notin> {quote, backslash, CHR 0x08, CHR 0x0C, CHR 0x0A, CHR 0x0D, CHR 0x09}" by blast
  then show ?thesis
  proof cases
    case 1
    then show ?thesis by (auto simp: json_ascii_def html_safe_def)
  next
    case 2
    then show ?thesis by (auto simp: json_ascii_def short_escape_def)
  next
    case 3
    with assms show ?thesis by (simp add: json_ascii_def read_unicode_escape utf8_encode_def)
  qed
qed

lemma read_high:
  "\<forall>x\<in>set xs. 0x80 \<le> byte_of x \<Longrightarrow>
   read_chars (xs @ t) = map_option (\<lambda>(x, r). (xs @ x, r)) (read_chars t)"
proof (induction xs)
  case Nil
  show ?case by (cases "read_chars t") auto
next
  case (Cons c xs)
  then have "c \<noteq> quote" "c \<noteq> backslash" by auto
  with Cons show ?case by (auto simp: option.map_comp comp_def split_beta)
qed

lemma escaped_runes:
  "utf8_encode 0xFFFD = rune_error" "utf8_encode 0x2028 = line_separator"
  "utf8_encode 0x2029 = paragraph_separator"
  by (simp_all add: utf8_encode_def rune_error_def line_separator_def paragraph_separator_def char_of_eq_iff)

lemma read_json_chars: "read_chars (json_chars s @ quote # t) = Some (to_valid s, t)"
proof (induction s rule: to_valid.induct)
  case (2 c s)
  show ?case
  proof (cases "byte_of c < 0x80")
    case True
    with 2(1) show ?thesis by (simp add: read_json_ascii)
  next
    case high: False
    show ?thesis
    proof (cases "utf8_seq c s = 0")
      case True
      with high 2(2) show ?thesis by (simp add: read_unicode_escape escaped_runes)
    next
      case False
      from utf8_seq_cases [OF this] obtain n where n: "utf8_seq c s = Suc (Suc n)"
        "\<forall>x\<in>set (take (Suc n) s). 0x80 \<le> byte_of x" by metis
      let ?rune = "c # take (Suc n) s" and ?rest = "drop (Suc n) s"
      have valid: "to_valid (c # s) = ?rune @ to_valid ?rest"
        using high False n(1) by simp
      have rest: "read_chars (json_chars ?rest @ quote # t) = Some (to_valid ?rest, t)"
        using 2(3) [OF high False] n(1) by simp
      consider "?rune = line_separator" | "?rune = paragraph_separator"
        | "?rune \<noteq> line_separator" "?rune \<noteq> paragraph_separator" by blast
      then show ?thesis
      proof cases
        case 1
        then have "json_chars (c # s) = unicode_escape 0x2028 @ json_chars ?rest"
          using high False n(1) by (simp add: Let_def)
        with rest valid 1 show ?thesis
          by (simp add: read_unicode_escape escaped_runes del: json_chars.simps to_valid.simps)
      next
        case 2
        then have "json_chars (c # s) = unicode_escape 0x2029 @ json_chars ?rest"
          using high False n(1) by (simp add: Let_def separators_differ)
        with rest valid 2 show ?thesis
          by (simp add: read_unicode_escape escaped_runes del: json_chars.simps to_valid.simps)
      next
        case 3
        then have "json_chars (c # s) = ?rune @ json_chars ?rest"
          using high False n(1) by (simp add: Let_def)
        moreover have "\<forall>x\<in>set ?rune. 0x80 \<le> byte_of x" using high n(2) by simp
        ultimately show ?thesis
          using rest valid read_high [of ?rune "json_chars ?rest @ quote # t"]
          by (simp del: json_chars.simps to_valid.simps read_chars.simps)
      qed
    qed
  qed
qed simp

text \<open>Values.  The fuel bounds the nesting.\<close>

fun strip :: "string \<Rightarrow> string \<Rightarrow> string option" where
  "strip [] s = Some s"
| "strip (p # ps) [] = None"
| "strip (p # ps) (c # s) = (if p = c then strip ps s else None)"

fun read_items :: "(string \<Rightarrow> ('a \<times> string) option) \<Rightarrow> nat \<Rightarrow> char \<Rightarrow> string \<Rightarrow> ('a list \<times> string) option" where
  "read_items item 0 close s = None"
| "read_items item (Suc k) close s =
     (case item s of
        None \<Rightarrow> None
      | Some (x, c # t) \<Rightarrow>
          (if c = close then Some ([x], t)
           else if c = CHR '','' then map_option (\<lambda>(xs, r). (x # xs, r)) (read_items item k close t)
           else None)
      | Some (x, []) \<Rightarrow> None)"

definition read_list ::
  "(string \<Rightarrow> ('a \<times> string) option) \<Rightarrow> char \<Rightarrow> string \<Rightarrow> ('a list \<times> string) option" where
  "read_list item close s =
     (case s of [] \<Rightarrow> None | c # t \<Rightarrow> (if c = close then Some ([], t) else read_items item (length s) close s))"

definition read_int :: "string \<Rightarrow> (int \<times> string) option" where
  "read_int s =
     (let neg = (case s of [] \<Rightarrow> False | c # t \<Rightarrow> c = CHR ''-''); u = (if neg then tl s else s);
          ds = takeWhile is_digit u; v = digits_value 0 ds
      in if ds = [] then None else Some (if neg then - v else v, dropWhile is_digit u))"

text \<open>What may follow a value: nothing a number could go on with.\<close>

definition stops :: "string \<Rightarrow> bool" where
  "stops r \<longleftrightarrow> (case r of [] \<Rightarrow> True | c # t \<Rightarrow> \<not> is_digit c)"

lemma stops_simps [simp]: "stops []" "stops (c # t) \<longleftrightarrow> \<not> is_digit c"
  by (simp_all add: stops_def)

lemma read_int_itoa:
  assumes "stops r"
  shows "read_int (itoa i @ r) = Some (i, r)"
proof (rule itoa_digits [of i])
  fix ds assume ds: "itoa i = (if i < 0 then CHR ''-'' # ds else ds)" "ds \<noteq> []" "list_all is_digit ds"
    "digits_value 0 ds = \<bar>i\<bar>"
  have "takeWhile is_digit (ds @ r) = ds" "dropWhile is_digit (ds @ r) = r"
    using ds(3) assms by (cases r; simp add: list_all_iff takeWhile_append dropWhile_append)+
  moreover have "\<exists>c t. ds = c # t \<and> c \<noteq> CHR ''-''"
    using ds(2,3) by (cases ds) (auto simp: is_digit_def)
  ultimately show ?thesis using ds by (auto simp: read_int_def Let_def)
qed

fun unmarshal :: "nat \<Rightarrow> string \<Rightarrow> (json \<times> string) option" where
  "unmarshal 0 s = None"
| "unmarshal (Suc k) s =
     (case s of
        [] \<Rightarrow> None
      | c # t \<Rightarrow>
          (if c = quote then map_option (\<lambda>(x, r). (JString x, r)) (read_chars t)
           else if c = CHR ''['' then map_option (\<lambda>(xs, r). (JArray xs, r)) (read_list (unmarshal k) (CHR '']'') t)
           else if c = CHR ''{'' then
             map_option (\<lambda>(xs, r). (JObject xs, r))
               (read_list (\<lambda>u. case u of
                    [] \<Rightarrow> None
                  | q # v \<Rightarrow> (if q \<noteq> quote then None else case read_chars v of
                        Some (key, d # w) \<Rightarrow>
                          (if d = CHR '':'' then map_option (\<lambda>(j, r). ((key, j), r)) (unmarshal k w) else None)
                      | _ \<Rightarrow> None)) (CHR ''}'') t)
           else if c = CHR ''-'' \<or> is_digit c then map_option (\<lambda>(i, r). (JInt i, r)) (read_int s)
           else (case strip ''true'' s of
               Some r \<Rightarrow> Some (JBool True, r)
             | None \<Rightarrow> map_option (\<lambda>r. (JBool False, r)) (strip ''false'' s))))"

fun valid_json :: "json \<Rightarrow> json" where
  "valid_json (JString s) = JString (to_valid s)"
| "valid_json (JBool b) = JBool b"
| "valid_json (JInt i) = JInt i"
| "valid_json (JArray js) = JArray (map valid_json js)"
| "valid_json (JObject ms) = JObject (map (\<lambda>m. (to_valid (fst m), valid_json (snd m))) ms)"

fun depth :: "json \<Rightarrow> nat" where
  "depth (JString s) = 1"
| "depth (JBool b) = 1"
| "depth (JInt i) = 1"
| "depth (JArray js) = Suc (foldr max (map depth js) 0)"
| "depth (JObject ms) = Suc (foldr max (map (\<lambda>m. depth (snd m)) ms) 0)"

lemma foldr_max_le: "x \<in> set xs \<Longrightarrow> (x :: nat) \<le> foldr max xs 0"
  by (induction xs) auto

lemma intercalate_cons: "ys \<noteq> [] \<Longrightarrow> intercalate sep (x # ys) = x @ sep @ intercalate sep ys"
  by (cases ys) auto

lemma intercalate_length: "length xs \<le> Suc (length (intercalate [c] xs))"
proof (induction xs)
  case (Cons x xs)
  then show ?case by (cases "xs = []") (simp_all add: intercalate_cons)
qed simp

text \<open>Reading back a list of items that each read back.\<close>

lemma read_items_intercalate:
  assumes "\<And>x r. x \<in> set xs \<Longrightarrow> stops r \<Longrightarrow> item (f x @ r) = Some (g x, r)"
    and "xs \<noteq> []" and "length xs \<le> k" and "close \<noteq> CHR '',''" and "\<not> is_digit close"
  shows "read_items item k close (intercalate '','' (map f xs) @ close # t) = Some (map g xs, t)"
  using assms
proof (induction xs arbitrary: k)
  case (Cons x xs)
  from Cons.prems(3) obtain n where k: "k = Suc n" "length xs \<le> n" by (cases k) auto
  show ?case
  proof (cases "xs = []")
    case True
    with Cons.prems(1) [of x "close # t"] Cons.prems(5) k show ?thesis by simp
  next
    case False
    have "read_items item n close (intercalate '','' (map f xs) @ close # t) = Some (map g xs, t)"
      using Cons.IH [of n] Cons.prems(1,4,5) False k(2) by auto
    then show ?thesis
      using Cons.prems(1) [of x] Cons.prems(4) False k(1) by (simp add: intercalate_cons is_digit_def)
  qed
qed simp

lemma read_list_intercalate:
  assumes "\<And>x r. x \<in> set xs \<Longrightarrow> stops r \<Longrightarrow> item (f x @ r) = Some (g x, r)"
    and "\<And>x. x \<in> set xs \<Longrightarrow> \<exists>c s. f x = c # s \<and> c \<noteq> close" and "close \<noteq> CHR '',''" and "\<not> is_digit close"
  shows "read_list item close (intercalate '','' (map f xs) @ close # t) = Some (map g xs, t)"
proof (cases xs)
  case Nil
  then show ?thesis by (simp add: read_list_def)
next
  case (Cons x ys)
  let ?s = "intercalate '','' (map f xs) @ close # t"
  obtain c s where c: "f x = c # s" "c \<noteq> close" using assms(2) [of x] Cons by auto
  then obtain u where u: "?s = c # u"
    by (cases ys) (auto simp: Cons)
  have "read_items item (length ?s) close ?s = Some (map g xs, t)"
  proof (rule read_items_intercalate)
    show "length xs \<le> length ?s" using intercalate_length [of "map f xs" "CHR '',''"] by simp
  qed (use assms Cons in auto)
  then show ?thesis using u c(2) by (simp add: read_list_def)
qed

lemma marshal_head: "\<exists>c s. marshal j = c # s \<and> c \<notin> {CHR '']'', CHR ''}''}"
proof (cases j)
  case (JInt i)
  show ?thesis
    unfolding JInt marshal.simps by (rule itoa_digits [of i]) (auto simp: neq_Nil_conv is_digit_def split: if_splits)
qed (auto simp: json_string_def)

lemma unmarshal_marshal_gen: "depth j \<le> k \<Longrightarrow> stops r \<Longrightarrow> unmarshal k (marshal j @ r) = Some (valid_json j, r)"
proof (induction k arbitrary: j r)
  case 0
  then show ?case by (cases j) auto
next
  case (Suc k)
  show ?case
  proof (cases j)
    case (JString s)
    then show ?thesis by (simp add: json_string_def read_json_chars)
  next
    case (JBool b)
    then show ?thesis by (cases b) (simp_all add: is_digit_def)
  next
    case (JInt i)
    have "\<exists>c t. itoa i = c # t \<and> (c = CHR ''-'' \<or> is_digit c)"
      by (rule itoa_digits [of i]) (auto simp: neq_Nil_conv split: if_splits)
    then obtain c t where c: "itoa i = c # t" "c = CHR ''-'' \<or> is_digit c" by blast
    then have "c \<noteq> quote" "c \<noteq> CHR ''[''" "c \<noteq> CHR ''{''" by (auto simp: is_digit_def)
    with c read_int_itoa [OF Suc.prems(2), of i] show ?thesis by (simp add: JInt)
  next
    case (JArray js)
    have "read_list (unmarshal k) (CHR '']'') (intercalate '','' (map marshal js) @ CHR '']'' # r) =
        Some (map valid_json js, r)"
    proof (rule read_list_intercalate)
      fix x r assume x: "x \<in> set js" "stops r"
      then have "depth x \<le> k" using Suc.prems(1) foldr_max_le [of "depth x" "map depth js"] by (auto simp: JArray)
      then show "unmarshal k (marshal x @ r) = Some (valid_json x, r)" using x(2) by (rule Suc.IH)
    qed (metis insertCI marshal_head, simp_all add: is_digit_def)
    then show ?thesis by (simp add: JArray)
  next
    case (JObject ms)
    let ?member = "\<lambda>m. json_string (fst m) @ '':'' @ marshal (snd m)"
    let ?item = "\<lambda>u. case u of
                    [] \<Rightarrow> None
                  | q # v \<Rightarrow> (if q \<noteq> quote then None else case read_chars v of
                        Some (key, d # w) \<Rightarrow>
                          (if d = CHR '':'' then map_option (\<lambda>(j, r). ((key, j), r)) (unmarshal k w) else None)
                      | _ \<Rightarrow> None)"
    have "read_list ?item (CHR ''}'') (intercalate '','' (map ?member ms) @ CHR ''}'' # r) =
        Some (map (\<lambda>m. (to_valid (fst m), valid_json (snd m))) ms, r)"
    proof (rule read_list_intercalate)
      fix x r assume x: "x \<in> set ms" "stops r"
      then have "depth (snd x) \<le> k"
        using Suc.prems(1) foldr_max_le [of "depth (snd x)" "map (\<lambda>m. depth (snd m)) ms"] by (auto simp: JObject)
      then have "unmarshal k (marshal (snd x) @ r) = Some (valid_json (snd x), r)" using x(2) by (rule Suc.IH)
      then show "?item (?member x @ r) = Some ((to_valid (fst x), valid_json (snd x)), r)"
        by (simp add: json_string_def read_json_chars)
    qed (auto simp: json_string_def is_digit_def)
    then show ?thesis by (simp add: JObject)
  qed
qed

lemma unmarshal_marshal: "depth j \<le> k \<Longrightarrow> unmarshal k (marshal j) = Some (valid_json j, [])"
  using unmarshal_marshal_gen [of j k "[]"] by simp

end
