(* ===== verification/Sse.thy ===== *)
theory Sse
  imports JsonText Http
begin

section \<open>Server-sent events (internal/httpapi/sse.go)\<close>

text \<open>
  The writer both streams share, as a function of what the connection does to each call, and
  the reading of its output by a client.  The mutex makes every operation atomic, so one
  operation is one step.  What reached the client is a list of chunks; a write that failed
  half-way left a prefix of one.
\<close>

definition sseEventLog :: string where "sseEventLog = ''log''"
definition sseEventError :: string where "sseEventError = ''error''"
definition sseEventSnapshot :: string where "sseEventSnapshot = ''snapshot''"
definition sseEventHealth :: string where "sseEventHealth = ''health''"
definition msgStreamRevoked :: string where "msgStreamRevoked = ''device revoked''"

subsection \<open>Payloads (the json tags of dockerx/types.go and respond.go)\<close>

text \<open>An empty member marked omitempty is left out.\<close>

definition omit_empty :: "string \<Rightarrow> string \<Rightarrow> (string \<times> json) list" where
  "omit_empty k v = (if v = [] then [] else [(k, JString v)])"

definition log_line_json :: "log_line \<Rightarrow> json" where
  "log_line_json l = JObject
     ([(''ts'', JString (ll_timestamp l)), (''stream'', JString (ll_stream l)), (''line'', JString (ll_line l))] @
      (if ll_truncated l then [(''truncated'', JBool True)] else []))"

definition error_json :: "string \<Rightarrow> json" where
  "error_json msg = JObject [(''error'', JString msg)]"

definition state_json :: "container_state_summary \<Rightarrow> json" where
  "state_json s = JObject [(''id'', JString (css_id s)), (''name'', JString (css_name s)),
     (''state'', JString (css_state s)), (''health'', JString (css_health s))]"

definition event_json :: "container_event \<Rightarrow> json" where
  "event_json e = JObject
     ([(''id'', JString (ce_id e)), (''name'', JString (ce_name e)), (''event'', JString (ce_event e))] @
      omit_empty ''health'' (ce_health e) @ [(''time'', JString (ce_time e))])"

subsection \<open>The writer\<close>

text \<open>
  \<open>Reply\<close> is a whole response written through the same connection, which a handler may do as
  long as it has not started the stream.
\<close>

datatype sse_chunk = Frame string string json | Comment string | Torn nat sse_chunk | Reply response

text \<open>The bytes of a chunk; the body text of a whole response is left out.\<close>

abbreviation LF :: char where "LF \<equiv> CHR 0x0A"

fun render :: "sse_chunk \<Rightarrow> string" where
  "render (Frame i n d) = ''id: '' @ i @ [LF] @ ''event: '' @ n @ [LF] @ ''data: '' @ marshal d @ [LF, LF]"
| "render (Comment t) = '': '' @ t @ [LF, LF]"
| "render (Torn k c) = take k (render c)"
| "render (Reply r) = []"

text \<open>
  An error as the handlers look at it: does it wrap context.Canceled or net.ErrClosed, its text,
  and its class for writeDockerError.
\<close>

record go_error =
  ge_canceled :: bool
  ge_closed :: bool
  ge_text :: string
  ge_docker :: docker_error

record sse_writer =
  sw_started :: bool
  sw_status :: "int option"
  sw_deadline :: bool
  sw_headers :: "(string, string) gomap"
  sw_sent :: "(string, string) gomap"
  sw_out :: "sse_chunk list"

definition newSSEWriter :: sse_writer where
  "newSSEWriter = \<lparr>sw_started = False, sw_status = None, sw_deadline = True,
     sw_headers = [], sw_sent = [], sw_out = []\<rparr>"

text \<open>
  What the connection does to the calls of one operation: each may fail, and a failed write may
  have written any number of bytes.
\<close>

record sse_io =
  io_deadline :: "go_error option"
  io_head :: "go_error option"
  io_write :: "(nat \<times> go_error) option"
  io_flush :: "go_error option"

definition smooth :: sse_io where
  "smooth = \<lparr>io_deadline = None, io_head = None, io_write = None, io_flush = None\<rparr>"

text \<open>The header map, and the first status, which sends what is in it.\<close>

definition set_headers :: "(string \<times> string) list \<Rightarrow> sse_writer \<Rightarrow> sse_writer" where
  "set_headers hs w = w\<lparr>sw_headers := fold (\<lambda>(k, v). gm_put k v) hs (sw_headers w)\<rparr>"

definition write_head :: "int \<Rightarrow> sse_writer \<Rightarrow> sse_writer" where
  "write_head c w =
     (case sw_status w of None \<Rightarrow> w\<lparr>sw_status := Some c, sw_sent := sw_headers w\<rparr> | Some c' \<Rightarrow> w)"

definition sseContentType :: string where "sseContentType = ''text/event-stream''"

definition sse_headers :: "(string \<times> string) list" where
  "sse_headers = [(''Content-Type'', sseContentType), (''Cache-Control'', ''no-store''),
     (''X-Content-Type-Options'', ''nosniff''), (''Connection'', ''keep-alive''), (''X-Accel-Buffering'', ''no'')]"

definition startLocked :: "sse_io \<Rightarrow> sse_writer \<Rightarrow> go_error option \<times> sse_writer" where
  "startLocked io w =
     (case io_deadline io of
        Some e \<Rightarrow> (Some e, set_headers sse_headers w)
      | None \<Rightarrow> (io_head io, write_head 200 ((set_headers sse_headers w)\<lparr>sw_deadline := False, sw_started := True\<rparr>)))"

lemma set_headers_fields [simp]:
  "sw_out (set_headers hs w) = sw_out w" "sw_started (set_headers hs w) = sw_started w"
  "sw_status (set_headers hs w) = sw_status w" "sw_sent (set_headers hs w) = sw_sent w"
  by (simp_all add: set_headers_def)

lemma write_head_fields [simp]:
  "sw_out (write_head c w) = sw_out w" "sw_started (write_head c w) = sw_started w"
  "sw_status (write_head c w) = Some (case sw_status w of None \<Rightarrow> c | Some c' \<Rightarrow> c')"
  "sw_headers (write_head c w) = sw_headers w"
  by (simp_all add: write_head_def split: option.split)

definition sse_write :: "sse_io \<Rightarrow> sse_chunk \<Rightarrow> sse_writer \<Rightarrow> go_error option \<times> sse_writer" where
  "sse_write io c w =
     (let (err, w1) = (if sw_started w then (None, w) else startLocked io w)
      in if err \<noteq> None then (err, w1)
         else case io_write io of
             Some (k, e) \<Rightarrow> (Some e, w1\<lparr>sw_out := sw_out w1 @ [Torn k c]\<rparr>)
           | None \<Rightarrow> (io_flush io, w1\<lparr>sw_out := sw_out w1 @ [c]\<rparr>))"

definition sse_event :: "sse_io \<Rightarrow> string \<Rightarrow> string \<Rightarrow> json \<Rightarrow> sse_writer \<Rightarrow> go_error option \<times> sse_writer" where
  "sse_event io i n d w = sse_write io (Frame i n d) w"

definition sse_comment :: "sse_io \<Rightarrow> string \<Rightarrow> sse_writer \<Rightarrow> go_error option \<times> sse_writer" where
  "sse_comment io t w = sse_write io (Comment t) w"

definition keepalive_text :: string where "keepalive_text = ''keepalive''"

text \<open>A response written by writeError or writeJSON: the first status stays.\<close>

definition write_reply :: "response \<Rightarrow> sse_writer \<Rightarrow> sse_writer" where
  "write_reply r w = (write_head (rs_code r) (set_headers (rs_headers r) w))\<lparr>sw_out := sw_out w @ [Reply r]\<rparr>"

subsection \<open>A client's reading\<close>

text \<open>
  Lines end in a line feed, a carriage return or both; a field is what precedes the first colon,
  one space after it is dropped, an empty line dispatches what was gathered, a line without a
  field name is a comment, and an unfinished event at the end is discarded.
\<close>

fun next_line :: "string \<Rightarrow> (string \<times> string) option" where
  "next_line [] = None"
| "next_line (c # s) =
     (if c = LF then Some ([], s)
      else if c = CHR 0x0D then Some ([], trim_prefix [LF] s)
      else map_option (\<lambda>(l, r). (c # l, r)) (next_line s))"

lemma next_line_shorter: "next_line s = Some (l, r) \<Longrightarrow> length r < length s"
proof (induction s arbitrary: l)
  case (Cons c s)
  have "length (trim_prefix [LF] s) \<le> length s" by (simp add: trim_prefix_def)
  with Cons show ?case by (fastforce split: if_splits)
qed simp

function sse_lines :: "string \<Rightarrow> string list" where
  "sse_lines s = (case next_line s of None \<Rightarrow> [] | Some (l, r) \<Rightarrow> l # sse_lines r)"
  by pat_completeness auto
termination by (relation "measure length") (auto dest: next_line_shorter)

declare sse_lines.simps [simp del]

definition sse_field :: "string \<Rightarrow> string \<times> string" where
  "sse_field l = (case cut (CHR '':'') l of None \<Rightarrow> (l, []) | Some (f, v) \<Rightarrow> (f, trim_prefix '' '' v))"

fun dispatch :: "string list \<Rightarrow> string \<Rightarrow> string \<Rightarrow> string list \<Rightarrow> (string \<times> string \<times> string) list" where
  "dispatch [] i n d = []"
| "dispatch (l # ls) i n d =
     (if l = [] then
        (if d = [] then dispatch ls i [] [] else (i, n, intercalate [LF] d) # dispatch ls i [] [])
      else let (f, v) = sse_field l
        in if f = ''id'' then dispatch ls v n d
           else if f = ''event'' then dispatch ls i v d
           else if f = ''data'' then dispatch ls i n (d @ [v])
           else dispatch ls i n d)"

definition payload_depth :: nat where "payload_depth = 3"

definition sse_client :: "string \<Rightarrow> (string \<times> string \<times> json option) list" where
  "sse_client s = map (\<lambda>(i, n, d). (i, n, map_option fst (unmarshal payload_depth d))) (dispatch (sse_lines s) [] [] [])"

text \<open>What the agent sends.\<close>

definition log_frame :: "log_line \<Rightarrow> sse_chunk" where
  "log_frame l = Frame (ll_timestamp l) sseEventLog (log_line_json l)"
definition error_frame :: "string \<Rightarrow> sse_chunk" where
  "error_frame msg = Frame [] sseEventError (error_json msg)"
definition snapshot_frame :: "container_state_summary list \<Rightarrow> sse_chunk" where
  "snapshot_frame ss = Frame [] sseEventSnapshot (JArray (map state_json ss))"
definition health_frame :: "container_event \<Rightarrow> sse_chunk" where
  "health_frame e = Frame [] sseEventHealth (event_json e)"

lemmas frame_defs = log_frame_def error_frame_def snapshot_frame_def health_frame_def
lemmas sse_names = sseEventLog_def sseEventError_def sseEventSnapshot_def sseEventHealth_def

fun frames_of :: "sse_chunk list \<Rightarrow> (string \<times> string \<times> json) list" where
  "frames_of [] = []"
| "frames_of (Frame i n d # cs) = (i, n, d) # frames_of cs"
| "frames_of (_ # cs) = frames_of cs"

subsection \<open>The round trip\<close>

abbreviation one_line :: "string \<Rightarrow> bool" where
  "one_line s \<equiv> LF \<notin> set s \<and> CHR 0x0D \<notin> set s"

lemma next_line_one: "one_line l \<Longrightarrow> next_line (l @ LF # r) = Some (l, r)"
  by (induction l) auto

lemma sse_lines_one: "one_line l \<Longrightarrow> sse_lines (l @ LF # r) = l # sse_lines r"
  by (subst sse_lines.simps) (simp add: next_line_one)

fun chunk_ok :: "sse_chunk \<Rightarrow> bool" where
  "chunk_ok (Frame i n d) \<longleftrightarrow> one_line i \<and> one_line n \<and> depth d \<le> payload_depth"
| "chunk_ok (Comment t) \<longleftrightarrow> one_line t"
| "chunk_ok (Torn k c) \<longleftrightarrow> False"
| "chunk_ok (Reply r) \<longleftrightarrow> False"

lemma marshal_one_line: "one_line (marshal d)"
  using marshal_clean by fastforce

lemma sse_field_line:
  "sse_field (CHR ''i'' # CHR ''d'' # CHR '':'' # CHR '' '' # v) = (''id'', v)"
  "sse_field (CHR ''e'' # CHR ''v'' # CHR ''e'' # CHR ''n'' # CHR ''t'' # CHR '':'' # CHR '' '' # v) = (''event'', v)"
  "sse_field (CHR ''d'' # CHR ''a'' # CHR ''t'' # CHR ''a'' # CHR '':'' # CHR '' '' # v) = (''data'', v)"
  "sse_field (CHR '':'' # CHR '' '' # v) = ([], v)"
  by (simp_all add: sse_field_def cut_def trim_prefix_def)

lemma sse_lines_render:
  "chunk_ok (Frame i n d) \<Longrightarrow> sse_lines (render (Frame i n d) @ r) =
     (''id: '' @ i) # (''event: '' @ n) # (''data: '' @ marshal d) # [] # sse_lines r"
  "chunk_ok (Comment t) \<Longrightarrow> sse_lines (render (Comment t) @ r) = ('': '' @ t) # [] # sse_lines r"
  using sse_lines_one [of "''id: '' @ i" "''event: '' @ n @ LF # ''data: '' @ marshal d @ LF # LF # r"]
    sse_lines_one [of "''event: '' @ n" "''data: '' @ marshal d @ LF # LF # r"]
    sse_lines_one [of "''data: '' @ marshal d" "LF # r"] sse_lines_one [of "[]" r]
    sse_lines_one [of "'': '' @ t" "LF # r"] marshal_one_line [of d]
  by simp_all

lemma dispatch_chunks:
  "list_all chunk_ok cs \<Longrightarrow>
   dispatch (sse_lines (concat (map render cs))) i [] [] = map (\<lambda>(i, n, d). (i, n, marshal d)) (frames_of cs)"
proof (induction cs arbitrary: i)
  case Nil
  then show ?case by (simp add: sse_lines.simps)
next
  case (Cons c cs)
  then have c: "chunk_ok c" and IH: "dispatch (sse_lines (concat (map render cs))) j [] [] =
      map (\<lambda>(i, n, d). (i, n, marshal d)) (frames_of cs)" for j
    by auto
  show ?case
  proof (cases c)
    case (Frame j n d)
    with c IH show ?thesis
      using sse_lines_render(1) [of j n d "concat (map render cs)"]
      by (simp add: sse_field_line del: render.simps)
  next
    case (Comment t)
    with c IH show ?thesis
      using sse_lines_render(2) [of t "concat (map render cs)"]
      by (simp add: sse_field_line del: render.simps)
  qed (use c in auto)
qed

text \<open>A timestamp the log splitter recognised is one line: it has no byte below the space.\<close>

definition printable :: "string \<Rightarrow> bool" where
  "printable s \<longleftrightarrow> (\<forall>c\<in>set s. 0x20 \<le> byte_of c)"

lemma printable_simps [simp]:
  "printable []" "printable (c # s) \<longleftrightarrow> 0x20 \<le> byte_of c \<and> printable s"
  "printable (s @ t) \<longleftrightarrow> printable s \<and> printable t"
  by (auto simp: printable_def)

lemma printable_one_line: "printable s \<Longrightarrow> one_line s"
  by (auto simp: printable_def)

lemma digit_printable: "is_digit c \<Longrightarrow> 0x20 \<le> byte_of c"
  by (simp add: is_digit_def)

lemma num2_printable: "num2 s = Some (v, r) \<Longrightarrow> printable s \<longleftrightarrow> printable r"
  by (auto simp: num2_def digit_printable split: list.splits if_splits)

lemma num1or2_printable: "num1or2 s = Some (v, r) \<Longrightarrow> printable s \<longleftrightarrow> printable r"
  by (auto simp: num1or2_def digit_printable dest: num2_printable split: option.splits list.splits if_splits)

lemma expect_printable: "expect c s = Some r \<Longrightarrow> 0x20 \<le> byte_of c \<Longrightarrow> printable s \<longleftrightarrow> printable r"
  by (auto simp: expect_def split: list.splits if_splits)

lemma digits_printable: "list_all is_digit s \<Longrightarrow> printable s"
  by (auto simp: printable_def list_all_iff digit_printable)

lemma skip_fraction_printable: "printable (skip_fraction s) \<Longrightarrow> printable s"
proof -
  assume a: "printable (skip_fraction s)"
  have "printable (takeWhile is_digit u)" for u
    by (rule digits_printable) (auto simp: list_all_iff dest: set_takeWhileD)
  then have "printable (dropWhile is_digit u) \<Longrightarrow> printable u" for u
    by (metis printable_simps(3) takeWhile_dropWhile_id)
  note skipped = this
  show ?thesis
  proof (cases "\<exists>c d r. s = c # d # r \<and> (c = CHR ''.'' \<or> c = CHR '','') \<and> is_digit d")
    case True
    then obtain c d r where s: "s = c # d # r" "c = CHR ''.'' \<or> c = CHR '',''" "is_digit d" by blast
    with a have "printable (dropWhile is_digit (d # r))" by (auto simp: skip_fraction_def)
    then have "printable (d # r)" by (rule skipped)
    with s show ?thesis by auto
  next
    case False
    then have "skip_fraction s = s" by (auto simp: skip_fraction_def split: list.splits)
    with a show ?thesis by simp
  qed
qed

lemma six_chars: "length s = 6 \<Longrightarrow> \<exists>a b c d e f. s = [a, b, c, d, e, f]"
  by (auto simp: eval_nat_numeral length_Suc_conv)

lemma is_zone_printable: "is_zone s \<Longrightarrow> printable s"
proof -
  assume z: "is_zone s"
  show ?thesis
  proof (cases "s = ''Z''")
    case False
    with z have len: "length s = 6" and sign: "hd s \<in> {CHR ''+'', CHR ''-''}" and colon: "s ! 3 = CHR '':''"
      and nums: "num2 (drop 1 s) \<noteq> None" "num2 (drop 4 s) \<noteq> None"
      by (auto simp: is_zone_def split: option.splits)
    obtain a b c d e f where s: "s = [a, b, c, d, e, f]"
      using six_chars [OF len] by blast
    with nums have "is_digit b" "is_digit c" "is_digit e" "is_digit f"
      by (auto simp: num2_def split: if_splits)
    with sign colon show ?thesis by (auto simp: s digit_printable)
  qed simp
qed

lemma parse_date_printable: "parse_date s = Some r \<Longrightarrow> printable s \<longleftrightarrow> printable r"
proof -
  assume p: "parse_date s = Some r"
  then have yr: "list_all is_digit (take 4 s)" by (auto simp: parse_date_def Let_def split: if_splits)
  from p obtain s1 m s2 s3 d where "expect (CHR ''-'') (drop 4 s) = Some s1" "num2 s1 = Some (m, s2)"
    "expect (CHR ''-'') s2 = Some s3" "num2 s3 = Some (d, r)"
    by (auto simp: parse_date_def Let_def Option.bind_eq_Some_conv split: if_splits)
  then have "printable (drop 4 s) \<longleftrightarrow> printable r"
    by (auto simp: expect_printable num2_printable)
  with digits_printable [OF yr] show ?thesis
    by (metis append_take_drop_id printable_simps(3))
qed

lemma parse_clock_printable: "parse_clock s = Some r \<Longrightarrow> printable s \<longleftrightarrow> printable r"
proof -
  assume p: "parse_clock s = Some r"
  from p obtain h s1 s2 m s3 s4 sec where "num1or2 s = Some (h, s1)" "expect (CHR '':'') s1 = Some s2"
    "num2 s2 = Some (m, s3)" "expect (CHR '':'') s3 = Some s4" "num2 s4 = Some (sec, r)"
    by (auto simp: parse_clock_def Option.bind_eq_Some_conv split: if_splits)
  then show ?thesis by (auto simp: expect_printable num2_printable num1or2_printable)
qed

lemma timestamp_printable: "is_rfc3339nano s \<Longrightarrow> printable s"
proof -
  assume "is_rfc3339nano s"
  then obtain s1 s2 r where p: "parse_date s = Some s1" "expect (CHR ''T'') s1 = Some s2" "parse_clock s2 = Some r"
    and z: "is_zone (skip_fraction r)"
    by (auto simp: is_rfc3339nano_def Option.bind_eq_Some_conv split: option.splits)
  from z have "printable r" by (rule skip_fraction_printable [OF is_zone_printable])
  with p show ?thesis by (simp add: parse_date_printable expect_printable parse_clock_printable)
qed

lemma mk_line_timestamp: "printable (ll_timestamp (mk_line st b t))"
  by (auto simp: mk_line_def extractTimestamp_def Let_def intro: timestamp_printable
      split: option.splits prod.splits if_splits)

text \<open>The chunks of a stream: frames of split log lines, and the fixed kinds.\<close>

inductive agent_chunk :: "sse_chunk \<Rightarrow> bool" where
  log: "agent_chunk (log_frame (mk_line st bytes truncated))"
| error: "agent_chunk (error_frame msg)"
| snapshot: "agent_chunk (snapshot_frame states)"
| health: "agent_chunk (health_frame event)"
| comment: "t \<in> {''keepalive'', ''heartbeat''} \<Longrightarrow> agent_chunk (Comment t)"

lemma depth_states: "depth (JArray (map state_json ss)) \<le> 3"
  by (induction ss) (auto simp: state_json_def)

lemma agent_chunk_ok: "agent_chunk c \<Longrightarrow> chunk_ok c"
proof (induction rule: agent_chunk.induct)
  case (log st bytes truncated)
  show ?case
    using printable_one_line [OF mk_line_timestamp]
    by (simp add: log_frame_def log_line_json_def sse_names payload_depth_def)
next
  case (snapshot states)
  show ?case using depth_states [of states] by (simp add: snapshot_frame_def sse_names payload_depth_def)
qed (auto simp: frame_defs error_json_def event_json_def omit_empty_def sse_names payload_depth_def)



end
