(* ===== verification/Streams.thy ===== *)
theory Streams
  imports Sse Api StreamBudget
begin

section \<open>What the two streaming handlers share (internal/httpapi: logs.go, events.go, clientgone.go)\<close>

text \<open>
  A streaming handler is two goroutines on one response: the handler itself and a heartbeat,
  which writes a comment at each tick and looks up whether the device is still allowed.  They
  share the writer, a \<open>sync.Once\<close> around the terminal frame and the context.  One atomic
  action is one step: a writer operation (it holds the mutex), a look-up, a cancellation.
\<close>

subsection \<open>Has the client gone? (clientgone.go)\<close>

definition has_infix :: "string \<Rightarrow> string \<Rightarrow> bool" where
  "has_infix p s \<longleftrightarrow> list_ex (\<lambda>k. take (length p) (drop k s) = p) [0..<Suc (length s)]"

definition isClientGone :: "bool \<Rightarrow> go_error option \<Rightarrow> bool" where
  "isClientGone ctx_done err =
     (case err of
        None \<Rightarrow> False
      | Some e \<Rightarrow>
          if ctx_done \<or> ge_canceled e then True
          else if ge_closed e then True
          else has_infix ''client disconnected'' (ge_text e) \<or> has_infix ''http2: stream closed'' (ge_text e))"

subsection \<open>Is the device still allowed? (logs.go)\<close>

definition streamRevoked :: "store_env \<Rightarrow> string \<Rightarrow> db \<Rightarrow> bool" where
  "streamRevoked se dev d =
     (case IsDeviceRevoked se dev d of
        Inr revoked \<Rightarrow> revoked
      | Inl e \<Rightarrow> e = ErrDeviceNotFound)"

subsection \<open>A failure before the stream\<close>

text \<open>
  The response does not depend on the audit entry; a read has none.  No call of a stream ends in
  one of the errors of the lifecycle operations.
\<close>

definition docker_response :: "docker_error \<Rightarrow> response" where
  "docker_response e = fst (writeDockerError e \<lparr>cx_vars = [], cx_device = None, cx_audit = None\<rparr>)"

definition protective :: "docker_error \<Rightarrow> bool" where
  "protective e \<longleftrightarrow> e \<in> {ErrSelfProtected, ErrProtectedContainer, ErrSelfUnknown}"

lemma not_protective [simp]: "\<not> protective (classify e)" "\<not> protective LogStreamFailure"
  by (simp_all add: protective_def classify_def)

subsection \<open>The shared state\<close>

datatype beat = BeatOff | BeatWait | BeatCheck | BeatTell | BeatCancel | BeatGone

text \<open>
  \<open>st_gone\<close> is the request's own context, cancelled when the peer leaves or the server shuts
  down; the handler's context is derived from it and has a cancel function of its own.
\<close>

record stream =
  st_w :: sse_writer
  st_once :: bool
  st_gone :: bool
  st_cancelled :: bool
  st_beat :: beat
  st_ticker :: bool
  st_ticked :: bool

definition ctx_done :: "stream \<Rightarrow> bool" where
  "ctx_done st \<longleftrightarrow> st_gone st \<or> st_cancelled st"

definition new_stream :: "bool \<Rightarrow> stream" where
  "new_stream gone = \<lparr>st_w = newSSEWriter, st_once = False, st_gone = gone, st_cancelled = False,
     st_beat = BeatOff, st_ticker = False, st_ticked = False\<rparr>"

definition launch_beat :: "stream \<Rightarrow> stream" where
  "launch_beat st = st\<lparr>st_beat := BeatWait, st_ticker := True\<rparr>"

text \<open>
  The terminal frame, through the \<open>Once\<close>.  The event stream's sender asks first whether the
  request is still there; the log stream's does not.
\<close>

definition send_terminal :: "bool \<Rightarrow> sse_io \<Rightarrow> string \<Rightarrow> stream \<Rightarrow> stream" where
  "send_terminal asks io msg st =
     (if st_once st then st
      else if asks \<and> st_gone st then st\<lparr>st_once := True\<rparr>
      else st\<lparr>st_once := True, st_w := snd (sse_event io [] sseEventError (error_json msg) (st_w st))\<rparr>)"

subsection \<open>The heartbeat goroutine\<close>

datatype beat_label =
    PeerLeaves | TickerFires | BeatStops | BeatTicks sse_io | BeatLooks store_env db
  | BeatTells sse_io | BeatCancels

fun beat_step :: "string \<Rightarrow> bool \<Rightarrow> string \<Rightarrow> beat_label \<Rightarrow> stream \<Rightarrow> stream option" where
  "beat_step comment asks dev PeerLeaves st = Some (st\<lparr>st_gone := True\<rparr>)"
| "beat_step comment asks dev TickerFires st =
     (if st_ticker st then Some (st\<lparr>st_ticked := True\<rparr>) else None)"
| "beat_step comment asks dev BeatStops st =
     (if st_beat st = BeatWait \<and> ctx_done st then Some (st\<lparr>st_beat := BeatGone\<rparr>) else None)"
| "beat_step comment asks dev (BeatTicks io) st =
     (if st_beat st = BeatWait \<and> st_ticked st
      then Some (st\<lparr>st_ticked := False, st_w := snd (sse_comment io comment (st_w st)), st_beat := BeatCheck\<rparr>)
      else None)"
| "beat_step comment asks dev (BeatLooks se d) st =
     (if st_beat st = BeatCheck
      then Some (st\<lparr>st_beat := (if streamRevoked se dev d then BeatTell else BeatWait)\<rparr>) else None)"
| "beat_step comment asks dev (BeatTells io) st =
     (if st_beat st = BeatTell
      then Some ((send_terminal asks io msgStreamRevoked st)\<lparr>st_beat := BeatCancel\<rparr>) else None)"
| "beat_step comment asks dev BeatCancels st =
     (if st_beat st = BeatCancel then Some (st\<lparr>st_cancelled := True, st_beat := BeatGone\<rparr>) else None)"

subsection \<open>Executions\<close>

inductive execution :: "('l \<Rightarrow> 's \<Rightarrow> 's option) \<Rightarrow> 's \<Rightarrow> 'l list \<Rightarrow> 's \<Rightarrow> bool" for step where
  rest: "execution step s [] s"
| move: "step l s = Some s' \<Longrightarrow> execution step s' ls s'' \<Longrightarrow> execution step s (l # ls) s''"

inductive_simps execution_Nil [simp]: "execution step s [] s'"
inductive_simps execution_Cons [simp]: "execution step s (l # ls) s'"

lemma execution_append:
  "execution step s (ls @ ls') s'' \<longleftrightarrow> (\<exists>s'. execution step s ls s' \<and> execution step s' ls' s'')"
  by (induction ls arbitrary: s) auto

lemma execution_invariant:
  assumes "execution step s ls s'" and "P s" and "\<And>l t t'. step l t = Some t' \<Longrightarrow> P t \<Longrightarrow> P t'"
  shows "P s'"
  using assms(1,2) by (induction rule: execution.induct) (auto intro: assms(3))

subsection \<open>The changes a streaming handler makes\<close>

inductive stream_move :: "string \<Rightarrow> bool \<Rightarrow> string \<Rightarrow> stream \<Rightarrow> stream \<Rightarrow> bool"
  for comment asks dev where
  beat: "beat_step comment asks dev l st = Some st' \<Longrightarrow> stream_move comment asks dev st st'"
| send: "n \<noteq> sseEventError \<Longrightarrow>
    stream_move comment asks dev st (st\<lparr>st_w := snd (sse_event io i n d (st_w st))\<rparr>)"
| terminal: "stream_move comment asks dev st (send_terminal asks io msg st)"
| reply: "r = docker_response e \<Longrightarrow> \<not> protective e \<Longrightarrow> stream_move comment asks dev st (st\<lparr>st_w := write_reply r (st_w st)\<rparr>)"
| cancel: "stream_move comment asks dev st (st\<lparr>st_cancelled := True\<rparr>)"
| launch: "st_beat st = BeatOff \<Longrightarrow> stream_move comment asks dev st (launch_beat st)"
| stop_ticker: "stream_move comment asks dev st (st\<lparr>st_ticker := False\<rparr>)"
| stay: "stream_move comment asks dev st st"

lemma stream_move_event:
  "sse_event io i n d (st_w st) = (err, w) \<Longrightarrow> n \<noteq> sseEventError \<Longrightarrow>
    stream_move comment asks dev st (st\<lparr>st_w := w\<rparr>)"
  using stream_move.send [of n comment asks dev st io i d] by simp

text \<open>Terminal frames, the half-written ones included.\<close>

fun is_terminal :: "sse_chunk \<Rightarrow> bool" where
  "is_terminal (Frame i n d) \<longleftrightarrow> n = sseEventError"
| "is_terminal (Torn k c) \<longleftrightarrow> is_terminal c"
| "is_terminal _ \<longleftrightarrow> False"

definition terminals :: "sse_writer \<Rightarrow> nat" where
  "terminals w = length (filter is_terminal (sw_out w))"

definition stream_ok :: "stream \<Rightarrow> bool" where
  "stream_ok st \<longleftrightarrow> terminals (st_w st) \<le> (if st_once st then 1 else 0) \<and>
     (st_beat st = BeatCancel \<longrightarrow> st_once st) \<and> (st_beat st = BeatGone \<longrightarrow> ctx_done st)"

lemma sse_write_out:
  "sw_out (snd (sse_write io c w)) \<in> {sw_out w, sw_out w @ [c]} \<union> {sw_out w @ [Torn k c] |k. True}"
  by (auto simp: sse_write_def startLocked_def Let_def split: option.splits prod.splits)

lemma terminals_write:
  "terminals (snd (sse_write io c w)) \<le> terminals w + (if is_terminal c then 1 else 0)"
  using sse_write_out [of io c w] by (auto simp: terminals_def)

lemma terminals_simps [simp]:
  "n \<noteq> sseEventError \<Longrightarrow> terminals (snd (sse_event io i n d w)) = terminals w"
  "terminals (snd (sse_comment io t w)) = terminals w"
  "terminals (write_reply r w) = terminals w"
  using sse_write_out [of io "Frame i n d" w] sse_write_out [of io "Comment t" w]
  by (auto simp: sse_event_def sse_comment_def write_reply_def terminals_def)

lemma terminals_error: "terminals (snd (sse_event io i n d w)) \<le> Suc (terminals w)"
  using terminals_write [of io "Frame i n d" w] by (auto simp: sse_event_def split: if_splits)

lemma send_terminal_fields [simp]:
  "st_once (send_terminal asks io msg st)"
  "st_beat (send_terminal asks io msg st) = st_beat st"
  "ctx_done (send_terminal asks io msg st) = ctx_done st"
  "st_gone (send_terminal asks io msg st) = st_gone st"
  "st_cancelled (send_terminal asks io msg st) = st_cancelled st"
  "st_ticker (send_terminal asks io msg st) = st_ticker st"
  "st_ticked (send_terminal asks io msg st) = st_ticked st"
  by (simp_all add: send_terminal_def ctx_done_def)

lemma send_terminal_terminals:
  "stream_ok st \<Longrightarrow> terminals (st_w (send_terminal asks io msg st)) \<le> 1"
  using terminals_error [of io "[]" sseEventError "error_json msg" "st_w st"]
  by (auto simp: send_terminal_def stream_ok_def split: if_splits)

lemma beat_step_ok:
  assumes "beat_step comment asks dev l st = Some st'" and "stream_ok st"
  shows "stream_ok st'"
  using assms send_terminal_terminals [OF assms(2)]
  by (cases l) (auto simp: stream_ok_def ctx_done_def split: if_splits)

lemma stream_move_ok:
  assumes "stream_move comment asks dev st st'" and "stream_ok st"
  shows "stream_ok st'"
  using assms(1)
proof cases
  case (beat l)
  then show ?thesis using assms(2) by (rule beat_step_ok)
next
  case (terminal io msg)
  with send_terminal_terminals [OF assms(2), of asks io msg] assms(2) show ?thesis
    by (auto simp: stream_ok_def)
qed (use assms(2) in \<open>auto simp: stream_ok_def ctx_done_def launch_beat_def\<close>)

text \<open>
  What the writer can have sent.  Nothing, with the headers of a stream set or not; the head of
  a stream, in which an error reply may follow; or an error reply as the whole response.
\<close>

abbreviation stream_head :: "(string, string) gomap" where
  "stream_head \<equiv> fold (\<lambda>(k, v). gm_put k v) sse_headers []"

definition writer_ok :: "sse_writer \<Rightarrow> bool" where
  "writer_ok w \<longleftrightarrow>
     (case sw_status w of
        None \<Rightarrow> sw_out w = [] \<and> \<not> sw_started w \<and> sw_headers w \<in> {[], stream_head}
      | Some c \<Rightarrow>
          c = 200 \<and> sw_sent w = stream_head \<and>
            (\<forall>r. Reply r \<in> set (sw_out w) \<longrightarrow> (\<exists>e. r = docker_response e \<and> \<not> protective e)) \<or>
          (\<exists>e cs h. sw_out w = Reply (docker_response e) # cs \<and> \<not> protective e \<and> c = rs_code (docker_response e) \<and>
             h \<in> {[], stream_head} \<and> sw_sent w = fold (\<lambda>(k, v). gm_put k v) (rs_headers (docker_response e)) h))"

lemma stream_head_again: "h \<in> {[], stream_head} \<Longrightarrow> fold (\<lambda>(k, v). gm_put k v) sse_headers h = stream_head"
  by (auto simp: sse_headers_def)

lemma writer_ok_new: "writer_ok newSSEWriter"
  by (simp add: writer_ok_def newSSEWriter_def)

lemma writer_ok_add:
  assumes "writer_ok w" and "sw_status w = Some k" and "sw_status w' = Some k" and "sw_sent w' = sw_sent w"
    and "sw_out w' = sw_out w @ cs" and "\<And>r. Reply r \<in> set cs \<Longrightarrow> \<exists>e. r = docker_response e \<and> \<not> protective e"
  shows "writer_ok w'"
  using assms by (fastforce simp: writer_ok_def)

lemma writer_ok_start:
  assumes "writer_ok w"
  shows "writer_ok (snd (startLocked io w))"
proof (cases "sw_status w")
  case None
  with assms stream_head_again [of "sw_headers w"] show ?thesis
    by (auto simp: writer_ok_def startLocked_def write_head_def set_headers_def split: option.split)
next
  case (Some c)
  then show ?thesis
    by (intro writer_ok_add [OF assms Some, where cs = "[]"]) (simp_all add: startLocked_def write_head_def split: option.split)
qed

lemma writer_ok_write:
  assumes "writer_ok w" and "\<forall>r. c \<noteq> Reply r"
  shows "writer_ok (snd (sse_write io c w))"
proof -
  obtain err w1 where s: "(if sw_started w then (None, w) else startLocked io w) = (err, w1)" by fastforce
  have w1: "writer_ok w1" using s assms(1) writer_ok_start [OF assms(1), of io] by (auto split: if_splits)
  have "sw_started w1" if "err = None"
    using s that by (auto simp: startLocked_def split: if_splits option.splits)
  with w1 obtain k where k: "sw_status w1 = Some k" if "err = None"
    by (cases "sw_status w1") (auto simp: writer_ok_def)
  show ?thesis
    using s w1 k assms(2) by (auto simp: sse_write_def split: option.split intro!: writer_ok_add [OF w1])
qed

lemma writer_ok_reply:
  assumes "writer_ok w" and "\<not> protective e"
  shows "writer_ok (write_reply (docker_response e) w)"
proof (cases "sw_status w")
  case None
  with assms show ?thesis
    by (auto simp: writer_ok_def write_reply_def write_head_def set_headers_def)
next
  case (Some c)
  then show ?thesis
    by (intro writer_ok_add [OF assms(1) Some, where cs = "[Reply (docker_response e)]"])
      (use assms(2) in \<open>auto simp: write_reply_def write_head_def\<close>)
qed

lemma writer_ok_move:
  assumes "stream_move comment asks dev st st'" and "writer_ok (st_w st)"
  shows "writer_ok (st_w st')"
proof -
  have event: "writer_ok (snd (sse_event io i n d (st_w st)))" "writer_ok (snd (sse_comment io t (st_w st)))" for io i n d t
    unfolding sse_event_def sse_comment_def using assms(2) by (simp_all add: writer_ok_write)
  have terminal: "writer_ok (st_w (send_terminal asks io msg st))" for io msg
    using event assms(2) by (simp add: send_terminal_def)
  from assms(1) show ?thesis
  proof cases
    case (beat l)
    with assms(2) event terminal show ?thesis by (cases l) (auto split: if_splits)
  qed (use assms(2) event terminal in \<open>auto simp: writer_ok_reply launch_beat_def\<close>)
qed

definition condemned :: "stream \<Rightarrow> bool" where
  "condemned st \<longleftrightarrow> st_beat st = BeatTell \<or> st_beat st = BeatCancel \<and> st_once st \<or>
     st_beat st = BeatGone \<and> st_once st \<and> st_cancelled st"

lemma condemned_move:
  assumes "stream_move comment asks dev st st'" and "condemned st"
  shows "condemned st'"
  using assms(1)
proof cases
  case (beat l)
  with assms(2) show ?thesis by (cases l) (auto simp: condemned_def split: if_splits)
qed (use assms(2) in \<open>auto simp: condemned_def launch_beat_def\<close>)

text \<open>What is left for a condemned stream: the two steps of the heartbeat, each possible at once.\<close>

definition ending :: "bool \<Rightarrow> stream \<Rightarrow> (beat_label \<Rightarrow> stream option) \<Rightarrow> bool" where
  "ending asks st next \<longleftrightarrow>
     st_beat st = BeatGone \<and> st_once st \<and> st_cancelled st \<or>
     (\<exists>st'. next BeatCancels = Some st' \<and> st_once st \<and> st_cancelled st') \<or>
     (\<exists>st'. next (BeatTells smooth) = Some st' \<and> st_beat st' = BeatCancel \<and>
        (\<not> st_once st \<and> (asks \<longrightarrow> \<not> st_gone st) \<longrightarrow>
           List.last (sw_out (st_w st')) = error_frame msgStreamRevoked))"

text \<open>The look-up that finds the device revoked, or its row deleted, condemns the stream.\<close>

lemma revoked_look:
  assumes "find_device d dev = None \<or> (\<exists>r. find_device d dev = Some r \<and> dr_revoked_at r \<noteq> None)"
    and "\<not> se_fails se 0"
  shows "streamRevoked se dev d"
  using assms by (auto simp: streamRevoked_def IsDeviceRevoked_def)

lemma look_condemns:
  assumes "streamRevoked se dev d" and "beat_step comment asks dev (BeatLooks se d) st = Some st'"
  shows "condemned st'"
  using assms by (auto simp: condemned_def split: if_splits)

lemma told:
  assumes "beat_step comment asks dev (BeatTells smooth) st = Some st'" and "\<not> st_once st" and "asks \<longrightarrow> \<not> st_gone st"
  shows "List.last (sw_out (st_w st')) = error_frame msgStreamRevoked"
  using assms
  by (auto simp: send_terminal_def sse_event_def sse_write_def startLocked_def smooth_def error_frame_def split: if_splits)

lemma condemned_ending: "condemned st \<Longrightarrow> ending asks st (\<lambda>b. beat_step comment asks dev b st)"
  using told [of comment asks dev st] by (auto simp: condemned_def ending_def simp del: beat_step.simps(6))
    (auto simp: ending_def)

text \<open>The heartbeat's share of the rank, and that it can always go on once the context is done.\<close>

fun beat_internal :: "beat_label \<Rightarrow> bool" where
  "beat_internal PeerLeaves \<longleftrightarrow> False"
| "beat_internal TickerFires \<longleftrightarrow> False"
| "beat_internal _ \<longleftrightarrow> True"

fun beat_rank :: "beat \<Rightarrow> nat" where
  "beat_rank BeatOff = 2"
| "beat_rank BeatWait = 1"
| "beat_rank BeatCheck = 4"
| "beat_rank BeatTell = 3"
| "beat_rank BeatCancel = 2"
| "beat_rank BeatGone = 0"

definition stream_rank :: "stream \<Rightarrow> nat" where
  "stream_rank st = beat_rank (st_beat st) + (if st_ticked st then 4 else 0)"

lemma send_terminal_rank [simp]: "stream_rank (send_terminal asks io msg st) = stream_rank st"
  by (simp add: stream_rank_def)

definition beat_cost :: "beat_label \<Rightarrow> nat" where
  "beat_cost b = (if b = TickerFires then 4 else 0)"

lemma beat_step_rank:
  "beat_step comment asks dev b st = Some st' \<Longrightarrow>
   stream_rank st' + (if beat_internal b then 1 else 0) \<le> stream_rank st + beat_cost b"
  by (cases b) (auto simp: stream_rank_def beat_cost_def split: if_splits)

lemma beat_step_control:
  "beat_step comment asks dev b st = Some st' \<Longrightarrow>
   (st_beat st \<noteq> BeatOff \<longrightarrow> st_beat st' \<noteq> BeatOff) \<and> st_ticker st' = st_ticker st \<and>
   (st_cancelled st \<longrightarrow> st_cancelled st') \<and>
   (st_beat st = BeatGone \<longrightarrow> st_beat st' = BeatGone \<and> st_w st' = st_w st)"
  by (cases b) (auto split: if_splits)

lemma beat_progress:
  assumes "ctx_done st" and "st_beat st \<notin> {BeatOff, BeatGone}"
  shows "\<exists>b st'. beat_internal b \<and> beat_step comment asks dev b st = Some st'"
proof (cases "st_beat st")
  case BeatWait
  with assms show ?thesis by (intro exI [of _ BeatStops]) simp
next
  case BeatCheck
  with assms show ?thesis by (intro exI [of _ "BeatLooks undefined undefined"]) simp
next
  case BeatTell
  with assms show ?thesis by (intro exI [of _ "BeatTells smooth"]) simp
next
  case BeatCancel
  with assms show ?thesis by (intro exI [of _ BeatCancels]) simp
qed (use assms in auto)

text \<open>
  The contract of a streaming handler: every step is one of these changes to the stream it
  contains.  What follows from it holds of both.
\<close>

locale streaming =
  fixes step :: "'l \<Rightarrow> 's \<Rightarrow> 's option" and view :: "'s \<Rightarrow> stream" and good :: "'s \<Rightarrow> bool"
    and comment :: string and asks :: bool and dev :: string
  assumes moves: "step l s = Some s' \<Longrightarrow> good s \<Longrightarrow> stream_move comment asks dev (view s) (view s')"
    and keeps: "step l s = Some s' \<Longrightarrow> good s \<Longrightarrow> good s'"
begin

lemma run_good: "execution step s ls s' \<Longrightarrow> good s \<Longrightarrow> good s'"
  by (erule execution_invariant) (auto intro: keeps)

lemma run_moves:
  assumes "execution step s ls s'" and "good s" and "P (view s)"
    and "\<And>st st'. stream_move comment asks dev st st' \<Longrightarrow> P st \<Longrightarrow> P st'"
  shows "P (view s')"
  using assms(1-3)
proof (induction rule: execution.induct)
  case (move l s s' ls s'')
  show ?case
  proof (rule move.IH)
    show "good s'" using move.hyps(1) move.prems(1) by (rule keeps)
    show "P (view s')" using moves [OF move.hyps(1) move.prems(1)] move.prems(2) by (rule assms(4))
  qed
qed

lemma one_terminal:
  assumes "execution step s ls s'" and "good s" and "stream_ok (view s)"
  shows "terminals (st_w (view s')) \<le> 1"
proof -
  have "stream_ok (view s')" using assms by (rule run_moves) (rule stream_move_ok)
  then show ?thesis by (auto simp: stream_ok_def split: if_splits)
qed

text \<open>Once the heartbeat has found the device revoked it never waits again.\<close>

lemma stays_condemned:
  "execution step s ls s' \<Longrightarrow> good s \<Longrightarrow> condemned (view s) \<Longrightarrow> condemned (view s')"
  by (erule run_moves) (auto dest: condemned_move)

lemma condemned_from:
  assumes "execution step s (ls @ l # ls') s'" and "good s"
    and "\<And>t t'. step l t = Some t' \<Longrightarrow> condemned (view t')"
  shows "condemned (view s')"
proof -
  from assms(1) obtain t t' where t: "execution step s ls t" "step l t = Some t'" "execution step t' ls' s'"
    by (auto simp: execution_append)
  have "good t" using t(1) assms(2) by (rule run_good)
  with t(2) have "good t'" by (rule keeps)
  with t(3) show ?thesis using assms(3) [OF t(2)] by (rule stays_condemned)
qed

end

text \<open>
  A streaming handler whose internal steps lower a rank, up to what steps of the environment
  cost: it makes no more internal steps than its rank and those costs.
\<close>

locale unwinding = streaming step view good comment asks dev
  for step :: "'l \<Rightarrow> 's \<Rightarrow> 's option" and view :: "'s \<Rightarrow> stream" and good :: "'s \<Rightarrow> bool"
    and comment :: string and asks :: bool and dev :: string +
  fixes internal :: "'l \<Rightarrow> bool" and cost :: "'l \<Rightarrow> nat" and rank :: "'s \<Rightarrow> nat" and returned :: "'s \<Rightarrow> bool"
  assumes step_rank: "step l s = Some s' \<Longrightarrow> good s \<Longrightarrow>
      rank s' + (if internal l then 1 else 0) \<le> rank s + cost l"
    and step_returned: "step l s = Some s' \<Longrightarrow> good s \<Longrightarrow> returned s \<Longrightarrow>
      returned s' \<and> st_w (view s') = st_w (view s)"
begin

lemma run_rank:
  "execution step s ls s' \<Longrightarrow> good s \<Longrightarrow>
    rank s' + length (filter internal ls) \<le> rank s + sum_list (map cost ls)"
proof (induction rule: execution.induct)
  case (move l s s' ls s'')
  with step_rank [of l s s'] keeps [of l s s'] show ?case by (auto split: if_splits)
qed simp

lemma run_returned:
  "execution step s ls s' \<Longrightarrow> good s \<Longrightarrow> returned s \<Longrightarrow> returned s' \<and> st_w (view s') = st_w (view s)"
proof (induction rule: execution.induct)
  case (move l s s' ls s'')
  with step_returned [of l s s'] keeps [of l s s'] show ?case by auto
qed simp

end

end
