(* ===== verification/LogStream.thy ===== *)
theory LogStream
  imports Streams Guarantees
begin

section \<open>The live log stream (internal/httpapi/logs.go)\<close>

text \<open>
  \<open>handleStreamContainerLogs\<close>: what it decides before the stream, and then the handler and its
  keepalive goroutine in every interleaving.  The Docker client's side of the stream is whatever
  lines it emits and whatever it returns, at any moment; the error of a failed \<open>emit\<close> comes
  back from it unchanged.
\<close>

definition maxConcurrentStreams :: int where "maxConcurrentStreams = 8"
definition maxStreamsPerDevice :: int where "maxStreamsPerDevice = 3"
definition msgTooManyStreams :: string where "msgTooManyStreams = ''too many concurrent log streams''"
definition msgTooManyDeviceStreams :: string where
  "msgTooManyDeviceStreams = ''too many concurrent log streams for this device''"

text \<open>Up to the acquired slot: a response at once, or the device, the reference and the options.\<close>

definition openLogStream ::
  "('w, 'l) server \<Rightarrow> request \<Rightarrow> ctx \<Rightarrow> streamBudget \<Rightarrow> (response + string \<times> string \<times> log_request) \<times> streamBudget" where
  "openLogStream sv rq cx b =
     (case sv_docker sv of
        None \<Rightarrow> (Inl (writeError 502 msgEngineUnavailable), b)
      | Some c \<Rightarrow>
     (case sinceParam rq of
        None \<Rightarrow> (Inl (writeError 400 msgInvalidSince), b)
      | Some since \<Rightarrow>
     (case cx_device cx of
        None \<Rightarrow> (Inl (writeError 500 ''internal error''), b)
      | Some dv \<Rightarrow>
     (case stream_acquire b (dev_id dv) of
        (streamDeviceFull, b') \<Rightarrow> (Inl (writeError 503 msgTooManyDeviceStreams), b')
      | (streamHostFull, b') \<Rightarrow> (Inl (writeError 503 msgTooManyStreams), b')
      | (streamGranted, b') \<Rightarrow>
          (Inr (dev_id dv, pathValue ''id'' cx,
             \<lparr>lq_tail = tailParam rq defaultStreamTail, lq_since = since\<rparr>), b')))))"

subsection \<open>The handler\<close>

text \<open>
  Where the handler is: in StreamContainerLogs; back from it with an error; about to reply, to
  judge the error or to send the terminal frame; and in its deferred calls, which run last
  registered first: stop the ticker, cancel, wait for the goroutine, release the slot.
\<close>

datatype log_pc =
    LStream | LEnded go_error | LReply go_error | LJudge go_error | LTell
  | LStopTicker | LCancel | LWait | LRelease | LDone

record log_stream =
  lg_st :: stream
  lg_pc :: log_pc

definition log_start :: "bool \<Rightarrow> log_stream" where
  "log_start gone = \<lparr>lg_st = launch_beat (new_stream gone), lg_pc = LStream\<rparr>"

datatype log_label =
    LBeat beat_label | LEmit log_line sse_io | LEngineEnds "go_error option" | LMain sse_io

fun log_main :: "sse_io \<Rightarrow> log_stream \<Rightarrow> log_stream option" where
  "log_main io \<lparr>lg_st = st, lg_pc = pc\<rparr> =
     (case pc of
        LStream \<Rightarrow> None
      | LEnded e \<Rightarrow> Some \<lparr>lg_st = st, lg_pc = (if sw_started (st_w st) then LJudge e else LReply e)\<rparr>
      | LReply e \<Rightarrow>
          Some \<lparr>lg_st = st\<lparr>st_w := write_reply (docker_response (ge_docker e)) (st_w st)\<rparr>, lg_pc = LStopTicker\<rparr>
      | LJudge e \<Rightarrow> Some \<lparr>lg_st = st, lg_pc = (if isClientGone (ctx_done st) (Some e) then LStopTicker else LTell)\<rparr>
      | LTell \<Rightarrow> Some \<lparr>lg_st = send_terminal False io msgEngineUnavailable st, lg_pc = LStopTicker\<rparr>
      | LStopTicker \<Rightarrow> Some \<lparr>lg_st = st\<lparr>st_ticker := False\<rparr>, lg_pc = LCancel\<rparr>
      | LCancel \<Rightarrow> Some \<lparr>lg_st = st\<lparr>st_cancelled := True\<rparr>, lg_pc = LWait\<rparr>
      | LWait \<Rightarrow> (if st_beat st = BeatGone then Some \<lparr>lg_st = st, lg_pc = LRelease\<rparr> else None)
      | LRelease \<Rightarrow> Some \<lparr>lg_st = st, lg_pc = LDone\<rparr>
      | LDone \<Rightarrow> None)"

text \<open>
  The error of a failed write is none of the client's sentinels: it falls into the last case of
  writeDockerError.
\<close>

definition log_emit :: "log_line \<Rightarrow> sse_io \<Rightarrow> log_stream \<Rightarrow> log_stream option" where
  "log_emit line io s =
     (if lg_pc s \<noteq> LStream then None
      else (let (err, w) = sse_event io (ll_timestamp line) sseEventLog (log_line_json line) (st_w (lg_st s));
                st' = (lg_st s)\<lparr>st_w := w\<rparr>
            in Some \<lparr>lg_st = st', lg_pc = (case err of None \<Rightarrow> LStream | Some e \<Rightarrow> LEnded (e\<lparr>ge_docker := LogStreamFailure\<rparr>))\<rparr>))"

fun log_step :: "string \<Rightarrow> log_label \<Rightarrow> log_stream \<Rightarrow> log_stream option" where
  "log_step dev (LBeat b) s =
     map_option (\<lambda>st. s\<lparr>lg_st := st\<rparr>) (beat_step keepalive_text False dev b (lg_st s))"
| "log_step dev (LEmit line io) s = log_emit line io s"
| "log_step dev (LEngineEnds res) s =
     (if lg_pc s \<noteq> LStream \<or> \<not> pred_option (\<lambda>e. \<not> protective (ge_docker e)) res then None
      else Some (s\<lparr>lg_pc := (case res of None \<Rightarrow> LStopTicker | Some e \<Rightarrow> LEnded e)\<rparr>))"
| "log_step dev (LMain io) s = log_main io s"

fun calm_pc :: "log_pc \<Rightarrow> bool" where
  "calm_pc (LEnded e) \<longleftrightarrow> \<not> protective (ge_docker e)"
| "calm_pc (LReply e) \<longleftrightarrow> \<not> protective (ge_docker e)"
| "calm_pc _ \<longleftrightarrow> True"

lemma log_main_moves: "log_main io s = Some s' \<Longrightarrow> calm_pc (lg_pc s) \<Longrightarrow> stream_move keepalive_text False dev (lg_st s) (lg_st s')"
proof (cases s)
  case (fields st pc)
  assume "log_main io s = Some s'" and "calm_pc (lg_pc s)"
  then show ?thesis
    by (cases pc) (auto simp: fields intro: stream_move.intros split: if_splits)
qed

subsection \<open>The handler unwinds\<close>

text \<open>
  A rank that every step of the two goroutines lowers.  Ticks, the peer and the Docker client
  are the environment; of them only a tick raises it.
\<close>

fun log_pc_rank :: "log_pc \<Rightarrow> nat" where
  "log_pc_rank LStream = 9"
| "log_pc_rank (LEnded e) = 8"
| "log_pc_rank (LReply e) = 7"
| "log_pc_rank (LJudge e) = 7"
| "log_pc_rank LTell = 6"
| "log_pc_rank LStopTicker = 5"
| "log_pc_rank LCancel = 4"
| "log_pc_rank LWait = 3"
| "log_pc_rank LRelease = 1"
| "log_pc_rank LDone = 0"

fun log_internal :: "log_label \<Rightarrow> bool" where
  "log_internal (LBeat b) \<longleftrightarrow> beat_internal b"
| "log_internal (LMain io) \<longleftrightarrow> True"
| "log_internal _ \<longleftrightarrow> False"

definition log_rank :: "log_stream \<Rightarrow> nat" where
  "log_rank s = log_pc_rank (lg_pc s) + stream_rank (lg_st s)"

fun log_cost :: "log_label \<Rightarrow> nat" where
  "log_cost (LBeat b) = beat_cost b"
| "log_cost _ = 0"

lemma log_main_rank: "log_main io s = Some s' \<Longrightarrow> log_rank s' < log_rank s"
proof (cases s)
  case (fields st pc)
  assume "log_main io s = Some s'"
  then show ?thesis
    by (cases pc) (auto simp: fields log_rank_def stream_rank_def split: if_splits)
qed

lemma log_step_rank:
  assumes assms: "log_step dev l s = Some s'"
  shows "log_rank s' + (if log_internal l then 1 else 0) \<le> log_rank s + log_cost l"
proof (cases l)
  case (LBeat b)
  with assms obtain st where "beat_step keepalive_text False dev b (lg_st s) = Some st" "s' = s\<lparr>lg_st := st\<rparr>"
    by auto
  with beat_step_rank [OF this(1)] LBeat show ?thesis by (auto simp: log_rank_def)
next
  case (LEmit line io)
  with assms show ?thesis
    by (auto simp: log_emit_def log_rank_def stream_rank_def Let_def split: if_splits prod.splits option.splits)
next
  case (LEngineEnds res)
  with assms show ?thesis by (auto simp: log_rank_def split: if_splits option.splits)
next
  case (LMain io)
  with assms log_main_rank [of io s s'] show ?thesis by simp
qed

text \<open>What the deferred calls have done by the time each is over.\<close>

definition log_teardown :: "log_stream \<Rightarrow> bool" where
  "log_teardown s \<longleftrightarrow> calm_pc (lg_pc s) \<and> st_beat (lg_st s) \<noteq> BeatOff \<and>
     (lg_pc s \<in> {LCancel, LWait, LRelease, LDone} \<longrightarrow> \<not> st_ticker (lg_st s)) \<and>
     (lg_pc s \<in> {LWait, LRelease, LDone} \<longrightarrow> st_cancelled (lg_st s)) \<and>
     (lg_pc s \<in> {LRelease, LDone} \<longrightarrow> st_beat (lg_st s) = BeatGone)"

lemma log_step_teardown:
  assumes "log_step dev l s = Some s'" and "log_teardown s"
  shows "log_teardown s'"
proof (cases l)
  case (LBeat b)
  with assms obtain st where "beat_step keepalive_text False dev b (lg_st s) = Some st" "s' = s\<lparr>lg_st := st\<rparr>"
    by auto
  with beat_step_control [OF this(1)] assms(2) show ?thesis by (simp add: log_teardown_def)
next
  case (LEmit line io)
  with assms show ?thesis
    by (auto simp: log_emit_def log_teardown_def Let_def split: if_splits prod.splits option.splits)
next
  case (LEngineEnds res)
  with assms show ?thesis by (auto simp: log_teardown_def split: if_splits option.splits)
next
  case (LMain io)
  obtain st pc where s: "s = \<lparr>lg_st = st, lg_pc = pc\<rparr>" by (cases s)
  with assms LMain show ?thesis
    by (cases pc) (auto simp: log_teardown_def split: if_splits)
qed

interpretation log: streaming "log_step dev" lg_st log_teardown keepalive_text False dev for dev
proof
  fix l s s' assume step: "log_step dev l s = Some s'" and good: "log_teardown s"
  show "log_teardown s'" using step good by (rule log_step_teardown)
  show "stream_move keepalive_text False dev (lg_st s) (lg_st s')"
  proof (cases l)
    case (LBeat b)
    with step show ?thesis by (auto intro: stream_move.beat)
  next
    case (LEmit line io)
    obtain err w where e: "sse_event io (ll_timestamp line) sseEventLog (log_line_json line) (st_w (lg_st s)) = (err, w)"
      by fastforce
    have "stream_move keepalive_text False dev (lg_st s) ((lg_st s)\<lparr>st_w := w\<rparr>)"
      using e by (rule stream_move_event) (simp add: sse_names)
    with step LEmit e show ?thesis by (auto simp: log_emit_def split: if_splits)
  next
    case (LEngineEnds res)
    with step show ?thesis by (auto intro: stream_move.stay split: if_splits)
  next
    case (LMain io)
    with step good log_main_moves show ?thesis by (simp add: log_teardown_def)
  qed
qed

lemma log_start_teardown: "log_teardown (log_start gone)"
  by (simp add: log_teardown_def log_start_def launch_beat_def)

lemma log_progress:
  assumes "log_teardown s" and "lg_pc s \<notin> {LStream, LDone}"
  shows "\<exists>l s'. log_internal l \<and> log_step dev l s = Some s'"
proof (cases "lg_pc s = LWait \<and> st_beat (lg_st s) \<noteq> BeatGone")
  case True
  with assms(1) have "ctx_done (lg_st s)" "st_beat (lg_st s) \<noteq> BeatOff"
    by (auto simp: log_teardown_def ctx_done_def)
  with True beat_progress [of "lg_st s" keepalive_text False dev] obtain b st' where
    "beat_internal b" "beat_step keepalive_text False dev b (lg_st s) = Some st'" by blast
  then show ?thesis by (intro exI [of _ "LBeat b"]) simp
next
  case False
  obtain st pc where s: "s = \<lparr>lg_st = st, lg_pc = pc\<rparr>" by (cases s)
  with False assms(2) have "\<exists>s'. log_main smooth s = Some s'" by (cases pc) auto
  then show ?thesis by (intro exI [of _ "LMain smooth"]) simp
qed

lemma log_done_step:
  assumes "log_step dev l s = Some s'" and "log_teardown s" and "lg_pc s = LDone"
  shows "lg_pc s' = LDone \<and> st_w (lg_st s') = st_w (lg_st s)"
proof (cases l)
  case (LBeat b)
  with assms obtain st where "beat_step keepalive_text False dev b (lg_st s) = Some st" "s' = s\<lparr>lg_st := st\<rparr>"
    by auto
  with beat_step_control [OF this(1)] assms(2,3) show ?thesis by (simp add: log_teardown_def)
next
  case (LMain io)
  with assms show ?thesis by (cases s) simp
qed (use assms in \<open>auto simp: log_emit_def split: if_splits\<close>)

interpretation log: unwinding "log_step dev" lg_st log_teardown keepalive_text False dev
  log_internal log_cost log_rank "\<lambda>s. lg_pc s = LDone" for dev
  by unfold_locales (use log_step_rank log_done_step in \<open>blast+\<close>)

lemma log_rank_bound: "log_rank s \<le> 17"
  by (cases "lg_pc s"; cases "st_beat (lg_st s)") (auto simp: log_rank_def stream_rank_def)

text \<open>
  C19: a log stream always unwinds.  From the moment the Docker client's call returns, whatever
  the keepalive goroutine is doing, the two goroutines are never stuck before the handler has
  returned, and between them they make at most seventeen steps, plus the cost, four, of each
  tick that still fires; when the handler has returned, the goroutine is gone and nothing is written to the
  response any more.
\<close>

theorem log_stream_unwinds:
  assumes "execution (log_step dev) (log_start gone) ls s" and "lg_pc s \<noteq> LStream"
  shows "(lg_pc s = LDone \<or> (\<exists>l s'. log_internal l \<and> log_step dev l s = Some s')) \<and>
    (\<forall>ls' s'. execution (log_step dev) s ls' s' \<longrightarrow>
       length (filter log_internal ls') \<le> 17 + sum_list (map log_cost ls') \<and>
       (lg_pc s = LDone \<longrightarrow> st_beat (lg_st s') = BeatGone \<and> st_w (lg_st s') = st_w (lg_st s)))"
proof -
  have t: "log_teardown s" using assms(1) log_start_teardown by (rule log.run_good)
  then have "lg_pc s = LDone \<or> (\<exists>l s'. log_internal l \<and> log_step dev l s = Some s')"
    using log_progress assms(2) by auto
  moreover have "length (filter log_internal ls') \<le> 17 + sum_list (map log_cost ls')"
    if "execution (log_step dev) s ls' s'" for ls' s'
    using log.run_rank [OF that t] log_rank_bound [of s] by linarith
  moreover have "st_beat (lg_st s') = BeatGone \<and> st_w (lg_st s') = st_w (lg_st s)"
    if "execution (log_step dev) s ls' s'" and "lg_pc s = LDone" for ls' s'
    using log.run_returned [OF that(1) t that(2)] log.run_good [OF that(1) t] t that(2) by (auto simp: log_teardown_def)
  ultimately show ?thesis by blast
qed

definition demo_engine_error :: go_error where
  "demo_engine_error = \<lparr>ge_canceled = False, ge_closed = False, ge_text = ''EOF'', ge_docker = LogStreamFailure\<rparr>"

text \<open>A line, then the Engine fails: the terminal frame, and the deferred calls.\<close>

definition demo_log_run :: "log_label list" where
  "demo_log_run = [LEmit \<lparr>ll_timestamp = [], ll_stream = ''stdout'', ll_line = ''a'', ll_truncated = False\<rparr> smooth,
     LEngineEnds (Some demo_engine_error), LMain smooth, LMain smooth, LMain smooth, LMain smooth, LMain smooth,
     LBeat BeatStops, LMain smooth, LMain smooth]"

lemmas demo_log_defs = demo_log_run_def demo_engine_error_def log_start_def launch_beat_def new_stream_def newSSEWriter_def
  smooth_def log_emit_def sse_event_def sse_comment_def sse_write_def startLocked_def send_terminal_def ctx_done_def
  isClientGone_def has_infix_def sse_names

lemma demo_log_execution:
  "\<exists>s. execution (log_step ''d'') (log_start False) demo_log_run s \<and> lg_pc s = LDone \<and>
     sw_out (st_w (lg_st s)) = [Frame [] ''log'' (log_line_json
        \<lparr>ll_timestamp = [], ll_stream = ''stdout'', ll_line = ''a'', ll_truncated = False\<rparr>),
        error_frame msgEngineUnavailable]"
  by (simp add: demo_log_defs error_frame_def upt_rec)

lemma log_stream_unwinds_witness:
  "\<exists>s. execution (log_step ''d'') (log_start False) demo_log_run s \<and> lg_pc s = LDone \<and>
     st_beat (lg_st s) = BeatGone"
proof -
  obtain s where s: "execution (log_step ''d'') (log_start False) demo_log_run s" "lg_pc s = LDone"
    using demo_log_execution by blast
  with log_stream_unwinds [OF s(1)] show ?thesis by (auto intro!: exI [of _ s] elim!: allE [of _ "[]"])
qed

subsection \<open>All the streams of the host\<close>

text \<open>
  Any number of handlers share the budget.  A granted stream is appended with its release
  closure, so the two lists go by the same index; the deferred release is the handler's last
  step.
\<close>

record log_host =
  lh_budget :: budget_world
  lh_streams :: "(string \<times> log_stream) list"

definition host_start :: log_host where
  "host_start = \<lparr>lh_budget = budget_start maxConcurrentStreams maxStreamsPerDevice, lh_streams = []\<rparr>"

datatype host_label = Opens request ctx bool | Goes nat log_label

fun host_step :: "('w, 'l) server \<Rightarrow> host_label \<Rightarrow> log_host \<Rightarrow> log_host option" where
  "host_step sv (Opens rq cx gone) h =
     (case openLogStream sv rq cx (budget (lh_budget h)) of
        (Inl resp, b) \<Rightarrow> Some (h\<lparr>lh_budget := (lh_budget h)\<lparr>budget := b\<rparr>\<rparr>)
      | (Inr (dev, ref, opts), b) \<Rightarrow>
          Some (h\<lparr>lh_budget := (lh_budget h)\<lparr>budget := b, handles := handles (lh_budget h) @ [(dev, False)]\<rparr>,
                  lh_streams := lh_streams h @ [(dev, log_start gone)]\<rparr>))"
| "host_step sv (Goes i l) h =
     (if i < length (lh_streams h)
      then (let (dev, s) = lh_streams h ! i
            in map_option (\<lambda>s'.
                 h\<lparr>lh_streams := (lh_streams h)[i := (dev, s')],
                   lh_budget := (if lg_pc s = LRelease \<and> lg_pc s' = LDone
                                 then budget_step (lh_budget h) (Release i) else lh_budget h)\<rparr>)
               (log_step dev l s))
      else None)"

definition open_streams :: "log_host \<Rightarrow> (string \<times> log_stream) list" where
  "open_streams h = filter (\<lambda>p. lg_pc (snd p) \<noteq> LDone) (lh_streams h)"

definition host_ok :: "log_host \<Rightarrow> bool" where
  "host_ok h \<longleftrightarrow>
     handles (lh_budget h) = map (\<lambda>(dev, s). (dev, lg_pc s = LDone)) (lh_streams h) \<and>
     (\<exists>es. lh_budget h = foldl budget_step (budget_start maxConcurrentStreams maxStreamsPerDevice) es)"

lemma openLogStream_budget:
  assumes "openLogStream sv rq cx b = (r, b')"
  shows "case r of Inl resp \<Rightarrow> b' = b | Inr (dev, ref, opts) \<Rightarrow> stream_acquire b dev = (streamGranted, b')"
  using assms
  by (auto simp: openLogStream_def stream_acquire_def split: option.splits prod.splits streamOutcome.splits if_splits)

lemma log_step_pc:
  "log_step dev l s = Some s' \<Longrightarrow> lg_pc s' = LDone \<longleftrightarrow> lg_pc s = LRelease \<and> lg_pc s' = LDone \<or> lg_pc s = LDone"
proof (cases l)
  case (LMain io)
  assume "log_step dev l s = Some s'"
  with LMain show ?thesis
    by (cases s; cases "lg_pc s") (auto split: if_splits)
qed (auto simp: log_emit_def Let_def split: if_splits prod.splits option.splits)

lemma host_step_ok:
  assumes "host_step sv l h = Some h'" and ok: "host_ok h"
  shows "host_ok h'"
proof -
  let ?start = "budget_start maxConcurrentStreams maxStreamsPerDevice"
  obtain es where es: "lh_budget h = foldl budget_step ?start es" using ok by (auto simp: host_ok_def)
  have run: "\<exists>es. budget_step (lh_budget h) e = foldl budget_step ?start es" for e
    by (rule exI [of _ "es @ [e]"]) (simp add: es)
  show ?thesis
  proof (cases l)
    case (Opens rq cx gone)
    obtain r b where o: "openLogStream sv rq cx (budget (lh_budget h)) = (r, b)" by fastforce
    note b = openLogStream_budget [OF o]
    show ?thesis
    proof (cases r)
      case (Inl resp)
      with assms(1) o b Opens have "h' = h" by (auto simp: Let_def)
      with ok show ?thesis by simp
    next
      case (Inr p)
      obtain dev ref opts where p: "p = (dev, ref, opts)" by (cases p)
      with assms(1) o b Opens Inr have
        "h' = h\<lparr>lh_budget := budget_step (lh_budget h) (Acquire dev), lh_streams := lh_streams h @ [(dev, log_start gone)]\<rparr>"
        and "handles (budget_step (lh_budget h) (Acquire dev)) = handles (lh_budget h) @ [(dev, False)]"
        by auto
      with ok run [of "Acquire dev"] show ?thesis
        by (simp add: host_ok_def log_start_def del: budget_step.simps)
    qed
  next
    case (Goes i k)
    with assms(1) have i: "i < length (lh_streams h)" by (simp split: if_splits)
    obtain dev s where s: "lh_streams h ! i = (dev, s)" by fastforce
    with assms(1) Goes i obtain s' where s': "log_step dev k s = Some s'"
      and h': "h' = h\<lparr>lh_streams := (lh_streams h)[i := (dev, s')],
         lh_budget := (if lg_pc s = LRelease \<and> lg_pc s' = LDone then budget_step (lh_budget h) (Release i) else lh_budget h)\<rparr>"
      by (auto simp: Let_def)
    have hi: "handles (lh_budget h) ! i = (dev, lg_pc s = LDone)" "i < length (handles (lh_budget h))"
      using ok i s by (simp_all add: host_ok_def)
    have "handles (lh_budget h') = (handles (lh_budget h))[i := (dev, lg_pc s' = LDone)]"
    proof (cases "lg_pc s = LRelease \<and> lg_pc s' = LDone")
      case True
      with h' hi show ?thesis by simp
    next
      case False
      with log_step_pc [OF s'] have "(lg_pc s' = LDone) = (lg_pc s = LDone)" by auto
      then have "handles (lh_budget h) ! i = (dev, lg_pc s' = LDone)" using hi(1) by simp
      then have "(handles (lh_budget h))[i := (dev, lg_pc s' = LDone)] = handles (lh_budget h)"
        using list_update_id [of "handles (lh_budget h)" i] by simp
      moreover from False h' have "lh_budget h' = lh_budget h" by auto
      ultimately show ?thesis by simp
    qed
    moreover have "\<exists>es. lh_budget h' = foldl budget_step ?start es"
      using h' run [of "Release i"] es by (auto simp del: budget_step.simps)
    ultimately show ?thesis
      using ok h' by (simp add: host_ok_def map_update)
  qed
qed

text \<open>
  C16: a slot is held exactly as long as a handler runs.  However many log streams come and go,
  from whatever devices, ending in whatever way and interleaved however, the budget counts for
  each device the handlers that have not returned yet, at most three, and at most eight in all;
  so no stream leaks its slot, and none that has returned keeps another device out.
\<close>

theorem log_streams_hold_slots:
  assumes "execution (host_step sv) host_start ls h"
  shows "gm_get_or 0 (holders (budget (lh_budget h))) dev =
      int (length (filter (\<lambda>p. fst p = dev) (open_streams h))) \<and>
    length (filter (\<lambda>p. fst p = dev) (open_streams h)) \<le> 3 \<and>
    total (budget (lh_budget h)) = int (length (open_streams h)) \<and> length (open_streams h) \<le> 8"
proof -
  have "host_ok host_start"
    by (auto simp: host_ok_def host_start_def budget_start_def intro: exI [of _ "[]"])
  with assms have ok: "host_ok h"
    by (rule execution_invariant) (rule host_step_ok)
  then obtain es where es: "lh_budget h = foldl budget_step (budget_start maxConcurrentStreams maxStreamsPerDevice) es"
    by (auto simp: host_ok_def)
  have inv: "budget_inv (lh_budget h)" unfolding es by (rule budget_sys.start_run_inv) blast
  have caps: "maxTotal (budget (lh_budget h)) = 8" "maxPerDevice (budget (lh_budget h)) = 3"
    using budget_run_caps
    by (simp_all add: es) (simp_all add: budget_start_def newStreamBudget_def maxConcurrentStreams_def maxStreamsPerDevice_def)
  have live: "live (handles (lh_budget h)) dev = int (length (filter (\<lambda>p. fst p = dev) (open_streams h)))"
    and all: "live_total (handles (lh_budget h)) = int (length (open_streams h))"
    using ok by (simp_all add: host_ok_def live_def live_total_def open_streams_def filter_map comp_def split_beta conj_commute)
  have "live (handles (lh_budget h)) dev \<le> 3" using inv caps by (simp add: budget_inv_def)
  then have "length (filter (\<lambda>p. fst p = dev) (open_streams h)) \<le> 3" unfolding live by simp
  with inv caps live all show ?thesis
    by (simp add: budget_inv_def holders_def gm_get_or_def)
qed

text \<open>A device opens a stream, which ends and unwinds: the slot is free again.\<close>

definition demo_log_request :: request where
  "demo_log_request = \<lparr>rq_method = ''GET'', rq_path = [''v1'', ''containers'', ''web'', ''logs'', ''stream''], rq_query = [],
     rq_remote = [], rq_cert = None, rq_body = []\<rparr>"

definition demo_log_ctx :: ctx where
  "demo_log_ctx = \<lparr>cx_vars = [(''id'', ''web'')], cx_device = Some \<lparr>dev_id = ''d'', dev_name = ''phone'',
     dev_paired_at = 0, dev_last_seen_at = None, dev_revoked_at = None\<rparr>, cx_audit = None\<rparr>"

lemma demo_host_execution:
  "\<exists>h. execution (host_step (demo_sv ModeDefault)) host_start (replicate 4 (Opens demo_log_request demo_log_ctx False)) h"
  by (simp add: numeral_eq_Suc openLogStream_def demo_sv_def demo_log_request_def demo_log_ctx_def sinceParam_def queryGet_def
      stream_acquire_def host_start_def budget_start_def newStreamBudget_def maxConcurrentStreams_def
      maxStreamsPerDevice_def gm_get_or_def gomap_simps Let_def del: replicate_Suc add: replicate_Suc)

lemma log_streams_hold_slots_witness:
  "\<exists>h. execution (host_step (demo_sv ModeDefault)) host_start (replicate 4 (Opens demo_log_request demo_log_ctx False)) h \<and>
     length (open_streams h) \<le> 8 \<and>
     gm_get_or 0 (holders (budget (lh_budget h))) ''d'' \<le> 3"
proof -
  obtain h where h: "execution (host_step (demo_sv ModeDefault)) host_start
      (replicate 4 (Opens demo_log_request demo_log_ctx False)) h"
    using demo_host_execution by blast
  with log_streams_hold_slots [OF h, of "''d''"] show ?thesis by auto
qed

text \<open>
  What the handler does not exclude: a tick between its look at the writer and its reply.  Then
  the response is a started stream with status 200 that has the error reply in its body.
\<close>

lemma log_reply_race:
  "\<exists>s. execution (log_step ''d'') (log_start False)
     [LEngineEnds (Some demo_engine_error), LMain smooth, LBeat TickerFires, LBeat (BeatTicks smooth), LMain smooth] s \<and>
     sw_status (st_w (lg_st s)) = Some 200 \<and>
     sw_out (st_w (lg_st s)) = [Comment keepalive_text, Reply (writeError 502 msgEngineUnavailable)]"
  by (simp add: demo_log_defs write_reply_def docker_response_def writeDockerError_def)

end
