(* ===== verification/EventStream.thy ===== *)
theory EventStream
  imports LogStream EventHub EventRegistry
begin

section \<open>The container event stream (internal/httpapi/events.go)\<close>

text \<open>
  \<open>handleEventStream\<close> and its heartbeat in every interleaving with the registry, which closes
  \<open>superseded\<close> and then cancels the handler, and with the hub, which fills the subscriber's
  buffer and may close it with a reason.  Which of several ready cases a select takes is free.
\<close>

definition msgEventStreamLagged :: string where "msgEventStreamLagged = ''event stream fell behind''"
definition msgEventStreamSuperseded :: string where "msgEventStreamSuperseded = ''event stream superseded''"
definition heartbeat_text :: string where "heartbeat_text = ''heartbeat''"

text \<open>Before the stream: a response at once, or the device to register.\<close>

definition openEventStream :: "('w, 'l) server \<Rightarrow> ctx \<Rightarrow> response + string" where
  "openEventStream sv cx =
     (case sv_docker sv of
        None \<Rightarrow> Inl (writeError 502 msgEngineUnavailable)
      | Some c \<Rightarrow>
          (case cx_device cx of
             None \<Rightarrow> Inl (writeError 500 ''internal error'')
           | Some dv \<Rightarrow> Inr (dev_id dv)))"

text \<open>
  Attaching, listing the states, sending the snapshot, starting the heartbeat, the select loop, and the deferred calls:
  stop the ticker, detach, release the registration, cancel, wait for the goroutine.
\<close>

datatype event_pc =
    EAttach | EStates | ESnapshot "container_state_summary list" | ELaunch | ELoop
  | EStopTicker | EDetach | ERelease | ECancel | EWait | EDone

record event_stream =
  ev_st :: stream
  ev_pc :: event_pc
  ev_superseded :: bool
  ev_buf :: "container_event list"
  ev_closed :: "eventCloseReason option"

definition event_start :: "bool \<Rightarrow> event_stream" where
  "event_start gone = \<lparr>ev_st = new_stream gone, ev_pc = EAttach, ev_superseded = False, ev_buf = [], ev_closed = None\<rparr>"

text \<open>The cases of the select, and the steps of the handler's own.\<close>

datatype event_label =
    EBeat beat_label | ESupersede | EEvict | EHubSends container_event | EHubCloses eventCloseReason
  | EAttached "docker_error option" | EListed "docker_error + container_state_summary list"
  | ETakeSuperseded sse_io | ETakeDone | ETakeEvent sse_io | ETakeClosed sse_io | EMain sse_io

definition event_main :: "sse_io \<Rightarrow> event_stream \<Rightarrow> event_stream option" where
  "event_main io s =
     (case ev_pc s of
        ESnapshot ss \<Rightarrow>
          (let (err, w) = sse_event io [] sseEventSnapshot (JArray (map state_json ss)) (st_w (ev_st s));
               st = (ev_st s)\<lparr>st_w := w\<rparr>
           in Some (case err of
                Some e \<Rightarrow> s\<lparr>ev_st := st, ev_pc := EDetach\<rparr>
              | None \<Rightarrow> s\<lparr>ev_st := st, ev_pc := ELaunch\<rparr>))
      | ELaunch \<Rightarrow> Some (s\<lparr>ev_st := launch_beat (ev_st s), ev_pc := ELoop\<rparr>)
      | EStopTicker \<Rightarrow> Some (s\<lparr>ev_st := (ev_st s)\<lparr>st_ticker := False\<rparr>, ev_pc := EDetach\<rparr>)
      | EDetach \<Rightarrow> Some (s\<lparr>ev_pc := ERelease\<rparr>)
      | ERelease \<Rightarrow> Some (s\<lparr>ev_pc := ECancel\<rparr>)
      | ECancel \<Rightarrow> Some (s\<lparr>ev_st := (ev_st s)\<lparr>st_cancelled := True\<rparr>, ev_pc := EWait\<rparr>)
      | EWait \<Rightarrow> (if st_beat (ev_st s) \<in> {BeatOff, BeatGone} then Some (s\<lparr>ev_pc := EDone\<rparr>) else None)
      | _ \<Rightarrow> None)"

definition event_reply :: "docker_error \<Rightarrow> event_pc \<Rightarrow> event_stream \<Rightarrow> event_stream" where
  "event_reply e pc s = s\<lparr>ev_st := (ev_st s)\<lparr>st_w := write_reply (docker_response e) (st_w (ev_st s))\<rparr>, ev_pc := pc\<rparr>"

definition close_message :: "eventCloseReason \<Rightarrow> string" where
  "close_message r = (if r = eventClosedLagged then msgEventStreamLagged else msgEngineUnavailable)"

definition event_end :: "sse_io \<Rightarrow> string \<Rightarrow> event_stream \<Rightarrow> event_stream" where
  "event_end io msg s = s\<lparr>ev_st := send_terminal True io msg (ev_st s), ev_pc := EStopTicker\<rparr>"

definition take_buffered :: "sse_io \<Rightarrow> event_stream \<Rightarrow> event_stream option" where
  "take_buffered io s =
     (case ev_buf s of
        [] \<Rightarrow> None
      | e # es \<Rightarrow>
          (let (err, w) = sse_event io [] sseEventHealth (event_json e) (st_w (ev_st s))
           in Some (s\<lparr>ev_st := (ev_st s)\<lparr>st_w := w\<rparr>, ev_buf := es,
                      ev_pc := (if err = None then ELoop else EStopTicker)\<rparr>)))"

fun event_step :: "string \<Rightarrow> event_label \<Rightarrow> event_stream \<Rightarrow> event_stream option" where
  "event_step dev (EBeat b) s = map_option (\<lambda>st. s\<lparr>ev_st := st\<rparr>) (beat_step heartbeat_text True dev b (ev_st s))"
| "event_step dev ESupersede s = Some (s\<lparr>ev_superseded := True\<rparr>)"
| "event_step dev EEvict s =
     (if ev_superseded s then Some (s\<lparr>ev_st := (ev_st s)\<lparr>st_cancelled := True\<rparr>\<rparr>) else None)"
| "event_step dev (EHubSends e) s =
     (if ev_closed s \<noteq> None then None else Some (s\<lparr>ev_buf := ev_buf s @ [e]\<rparr>))"
| "event_step dev (EHubCloses r) s =
     (if ev_closed s \<noteq> None then None else Some (s\<lparr>ev_closed := Some r\<rparr>))"
| "event_step dev (EAttached res) s =
     (if ev_pc s \<noteq> EAttach \<or> \<not> pred_option (Not \<circ> protective) res then None
      else Some (case res of None \<Rightarrow> s\<lparr>ev_pc := EStates\<rparr> | Some e \<Rightarrow> event_reply e ERelease s))"
| "event_step dev (EListed res) s =
     (if ev_pc s \<noteq> EStates \<or> (isl res \<and> protective (projl res)) then None
      else Some (case res of Inr ss \<Rightarrow> s\<lparr>ev_pc := ESnapshot ss\<rparr> | Inl e \<Rightarrow> event_reply e EDetach s))"
| "event_step dev (ETakeSuperseded io) s =
     (if ev_pc s = ELoop \<and> ev_superseded s then Some (event_end io msgEventStreamSuperseded s) else None)"
| "event_step dev ETakeDone s =
     (if ev_pc s = ELoop \<and> ctx_done (ev_st s) then Some (s\<lparr>ev_pc := EStopTicker\<rparr>) else None)"
| "event_step dev (ETakeEvent io) s = (if ev_pc s = ELoop then take_buffered io s else None)"
| "event_step dev (ETakeClosed io) s =
     (if ev_pc s \<noteq> ELoop then None
      else map_option (\<lambda>r. event_end io (close_message r) s) (ev_closed s))"
| "event_step dev (EMain io) s = event_main io s"

text \<open>No goroutine runs before the snapshot is out.\<close>

fun pre_beat :: "event_pc \<Rightarrow> bool" where
  "pre_beat EAttach = True"
| "pre_beat EStates = True"
| "pre_beat (ESnapshot ss) = True"
| "pre_beat ELaunch = True"
| "pre_beat _ = False"

fun ticker_off :: "event_pc \<Rightarrow> bool" where
  "ticker_off ELoop = False"
| "ticker_off EStopTicker = False"
| "ticker_off _ = True"

definition event_teardown :: "event_stream \<Rightarrow> bool" where
  "event_teardown s \<longleftrightarrow>
     (pre_beat (ev_pc s) \<longrightarrow> st_beat (ev_st s) = BeatOff) \<and>
     (ticker_off (ev_pc s) \<longrightarrow> \<not> st_ticker (ev_st s)) \<and>
     (ev_pc s = EWait \<or> ev_pc s = EDone \<longrightarrow> st_cancelled (ev_st s)) \<and>
     (ev_pc s = EDone \<longrightarrow> st_beat (ev_st s) = BeatOff \<or> st_beat (ev_st s) = BeatGone)"

lemma beat_off: "beat_step comment asks dev b st = Some st' \<Longrightarrow> st_beat st = BeatOff \<Longrightarrow>
    st_beat st' = BeatOff \<and> st_w st' = st_w st"
  by (cases b) (auto split: if_splits)

lemma event_main_moves:
  assumes "event_main io s = Some s'" and "event_teardown s"
  shows "stream_move heartbeat_text True dev (ev_st s) (ev_st s')"
proof (cases "ev_pc s")
  case (ESnapshot ss)
  obtain err w where e: "sse_event io [] sseEventSnapshot (JArray (map state_json ss)) (st_w (ev_st s)) = (err, w)"
    by fastforce
  have "stream_move heartbeat_text True dev (ev_st s) ((ev_st s)\<lparr>st_w := w\<rparr>)"
    using e by (rule stream_move_event) (simp add: sse_names)
  moreover have "ev_st s' = (ev_st s)\<lparr>st_w := w\<rparr>"
    using assms(1) ESnapshot e by (cases err) (auto simp: event_main_def)
  ultimately show ?thesis by simp
qed (use assms in \<open>auto simp: event_main_def event_teardown_def intro: stream_move.intros split: if_splits\<close>)

lemma event_main_teardown:
  assumes "event_main io s = Some s'" and "event_teardown s"
  shows "event_teardown s'"
proof (cases "ev_pc s")
  case (ESnapshot ss)
  obtain err w where e: "sse_event io [] sseEventSnapshot (JArray (map state_json ss)) (st_w (ev_st s)) = (err, w)"
    by fastforce
  with assms ESnapshot show ?thesis
    by (cases err) (auto simp: event_main_def event_teardown_def)
qed (use assms in \<open>auto simp: event_main_def event_teardown_def launch_beat_def split: if_splits\<close>)

lemma take_buffered_moves:
  assumes "take_buffered io s = Some s'"
  shows "stream_move heartbeat_text True dev (ev_st s) (ev_st s')"
proof -
  from assms obtain e es where b: "ev_buf s = e # es" by (auto simp: take_buffered_def split: list.splits)
  obtain err w where e: "sse_event io [] sseEventHealth (event_json e) (st_w (ev_st s)) = (err, w)" by fastforce
  have "stream_move heartbeat_text True dev (ev_st s) ((ev_st s)\<lparr>st_w := w\<rparr>)"
    using e by (rule stream_move_event) (simp add: sse_names)
  moreover have "ev_st s' = (ev_st s)\<lparr>st_w := w\<rparr>" using assms b e by (auto simp: take_buffered_def)
  ultimately show ?thesis by simp
qed

lemma beat_teardown:
  assumes "beat_step heartbeat_text True dev b (ev_st s) = Some st" and "event_teardown s"
  shows "event_teardown (s\<lparr>ev_st := st\<rparr>)"
  using beat_step_control [OF assms(1)] beat_off [OF assms(1)] assms(2) by (auto simp: event_teardown_def)

lemma take_buffered_teardown:
  "take_buffered io s = Some s' \<Longrightarrow> event_teardown s \<Longrightarrow> ev_pc s = ELoop \<Longrightarrow> event_teardown s'"
  by (auto simp: take_buffered_def event_teardown_def Let_def split: list.splits prod.splits if_splits)

interpretation ev: streaming "event_step dev" ev_st event_teardown heartbeat_text True dev for dev
proof
  fix l s s' assume step: "event_step dev l s = Some s'" and good: "event_teardown s"
  show "stream_move heartbeat_text True dev (ev_st s) (ev_st s')"
  proof (cases l)
    case (ETakeEvent io)
    with step take_buffered_moves show ?thesis by (simp split: if_splits)
  next
    case (EMain io)
    with step good event_main_moves show ?thesis by simp
  qed (use step in \<open>auto simp: event_reply_def event_end_def intro: stream_move.intros split: if_splits option.splits sum.splits\<close>)
  show "event_teardown s'"
  proof (cases l)
    case (EBeat b)
    with step good beat_teardown show ?thesis by auto
  next
    case (ETakeEvent io)
    with step good take_buffered_teardown show ?thesis by (simp split: if_splits)
  next
    case (EMain io)
    with step good event_main_teardown show ?thesis by simp
  next
    case (EAttached res)
    with step good show ?thesis
      by (cases res) (auto simp: event_teardown_def event_reply_def split: if_splits)
  next
    case (EListed res)
    with step good show ?thesis
      by (cases res) (auto simp: event_teardown_def event_reply_def split: if_splits)
  next
    case (ETakeSuperseded io)
    with step have "s' = event_end io msgEventStreamSuperseded s" by (simp split: if_splits)
    then show ?thesis by (simp add: event_end_def event_teardown_def)
  next
    case (ETakeClosed io)
    with step obtain msg where "s' = event_end io msg s" by (auto split: if_splits)
    then show ?thesis by (simp add: event_end_def event_teardown_def)
  next
    case ETakeDone
    with step have "s' = s\<lparr>ev_pc := EStopTicker\<rparr>" by (simp split: if_splits)
    then show ?thesis by (simp add: event_teardown_def)
  next
    case EEvict
    with step have "s' = s\<lparr>ev_st := (ev_st s)\<lparr>st_cancelled := True\<rparr>\<rparr>" by (simp split: if_splits)
    with good show ?thesis by (simp add: event_teardown_def)
  next
    case (EHubSends e)
    with step have "s' = s\<lparr>ev_buf := ev_buf s @ [e]\<rparr>" by (simp split: if_splits)
    with good show ?thesis by (simp add: event_teardown_def)
  next
    case (EHubCloses r)
    with step have "s' = s\<lparr>ev_closed := Some r\<rparr>" by (simp split: if_splits)
    with good show ?thesis by (simp add: event_teardown_def)
  next
    case ESupersede
    with step have "s' = s\<lparr>ev_superseded := True\<rparr>" by simp
    with good show ?thesis by (simp add: event_teardown_def)
  qed
qed

lemma event_start_good: "event_teardown (event_start gone)" "stream_ok (ev_st (event_start gone))"
  by (simp_all add: event_start_def event_teardown_def new_stream_def stream_ok_def terminals_def newSSEWriter_def)

lemma log_start_ok: "stream_ok (lg_st (log_start gone))"
  by (simp add: log_start_def launch_beat_def new_stream_def stream_ok_def terminals_def newSSEWriter_def)

subsection \<open>Both streams\<close>

text \<open>
  C17: a stream carries at most one terminal frame.  However the revocation check, a newer
  stream of the device, the hub's verdict, an Engine failure and the client's leaving race, and
  whatever writes fail half-way, neither the log stream nor the event stream ever has a second
  \<open>event: error\<close> on the wire, complete or cut off.
\<close>

theorem streams_single_terminal:
  "(execution (log_step dev) (log_start gone) ls s \<longrightarrow> terminals (st_w (lg_st s)) \<le> 1) \<and>
   (execution (event_step dev) (event_start gone) es t \<longrightarrow> terminals (st_w (ev_st t)) \<le> 1)"
  using log.one_terminal [OF _ log_start_teardown log_start_ok] ev.one_terminal [OF _ event_start_good] by blast

lemma streams_single_terminal_witness:
  "\<exists>s. execution (log_step ''d'') (log_start False) demo_log_run s \<and> terminals (st_w (lg_st s)) = 1"
proof -
  obtain s where s: "execution (log_step ''d'') (log_start False) demo_log_run s"
    "sw_out (st_w (lg_st s)) = [Frame [] ''log'' (log_line_json
        \<lparr>ll_timestamp = [], ll_stream = ''stdout'', ll_line = ''a'', ll_truncated = False\<rparr>),
        error_frame msgEngineUnavailable]"
    using demo_log_execution by blast
  have "1 \<le> terminals (st_w (lg_st s))"
    by (simp add: terminals_def s(2) error_frame_def sse_names)
  moreover have "terminals (st_w (lg_st s)) \<le> 1"
    using streams_single_terminal [of "''d''" False demo_log_run s] s(1) by blast
  ultimately show ?thesis using s(1) by (auto intro: exI [of _ s])
qed

text \<open>
  C21: revoking a device ends its open streams.  When the look-up at a tick finds the device
  revoked or deleted, then from that moment on, whatever the rest of the handler does, the
  heartbeat has sent the revoked frame, unless another terminal frame came first, and cancelled
  the stream, or it can take its next step towards that; nothing makes it wait for another tick.
\<close>

theorem revoked_stream_ends:
  assumes "find_device d dev = None \<or> (\<exists>r. find_device d dev = Some r \<and> dr_revoked_at r \<noteq> None)"
    and "\<not> se_fails se 0"
  shows "(execution (log_step dev) (log_start gone) (ls @ LBeat (BeatLooks se d) # ls') s \<longrightarrow>
      ending False (lg_st s) (\<lambda>b. map_option lg_st (log_step dev (LBeat b) s))) \<and>
    (execution (event_step dev) (event_start gone) (es @ EBeat (BeatLooks se d) # es') t \<longrightarrow>
      ending True (ev_st t) (\<lambda>b. map_option ev_st (event_step dev (EBeat b) t)))"
proof -
  note look = look_condemns [OF revoked_look [OF assms]]
  have "condemned (lg_st s)"
    if "execution (log_step dev) (log_start gone) (ls @ LBeat (BeatLooks se d) # ls') s"
    using that log_start_teardown by (rule log.condemned_from) (auto intro: look simp del: beat_step.simps)
  moreover have "condemned (ev_st t)"
    if "execution (event_step dev) (event_start gone) (es @ EBeat (BeatLooks se d) # es') t"
    using that event_start_good(1) by (rule ev.condemned_from) (auto intro: look simp del: beat_step.simps)
  ultimately show ?thesis
    by (auto simp: option.map_comp comp_def option.map_ident intro: condemned_ending simp del: beat_step.simps)
qed

lemma revoked_stream_ends_witness:
  "\<exists>s. execution (log_step ''d'') (log_start False)
       [LBeat TickerFires, LBeat (BeatTicks smooth), LBeat (BeatLooks (demo_senv 5) empty_db)] s \<and>
     ending False (lg_st s) (\<lambda>b. map_option lg_st (log_step ''d'' (LBeat b) s))"
proof -
  have gone: "find_device empty_db ''d'' = None \<or>
      (\<exists>r. find_device empty_db ''d'' = Some r \<and> dr_revoked_at r \<noteq> None)" and ok: "\<not> se_fails (demo_senv 5) 0"
    by (simp_all add: find_device_def empty_db_def demo_senv_def)
  have "\<exists>s. execution (log_step ''d'') (log_start False)
      ([LBeat TickerFires, LBeat (BeatTicks smooth)] @ LBeat (BeatLooks (demo_senv 5) empty_db) # []) s"
    by (simp add: log_start_def launch_beat_def new_stream_def)
  with revoked_stream_ends [OF gone ok, where gone = False and ls' = "[]" and
      ls = "[LBeat TickerFires, LBeat (BeatTicks smooth)]"]
  show ?thesis by (auto simp del: log_step.simps)
qed

subsection \<open>What the event stream sends\<close>

fun whole :: "sse_chunk \<Rightarrow> sse_chunk" where
  "whole (Torn k c) = whole c"
| "whole c = c"

text \<open>The chunks after the snapshot.\<close>

inductive body_chunk :: "sse_chunk \<Rightarrow> bool" where
  health: "body_chunk (health_frame e)"
| error: "body_chunk (error_frame msg)"
| heartbeat: "body_chunk (Comment heartbeat_text)"
| torn: "body_chunk c \<Longrightarrow> body_chunk (Torn k c)"

fun is_health :: "sse_chunk \<Rightarrow> bool" where
  "is_health (Frame i n d) \<longleftrightarrow> n = sseEventHealth"
| "is_health _ \<longleftrightarrow> False"

definition healths :: "sse_chunk list \<Rightarrow> sse_chunk list" where
  "healths cs = filter is_health (map whole cs)"

fun hub_sent :: "event_label list \<Rightarrow> container_event list" where
  "hub_sent [] = []"
| "hub_sent (EHubSends e # ls) = e # hub_sent ls"
| "hub_sent (_ # ls) = hub_sent ls"

text \<open>The wire after the snapshot, and what of the hub's events it shows.\<close>

definition streamed :: "container_event list \<Rightarrow> container_event list \<Rightarrow> sse_chunk list \<Rightarrow> bool" where
  "streamed sent buf out \<longleftrightarrow>
     (\<exists>ss rest passed. out = snapshot_frame ss # rest \<and> list_all body_chunk rest \<and>
        healths rest = map health_frame passed \<and> passed @ buf = sent)"

definition no_stream :: "sse_chunk list \<Rightarrow> bool" where
  "no_stream out \<longleftrightarrow> out = [] \<or> (\<exists>r. out = [Reply r]) \<or> (\<exists>k ss. out = [Torn k (snapshot_frame ss)])"

definition event_wire :: "container_event list \<Rightarrow> event_stream \<Rightarrow> bool" where
  "event_wire sent s \<longleftrightarrow>
     (case ev_pc s of
        EAttach \<Rightarrow> sw_out (st_w (ev_st s)) = [] \<and> ev_buf s = sent
      | EStates \<Rightarrow> sw_out (st_w (ev_st s)) = [] \<and> ev_buf s = sent
      | ESnapshot ss \<Rightarrow> sw_out (st_w (ev_st s)) = [] \<and> ev_buf s = sent
      | ELaunch \<Rightarrow> streamed sent (ev_buf s) (sw_out (st_w (ev_st s))) \<and> sw_started (st_w (ev_st s))
      | ELoop \<Rightarrow> streamed sent (ev_buf s) (sw_out (st_w (ev_st s))) \<and> sw_started (st_w (ev_st s))
      | EStopTicker \<Rightarrow> streamed sent (ev_buf s) (sw_out (st_w (ev_st s)))
      | _ \<Rightarrow> streamed sent (ev_buf s) (sw_out (st_w (ev_st s))) \<or>
          no_stream (sw_out (st_w (ev_st s))) \<and> st_beat (ev_st s) = BeatOff)"

lemma streamed_body:
  assumes "streamed sent buf out" and "body_chunk c"
  shows "\<not> is_health (whole c) \<Longrightarrow> streamed sent buf (out @ [c])"
    and "streamed (sent @ [e]) (buf @ [e]) out"
    and "buf = e # es \<Longrightarrow> whole c = health_frame e \<Longrightarrow> streamed sent es (out @ [c])"
proof -
  from assms(1) obtain ss rest passed where o: "out = snapshot_frame ss # rest" "list_all body_chunk rest"
    "healths rest = map health_frame passed" "passed @ buf = sent"
    by (auto simp: streamed_def)
  show "streamed sent buf (out @ [c])" if "\<not> is_health (whole c)"
    unfolding streamed_def using o assms(2) that
    by (intro exI [of _ ss] exI [of _ "rest @ [c]"] exI [of _ passed]) (simp add: healths_def)
  show "streamed (sent @ [e]) (buf @ [e]) out"
    unfolding streamed_def using o by (intro exI [of _ ss] exI [of _ rest] exI [of _ passed]) simp
  show "streamed sent es (out @ [c])" if "buf = e # es" "whole c = health_frame e"
    unfolding streamed_def using o assms(2) that
    by (intro exI [of _ ss] exI [of _ "rest @ [c]"] exI [of _ "passed @ [e]"])
      (simp add: healths_def health_frame_def)
qed

lemma sse_event_started:
  assumes "sse_event io i n d w = (err, w')"
  shows "sw_started w \<Longrightarrow> sw_started w' \<and> (\<exists>c. sw_out w' = sw_out w @ [c] \<and>
      (c = Frame i n d \<or> (\<exists>k. c = Torn k (Frame i n d))))"
    and "err = None \<Longrightarrow> sw_started w' \<and> sw_out w' = sw_out w @ [Frame i n d]"
    and "sw_out w' = sw_out w \<or> sw_out w' = sw_out w @ [Frame i n d] \<or> (\<exists>k. sw_out w' = sw_out w @ [Torn k (Frame i n d)])"
  using assms
  by (auto simp: sse_event_def sse_write_def startLocked_def Let_def split: if_splits option.splits prod.splits)

text \<open>What the heartbeat and a terminal frame can add.\<close>

definition adds_note :: "stream \<Rightarrow> stream \<Rightarrow> bool" where
  "adds_note st st' \<longleftrightarrow> (sw_started (st_w st) \<longrightarrow> sw_started (st_w st')) \<and>
     (sw_out (st_w st') = sw_out (st_w st) \<or>
      (\<exists>c. sw_out (st_w st') = sw_out (st_w st) @ [c] \<and> body_chunk c \<and> \<not> is_health (whole c)))"

lemma adds_note_refl: "st_w st' = st_w st \<Longrightarrow> adds_note st st'"
  by (simp add: adds_note_def)

lemma adds_note_terminal: "adds_note st (send_terminal asks io msg st)"
proof (cases "st_once st \<or> asks \<and> st_gone st")
  case True
  then show ?thesis by (intro adds_note_refl) (auto simp: send_terminal_def)
next
  case False
  obtain err w where e: "sse_event io [] sseEventError (error_json msg) (st_w st) = (err, w)" by fastforce
  have w: "st_w (send_terminal asks io msg st) = w"
    using False e by (auto simp: send_terminal_def)
  have f: "body_chunk (Frame [] sseEventError (error_json msg))" "\<not> is_health (Frame [] sseEventError (error_json msg))"
    using body_chunk.error [of msg] by (simp_all add: error_frame_def sse_names)
  then have "body_chunk (Torn k (Frame [] sseEventError (error_json msg)))" for k
    by (intro body_chunk.torn)
  with f sse_event_started(1,3) [OF e] show ?thesis
    unfolding adds_note_def w by (metis whole.simps(1,2))
qed

lemma adds_note_beat:
  assumes "beat_step heartbeat_text True dev b st = Some st'"
  shows "adds_note st st'"
proof (cases b)
  case (BeatTells io)
  with assms have "st_w st' = st_w (send_terminal True io msgStreamRevoked st)" by (auto split: if_splits)
  with adds_note_terminal [of st True io msgStreamRevoked] show ?thesis by (simp add: adds_note_def)
next
  case (BeatTicks io)
  have "sw_started (st_w st) \<longrightarrow> sw_started (snd (sse_comment io heartbeat_text (st_w st)))"
    by (auto simp: sse_comment_def sse_write_def Let_def split: option.splits)
  moreover have "body_chunk (Torn k (Comment heartbeat_text))" for k
    by (intro body_chunk.torn body_chunk.heartbeat)
  ultimately show ?thesis
    using BeatTicks assms sse_write_out [of io "Comment heartbeat_text" "st_w st"]
    by (auto simp: adds_note_def sse_comment_def split: if_splits intro: body_chunk.heartbeat)
qed (use assms in \<open>auto simp: adds_note_def split: if_splits\<close>)

lemma streamed_note: "adds_note st st' \<Longrightarrow> streamed sent buf (sw_out (st_w st)) \<Longrightarrow> streamed sent buf (sw_out (st_w st'))"
  by (auto simp: adds_note_def streamed_body(1))

lemma wire_beat:
  assumes "beat_step heartbeat_text True dev b (ev_st s) = Some st" and "event_wire sent s" and "event_teardown s"
  shows "event_wire sent (s\<lparr>ev_st := st\<rparr>)"
proof (cases "st_beat (ev_st s) = BeatOff")
  case True
  from beat_off [OF assms(1) True] assms(2) True show ?thesis
    by (cases "ev_pc s") (auto simp: event_wire_def)
next
  case False
  note n = adds_note_beat [OF assms(1)]
  then have "sw_started (st_w (ev_st s)) \<Longrightarrow> sw_started (st_w st)" by (simp add: adds_note_def)
  with streamed_note [OF n] False assms(2,3) show ?thesis
    by (cases "ev_pc s") (auto simp: event_wire_def event_teardown_def)
qed

lemma wire_end:
  "event_wire sent s \<Longrightarrow> ev_pc s = ELoop \<Longrightarrow> event_wire sent (event_end io msg s)"
  using streamed_note [OF adds_note_terminal] by (simp add: event_wire_def event_end_def)

lemma wire_take:
  assumes "take_buffered io s = Some s'" and "event_wire sent s" and "ev_pc s = ELoop"
  shows "event_wire sent s'"
proof -
  from assms(1) obtain e es where b: "ev_buf s = e # es" by (auto simp: take_buffered_def split: list.splits)
  obtain err w where e: "sse_event io [] sseEventHealth (event_json e) (st_w (ev_st s)) = (err, w)" by fastforce
  have st: "streamed sent (e # es) (sw_out (st_w (ev_st s)))" "sw_started (st_w (ev_st s))"
    using assms(2,3) b by (auto simp: event_wire_def)
  with sse_event_started(1) [OF e] obtain c where c: "sw_started w" "sw_out w = sw_out (st_w (ev_st s)) @ [c]"
    "c = health_frame e \<or> (\<exists>k. c = Torn k (health_frame e))"
    by (auto simp: health_frame_def)
  then have "body_chunk c" using body_chunk.health [of e] by (auto intro: body_chunk.torn)
  moreover from c(3) have "whole c = health_frame e" by (auto simp: health_frame_def)
  ultimately have "streamed sent es (sw_out w)" using streamed_body(3) [OF st(1)] c(2) by simp
  with assms(1) b e c(1) show ?thesis by (auto simp: take_buffered_def event_wire_def)
qed

lemma wire_main:
  assumes "event_main io s = Some s'" and "event_wire sent s" and "event_teardown s"
  shows "event_wire sent s'"
proof (cases "ev_pc s")
  case (ESnapshot ss)
  obtain err w where e: "sse_event io [] sseEventSnapshot (JArray (map state_json ss)) (st_w (ev_st s)) = (err, w)"
    by fastforce
  have out: "sw_out (st_w (ev_st s)) = []" "ev_buf s = sent" and off: "st_beat (ev_st s) = BeatOff"
    using assms(2,3) ESnapshot by (auto simp: event_wire_def event_teardown_def)
  have one: "streamed sent sent [snapshot_frame ss]"
    unfolding streamed_def by (intro exI [of _ ss] exI [of _ "[]"] exI [of _ "[]"]) (simp add: healths_def)
  show ?thesis
  proof (cases err)
    case None
    with sse_event_started(2) [OF e] out have "sw_started w" "sw_out w = [snapshot_frame ss]"
      by (simp_all add: snapshot_frame_def)
    with assms(1) ESnapshot e None one out(2) show ?thesis by (auto simp: event_main_def event_wire_def)
  next
    case (Some x)
    from sse_event_started(3) [OF e] out(1) have "streamed sent sent (sw_out w) \<or> no_stream (sw_out w)"
      using one by (auto simp: no_stream_def snapshot_frame_def)
    with assms(1) ESnapshot e Some out(2) off show ?thesis by (auto simp: event_main_def event_wire_def)
  qed
qed (use assms in \<open>auto simp: event_main_def event_wire_def event_teardown_def launch_beat_def split: if_splits\<close>)

lemma wire_step:
  assumes "event_step dev l s = Some s'" and "event_wire sent s" and good: "event_teardown s"
  shows "event_wire (sent @ hub_sent [l]) s'"
proof (cases l)
  case (EBeat b)
  with assms wire_beat show ?thesis by auto
next
  case (ETakeEvent io)
  with assms wire_take show ?thesis by (simp split: if_splits)
next
  case (EMain io)
  with assms wire_main show ?thesis by simp
next
  case (ETakeSuperseded io)
  with assms wire_end show ?thesis by (auto split: if_splits)
next
  case (ETakeClosed io)
  with assms wire_end show ?thesis by (auto split: if_splits)
next
  case (EHubSends e)
  with assms have s': "s' = s\<lparr>ev_buf := ev_buf s @ [e]\<rparr>" by (simp split: if_splits)
  with assms(2) EHubSends show ?thesis
    by (cases "ev_pc s") (auto simp: event_wire_def intro: streamed_body(2) [OF _ body_chunk.heartbeat])
next
  case (EAttached res)
  with assms show ?thesis
    by (cases res) (auto simp: event_wire_def event_teardown_def event_reply_def no_stream_def write_reply_def split: if_splits)
next
  case (EListed res)
  with assms show ?thesis
    by (cases res) (auto simp: event_wire_def event_teardown_def event_reply_def no_stream_def write_reply_def split: if_splits)
next
  case ETakeDone
  with assms show ?thesis by (auto simp: event_wire_def split: if_splits)
next
  case ESupersede
  with assms show ?thesis by (cases "ev_pc s") (auto simp: event_wire_def)
next
  case EEvict
  with assms show ?thesis by (cases "ev_pc s") (auto simp: event_wire_def split: if_splits)
next
  case (EHubCloses r)
  with assms show ?thesis by (cases "ev_pc s") (auto simp: event_wire_def split: if_splits)
qed

lemma hub_sent_Cons: "hub_sent (l # ls) = hub_sent [l] @ hub_sent ls"
  by (cases l) auto

lemma wire_run:
  "execution (event_step dev) s ls s' \<Longrightarrow> event_wire sent s \<Longrightarrow> event_teardown s \<Longrightarrow>
   event_wire (sent @ hub_sent ls) s'"
proof (induction arbitrary: sent rule: execution.induct)
  case (move l s s' ls s'')
  have "event_wire (sent @ hub_sent [l]) s'" using move.hyps(1) move.prems by (rule wire_step)
  moreover have "event_teardown s'" using move.hyps(1) move.prems(2) by (rule ev.keeps)
  ultimately have "event_wire ((sent @ hub_sent [l]) @ hub_sent ls) s''" by (rule move.IH)
  then show ?case by (simp add: hub_sent_Cons [of l ls] del: hub_sent.simps)
qed simp

text \<open>
  C20: what the event stream puts on the wire.  In every interleaving the response is nothing
  yet, one error reply, a snapshot cut off by a failed write, or the snapshot first and then only
  health events, heartbeats and a terminal frame; never an error reply inside a stream.  The
  health events on it are an unbroken initial segment of those the hub handed over, in order,
  each once, whatever else is interleaved, and the rest is still in the buffer.
\<close>

theorem event_stream_faithful:
  assumes "execution (event_step dev) (event_start gone) ls s"
  shows "no_stream (sw_out (st_w (ev_st s))) \<or> streamed (hub_sent ls) (ev_buf s) (sw_out (st_w (ev_st s)))"
proof -
  have "event_wire [] (event_start gone)"
    by (simp add: event_wire_def event_start_def new_stream_def newSSEWriter_def)
  from wire_run [OF assms this event_start_good(1)] have "event_wire (hub_sent ls) s" by simp
  then show ?thesis by (cases "ev_pc s") (auto simp: event_wire_def no_stream_def)
qed

definition demo_event :: container_event where
  "demo_event = \<lparr>ce_id = ''c1'', ce_name = ''web'', ce_event = ''die'', ce_health = [], ce_time = ''t''\<rparr>"

text \<open>A stream that shows an event and is then superseded; the select sees both its reasons to end.\<close>

definition demo_superseded_run :: "event_label list" where
  "demo_superseded_run = [EAttached None, EListed (Inr []), EMain smooth, EMain smooth, EHubSends demo_event,
     ETakeEvent smooth, ESupersede, EEvict, ETakeDone, EMain smooth, EMain smooth, EMain smooth, EMain smooth,
     EBeat BeatStops, EMain smooth]"

lemma demo_superseded_execution:
  "\<exists>s. execution (event_step dev) (event_start False) demo_superseded_run s \<and> ev_pc s = EDone \<and> ev_superseded s \<and>
     \<not> st_gone (ev_st s) \<and> sw_out (st_w (ev_st s)) = [snapshot_frame [], health_frame demo_event]"
  by (simp add: demo_superseded_run_def event_start_def new_stream_def newSSEWriter_def event_main_def take_buffered_def
      sse_event_def sse_write_def startLocked_def smooth_def launch_beat_def ctx_done_def snapshot_frame_def health_frame_def)

lemma event_stream_faithful_witness:
  "\<exists>s. execution (event_step ''d'') (event_start False) demo_superseded_run s \<and>
     streamed [demo_event] (ev_buf s) (sw_out (st_w (ev_st s)))"
proof -
  obtain s where s: "execution (event_step ''d'') (event_start False) demo_superseded_run s"
    "sw_out (st_w (ev_st s)) = [snapshot_frame [], health_frame demo_event]"
    using demo_superseded_execution by blast
  have "\<not> no_stream (sw_out (st_w (ev_st s)))" by (simp add: no_stream_def s(2) snapshot_frame_def)
  moreover have "hub_sent demo_superseded_run = [demo_event]" by (simp add: demo_superseded_run_def)
  ultimately show ?thesis using event_stream_faithful [OF s(1)] s(1) by (intro exI [of _ s]) simp
qed

text \<open>
  A stream can be superseded without being told.  The registry closes \<open>superseded\<close> and then
  cancels the stream; if the handler is busy with a frame meanwhile, its select finds both ready
  and may take the cancelled context.  The response then ends with the client connected and
  every write successful, but without the frame that tells the client not to come back.
\<close>

theorem superseded_frame_can_be_lost:
  "\<exists>ls s. execution (event_step dev) (event_start False) ls s \<and> ev_pc s = EDone \<and> ev_superseded s \<and>
     \<not> st_gone (ev_st s) \<and> terminals (st_w (ev_st s)) = 0 \<and>
     list_all (\<lambda>l. case l of ETakeEvent io \<Rightarrow> io = smooth | _ \<Rightarrow> True) ls"
proof -
  obtain s where s: "execution (event_step dev) (event_start False) demo_superseded_run s" "ev_pc s = EDone"
    "ev_superseded s" "\<not> st_gone (ev_st s)" "sw_out (st_w (ev_st s)) = [snapshot_frame [], health_frame demo_event]"
    using demo_superseded_execution by blast
  then have "terminals (st_w (ev_st s)) = 0"
    by (simp add: terminals_def snapshot_frame_def health_frame_def sse_names)
  with s show ?thesis
    by (intro exI [of _ demo_superseded_run] exI [of _ s]) (auto simp: demo_superseded_run_def)
qed

subsection \<open>The handler unwinds\<close>

fun event_pc_rank :: "event_pc \<Rightarrow> nat" where
  "event_pc_rank EAttach = 12"
| "event_pc_rank EStates = 11"
| "event_pc_rank (ESnapshot ss) = 10"
| "event_pc_rank ELaunch = 9"
| "event_pc_rank ELoop = 8"
| "event_pc_rank EStopTicker = 7"
| "event_pc_rank EDetach = 6"
| "event_pc_rank ERelease = 5"
| "event_pc_rank ECancel = 4"
| "event_pc_rank EWait = 3"
| "event_pc_rank EDone = 0"

definition event_rank :: "event_stream \<Rightarrow> nat" where
  "event_rank s = event_pc_rank (ev_pc s) + stream_rank (ev_st s) + length (ev_buf s)"

fun event_internal :: "event_label \<Rightarrow> bool" where
  "event_internal (EBeat b) \<longleftrightarrow> beat_internal b"
| "event_internal ESupersede \<longleftrightarrow> False"
| "event_internal EEvict \<longleftrightarrow> False"
| "event_internal (EHubSends e) \<longleftrightarrow> False"
| "event_internal (EHubCloses r) \<longleftrightarrow> False"
| "event_internal _ \<longleftrightarrow> True"

fun event_cost :: "event_label \<Rightarrow> nat" where
  "event_cost (EBeat b) = beat_cost b"
| "event_cost (EHubSends e) = 1"
| "event_cost _ = 0"

lemma event_main_rank: "event_main io s = Some s' \<Longrightarrow> event_teardown s \<Longrightarrow> event_rank s' < event_rank s"
  by (cases "ev_pc s")
    (auto simp: event_main_def event_rank_def event_teardown_def stream_rank_def launch_beat_def Let_def
      split: if_splits option.splits prod.splits)

lemma take_buffered_rank: "take_buffered io s = Some s' \<Longrightarrow> ev_pc s = ELoop \<Longrightarrow> event_rank s' < event_rank s"
  by (auto simp: take_buffered_def event_rank_def stream_rank_def Let_def split: list.splits prod.splits if_splits)

lemma event_end_rank: "ev_pc s = ELoop \<Longrightarrow> event_rank (event_end io msg s) < event_rank s"
  by (simp add: event_end_def event_rank_def)

lemma event_step_rank:
  assumes "event_step dev l s = Some s'" and "event_teardown s"
  shows "event_rank s' + (if event_internal l then 1 else 0) \<le> event_rank s + event_cost l"
proof (cases l)
  case (EBeat b)
  with assms(1) obtain st where "beat_step heartbeat_text True dev b (ev_st s) = Some st" "s' = s\<lparr>ev_st := st\<rparr>" by auto
  with beat_step_rank [OF this(1)] EBeat show ?thesis by (auto simp: event_rank_def)
next
  case (EMain io)
  with assms event_main_rank [of io s s'] show ?thesis by simp
next
  case (ETakeEvent io)
  with assms take_buffered_rank [of io s s'] show ?thesis by (simp split: if_splits)
next
  case (ETakeSuperseded io)
  with assms(1) have "ev_pc s = ELoop" "s' = event_end io msgEventStreamSuperseded s" by (simp_all split: if_splits)
  with event_end_rank [of s io msgEventStreamSuperseded] ETakeSuperseded show ?thesis by simp
next
  case (ETakeClosed io)
  with assms(1) obtain msg where "ev_pc s = ELoop" "s' = event_end io msg s" by (auto split: if_splits)
  with event_end_rank [of s io msg] ETakeClosed show ?thesis by simp
next
  case (EAttached res)
  with assms(1) show ?thesis by (cases res) (auto simp: event_rank_def event_reply_def stream_rank_def split: if_splits)
next
  case (EListed res)
  with assms(1) show ?thesis by (cases res) (auto simp: event_rank_def event_reply_def stream_rank_def split: if_splits)
qed (use assms(1) in \<open>auto simp: event_rank_def stream_rank_def split: if_splits\<close>)

lemma event_done_step:
  assumes "event_step dev l s = Some s'" and "event_teardown s" and "ev_pc s = EDone"
  shows "ev_pc s' = EDone \<and> st_w (ev_st s') = st_w (ev_st s)"
proof (cases l)
  case (EBeat b)
  with assms(1) obtain st where st: "beat_step heartbeat_text True dev b (ev_st s) = Some st" "s' = s\<lparr>ev_st := st\<rparr>" by auto
  with assms(2,3) beat_step_control [OF st(1)] beat_off [OF st(1)] show ?thesis by (auto simp: event_teardown_def)
qed (use assms in \<open>auto simp: event_main_def split: if_splits\<close>)

interpretation ev: unwinding "event_step dev" ev_st event_teardown heartbeat_text True dev
  event_internal event_cost event_rank "\<lambda>s. ev_pc s = EDone" for dev
  by unfold_locales (use event_step_rank event_done_step in \<open>blast+\<close>)

lemma event_progress:
  assumes "event_teardown s" and "ev_pc s \<noteq> EDone"
    and "ctx_done (ev_st s) \<or> ev_superseded s \<or> ev_closed s \<noteq> None"
  shows "\<exists>l s'. event_internal l \<and> event_step dev l s = Some s'"
proof (cases "ev_pc s")
  case EAttach
  then show ?thesis by (intro exI [of _ "EAttached None"]) simp
next
  case EStates
  then show ?thesis by (intro exI [of _ "EListed (Inr [])"]) simp
next
  case ELoop
  from assms(3) consider "ctx_done (ev_st s)" | "ev_superseded s" | r where "ev_closed s = Some r" by blast
  then show ?thesis
  proof cases
    case 1
    with ELoop show ?thesis by (intro exI [of _ ETakeDone]) simp
  next
    case 2
    with ELoop show ?thesis by (intro exI [of _ "ETakeSuperseded smooth"]) simp
  next
    case 3
    with ELoop show ?thesis by (intro exI [of _ "ETakeClosed smooth"]) simp
  qed
next
  case EWait
  show ?thesis
  proof (cases "st_beat (ev_st s) \<in> {BeatOff, BeatGone}")
    case True
    with EWait show ?thesis by (intro exI [of _ "EMain smooth"]) (simp add: event_main_def)
  next
    case False
    have "ctx_done (ev_st s)" using assms(1) EWait by (simp add: event_teardown_def ctx_done_def)
    from beat_progress [OF this False, of heartbeat_text True dev] obtain b st where
      "beat_internal b" "beat_step heartbeat_text True dev b (ev_st s) = Some st" by blast
    then show ?thesis by (intro exI [of _ "EBeat b"]) simp
  qed
next
  case (ESnapshot ss)
  then have "\<exists>s'. event_main smooth s = Some s'" by (simp add: event_main_def Let_def split_beta)
  then show ?thesis by (intro exI [of _ "EMain smooth"]) simp
qed (use assms(2) in \<open>auto intro!: exI [of _ "EMain smooth"] simp: event_main_def\<close>)

lemma event_rank_bound: "event_rank s \<le> 20 + length (ev_buf s)"
  by (cases "ev_pc s"; cases "st_beat (ev_st s)") (auto simp: event_rank_def stream_rank_def)

text \<open>
  An event stream always unwinds.  As soon as its client leaves, the server shuts down, the
  device is revoked, a newer stream supersedes it or the hub closes it, the two goroutines are
  never stuck before the handler has returned, and between them they make at most twenty steps,
  one for each buffered event and the cost of each tick and each event that still arrives; when
  the handler has returned, nothing is written to the response any more.
\<close>

theorem event_stream_unwinds:
  assumes "execution (event_step dev) (event_start gone) ls s"
    and "ctx_done (ev_st s) \<or> ev_superseded s \<or> ev_closed s \<noteq> None"
  shows "(ev_pc s = EDone \<or> (\<exists>l s'. event_internal l \<and> event_step dev l s = Some s')) \<and>
    (\<forall>ls' s'. execution (event_step dev) s ls' s' \<longrightarrow>
       length (filter event_internal ls') \<le> 20 + length (ev_buf s) + sum_list (map event_cost ls') \<and>
       (ev_pc s = EDone \<longrightarrow> ev_pc s' = EDone \<and> st_w (ev_st s') = st_w (ev_st s)))"
proof -
  have t: "event_teardown s" using assms(1) event_start_good(1) by (rule ev.run_good)
  then have "ev_pc s = EDone \<or> (\<exists>l s'. event_internal l \<and> event_step dev l s = Some s')"
    using event_progress assms(2) by auto
  moreover have "length (filter event_internal ls') \<le> 20 + length (ev_buf s) + sum_list (map event_cost ls')"
    if "execution (event_step dev) s ls' s'" for ls' s'
    using ev.run_rank [OF that t] event_rank_bound [of s] by linarith
  ultimately show ?thesis using ev.run_returned [OF _ t] by blast
qed

lemma event_stream_unwinds_witness:
  "\<exists>s. execution (event_step ''d'') (event_start True) [EAttached None] s \<and>
     (\<exists>l s'. event_internal l \<and> event_step ''d'' l s = Some s')"
proof -
  obtain s where s: "execution (event_step ''d'') (event_start True) [EAttached None] s" "ev_pc s = EStates"
    "ctx_done (ev_st s)"
    by (simp add: event_start_def new_stream_def ctx_done_def)
  with event_stream_unwinds [OF s(1)] show ?thesis by auto
qed

end
