(* ===== verification/Identities.thy ===== *)
theory Identities
  imports Certs Config
begin

section \<open>The agent's identity on disk (internal/certs: ca.go, store.go, issue.go; serve in main.go)\<close>

text \<open>
  Creating, loading and re-issuing the certificate authority and the server certificate, as
  sequences of effects on the certs directory.  Any effect may fail, and the process may be
  killed at any effect; a failed or killed write leaves a prefix of the data.  The crypto
  library is a parameter; what the agent puts into a certificate is modelled.
\<close>

subsection \<open>Certificates\<close>

record full_certificate = certificate +
  x_organization :: "string list"
  x_key_encipherment :: bool
  x_cert_sign :: bool
  x_crl_sign :: bool
  x_max_path_zero :: bool
  x_dns_names :: "string list"
  x_ip_addresses :: "string list"

text \<open>
  Keys are of any type.  \<open>p_create\<close> gets the template, the parent and its key, and the key that
  is certified; \<open>p_load_pair\<close> is tls.LoadX509KeyPair, which fails if the two do not match.
\<close>

record 'k pki =
  p_generate :: "nat \<Rightarrow> 'k option"
  p_serial :: "nat \<Rightarrow> nat option"
  p_create :: "full_certificate \<Rightarrow> full_certificate \<Rightarrow> 'k \<Rightarrow> 'k \<Rightarrow> string option"
  p_marshal_key :: "'k \<Rightarrow> string option"
  p_parse_key :: "string \<Rightarrow> 'k option option"
  p_parse_cert :: "string \<Rightarrow> full_certificate option"
  p_pem_encode :: "string \<Rightarrow> string \<Rightarrow> string"
  p_pem_decode :: "string \<Rightarrow> (string \<times> string) option"
  p_load_pair :: "string \<Rightarrow> string \<Rightarrow> full_certificate option"
  p_verify_host :: "full_certificate \<Rightarrow> string \<Rightarrow> bool"
  p_sha256 :: "string \<Rightarrow> string"

definition serverCertValidity :: int where "serverCertValidity = 398 * 24 * 3600 * 1000000000"
definition caValidity :: int where "caValidity = 10 * 365 * 24 * 3600 * 1000000000"
definition certCommonName :: string where "certCommonName = ''devmon-agent''"
definition caCommonName :: string where "caCommonName = ''devmon-agent CA''"
definition certOrganization :: string where "certOrganization = ''DevMon''"
definition pemTypePrivateKey :: string where "pemTypePrivateKey = ''PRIVATE KEY''"

definition caCertFile :: string where "caCertFile = ''ca.crt''"
definition caKeyFile :: string where "caKeyFile = ''ca.key''"
definition serverCertFile :: string where "serverCertFile = ''server.crt''"
definition serverKeyFile :: string where "serverKeyFile = ''server.key''"
text \<open>Modes in decimal: 384 is 0600 and 420 is 0644.\<close>

definition caKeyFileMode :: nat where "caKeyFileMode = 384"
definition caCrtFileMode :: nat where "caCrtFileMode = 420"
definition serverKeyFileMode :: nat where "serverKeyFileMode = 384"
definition serverCrtFileMode :: nat where "serverCrtFileMode = 420"

lemmas file_names = caCertFile_def caKeyFile_def serverCertFile_def serverKeyFile_def

definition splitSANs :: "string list \<Rightarrow> string list \<times> string list" where
  "splitSANs sans = (filter (\<lambda>s. \<not> is_ipv4 s) sans, filter is_ipv4 sans)"

definition ca_template :: "nat \<Rightarrow> int \<Rightarrow> full_certificate" where
  "ca_template serial now =
     \<lparr>x_serial = serial, x_common_name = caCommonName, x_not_before = now - 60000000000,
      x_not_after = now + caValidity, x_digital_signature = False, x_ext_key_usage = [], x_is_ca = True,
      x_organization = [certOrganization], x_key_encipherment = False, x_cert_sign = True, x_crl_sign = True,
      x_max_path_zero = True, x_dns_names = [], x_ip_addresses = []\<rparr>"

definition server_template :: "nat \<Rightarrow> string list \<Rightarrow> int \<Rightarrow> full_certificate" where
  "server_template serial sans now =
     \<lparr>x_serial = serial, x_common_name = certCommonName, x_not_before = now - 60000000000,
      x_not_after = now + serverCertValidity, x_digital_signature = True, x_ext_key_usage = [ServerAuth],
      x_is_ca = False, x_organization = [certOrganization], x_key_encipherment = True, x_cert_sign = False,
      x_crl_sign = False, x_max_path_zero = False, x_dns_names = fst (splitSANs sans),
      x_ip_addresses = snd (splitSANs sans)\<rparr>"

text \<open>A loaded authority: the certificate file, the parsed certificate and the key.\<close>

record 'k authority =
  au_raw :: string
  au_cert :: full_certificate
  au_key :: 'k

definition Fingerprint :: "'k pki \<Rightarrow> 'k authority \<Rightarrow> string" where
  "Fingerprint pki ca = hex_encode (p_sha256 pki (au_raw ca))"

definition CertPEM :: "'k pki \<Rightarrow> 'k authority \<Rightarrow> string" where
  "CertPEM pki ca = p_pem_encode pki pemTypeCertificate (au_raw ca)"

subsection \<open>Effects\<close>

datatype cert_error =
    Killed | Failed | FileExists | TornPair | IdentityIncomplete | BadCA | BadServerPair | NoSANs | CryptoFailed

record disk =
  d_files :: "(string, nat \<times> string) gomap"
  d_db :: bool
  d_ops :: nat

text \<open>What becomes of the nth effect since the start of the process.\<close>

record fate =
  f_killed :: "nat \<Rightarrow> bool"
  f_fails :: "nat \<Rightarrow> bool"
  f_part :: "nat \<Rightarrow> nat"

type_synonym 'a io = "disk \<Rightarrow> (cert_error + 'a) \<times> disk"

definition return_io :: "'a \<Rightarrow> 'a io" where "return_io x s = (Inr x, s)"
definition fail_io :: "cert_error \<Rightarrow> 'a io" where "fail_io e s = (Inl e, s)"

definition bind_io :: "'a io \<Rightarrow> ('a \<Rightarrow> 'b io) \<Rightarrow> 'b io" where
  "bind_io m k s = (case m s of (Inl e, s') \<Rightarrow> (Inl e, s') | (Inr x, s') \<Rightarrow> k x s')"

definition tick :: "disk \<Rightarrow> disk" where "tick s = s\<lparr>d_ops := Suc (d_ops s)\<rparr>"

text \<open>An effect that happens or, killed or failed, does not.\<close>

definition effect :: "fate \<Rightarrow> 'a io \<Rightarrow> 'a io" where
  "effect ft act s =
     (if f_killed ft (d_ops s) then (Inl Killed, tick s)
      else if f_fails ft (d_ops s) then (Inl Failed, tick s)
      else (case act s of (r, s') \<Rightarrow> (r, tick s')))"

definition put_file :: "string \<Rightarrow> nat \<times> string \<Rightarrow> disk \<Rightarrow> disk" where
  "put_file name f s = s\<lparr>d_files := gm_put name f (d_files s)\<rparr>"

definition stat_exists :: "fate \<Rightarrow> string \<Rightarrow> bool io" where
  "stat_exists ft name = effect ft (\<lambda>s. (Inr (gm_get (d_files s) name \<noteq> None), s))"

definition mkdir_all :: "fate \<Rightarrow> unit io" where
  "mkdir_all ft = effect ft (return_io ())"

definition open_root :: "fate \<Rightarrow> unit io" where
  "open_root ft = effect ft (return_io ())"

definition create_file :: "fate \<Rightarrow> string \<Rightarrow> nat \<Rightarrow> unit io" where
  "create_file ft name mode = effect ft (\<lambda>s.
     if gm_get (d_files s) name \<noteq> None then (Inl FileExists, s) else (Inr (), put_file name (mode, []) s))"

definition write_data :: "fate \<Rightarrow> string \<Rightarrow> nat \<Rightarrow> string \<Rightarrow> unit io" where
  "write_data ft name mode data s =
     (if f_killed ft (d_ops s) then (Inl Killed, tick (put_file name (mode, take (f_part ft (d_ops s)) data) s))
      else if f_fails ft (d_ops s) then (Inl Failed, tick (put_file name (mode, take (f_part ft (d_ops s)) data) s))
      else (Inr (), tick (put_file name (mode, data) s)))"

definition close_file :: "fate \<Rightarrow> unit io" where
  "close_file ft = effect ft (return_io ())"

text \<open>A file that is not there is no failure to remove.\<close>

definition remove_file :: "fate \<Rightarrow> string \<Rightarrow> unit io" where
  "remove_file ft name = effect ft (\<lambda>s. (Inr (), s\<lparr>d_files := gm_del name (d_files s)\<rparr>))"

definition read_file :: "fate \<Rightarrow> string \<Rightarrow> string io" where
  "read_file ft name = effect ft (\<lambda>s.
     case gm_get (d_files s) name of None \<Rightarrow> (Inl Failed, s) | Some (m, data) \<Rightarrow> (Inr data, s))"

subsection \<open>The operations\<close>

definition writeExclusive :: "fate \<Rightarrow> string \<Rightarrow> string \<Rightarrow> nat \<Rightarrow> unit io" where
  "writeExclusive ft name data mode =
     bind_io (create_file ft name mode) (\<lambda>_.
     bind_io (write_data ft name mode data) (\<lambda>_. close_file ft))"

definition keypairExists :: "fate \<Rightarrow> string \<Rightarrow> string \<Rightarrow> bool io" where
  "keypairExists ft cert key s =
     (case stat_exists ft cert s of
        (Inl Killed, s1) \<Rightarrow> (Inl Killed, s1)
      | (c, s1) \<Rightarrow>
     (case stat_exists ft key s1 of
        (Inl Killed, s2) \<Rightarrow> (Inl Killed, s2)
      | (k, s2) \<Rightarrow>
          (if c = Inr True \<and> k = Inr True then (Inr True, s2)
           else if c = Inr False \<and> k = Inr False then (Inr False, s2)
           else if isl c then (Inl Failed, s2)
           else if isl k then (Inl Failed, s2)
           else (Inl TornPair, s2))))"

text \<open>
  What follows a failed step: \<open>undo\<close> is tried, and its own failure is only logged.  A killed
  process undoes nothing.
\<close>

definition undo_io :: "'a io \<Rightarrow> unit io \<Rightarrow> 'a io" where
  "undo_io m undo s =
     (case m s of
        (Inr x, s') \<Rightarrow> (Inr x, s')
      | (Inl e, s') \<Rightarrow>
          if e = Killed then (Inl Killed, s')
          else (if fst (undo s') = Inl Killed then Inl Killed else Inl e, snd (undo s')))"

text \<open>Both pairs are written alike: the key first, then the certificate, else the key goes again.\<close>

definition write_pair :: "fate \<Rightarrow> string \<Rightarrow> string \<Rightarrow> nat \<Rightarrow> string \<Rightarrow> string \<Rightarrow> nat \<Rightarrow> unit io" where
  "write_pair ft keyName keyPEM keyMode certName certPEM certMode =
     bind_io (open_root ft) (\<lambda>_.
     bind_io (writeExclusive ft keyName keyPEM keyMode) (\<lambda>_.
     undo_io (writeExclusive ft certName certPEM certMode) (remove_file ft keyName)))"

definition generateAndWriteCA :: "'k pki \<Rightarrow> fate \<Rightarrow> nat \<Rightarrow> int \<Rightarrow> unit io" where
  "generateAndWriteCA pki ft rnd now =
     (case p_generate pki rnd of None \<Rightarrow> fail_io CryptoFailed
      | Some key \<Rightarrow> (case p_serial pki rnd of None \<Rightarrow> fail_io CryptoFailed
      | Some serial \<Rightarrow>
          (let t = ca_template serial now in
           case p_create pki t t key key of None \<Rightarrow> fail_io CryptoFailed
      | Some der \<Rightarrow> (case p_marshal_key pki key of None \<Rightarrow> fail_io CryptoFailed
      | Some keyDER \<Rightarrow>
          write_pair ft caKeyFile (p_pem_encode pki pemTypePrivateKey keyDER) caKeyFileMode
            caCertFile (p_pem_encode pki pemTypeCertificate der) caCrtFileMode))))"

text \<open>Parsing the two files of the authority; the key must be an ECDSA key.\<close>

definition parse_ca_cert :: "'k pki \<Rightarrow> string \<Rightarrow> (string \<times> full_certificate) option" where
  "parse_ca_cert pki certPEM =
     (case p_pem_decode pki certPEM of
        None \<Rightarrow> None
      | Some (t, der) \<Rightarrow> if t \<noteq> pemTypeCertificate then None
          else (case p_parse_cert pki der of None \<Rightarrow> None | Some c \<Rightarrow> Some (der, c)))"

definition parse_ca_key :: "'k pki \<Rightarrow> string \<Rightarrow> 'k option" where
  "parse_ca_key pki keyPEM =
     (case p_pem_decode pki keyPEM of
        None \<Rightarrow> None
      | Some (t, der) \<Rightarrow> if t \<noteq> pemTypePrivateKey then None
          else (case p_parse_key pki der of Some (Some k) \<Rightarrow> Some k | _ \<Rightarrow> None))"

definition loadCA :: "'k pki \<Rightarrow> fate \<Rightarrow> 'k authority io" where
  "loadCA pki ft =
     bind_io (open_root ft) (\<lambda>_.
     bind_io (read_file ft caCertFile) (\<lambda>certPEM.
       case parse_ca_cert pki certPEM of None \<Rightarrow> fail_io BadCA
       | Some (der, c) \<Rightarrow> bind_io (read_file ft caKeyFile) (\<lambda>keyPEM.
           case parse_ca_key pki keyPEM of None \<Rightarrow> fail_io BadCA
           | Some k \<Rightarrow> return_io \<lparr>au_raw = der, au_cert = c, au_key = k\<rparr>)))"

definition LoadOrCreateCA :: "'k pki \<Rightarrow> fate \<Rightarrow> nat \<Rightarrow> int \<Rightarrow> ('k authority \<times> bool) io" where
  "LoadOrCreateCA pki ft rnd now =
     bind_io (mkdir_all ft) (\<lambda>_.
     bind_io (keypairExists ft caCertFile caKeyFile) (\<lambda>exists.
     bind_io (if exists then return_io () else generateAndWriteCA pki ft rnd now) (\<lambda>_.
     bind_io (loadCA pki ft) (\<lambda>ca. return_io (ca, \<not> exists)))))"

definition IssueServerCert ::
  "'k pki \<Rightarrow> 'k authority \<Rightarrow> nat \<Rightarrow> string list \<Rightarrow> int \<Rightarrow> cert_error + string \<times> string" where
  "IssueServerCert pki ca rnd sans now =
     (if sans = [] then Inl NoSANs
      else case p_generate pki rnd of None \<Rightarrow> Inl CryptoFailed
      | Some key \<Rightarrow> (case p_serial pki rnd of None \<Rightarrow> Inl CryptoFailed
      | Some serial \<Rightarrow> (case p_create pki (server_template serial sans now) (au_cert ca) (au_key ca) key of
          None \<Rightarrow> Inl CryptoFailed
      | Some der \<Rightarrow> (case p_marshal_key pki key of None \<Rightarrow> Inl CryptoFailed
      | Some keyDER \<Rightarrow> Inr (p_pem_encode pki pemTypeCertificate der, p_pem_encode pki pemTypePrivateKey keyDER)))))"

definition writeServerCert :: "'k pki \<Rightarrow> fate \<Rightarrow> 'k authority \<Rightarrow> nat \<Rightarrow> string list \<Rightarrow> int \<Rightarrow> unit io" where
  "writeServerCert pki ft ca rnd sans now =
     (case IssueServerCert pki ca rnd sans now of
        Inl e \<Rightarrow> fail_io e
      | Inr (certPEM, keyPEM) \<Rightarrow>
          write_pair ft serverKeyFile keyPEM serverKeyFileMode serverCertFile certPEM serverCrtFileMode)"

definition ensureKeypair :: "'k pki \<Rightarrow> fate \<Rightarrow> 'k authority \<Rightarrow> nat \<Rightarrow> string list \<Rightarrow> int \<Rightarrow> unit io" where
  "ensureKeypair pki ft ca rnd sans now =
     bind_io (keypairExists ft serverCertFile serverKeyFile) (\<lambda>exists.
       if exists then return_io () else writeServerCert pki ft ca rnd sans now)"

definition reissueServerCert :: "'k pki \<Rightarrow> fate \<Rightarrow> 'k authority \<Rightarrow> nat \<Rightarrow> string list \<Rightarrow> int \<Rightarrow> unit io" where
  "reissueServerCert pki ft ca rnd sans now =
     bind_io (remove_file ft serverCertFile) (\<lambda>_.
     bind_io (remove_file ft serverKeyFile) (\<lambda>_. writeServerCert pki ft ca rnd sans now))"

text \<open>tls.LoadX509KeyPair and the parsed leaf; the pair is the two files.\<close>

definition loadServerKeypair :: "'k pki \<Rightarrow> fate \<Rightarrow> (string \<times> string \<times> full_certificate) io" where
  "loadServerKeypair pki ft =
     bind_io (read_file ft serverCertFile) (\<lambda>certPEM.
     bind_io (read_file ft serverKeyFile) (\<lambda>keyPEM.
       case p_load_pair pki certPEM keyPEM of
         None \<Rightarrow> fail_io BadServerPair
       | Some leaf \<Rightarrow> return_io (certPEM, keyPEM, leaf)))"

definition sanDrift :: "'k pki \<Rightarrow> full_certificate \<Rightarrow> string list \<Rightarrow> bool" where
  "sanDrift pki leaf sans = list_ex (\<lambda>s. \<not> p_verify_host pki leaf s) sans"

definition LoadOrCreateServerCert ::
  "'k pki \<Rightarrow> fate \<Rightarrow> 'k authority \<Rightarrow> nat \<Rightarrow> string list \<Rightarrow> int \<Rightarrow> (string \<times> string \<times> full_certificate) io" where
  "LoadOrCreateServerCert pki ft ca rnd sans now =
     bind_io (mkdir_all ft) (\<lambda>_.
     bind_io (ensureKeypair pki ft ca rnd sans now) (\<lambda>_.
     bind_io (loadServerKeypair pki ft) (\<lambda>pair.
       if \<not> sanDrift pki (snd (snd pair)) sans then return_io pair
       else bind_io (reissueServerCert pki ft ca (Suc rnd) sans now) (\<lambda>_. loadServerKeypair pki ft))))"

definition CheckIdentityConsistency :: "fate \<Rightarrow> bool \<Rightarrow> unit io" where
  "CheckIdentityConsistency ft dbExisted =
     bind_io (keypairExists ft caCertFile caKeyFile) (\<lambda>caExists.
       if dbExisted = caExists then return_io () else fail_io IdentityIncomplete)"

subsection \<open>A start of the agent (serve)\<close>

text \<open>
  \<open>state.Open\<close> looks whether the database file is there (any failure but "does not exist" counts
  as there), creates the file on the first use if it is not, and may still fail afterwards; its
  inside has a model of its own.
\<close>

definition create_db :: "fate \<Rightarrow> unit io" where
  "create_db ft = effect ft (\<lambda>s. (Inr (), s\<lparr>d_db := True\<rparr>))"

definition stat_db :: "fate \<Rightarrow> bool io" where
  "stat_db ft = effect ft (\<lambda>s. (Inr (d_db s), s))"

definition open_store :: "fate \<Rightarrow> bool io" where
  "open_store ft s =
     (case stat_db ft s of
        (Inl Killed, s') \<Rightarrow> (Inl Killed, s')
      | (r, s') \<Rightarrow> bind_io (create_db ft) (\<lambda>_. bind_io (effect ft (return_io ())) (\<lambda>_.
          return_io (r = Inr False))) s')"

definition serve_start ::
  "'k pki \<Rightarrow> fate \<Rightarrow> nat \<Rightarrow> string list \<Rightarrow> int \<Rightarrow> ('k authority \<times> string \<times> string \<times> full_certificate) io" where
  "serve_start pki ft rnd sans now =
     bind_io (open_store ft) (\<lambda>firstRun.
     bind_io (CheckIdentityConsistency ft (\<not> firstRun)) (\<lambda>_.
     bind_io (LoadOrCreateCA pki ft rnd now) (\<lambda>(ca, created).
     bind_io (LoadOrCreateServerCert pki ft ca (Suc rnd) sans now) (\<lambda>pair. return_io (ca, pair)))))"

text \<open>Each start is a new process; the disk is what the starts before it left.\<close>

definition boot :: "disk \<Rightarrow> disk" where "boot s = s\<lparr>d_ops := 0\<rparr>"

fun restarts :: "'k pki \<Rightarrow> (fate \<times> nat \<times> string list \<times> int) list \<Rightarrow> disk \<Rightarrow> disk" where
  "restarts pki [] s = s"
| "restarts pki ((ft, rnd, sans, now) # rs) s =
     restarts pki rs (snd (serve_start pki ft rnd sans now (boot s)))"

subsection \<open>What an operation keeps\<close>

definition keeps :: "(disk \<Rightarrow> bool) \<Rightarrow> 'a io \<Rightarrow> bool" where
  "keeps P m \<longleftrightarrow> (\<forall>s. P s \<longrightarrow> P (snd (m s)))"

lemma keeps_return [preserves]: "keeps P (return_io x)"
  by (simp add: keeps_def return_io_def)

lemma keeps_fail [preserves]: "keeps P (fail_io e)"
  by (simp add: keeps_def fail_io_def)

lemma keeps_bind: "keeps P m \<Longrightarrow> (\<And>x. keeps P (k x)) \<Longrightarrow> keeps P (bind_io m k)"
  unfolding keeps_def bind_io_def by (fastforce split: prod.splits sum.splits)

lemma keeps_undo: "keeps P m \<Longrightarrow> keeps P u \<Longrightarrow> keeps P (undo_io m u)"
  unfolding keeps_def undo_io_def by (fastforce split: prod.splits sum.splits)

lemma keepsD: "keeps P m \<Longrightarrow> P s \<Longrightarrow> P (snd (m s))"
  by (simp add: keeps_def)

lemma keeps_to: "keeps P m \<Longrightarrow> m s = (r, s') \<Longrightarrow> P s \<Longrightarrow> P s'"
  by (auto simp: keeps_def)

text \<open>
  A property of the disk that the server certificate cannot disturb: counting effects, creating
  the database, and writing or removing the two files of the server pair all keep it.
\<close>

locale server_pair_frame =
  fixes P :: "disk \<Rightarrow> bool"
  assumes keep_tick: "P s \<Longrightarrow> P (tick s)"
    and keep_db: "P s \<Longrightarrow> P (s\<lparr>d_db := True\<rparr>)"
    and keep_server_key: "P s \<Longrightarrow> P (put_file serverKeyFile (serverKeyFileMode, data) s)"
    and keep_server_cert: "P s \<Longrightarrow> P (put_file serverCertFile (serverCrtFileMode, data) s)"
    and keep_removed: "P s \<Longrightarrow> name = serverKeyFile \<or> name = serverCertFile \<Longrightarrow>
      P (s\<lparr>d_files := gm_del name (d_files s)\<rparr>)"
begin

lemma effect_keeps: "(\<And>s. P s \<Longrightarrow> P (snd (act s))) \<Longrightarrow> keeps P (effect ft act)"
  by (auto simp: keeps_def effect_def keep_tick split: prod.splits) (metis keep_tick snd_conv)

lemma looks_keep: "keeps P (stat_exists ft n)" "keeps P (mkdir_all ft)" "keeps P (open_root ft)"
    "keeps P (close_file ft)" "keeps P (read_file ft n)" "keeps P (stat_db ft)"
    "keeps P (create_db ft)" "keeps P (effect ft (return_io ()))"
  unfolding stat_exists_def mkdir_all_def open_root_def close_file_def read_file_def stat_db_def create_db_def
  by (rule effect_keeps; auto simp: return_io_def keep_db split: option.splits)+

lemma keypairExists_keeps: "keeps P (keypairExists ft c k)"
  using keepsD [OF looks_keep(1)]
  by (auto simp: keeps_def keypairExists_def split: prod.splits sum.splits cert_error.splits) (metis snd_conv)+

lemma open_store_keeps: "keeps P (open_store ft)"
proof -
  have k: "keeps P (bind_io (create_db ft) (\<lambda>_. bind_io (effect ft (return_io ())) (\<lambda>_. return_io b)))" for b
    by (intro keeps_bind looks_keep keeps_return)
  have "P (snd (open_store ft s))" if s: "P s" for s
  proof -
    obtain r s' where r: "stat_db ft s = (r, s')" by (cases "stat_db ft s")
    with s have s': "P s'" using keepsD [OF looks_keep(6), of s ft] by simp
    show ?thesis
    proof (cases "r = Inl Killed")
      case True
      with r s' show ?thesis by (simp add: open_store_def)
    next
      case False
      with r have "open_store ft s =
          bind_io (create_db ft) (\<lambda>_. bind_io (effect ft (return_io ())) (\<lambda>_. return_io (r = Inr False))) s'"
        by (auto simp: open_store_def split: sum.splits cert_error.splits)
      with keepsD [OF k s'] show ?thesis by simp
    qed
  qed
  then show ?thesis by (simp add: keeps_def)
qed

lemma write_keeps:
  assumes "\<And>s d. P s \<Longrightarrow> P (put_file name (mode, d) s)"
  shows "keeps P (writeExclusive ft name data mode)"
proof -
  have "keeps P (create_file ft name mode)"
    unfolding create_file_def by (rule effect_keeps) (auto intro: assms)
  moreover have "keeps P (write_data ft name mode data)"
    by (auto simp: keeps_def write_data_def intro!: keep_tick assms)
  ultimately show ?thesis
    unfolding writeExclusive_def by (intro keeps_bind looks_keep)
qed

lemma write_pair_keeps:
  assumes "\<And>s d. P s \<Longrightarrow> P (put_file kn (km, d) s)" and "\<And>s d. P s \<Longrightarrow> P (put_file cn (cm, d) s)"
    and "\<And>s. P s \<Longrightarrow> P (s\<lparr>d_files := gm_del kn (d_files s)\<rparr>)"
  shows "keeps P (write_pair ft kn kd km cn cd cm)"
proof -
  have r: "keeps P (remove_file ft kn)"
    unfolding remove_file_def by (rule effect_keeps) (simp add: assms)
  then show ?thesis
    unfolding write_pair_def by (intro keeps_bind keeps_undo looks_keep write_keeps assms)
qed

lemma writeServerCert_keeps: "keeps P (writeServerCert pki ft ca rnd sans now)"
  unfolding writeServerCert_def
  by (auto split: sum.splits prod.splits intro!: keeps_fail write_pair_keeps keep_server_key keep_server_cert keep_removed)

lemma load_keeps: "keeps P (loadServerKeypair pki ft)"
  unfolding loadServerKeypair_def
  by (intro keeps_bind looks_keep) (simp add: keeps_return keeps_fail split: option.split)

lemma loadCA_keeps: "keeps P (loadCA pki ft)"
  unfolding loadCA_def
proof (intro keeps_bind looks_keep)
  fix certPEM
  have k: "keeps P (bind_io (read_file ft caKeyFile) (\<lambda>keyPEM. case parse_ca_key pki keyPEM of
      None \<Rightarrow> fail_io BadCA | Some k \<Rightarrow> return_io \<lparr>au_raw = der, au_cert = c, au_key = k\<rparr>))" for der c
    by (intro keeps_bind looks_keep) (simp add: keeps_return keeps_fail split: option.split)
  then show "keeps P (case parse_ca_cert pki certPEM of None \<Rightarrow> fail_io BadCA
      | Some (der, c) \<Rightarrow> bind_io (read_file ft caKeyFile) (\<lambda>keyPEM. case parse_ca_key pki keyPEM of
          None \<Rightarrow> fail_io BadCA | Some k \<Rightarrow> return_io \<lparr>au_raw = der, au_cert = c, au_key = k\<rparr>))"
    by (simp add: keeps_fail split: option.split prod.split)
qed

lemma remove_keeps: "n = serverKeyFile \<or> n = serverCertFile \<Longrightarrow> keeps P (remove_file ft n)"
  unfolding remove_file_def by (rule effect_keeps) (simp add: keep_removed)

lemma ensureKeypair_keeps: "keeps P (ensureKeypair pki ft ca rnd sans now)"
  unfolding ensureKeypair_def
  by (rule keeps_bind [OF keypairExists_keeps]) (simp add: keeps_return writeServerCert_keeps)

lemma reissue_keeps: "keeps P (reissueServerCert pki ft ca rnd sans now)"
  unfolding reissueServerCert_def by (intro keeps_bind remove_keeps writeServerCert_keeps) simp_all

lemma server_cert_keeps: "keeps P (LoadOrCreateServerCert pki ft ca rnd sans now)"
proof -
  have r: "keeps P (bind_io (reissueServerCert pki ft ca n sans now) (\<lambda>_. loadServerKeypair pki ft))" for n
    by (intro keeps_bind reissue_keeps load_keeps)
  have "keeps P (if \<not> sanDrift pki (snd (snd pair)) sans then return_io pair
      else bind_io (reissueServerCert pki ft ca (Suc rnd) sans now) (\<lambda>_. loadServerKeypair pki ft))" for pair
    using r by (simp add: keeps_return)
  then show ?thesis
    unfolding LoadOrCreateServerCert_def by (intro keeps_bind looks_keep ensureKeypair_keeps load_keeps)
qed

lemma check_keeps: "keeps P (CheckIdentityConsistency ft b)"
  unfolding CheckIdentityConsistency_def
  by (rule keeps_bind [OF keypairExists_keeps]) (simp add: keeps_return keeps_fail)

lemma start_keeps:
  assumes "\<And>r. keeps P (LoadOrCreateCA pki ft r now)"
  shows "keeps P (serve_start pki ft rnd sans now)"
proof -
  have "keeps P (case x of (ca, created) \<Rightarrow>
      bind_io (LoadOrCreateServerCert pki ft ca r sans now) (\<lambda>pair. return_io (ca, pair)))" for x r
    by (cases x) (simp, intro keeps_bind server_cert_keeps keeps_return)
  then show ?thesis
    unfolding serve_start_def by (intro keeps_bind open_store_keeps check_keeps assms)
qed

end

text \<open>A property that writing the files of the authority keeps as well is kept by every start.\<close>

locale start_frame = server_pair_frame +
  assumes keep_ca_key: "P s \<Longrightarrow> P (put_file caKeyFile (caKeyFileMode, data) s)"
    and keep_ca_cert: "P s \<Longrightarrow> P (put_file caCertFile (caCrtFileMode, data) s)"
    and keep_ca_removed: "P s \<Longrightarrow> P (s\<lparr>d_files := gm_del caKeyFile (d_files s)\<rparr>)"
    and keep_boot: "P s \<Longrightarrow> P (boot s)"
begin

lemma generate_keeps: "keeps P (generateAndWriteCA pki ft rnd now)"
  unfolding generateAndWriteCA_def Let_def
  by (auto split: option.splits intro!: keeps_fail write_pair_keeps keep_ca_key keep_ca_cert keep_ca_removed)

lemma ca_keeps: "keeps P (LoadOrCreateCA pki ft rnd now)"
proof -
  have "keeps P (if b then return_io () else generateAndWriteCA pki ft rnd now)" for b
    by (simp add: keeps_return generate_keeps)
  then show ?thesis
    unfolding LoadOrCreateCA_def by (intro keeps_bind looks_keep keypairExists_keeps loadCA_keeps keeps_return)
qed

lemma restarts_keep: "P s \<Longrightarrow> P (restarts pki runs s)"
proof (induction pki runs s rule: restarts.induct)
  case (2 pki ft rnd sans now rs s)
  show ?case
    unfolding restarts.simps by (rule "2.IH", rule keepsD [OF start_keeps [OF ca_keeps] keep_boot [OF "2.prems"]])
qed simp

end

definition ca_fixed :: "nat \<times> string \<Rightarrow> nat \<times> string \<Rightarrow> disk \<Rightarrow> bool" where
  "ca_fixed c k s \<longleftrightarrow> d_db s \<and> gm_get (d_files s) caCertFile = Some c \<and> gm_get (d_files s) caKeyFile = Some k"

definition keys_private :: "disk \<Rightarrow> bool" where
  "keys_private s \<longleftrightarrow> list_all (\<lambda>n. case gm_get (d_files s) n of None \<Rightarrow> True | Some (m, data) \<Rightarrow> m = 384)
     [caKeyFile, serverKeyFile]"

interpretation fixed: server_pair_frame "ca_fixed c k" for c k
  by unfold_locales (auto simp: ca_fixed_def tick_def put_file_def gomap_simps file_names)

interpretation db: start_frame d_db
  by unfold_locales (auto simp: tick_def put_file_def boot_def)

interpretation modes: start_frame keys_private
  by unfold_locales (auto simp: keys_private_def tick_def put_file_def boot_def gomap_simps file_names
      serverKeyFileMode_def caKeyFileMode_def split: option.splits)

subsection \<open>The authority survives every later start\<close>

lemma bind_ok:
  "bind_io m k s = (Inr y, s') \<longleftrightarrow> (\<exists>x s1. m s = (Inr x, s1) \<and> k x s1 = (Inr y, s'))"
  by (auto simp: bind_io_def split: prod.splits sum.splits)

lemma effect_ok: "effect ft act s = (Inr y, s') \<Longrightarrow> \<exists>s1. act s = (Inr y, s1) \<and> s' = tick s1"
  by (auto simp: effect_def split: if_splits prod.splits)

lemma looks_ok:
  "stat_exists ft n s = (Inr b, s') \<Longrightarrow> b = (gm_get (d_files s) n \<noteq> None) \<and> s' = tick s"
  "mkdir_all ft s = (Inr u, s') \<Longrightarrow> s' = tick s" "open_root ft s = (Inr u, s') \<Longrightarrow> s' = tick s"
  "close_file ft s = (Inr u, s') \<Longrightarrow> s' = tick s"
  "read_file ft n s = (Inr d, s') \<Longrightarrow> (\<exists>m. gm_get (d_files s) n = Some (m, d)) \<and> s' = tick s"
  "create_db ft s = (Inr u, s') \<Longrightarrow> s' = tick (s\<lparr>d_db := True\<rparr>)"
  unfolding stat_exists_def mkdir_all_def open_root_def close_file_def read_file_def create_db_def
  by (auto simp: return_io_def split: option.splits dest!: effect_ok)

lemma looks_files: "d_files (snd (stat_exists ft n s)) = d_files s" "d_db (snd (stat_exists ft n s)) = d_db s"
  by (auto simp: stat_exists_def effect_def tick_def)

lemma keypairExists_result:
  "fst (keypairExists ft c k s) = Inr b \<Longrightarrow>
     b = (gm_get (d_files s) c \<noteq> None) \<and> b = (gm_get (d_files s) k \<noteq> None)"
proof -
  obtain rc s1 where c: "stat_exists ft c s = (rc, s1)" by (cases "stat_exists ft c s")
  obtain rk s2 where k: "stat_exists ft k s1 = (rk, s2)" by (cases "stat_exists ft k s1")
  have f: "d_files s1 = d_files s" using looks_files(1) [of ft c s] c by simp
  assume "fst (keypairExists ft c k s) = Inr b"
  then have "rc = Inr b \<and> rk = Inr b"
    using c k by (auto simp: keypairExists_def split: sum.splits if_splits cert_error.splits)
  with c k f show ?thesis using looks_ok(1) [of ft] by fastforce
qed

lemma keypairExists_files: "d_files (snd (keypairExists ft c k s)) = d_files s"
  using looks_files(1) [of ft c s] looks_files(1) [of ft k "snd (stat_exists ft c s)"]
  by (auto simp: keypairExists_def split: prod.splits sum.splits cert_error.splits)

definition file_data :: "disk \<Rightarrow> string \<Rightarrow> string option" where
  "file_data s n = map_option snd (gm_get (d_files s) n)"

text \<open>The authority whose two files hold the given data.\<close>

definition authority_of :: "'k pki \<Rightarrow> string \<Rightarrow> string \<Rightarrow> 'k authority option" where
  "authority_of pki certPEM keyPEM =
     (case (parse_ca_cert pki certPEM, parse_ca_key pki keyPEM) of
        (Some (der, c), Some k) \<Rightarrow> Some \<lparr>au_raw = der, au_cert = c, au_key = k\<rparr>
      | _ \<Rightarrow> None)"

lemma loadCA_ok:
  assumes "loadCA pki ft s = (Inr ca, s')"
  obtains c k where "gm_get (d_files s') caCertFile = Some c" "gm_get (d_files s') caKeyFile = Some k"
    "authority_of pki (snd c) (snd k) = Some ca" "d_files s' = d_files s"
proof -
  obtain s1 certPEM s2 where o: "open_root ft s = (Inr (), s1)" and r: "read_file ft caCertFile s1 = (Inr certPEM, s2)"
    and rest: "(case parse_ca_cert pki certPEM of None \<Rightarrow> fail_io BadCA
       | Some (der, c) \<Rightarrow> bind_io (read_file ft caKeyFile) (\<lambda>keyPEM.
           case parse_ca_key pki keyPEM of None \<Rightarrow> fail_io BadCA
           | Some k \<Rightarrow> return_io \<lparr>au_raw = der, au_cert = c, au_key = k\<rparr>)) s2 = (Inr ca, s')"
    using assms unfolding loadCA_def bind_ok by auto
  from rest obtain der c where c: "parse_ca_cert pki certPEM = Some (der, c)"
    by (auto simp: fail_io_def split: option.splits)
  with rest obtain keyPEM s3 where k: "read_file ft caKeyFile s2 = (Inr keyPEM, s3)"
    and e: "(case parse_ca_key pki keyPEM of None \<Rightarrow> fail_io BadCA
           | Some k \<Rightarrow> return_io \<lparr>au_raw = der, au_cert = c, au_key = k\<rparr>) s3 = (Inr ca, s')"
    by (auto simp: bind_ok)
  from e obtain key where "parse_ca_key pki keyPEM = Some key" "ca = \<lparr>au_raw = der, au_cert = c, au_key = key\<rparr>" "s' = s3"
    by (auto simp: fail_io_def return_io_def split: option.splits)
  with c have a: "authority_of pki certPEM keyPEM = Some ca" by (simp add: authority_of_def)
  from looks_ok(3) [OF o] looks_ok(5) [OF r] looks_ok(5) [OF k] \<open>s' = s3\<close> obtain m n where
    "gm_get (d_files s') caCertFile = Some (m, certPEM)" "gm_get (d_files s') caKeyFile = Some (n, keyPEM)"
    "d_files s' = d_files s"
    by (auto simp: tick_def)
  with a show thesis by (intro that [of "(m, certPEM)" "(n, keyPEM)"]) simp_all
qed

lemma fixed_ca_keeps: "keeps (ca_fixed c k) (LoadOrCreateCA pki ft rnd now)"
proof -
  let ?P = "ca_fixed c k"
  let ?make = "\<lambda>b. if b then return_io () else generateAndWriteCA pki ft rnd now"
  have t: "?P (snd (bind_io (keypairExists ft caCertFile caKeyFile) (\<lambda>b.
      bind_io (?make b) (\<lambda>_. bind_io (loadCA pki ft) (\<lambda>ca. return_io (ca, \<not> b)))) s))" if P: "?P s" for s
  proof -
    obtain r s1 where r: "keypairExists ft caCertFile caKeyFile s = (r, s1)"
      by (cases "keypairExists ft caCertFile caKeyFile s")
    have P1: "?P s1" by (rule keeps_to [OF fixed.keypairExists_keeps r P])
    show ?thesis
    proof (cases r)
      case (Inl e)
      with r P1 show ?thesis by (simp add: bind_io_def)
    next
      case (Inr b)
      with keypairExists_result [of ft caCertFile caKeyFile s b] r P have "b" by (simp add: ca_fixed_def)
      have "keeps ?P (bind_io (return_io ()) (\<lambda>_. bind_io (loadCA pki ft) (\<lambda>ca. return_io (ca, \<not> b))))"
        by (intro keeps_bind keeps_return fixed.loadCA_keeps)
      then have "?P (snd (bind_io (return_io ()) (\<lambda>_. bind_io (loadCA pki ft) (\<lambda>ca. return_io (ca, \<not> b))) s1))"
        using P1 by (rule keepsD)
      with \<open>b\<close> r Inr show ?thesis by (simp add: bind_io_def [of "keypairExists ft caCertFile caKeyFile"])
    qed
  qed
  then have "keeps ?P (bind_io (keypairExists ft caCertFile caKeyFile) (\<lambda>b.
      bind_io (?make b) (\<lambda>_. bind_io (loadCA pki ft) (\<lambda>ca. return_io (ca, \<not> b)))))"
    by (simp add: keeps_def)
  then show ?thesis
    unfolding LoadOrCreateCA_def by (rule keeps_bind [OF fixed.looks_keep(2)])
qed

lemma fixed_restarts: "ca_fixed c k s \<Longrightarrow> ca_fixed c k (restarts pki runs s)"
proof (induction pki runs s rule: restarts.induct)
  case (2 pki ft rnd sans now rs s)
  then have "ca_fixed c k (boot s)" by (simp add: ca_fixed_def boot_def)
  then show ?case
    unfolding restarts.simps by (intro "2.IH" keepsD [OF fixed.start_keeps [OF fixed_ca_keeps]])
qed simp

lemma LoadOrCreateCA_ok:
  assumes "LoadOrCreateCA pki ft rnd now s = (Inr (ca, created), s')"
  obtains s1 where "loadCA pki ft s1 = (Inr ca, s')"
  using assms unfolding LoadOrCreateCA_def bind_ok return_io_def by auto

lemma open_store_ok: "open_store ft s = (Inr b, s') \<Longrightarrow> d_db s'"
proof -
  assume "open_store ft s = (Inr b, s')"
  then obtain u s1 s2 where c: "create_db ft s1 = (Inr u, s2)" and e: "effect ft (return_io ()) s2 = (Inr (), s')"
    by (auto simp: open_store_def bind_ok return_io_def split: prod.splits sum.splits cert_error.splits)
  from effect_ok [OF e] looks_ok(6) [OF c] show "d_db s'" by (auto simp: return_io_def tick_def)
qed

lemma start_authority:
  assumes "serve_start pki ft rnd sans now s = (Inr (ca, pair), s')"
  obtains c k where "ca_fixed c k s'" "authority_of pki (snd c) (snd k) = Some ca"
proof -
  obtain b s1 s2 x s3 where o: "open_store ft s = (Inr b, s1)"
    and c: "CheckIdentityConsistency ft (\<not> b) s1 = (Inr (), s2)"
    and lx: "LoadOrCreateCA pki ft rnd now s2 = (Inr x, s3)"
    and rest: "(case x of (ca, created) \<Rightarrow> bind_io (LoadOrCreateServerCert pki ft ca (Suc rnd) sans now)
      (\<lambda>pair. return_io (ca, pair))) s3 = (Inr (ca, pair), s')"
    using assms unfolding serve_start_def bind_ok by auto
  obtain ca' created where x: "x = (ca', created)" by (cases x)
  from rest x have "ca' = ca" and k: "LoadOrCreateServerCert pki ft ca (Suc rnd) sans now s3 = (Inr pair, s')"
    by (auto simp: bind_ok return_io_def)
  with lx x have l: "LoadOrCreateCA pki ft rnd now s2 = (Inr (ca, created), s3)" by simp
  obtain s4 where "loadCA pki ft s4 = (Inr ca, s3)" using LoadOrCreateCA_ok [OF l] .
  then obtain cf kf where f: "gm_get (d_files s3) caCertFile = Some cf" "gm_get (d_files s3) caKeyFile = Some kf"
      "authority_of pki (snd cf) (snd kf) = Some ca"
    by (rule loadCA_ok)
  have "d_db s3"
    by (rule keeps_to [OF db.ca_keeps l keeps_to [OF db.check_keeps c open_store_ok [OF o]]])
  with f have "ca_fixed cf kf s3" by (simp add: ca_fixed_def)
  then have "ca_fixed cf kf s'" by (rule keeps_to [OF fixed.server_cert_keeps k])
  from this f(3) show thesis by (rule that)
qed

text \<open>
  C8: the authority a device has pinned is never replaced.  Once any start has got as far as
  serving with an authority, then whatever becomes of the starts after it - every effect of each
  of them may fail, each may be killed at any effect, with a write left half done - the two files
  of the authority stay byte for byte what they are, and any later start that gets as far as
  serving serves with the very same certificate and key, hence the same fingerprint.
\<close>

theorem identity_stable:
  assumes "serve_start pki ft rnd sans now s = (Inr (ca, pair), s')"
  shows "file_data (restarts pki runs s') caCertFile = file_data s' caCertFile \<and>
    file_data (restarts pki runs s') caKeyFile = file_data s' caKeyFile \<and>
    (serve_start pki ft2 rnd2 sans2 now2 (boot (restarts pki runs s')) = (Inr (ca2, pair2), s2) \<longrightarrow>
      ca2 = ca \<and> Fingerprint pki ca2 = Fingerprint pki ca)"
proof -
  obtain c k where f: "ca_fixed c k s'" "authority_of pki (snd c) (snd k) = Some ca"
    using start_authority [OF assms] .
  have r: "ca_fixed c k (restarts pki runs s')" by (rule fixed_restarts [OF f(1)])
  have "ca2 = ca" if l: "serve_start pki ft2 rnd2 sans2 now2 (boot (restarts pki runs s')) = (Inr (ca2, pair2), s2)"
  proof -
    obtain c2 k2 where f2: "ca_fixed c2 k2 s2" "authority_of pki (snd c2) (snd k2) = Some ca2"
      using start_authority [OF l] .
    have "ca_fixed c k (boot (restarts pki runs s'))" using r by (simp add: ca_fixed_def boot_def)
    then have "ca_fixed c k s2" by (rule keeps_to [OF fixed.start_keeps [OF fixed_ca_keeps] l])
    with f2 f(2) show ?thesis by (simp add: ca_fixed_def)
  qed
  with f(1) r show ?thesis by (auto simp: ca_fixed_def file_data_def)
qed

text \<open>
  Private keys are for the agent's eyes only at every moment.  Whatever becomes of the starts
  - failures, kills, half-done writes, authority and server pair created, re-issued or cleaned
  up - a key file is on disk with mode 0600 or not at all: it is never briefly readable.
\<close>

theorem key_files_private:
  assumes "d_files s = []" and "name = ''ca.key'' \<or> name = ''server.key''"
    and "gm_get (d_files (restarts pki runs s)) name = Some (mode, data)"
  shows "mode = 6 * 8 * 8"
proof -
  have "keys_private s" using assms(1) by (simp add: keys_private_def)
  then have "keys_private (restarts pki runs s)" by (rule modes.restarts_keep)
  with assms(2,3) show ?thesis by (auto simp: keys_private_def file_names)
qed

subsection \<open>An interrupted first start\<close>

definition stranded :: "disk \<Rightarrow> bool" where
  "stranded s \<longleftrightarrow> d_db s \<and> gm_get (d_files s) caCertFile = None \<and> gm_get (d_files s) caKeyFile = None"

interpretation stranded: server_pair_frame stranded
  by unfold_locales (auto simp: stranded_def tick_def put_file_def gomap_simps file_names)

lemma stranded_open: "d_db s \<Longrightarrow> open_store ft s = (Inr b, s') \<Longrightarrow> \<not> b"
  by (auto simp: open_store_def stat_db_def effect_def bind_io_def return_io_def
      split: prod.splits sum.splits cert_error.splits if_splits)

lemma stranded_check:
  assumes "stranded s"
  shows "\<exists>e. fst (CheckIdentityConsistency ft True s) = Inl e"
proof -
  obtain r s1 where r: "keypairExists ft caCertFile caKeyFile s = (r, s1)"
    by (cases "keypairExists ft caCertFile caKeyFile s")
  have "r = Inr b \<Longrightarrow> \<not> b" for b
    using keypairExists_result [of ft caCertFile caKeyFile s b] r assms by (simp add: stranded_def)
  with r show ?thesis
    by (cases r) (auto simp: CheckIdentityConsistency_def bind_io_def fail_io_def)
qed

lemma stranded_start:
  assumes "stranded s"
  shows "\<exists>e s'. serve_start pki ft rnd sans now s = (Inl e, s') \<and> stranded s'"
proof -
  obtain r s1 where o: "open_store ft s = (r, s1)" by (cases "open_store ft s")
  have s1: "stranded s1" by (rule keeps_to [OF stranded.open_store_keeps o assms])
  show ?thesis
  proof (cases r)
    case (Inl e)
    with o s1 show ?thesis by (simp add: serve_start_def bind_io_def)
  next
    case (Inr b)
    with o assms have "\<not> b" using stranded_open [of s ft b s1] by (simp add: stranded_def)
    obtain x s2 where c: "CheckIdentityConsistency ft True s1 = (x, s2)"
      by (cases "CheckIdentityConsistency ft True s1")
    with stranded_check [OF s1, of ft] obtain e where "x = Inl e" by auto
    moreover have "stranded s2" by (rule keeps_to [OF stranded.check_keeps c s1])
    ultimately show ?thesis using o Inr c \<open>\<not> b\<close> by (simp add: serve_start_def bind_io_def)
  qed
qed

lemma stranded_restarts: "stranded s \<Longrightarrow> stranded (restarts pki runs s)"
proof (induction pki runs s rule: restarts.induct)
  case (2 pki ft rnd sans now rs s)
  then have "stranded (boot s)" by (simp add: stranded_def boot_def)
  then obtain e s' where "serve_start pki ft rnd sans now (boot s) = (Inl e, s')" "stranded s'"
    using stranded_start by blast
  with "2.IH" show ?case by simp
qed simp

definition no_faults :: fate where
  "no_faults = \<lparr>f_killed = (\<lambda>i. False), f_fails = (\<lambda>i. False), f_part = (\<lambda>i. 0)\<rparr>"

definition crash_at :: "nat \<Rightarrow> fate" where
  "crash_at n = no_faults\<lparr>f_killed := (\<lambda>i. i = n)\<rparr>"

definition error_at :: "nat \<Rightarrow> fate" where
  "error_at n = no_faults\<lparr>f_fails := (\<lambda>i. i = n)\<rparr>"

definition fresh_disk :: disk where
  "fresh_disk = \<lparr>d_files = [], d_db = False, d_ops = 0\<rparr>"

lemmas fates = no_faults_def crash_at_def error_at_def

lemmas io_steps = serve_start_def open_store_def stat_db_def create_db_def CheckIdentityConsistency_def
  keypairExists_def stat_exists_def LoadOrCreateCA_def mkdir_all_def effect_def bind_io_def return_io_def
  fail_io_def tick_def

lemma no_fault_incomplete:
  assumes "stranded s"
  shows "fst (serve_start pki no_faults rnd sans now s) = Inl IdentityIncomplete"
  using assms by (simp add: stranded_def io_steps no_faults_def)

lemma interrupted_generate:
  assumes "n = 8 \<or> n = 9" and "ft = crash_at n \<or> ft = error_at n" and "stranded s" and "d_ops s = 8"
  shows "\<exists>e s'. generateAndWriteCA pki ft rnd now s = (Inl e, s') \<and> stranded s'"
proof -
  have w: "\<exists>e s'. write_pair ft caKeyFile kd caKeyFileMode caCertFile cd caCrtFileMode s = (Inl e, s') \<and> stranded s'" for kd cd
    using assms by (auto simp: write_pair_def writeExclusive_def create_file_def open_root_def effect_def
        bind_io_def return_io_def tick_def fates stranded_def)
  show ?thesis
    using assms(3) w by (simp add: generateAndWriteCA_def Let_def fail_io_def split: option.split)
qed

lemma interrupted_is_stranded:
  assumes "2 \<le> n" and "n \<le> 9" and "ft = crash_at n \<or> ft = error_at n"
  shows "stranded (snd (serve_start pki ft rnd sans now fresh_disk))"
proof (cases "n < 8")
  case True
  with assms(1) have "n = 2 \<or> n = 3 \<or> n = 4 \<or> n = 5 \<or> n = 6 \<or> n = 7" by linarith
  with assms(3) show ?thesis
    by (elim disjE; simp add: io_steps fates fresh_disk_def stranded_def)
next
  case False
  with assms(2) have n: "n = 8 \<or> n = 9" by linarith
  let ?s = "\<lparr>d_files = [], d_db = True, d_ops = Suc (Suc (Suc (Suc (Suc (Suc (Suc (Suc 0)))))))\<rparr>"
  have "stranded ?s" by (simp add: stranded_def)
  then obtain e s' where g: "generateAndWriteCA pki ft rnd now ?s = (Inl e, s')" "stranded s'"
    using interrupted_generate [OF n assms(3), of ?s pki rnd now] by auto
  have "serve_start pki ft rnd sans now fresh_disk = (Inl e, s')"
    using n assms(3) g(1) by (elim disjE; simp add: io_steps fates fresh_disk_def)
  with g(2) show ?thesis by simp
qed


subsection \<open>The server certificate covers the configured addresses\<close>

lemma file_data_tick [simp]: "file_data (tick s) = file_data s"
  by (simp add: file_data_def tick_def fun_eq_iff)

lemma writeExclusive_ok:
  assumes "writeExclusive ft name data mode s = (Inr u, s')"
  shows "file_data s' = (file_data s)(name \<mapsto> data)"
proof -
  obtain s1 s2 where c: "create_file ft name mode s = (Inr (), s1)" and w: "write_data ft name mode data s1 = (Inr (), s2)"
    and e: "close_file ft s2 = (Inr u, s')"
    using assms unfolding writeExclusive_def bind_ok by auto
  have "s1 = tick (put_file name (mode, []) s)"
    using c by (auto simp: create_file_def effect_def split: if_splits)
  moreover have "s2 = tick (put_file name (mode, data) s1)"
    using w by (auto simp: write_data_def split: if_splits)
  ultimately show ?thesis
    using looks_ok(4) [OF e] by (auto simp: file_data_def tick_def put_file_def gomap_simps fun_eq_iff)
qed

lemma write_pair_ok:
  assumes "write_pair ft kn kd km cn cd cm s = (Inr u, s')"
  shows "file_data s' = (file_data s)(kn \<mapsto> kd, cn \<mapsto> cd)"
proof -
  obtain s1 s2 where o: "open_root ft s = (Inr (), s1)" and k: "writeExclusive ft kn kd km s1 = (Inr (), s2)"
    and c: "undo_io (writeExclusive ft cn cd cm) (remove_file ft kn) s2 = (Inr u, s')"
    using assms unfolding write_pair_def bind_ok by auto
  have "writeExclusive ft cn cd cm s2 = (Inr u, s')"
    using c by (auto simp: undo_io_def split: prod.splits sum.splits if_splits)
  from writeExclusive_ok [OF this] writeExclusive_ok [OF k] looks_ok(3) [OF o] show ?thesis
    by simp
qed

lemma loadServerKeypair_ok:
  assumes "loadServerKeypair pki ft s = (Inr (certPEM, keyPEM, leaf), s')"
  shows "file_data s serverCertFile = Some certPEM \<and> file_data s serverKeyFile = Some keyPEM \<and>
    p_load_pair pki certPEM keyPEM = Some leaf \<and> file_data s' = file_data s"
proof -
  obtain c s1 k s2 where c: "read_file ft serverCertFile s = (Inr c, s1)" and k: "read_file ft serverKeyFile s1 = (Inr k, s2)"
    and l: "(case p_load_pair pki c k of None \<Rightarrow> fail_io BadServerPair
       | Some leaf \<Rightarrow> return_io (c, k, leaf)) s2 = (Inr (certPEM, keyPEM, leaf), s')"
    using assms unfolding loadServerKeypair_def bind_ok by auto
  have "c = certPEM \<and> k = keyPEM \<and> p_load_pair pki c k = Some leaf \<and> s' = s2"
    using l by (auto simp: fail_io_def return_io_def split: option.splits)
  with looks_ok(5) [OF c] looks_ok(5) [OF k] show ?thesis
    by (auto simp: file_data_def tick_def fun_eq_iff)
qed

definition pair_law :: "'k pki \<Rightarrow> bool" where
  "pair_law pki \<longleftrightarrow> (\<forall>t par pk k der kd. p_create pki t par pk k = Some der \<longrightarrow> p_marshal_key pki k = Some kd \<longrightarrow>
     (\<exists>t'. p_load_pair pki (p_pem_encode pki pemTypeCertificate der) (p_pem_encode pki pemTypePrivateKey kd) = Some t' \<and>
       x_dns_names t' = x_dns_names t \<and> x_ip_addresses t' = x_ip_addresses t))"

definition host_law :: "'k pki \<Rightarrow> bool" where
  "host_law pki \<longleftrightarrow> (\<forall>c h. isValidSAN h \<longrightarrow> h \<in> set (x_dns_names c) \<union> set (x_ip_addresses c) \<longrightarrow> p_verify_host pki c h)"

lemma issued_covers:
  assumes pair: "pair_law pki" and host: "host_law pki" and sans: "list_all isValidSAN sans"
    and i: "IssueServerCert pki ca rnd sans now = Inr (c, k)" and l: "p_load_pair pki c k = Some leaf"
  shows "\<not> sanDrift pki leaf sans"
proof -
  obtain key n der kd where "p_create pki (server_template n sans now) (au_cert ca) (au_key ca) key = Some der"
      "p_marshal_key pki key = Some kd" "c = p_pem_encode pki pemTypeCertificate der"
      "k = p_pem_encode pki pemTypePrivateKey kd"
    using i by (auto simp: IssueServerCert_def split: if_splits option.splits)
  with pair l have "x_dns_names leaf = fst (splitSANs sans) \<and> x_ip_addresses leaf = snd (splitSANs sans)"
    unfolding pair_law_def by (fastforce simp: server_template_def)
  then have "set (x_dns_names leaf) \<union> set (x_ip_addresses leaf) = set sans"
    by (auto simp: splitSANs_def)
  with host sans show ?thesis
    by (auto simp: host_law_def sanDrift_def list_ex_iff list_all_iff)
qed

lemma writeServerCert_ok:
  assumes "writeServerCert pki ft ca rnd sans now s = (Inr u, s')"
  obtains c k where "IssueServerCert pki ca rnd sans now = Inr (c, k)"
    "file_data s' = (file_data s)(serverKeyFile \<mapsto> k, serverCertFile \<mapsto> c)"
proof -
  from assms obtain c k where i: "IssueServerCert pki ca rnd sans now = Inr (c, k)"
    by (auto simp: writeServerCert_def fail_io_def split: sum.splits)
  with assms have "write_pair ft serverKeyFile k serverKeyFileMode serverCertFile c serverCrtFileMode s = (Inr u, s')"
    by (simp add: writeServerCert_def)
  from i write_pair_ok [OF this] show thesis by (rule that)
qed

lemma ensure_found:
  assumes "ensureKeypair pki ft ca rnd sans now s = (Inr u, s')"
    and "file_data s serverCertFile \<noteq> None" and "file_data s serverKeyFile \<noteq> None"
  shows "file_data s' = file_data s"
proof -
  obtain b s1 where x: "keypairExists ft serverCertFile serverKeyFile s = (Inr b, s1)"
    and r: "(if b then return_io () else writeServerCert pki ft ca rnd sans now) s1 = (Inr u, s')"
    using assms(1) unfolding ensureKeypair_def bind_ok by auto
  have b using keypairExists_result [of ft serverCertFile serverKeyFile s b] x assms(2) by (simp add: file_data_def)
  with r have "s' = s1" by (simp add: return_io_def)
  moreover have "file_data s1 = file_data s" using keypairExists_files [of ft serverCertFile serverKeyFile s] x
    by (simp add: file_data_def fun_eq_iff)
  ultimately show ?thesis by simp
qed


subsection \<open>The theorems at work\<close>

definition demo_leaf :: "string \<Rightarrow> full_certificate" where
  "demo_leaf h = (server_template 0 [] 0)\<lparr>x_dns_names := if h = [] then [] else [h]\<rparr>"

definition demo_pki :: "nat pki" where
  "demo_pki =
     \<lparr>p_generate = Some, p_serial = Some,
      p_create = (\<lambda>t par pk k. case (x_dns_names t, x_ip_addresses t) of
          ([], []) \<Rightarrow> Some [] | ([h], []) \<Rightarrow> if h = [] then None else Some h | _ \<Rightarrow> None),
      p_marshal_key = (\<lambda>k. Some ''k''), p_parse_key = (\<lambda>d. Some (Some 0)), p_parse_cert = (\<lambda>d. Some (demo_leaf d)),
      p_pem_encode = (\<lambda>t d. t @ CHR '':'' # d),
      p_pem_decode = (\<lambda>s. Some (takeWhile (\<lambda>c. c \<noteq> CHR '':'') s, tl (dropWhile (\<lambda>c. c \<noteq> CHR '':'') s))),
      p_load_pair = (\<lambda>c k. Some (demo_leaf (drop 12 c))),
      p_verify_host = (\<lambda>c h. h \<in> set (x_dns_names c) \<union> set (x_ip_addresses c)), p_sha256 = (\<lambda>s. s)\<rparr>"

lemma demo_laws: "pair_law demo_pki" "host_law demo_pki"
  by (auto simp: pair_law_def host_law_def demo_pki_def demo_leaf_def pemTypeCertificate_def server_template_def splitSANs_def
      split: list.splits if_splits)


lemma identity_stable_witness:
  "\<exists>ca pair s' pair2 s2. serve_start demo_pki no_faults 0 [''a.b''] 0 fresh_disk = (Inr (ca, pair), s') \<and>
     serve_start demo_pki no_faults 7 [''c.d''] 0 (boot (restarts demo_pki [(crash_at 6, 5, [''c.d''], 0)] s')) =
       (Inr (ca, pair2), s2)"
proof -
  let ?r = "serve_start demo_pki no_faults 0 [''a.b''] 0 fresh_disk"
  let ?l = "serve_start demo_pki no_faults 7 [''c.d''] 0 (boot (restarts demo_pki [(crash_at 6, 5, [''c.d''], 0)] (snd ?r)))"
  have "\<not> isl (fst ?r)" by code_simp
  then obtain ca pair s' where r: "?r = (Inr (ca, pair), s')" by (cases ?r; cases "fst ?r") auto
  have "\<not> isl (fst ?l)" by code_simp
  then obtain ca2 pair2 s2 where l: "?l = (Inr (ca2, pair2), s2)" by (cases ?l; cases "fst ?l") auto
  have l': "serve_start demo_pki no_faults 7 [''c.d''] 0 (boot (restarts demo_pki [(crash_at 6, 5, [''c.d''], 0)] s')) =
      (Inr (ca2, pair2), s2)"
    using l unfolding r by simp
  with identity_stable [OF r] have "ca2 = ca" by (cases pair2) blast
  with r l' show ?thesis by blast
qed

lemma key_files_private_witness:
  "\<exists>m d. gm_get (d_files (restarts demo_pki [(crash_at 10, 0, [''a.b''], 0)] fresh_disk)) ''ca.key'' = Some (m, d) \<and> m = 384"
proof -
  let ?g = "gm_get (d_files (restarts demo_pki [(crash_at 10, 0, [''a.b''], 0)] fresh_disk)) ''ca.key''"
  have "?g \<noteq> None" by code_simp
  then obtain m d where g: "?g = Some (m, d)" by auto
  with key_files_private [OF _ _ g] show ?thesis by (simp add: fresh_disk_def)
qed


end
