(* ===== verification/Flags.thy ===== *)
theory Flags
  imports Prelude
begin

section \<open>What the command line uses of packages flag and strconv\<close>

text \<open>
  flag.FlagSet.Parse for the three kinds of flag the commands declare, and
  strconv.ParseInt(s, 0, 64), which an Int flag uses: the base is in the literal's prefix and
  underscores may separate its digits.
\<close>

subsection \<open>Integer literals\<close>

definition lower_case :: "char \<Rightarrow> char" where
  "lower_case c = (if is_upper c then char_of (byte_of c + 32) else c)"

definition digit_of :: "char \<Rightarrow> int option" where
  "digit_of c = (if is_digit c then Some (int (byte_of c) - 48)
     else if is_lower (lower_case c) then Some (int (byte_of (lower_case c)) - 87) else None)"

text \<open>strconv.underscoreOK: underscores only between digits, the prefix counting as one.\<close>

datatype seen = SeenStart | SeenDigit | SeenUnderscore | SeenOther

fun underscores_ok :: "bool \<Rightarrow> seen \<Rightarrow> string \<Rightarrow> bool" where
  "underscores_ok hex saw [] \<longleftrightarrow> saw \<noteq> SeenUnderscore"
| "underscores_ok hex saw (c # s) \<longleftrightarrow>
     (if is_digit c \<or> (hex \<and> 97 \<le> byte_of (lower_case c) \<and> byte_of (lower_case c) \<le> 102)
      then underscores_ok hex SeenDigit s
      else if c = CHR ''_'' then saw = SeenDigit \<and> underscores_ok hex SeenUnderscore s
      else saw \<noteq> SeenUnderscore \<and> underscores_ok hex SeenOther s)"

definition base_prefix :: "string \<Rightarrow> char option" where
  "base_prefix s = (case s of
       z # p # rest \<Rightarrow> (if z = CHR ''0'' \<and> lower_case p \<in> {CHR ''b'', CHR ''o'', CHR ''x''}
         then Some (lower_case p) else None)
     | _ \<Rightarrow> None)"

definition underscoreOK :: "string \<Rightarrow> bool" where
  "underscoreOK s =
     (case base_prefix s of
        Some p \<Rightarrow> underscores_ok (p = CHR ''x'') SeenDigit (drop 2 s)
      | None \<Rightarrow> underscores_ok False SeenStart s)"

text \<open>The digits of a literal in a base; underscores are skipped here and judged afterwards.\<close>

fun digits_in :: "int \<Rightarrow> int \<Rightarrow> string \<Rightarrow> int option" where
  "digits_in b acc [] = Some acc"
| "digits_in b acc (c # s) =
     (if c = CHR ''_'' then digits_in b acc s
      else case digit_of c of
          None \<Rightarrow> None
        | Some d \<Rightarrow> if d < b then digits_in b (acc * b + d) s else None)"

definition ParseUint :: "string \<Rightarrow> int option" where
  "ParseUint s =
     (if s = [] then None
      else let (b, digits) =
          (case base_prefix s of
             Some p \<Rightarrow> if 3 \<le> length s
               then (if p = CHR ''b'' then 2 else if p = CHR ''o'' then 8 else 16, drop 2 s)
               else (8, drop 1 s)
           | None \<Rightarrow> if hd s = CHR ''0'' then (8, drop 1 s) else (10, s))
        in case digits_in b 0 digits of
             None \<Rightarrow> None
           | Some n \<Rightarrow> if CHR ''_'' \<in> set digits \<and> \<not> underscoreOK s then None else Some n)"

definition ParseInt :: "string \<Rightarrow> int option" where
  "ParseInt s =
     (case s of
        [] \<Rightarrow> None
      | c # r \<Rightarrow>
          (case ParseUint (if c = CHR ''+'' \<or> c = CHR ''-'' then r else s) of
             None \<Rightarrow> None
           | Some n \<Rightarrow>
               if c = CHR ''-'' then (if 2 ^ 63 < n then None else Some (- n))
               else if 2 ^ 63 \<le> n then None else Some n))"

lemma ParseInt_examples:
  "ParseInt ''15'' = Some 15" "ParseInt ''-3'' = Some (- 3)" "ParseInt ''0x1F'' = Some 31"
  "ParseInt ''1_000'' = Some 1000" "ParseInt ''010'' = Some 8" "ParseInt ''0'' = Some 0"
  "ParseInt ''1__0'' = None" "ParseInt ''08'' = None" "ParseInt ''0x'' = None" "ParseInt ''_1'' = None"
  "ParseInt ''9223372036854775808'' = None" "ParseInt ''-9223372036854775808'' = Some (- 9223372036854775808)"
  by code_simp+

lemma digits_in_nonneg: "0 \<le> acc \<Longrightarrow> 0 \<le> b \<Longrightarrow> digits_in b acc s = Some n \<Longrightarrow> 0 \<le> n"
proof (induction b acc s rule: digits_in.induct)
  case (2 b acc c s)
  have "0 \<le> d" if "digit_of c = Some d" for d
    using that by (auto simp: digit_of_def is_digit_def is_lower_def split: if_splits)
  with 2 show ?case by (auto split: if_splits option.splits)
qed simp

lemma ParseUint_nonneg: "ParseUint s = Some n \<Longrightarrow> 0 \<le> n"
  by (auto simp: ParseUint_def Let_def split: if_splits option.splits dest!: digits_in_nonneg [rotated 2])

lemma ParseInt_range: "ParseInt s = Some n \<Longrightarrow> - (2 ^ 63) \<le> n \<and> n < 2 ^ 63"
  by (auto simp: ParseInt_def split: list.splits option.splits if_splits dest: ParseUint_nonneg)

text \<open>strconv.ParseBool.\<close>

definition ParseBool :: "string \<Rightarrow> bool option" where
  "ParseBool s =
     (if s \<in> {''1'', ''t'', ''T'', ''true'', ''TRUE'', ''True''} then Some True
      else if s \<in> {''0'', ''f'', ''F'', ''false'', ''FALSE'', ''False''} then Some False
      else None)"

subsection \<open>Flag sets\<close>

datatype flag_kind = BoolFlag | IntFlag | StringFlag

datatype flag_value = BoolValue bool | IntValue int | StringValue string

datatype flag_error = ErrHelp | BadFlagSyntax string | FlagNotDefined string | NeedsArgument string | InvalidValue string string

fun parse_value :: "flag_kind \<Rightarrow> string \<Rightarrow> flag_value option" where
  "parse_value BoolFlag v = map_option BoolValue (ParseBool v)"
| "parse_value IntFlag v = map_option IntValue (ParseInt v)"
| "parse_value StringFlag v = Some (StringValue v)"

type_synonym flag_set = "(string \<times> flag_kind) list"
type_synonym flag_settings = "(string, flag_value) gomap"

text \<open>A flag as it is written: its name and the value after the first equals sign.\<close>

definition flag_token :: "string \<Rightarrow> string \<times> string option" where
  "flag_token name =
     (let n = hd name # takeWhile (\<lambda>c. c \<noteq> CHR ''='') (tl name)
      in (n, if length n = length name then None else Some (drop (Suc (length n)) name)))"

text \<open>
  FlagSet.parseOne: the next flag and the arguments behind it, no flag if parsing is over -
  at the first argument that is none, and behind a bare double dash.
\<close>

definition parseOne ::
  "flag_set \<Rightarrow> string list \<Rightarrow> flag_error + (string \<times> flag_value) option \<times> string list" where
  "parseOne fs args =
     (case args of
        [] \<Rightarrow> Inr (None, [])
      | a # rest \<Rightarrow>
          if length a < 2 \<or> hd a \<noteq> CHR ''-'' then Inr (None, args)
          else if a = ''--'' then Inr (None, rest)
          else (let name = (if a ! 1 = CHR ''-'' then drop 2 a else drop 1 a)
          in if hd name = CHR ''-'' \<or> hd name = CHR ''='' then Inl (BadFlagSyntax a)
          else (case flag_token name of (n, value) \<Rightarrow>
            case map_of fs n of
              None \<Rightarrow> Inl (if n = ''help'' \<or> n = ''h'' then ErrHelp else FlagNotDefined n)
            | Some kind \<Rightarrow>
                (let set = (\<lambda>v rest'. case parse_value kind v of
                     None \<Rightarrow> Inl (InvalidValue n v)
                   | Some x \<Rightarrow> Inr (Some (n, x), rest'))
                 in case value of
                   Some v \<Rightarrow> set v rest
                 | None \<Rightarrow>
                     if kind = BoolFlag then Inr (Some (n, BoolValue True), rest)
                     else (case rest of [] \<Rightarrow> Inl (NeedsArgument n) | v # rest' \<Rightarrow> set v rest')))))"

lemma parseOne_shorter: "parseOne fs args = Inr (Some p, rest) \<Longrightarrow> length rest < length args"
  by (auto simp: parseOne_def Let_def split: list.splits if_splits prod.splits option.splits)

text \<open>FlagSet.Parse: of two settings of one flag the later one wins.\<close>

function parse_flags ::
  "flag_set \<Rightarrow> string list \<Rightarrow> flag_settings \<Rightarrow> flag_error + flag_settings \<times> string list" where
  "parse_flags fs args acc =
     (case parseOne fs args of
        Inl e \<Rightarrow> Inl e
      | Inr (None, rest) \<Rightarrow> Inr (acc, rest)
      | Inr (Some (n, x), rest) \<Rightarrow> parse_flags fs rest (gm_put n x acc))"
  by pat_completeness auto
termination
  by (relation "measure (\<lambda>(fs, args, acc). length args)") (auto dest: parseOne_shorter)

declare parse_flags.simps [simp del]

definition set_flag :: "flag_settings \<Rightarrow> string \<Rightarrow> bool" where
  "set_flag acc n \<longleftrightarrow> gm_get acc n \<noteq> None"

definition int_flag :: "flag_settings \<Rightarrow> string \<Rightarrow> int \<Rightarrow> int" where
  "int_flag acc n def = (case gm_get acc n of Some (IntValue i) \<Rightarrow> i | _ \<Rightarrow> def)"

definition string_flag :: "flag_settings \<Rightarrow> string \<Rightarrow> string \<Rightarrow> string" where
  "string_flag acc n def = (case gm_get acc n of Some (StringValue s) \<Rightarrow> s | _ \<Rightarrow> def)"

definition bool_flag :: "flag_settings \<Rightarrow> string \<Rightarrow> bool \<Rightarrow> bool" where
  "bool_flag acc n def = (case gm_get acc n of Some (BoolValue b) \<Rightarrow> b | _ \<Rightarrow> def)"

definition ints_in_range :: "flag_settings \<Rightarrow> bool" where
  "ints_in_range acc \<longleftrightarrow> (\<forall>n i. gm_get acc n = Some (IntValue i) \<longrightarrow> - (2 ^ 63) \<le> i \<and> i < 2 ^ 63)"

lemma parse_value_range: "parse_value k v = Some (IntValue i) \<Longrightarrow> - (2 ^ 63) \<le> i \<and> i < 2 ^ 63"
  using ParseInt_range by (cases k) auto

lemma parseOne_range:
  "parseOne fs args = Inr (Some (n, IntValue i), rest) \<Longrightarrow> - (2 ^ 63) \<le> i \<and> i < 2 ^ 63"
  by (auto simp: parseOne_def Let_def split: list.splits if_splits prod.splits option.splits dest: parse_value_range)

lemma parse_flags_range:
  "parse_flags fs args acc = Inr (acc', rest) \<Longrightarrow> ints_in_range acc \<Longrightarrow> ints_in_range acc'"
proof (induction fs args acc rule: parse_flags.induct)
  case (1 fs args acc)
  show ?case
  proof (cases "parseOne fs args")
    case (Inl e)
    with "1.prems" show ?thesis by (simp add: parse_flags.simps)
  next
    case (Inr p)
    then obtain q r where p: "p = (q, r)" by (cases p)
    show ?thesis
    proof (cases q)
      case None
      with Inr p "1.prems" show ?thesis by (simp add: parse_flags.simps [of fs args])
    next
      case (Some nx)
      then obtain n x where q: "q = Some (n, x)" by (cases nx) simp
      with Inr p have one: "parseOne fs args = Inr (Some (n, x), r)" by simp
      have "ints_in_range (gm_put n x acc)"
        using "1.prems"(2) parseOne_range [of fs args n _ r] one
        by (auto simp: ints_in_range_def gomap_simps split: if_splits)
      moreover have "parse_flags fs r (gm_put n x acc) = Inr (acc', rest)"
        using "1.prems"(1) one by (simp add: parse_flags.simps [of fs args])
      ultimately show ?thesis using "1.IH" [OF one refl refl refl] by blast
    qed
  qed
qed

lemma parse_flags_examples:
  "parse_flags [(''name'', StringFlag), (''ttl'', IntFlag)] [''--name'', ''my phone'', ''-ttl=0x10''] [] =
     Inr ([(''name'', StringValue ''my phone''), (''ttl'', IntValue 16)], [])"
  "parse_flags [(''limit'', IntFlag)] [''--limit'', ''x''] [] = Inl (InvalidValue ''limit'' ''x'')"
  "parse_flags [] [''-h''] [] = Inl ErrHelp"
  "parse_flags [(''version'', BoolFlag)] [''--version=maybe''] [] = Inl (InvalidValue ''version'' ''maybe'')"
  "parse_flags [] [''--'', ''-x''] [] = Inr ([], [''-x''])"
  by (simp_all add: parse_flags.simps parseOne_def flag_token_def ParseInt_def ParseUint_def ParseBool_def base_prefix_def lower_case_def
      is_upper_def digit_of_def is_digit_def is_lower_def)

end
