(* ===== verification/Tabwriter.thy ===== *)
theory Tabwriter
  imports JsonText
begin

section \<open>Tables of text (text/tabwriter as cmd/devmon-agent/cli.go calls it)\<close>

text \<open>
  A tabwriter with minimal width 0, padding 2, spaces for padding and no flags.  A cell ends in a
  tab, a vertical tab or at the end of its line; a line feed or a form feed ends a line; the byte
  0xFF starts an escape in which nothing is special until the next 0xFF.  Consecutive lines with
  a cell in a column, other than as their last, share the width of the column; the last cell of
  a line is copied as it is.
\<close>

definition TAB :: char where "TAB = CHR 0x09"
definition NL :: char where "NL = CHR 0x0A"
definition VT :: char where "VT = CHR 0x0B"
definition FF :: char where "FF = CHR 0x0C"
definition ESC :: char where "ESC = CHR 0xFF"

lemmas control_bytes = TAB_def NL_def VT_def FF_def ESC_def

definition tab_padding :: int where "tab_padding = 2"

text \<open>utf8.RuneCount: a byte that is not part of valid UTF-8 counts as one.\<close>

fun rune_count :: "string \<Rightarrow> int" where
  "rune_count [] = 0"
| "rune_count (c # s) = 1 + rune_count (if utf8_seq c s = 0 then s else drop (utf8_seq c s - 1) s)"

subsection \<open>The formatter\<close>

record cell =
  cl_text :: string
  cl_width :: int

fun write_cells :: "int list \<Rightarrow> cell list \<Rightarrow> string" where
  "write_cells ws [] = []"
| "write_cells [] (c # cs) = cl_text c @ write_cells [] cs"
| "write_cells (w # ws) (c # cs) = cl_text c @ replicate (nat (w - cl_width c)) CHR '' '' @ write_cells ws cs"

definition column_width :: "nat \<Rightarrow> cell list list \<Rightarrow> int" where
  "column_width i block = foldr (\<lambda>l. max (cl_width (l ! i) + tab_padding)) block 0"

definition has_column :: "nat \<Rightarrow> cell list \<Rightarrow> bool" where
  "has_column i l \<longleftrightarrow> i < length l - 1"

text \<open>Lines whose columns to the left of the next one have the widths known so far.\<close>

definition table_size :: "int list \<Rightarrow> cell list list \<Rightarrow> nat" where
  "table_size ws ls = (\<Sum>l\<leftarrow>ls. length l - length ws) + length ls"

lemma table_size_tail: "table_size ws ls < table_size ws (l # ls)"
  by (simp add: table_size_def)

lemma table_size_block:
  assumes "has_column (length ws) l"
  shows "table_size (ws @ [w]) (takeWhile (has_column (length ws)) (l # ls)) < table_size ws (l # ls)"
proof -
  have "table_size (ws @ [w]) (takeWhile (has_column (length ws)) ls) \<le> table_size ws ls"
    by (induction ls) (auto simp: table_size_def)
  with assms show ?thesis by (simp add: table_size_def has_column_def)
qed

lemma table_size_rest: "table_size ws (dropWhile p ls) < table_size ws (l # ls)"
proof -
  have "table_size ws (dropWhile p ls) \<le> table_size ws ls" by (induction ls) (auto simp: table_size_def)
  then show ?thesis using table_size_tail order.strict_trans1 by blast
qed

function format_lines :: "int list \<Rightarrow> cell list list \<Rightarrow> string list" where
  "format_lines ws [] = []"
| "format_lines ws (l # ls) =
     (if \<not> has_column (length ws) l then write_cells ws l # format_lines ws ls
      else let block = takeWhile (has_column (length ws)) (l # ls)
        in format_lines (ws @ [column_width (length ws) block]) block @
           format_lines ws (dropWhile (has_column (length ws)) ls))"
  by pat_completeness auto
termination
  by (relation "measure (\<lambda>(ws, ls). table_size ws ls)")
    (auto simp del: takeWhile.simps simp: table_size_tail table_size_block table_size_rest)

declare format_lines.simps(2) [simp del]

subsection \<open>The scanner\<close>

text \<open>
  The lines that are complete, the cells of the line under way, and of its last cell the text
  whose width is counted, the text whose width is not, and the width.
\<close>

record table_writer =
  tw_lines :: "cell list list"
  tw_line :: "cell list"
  tw_text :: string
  tw_new :: string
  tw_width :: int
  tw_escape :: bool
  tw_out :: string

definition fresh_writer :: "string \<Rightarrow> table_writer" where
  "fresh_writer s = \<lparr>tw_lines = [], tw_line = [], tw_text = [], tw_new = [], tw_width = 0, tw_escape = False, tw_out = s\<rparr>"

definition update_width :: "table_writer \<Rightarrow> table_writer" where
  "update_width t = t\<lparr>tw_text := tw_text t @ tw_new t, tw_new := [], tw_width := tw_width t + rune_count (tw_new t)\<rparr>"

definition end_escape :: "table_writer \<Rightarrow> table_writer" where
  "end_escape t = (let t' = update_width t in t'\<lparr>tw_width := tw_width t' - 2, tw_escape := False\<rparr>)"

definition terminate_cell :: "table_writer \<Rightarrow> table_writer" where
  "terminate_cell t = t\<lparr>tw_line := tw_line t @ [\<lparr>cl_text = tw_text t @ tw_new t, cl_width = tw_width t\<rparr>],
     tw_text := [], tw_new := [], tw_width := 0\<rparr>"

definition flush_writer :: "table_writer \<Rightarrow> table_writer" where
  "flush_writer t =
     (let t1 = (if tw_text t @ tw_new t = [] then t
                else terminate_cell (if tw_escape t then end_escape t else t))
      in fresh_writer (tw_out t1 @ intercalate [NL] (format_lines [] (tw_lines t1 @ [tw_line t1]))))"

definition tab_byte :: "char \<Rightarrow> table_writer \<Rightarrow> table_writer" where
  "tab_byte c t =
     (if tw_escape t then
        (let t' = t\<lparr>tw_new := tw_new t @ [c]\<rparr> in if c = ESC then end_escape t' else t')
      else if c = TAB \<or> c = VT then terminate_cell (update_width t)
      else if c = NL \<or> c = FF then
        (let t1 = terminate_cell (update_width t);
             t2 = t1\<lparr>tw_lines := tw_lines t1 @ [tw_line t1], tw_line := []\<rparr>
         in if c = FF \<or> length (tw_line t1) = 1 then flush_writer t2 else t2)
      else if c = ESC then (update_width t)\<lparr>tw_new := [c], tw_escape := True\<rparr>
      else t\<lparr>tw_new := tw_new t @ [c]\<rparr>)"

definition tabwriter :: "string \<Rightarrow> string" where
  "tabwriter s = tw_out (flush_writer (fold tab_byte s (fresh_writer [])))"

subsection \<open>A table\<close>

text \<open>The text of one row, and the rows whose cells hold nothing the tabwriter treats specially.\<close>

fun tabbed :: "string list \<Rightarrow> string" where
  "tabbed [] = [NL]"
| "tabbed [c] = c @ [NL]"
| "tabbed (c # d # cs) = c @ TAB # tabbed (d # cs)"

definition ordinary :: "string \<Rightarrow> bool" where
  "ordinary s \<longleftrightarrow> list_all (\<lambda>c. c \<notin> {TAB, NL, VT, FF, ESC}) s"

definition plain_cell :: "string \<Rightarrow> cell" where
  "plain_cell c = \<lparr>cl_text = c, cl_width = rune_count c\<rparr>"

definition table_of :: "nat \<Rightarrow> string list list \<Rightarrow> bool" where
  "table_of n css \<longleftrightarrow> 2 \<le> n \<and> list_all (\<lambda>cs. length cs = n \<and> list_all ordinary cs) css"

definition idle :: "table_writer \<Rightarrow> bool" where
  "idle t \<longleftrightarrow> tw_text t = [] \<and> tw_new t = [] \<and> tw_width t = 0 \<and> \<not> tw_escape t"

lemma scan_ordinary: "ordinary s \<Longrightarrow> \<not> tw_escape t \<Longrightarrow> fold tab_byte s t = t\<lparr>tw_new := tw_new t @ s\<rparr>"
  by (induction s arbitrary: t) (auto simp: ordinary_def tab_byte_def)

lemma scan_cell:
  assumes "ordinary c" and "idle t"
  shows "tab_byte TAB (fold tab_byte c t) = t\<lparr>tw_line := tw_line t @ [plain_cell c]\<rparr>"
    and "tw_line t \<noteq> [] \<Longrightarrow> tab_byte NL (fold tab_byte c t) =
      t\<lparr>tw_lines := tw_lines t @ [tw_line t @ [plain_cell c]], tw_line := []\<rparr>"
  using assms
  by (simp_all add: scan_ordinary idle_def tab_byte_def update_width_def terminate_cell_def plain_cell_def control_bytes Let_def)

lemma scan_row:
  assumes "list_all ordinary cs" and "cs \<noteq> []" and "idle t" and "2 \<le> length (tw_line t) + length cs"
  shows "fold tab_byte (tabbed cs) t = t\<lparr>tw_lines := tw_lines t @ [tw_line t @ map plain_cell cs], tw_line := []\<rparr>"
  using assms
proof (induction cs arbitrary: t rule: tabbed.induct)
  case (2 c)
  then have "tw_line t \<noteq> []" by auto
  with 2 show ?case by (simp add: scan_cell(2))
next
  case (3 c d cs)
  let ?t = "t\<lparr>tw_line := tw_line t @ [plain_cell c]\<rparr>"
  have "idle ?t" using 3(4) by (simp add: idle_def)
  with 3 have "fold tab_byte (tabbed (d # cs)) ?t =
      ?t\<lparr>tw_lines := tw_lines ?t @ [tw_line ?t @ map plain_cell (d # cs)], tw_line := []\<rparr>" by (intro "3.IH") simp_all
  with 3 show ?case by (simp add: scan_cell(1))
qed simp

lemma scan_rows:
  assumes "table_of n css" and "idle t" and "tw_line t = []"
  shows "fold tab_byte (concat (map tabbed css)) t = t\<lparr>tw_lines := tw_lines t @ map (map plain_cell) css\<rparr>"
  using assms
proof (induction css arbitrary: t)
  case (Cons cs css)
  let ?t = "t\<lparr>tw_lines := tw_lines t @ [map plain_cell cs], tw_line := []\<rparr>"
  have cs: "list_all ordinary cs" "cs \<noteq> []" "2 \<le> length cs" and css: "table_of n css"
    using Cons.prems(1) by (auto simp: table_of_def)
  have "fold tab_byte (tabbed cs) t = ?t"
    using scan_row [OF cs(1,2) Cons.prems(2)] cs(3) Cons.prems(3) by simp
  moreover have "fold tab_byte (concat (map tabbed css)) ?t = ?t\<lparr>tw_lines := tw_lines ?t @ map (map plain_cell) css\<rparr>"
    by (rule Cons.IH [OF css]) (use Cons.prems(2) in \<open>simp_all add: idle_def\<close>)
  ultimately show ?case using Cons.prems(3) by simp
qed simp

text \<open>Lines of the same number of cells are one block in every column.\<close>

lemma column_width_le: "l \<in> set block \<Longrightarrow> cl_width (l ! i) + tab_padding \<le> column_width i block"
  by (induction block) (auto simp: column_width_def)

lemma format_uniform:
  assumes "\<forall>l\<in>set ls. length l = n" and "length ws < n"
  shows "\<exists>vs. length vs = n - 1 \<and> take (length ws) vs = ws \<and>
    (\<forall>l\<in>set ls. \<forall>j. length ws \<le> j \<and> j < n - 1 \<longrightarrow> cl_width (l ! j) + tab_padding \<le> vs ! j) \<and>
    format_lines ws ls = map (write_cells vs) ls"
  using assms
proof (induction "n - length ws" arbitrary: ws)
  case (Suc k)
  show ?case
  proof (cases "length ws = n - 1")
    case True
    then have "format_lines ws ls = map (write_cells ws) ls"
      using Suc.prems(1) by (induction ls) (auto simp: format_lines.simps(2) has_column_def)
    with True show ?thesis by (intro exI [of _ ws]) simp
  next
    case False
    show ?thesis
    proof (cases ls)
      case Nil
      with Suc.prems(2) show ?thesis by (intro exI [of _ "ws @ replicate (n - 1 - length ws) 0"]) simp
    next
      case (Cons l ls')
      let ?w = "column_width (length ws) ls"
      have all: "\<forall>l\<in>set ls. has_column (length ws) l"
        using Suc.prems False by (auto simp: has_column_def)
      then have "format_lines ws ls = format_lines (ws @ [?w]) ls"
        using Cons by (simp add: format_lines.simps(2) takeWhile_eq_all_conv [THEN iffD2] dropWhile_eq_Nil_conv [THEN iffD2] Let_def)
      moreover have "k = n - length (ws @ [?w])" "length (ws @ [?w]) < n" using Suc.hyps(2) Suc.prems(2) False by auto
      then obtain vs where vs: "length vs = n - 1" "take (length (ws @ [?w])) vs = ws @ [?w]"
        "\<forall>l\<in>set ls. \<forall>j. length (ws @ [?w]) \<le> j \<and> j < n - 1 \<longrightarrow> cl_width (l ! j) + tab_padding \<le> vs ! j"
        "format_lines (ws @ [?w]) ls = map (write_cells vs) ls"
        using Suc.hyps(1) [of "ws @ [?w]"] Suc.prems(1) by blast
      note vs = this [simplified]
      have "vs ! length ws = ?w"
        using arg_cong [OF vs(2), of "\<lambda>xs. xs ! length ws"] by simp
      moreover have "take (length ws) (take (Suc (length ws)) vs) = ws" unfolding vs(2) by simp
      then have "take (length ws) vs = ws" by (simp add: min_def)
      moreover have "cl_width (l ! j) + tab_padding \<le> vs ! j" if "l \<in> set ls" "length ws \<le> j" "j < n - 1" for l j
        using that vs(3) column_width_le [OF that(1), of "length ws"] \<open>vs ! length ws = ?w\<close>
        by (cases "j = length ws") auto
      ultimately show ?thesis using vs(1,4) by (intro exI [of _ vs]) auto
    qed
  qed
qed simp

definition wide_enough :: "int list \<Rightarrow> string list \<Rightarrow> bool" where
  "wide_enough ws cs \<longleftrightarrow> length ws = length cs - 1 \<and> (\<forall>j < length ws. rune_count (cs ! j) + tab_padding \<le> ws ! j)"

text \<open>
  What a table prints as: one line for each row, in which every cell but the last is followed by
  at least two spaces.
\<close>

lemma tabwriter_table:
  assumes "table_of n css"
  obtains ws where "\<forall>cs\<in>set css. wide_enough ws cs"
    and "tabwriter (concat (map tabbed css)) = intercalate [NL] (map (\<lambda>cs. write_cells ws (map plain_cell cs)) css @ [[]])"
proof -
  have uniform: "\<forall>l\<in>set (map (map plain_cell) css). length l = n" and n: "2 \<le> n"
    using assms by (auto simp: table_of_def list_all_iff)
  obtain ws where ws: "length ws = n - 1"
    "\<forall>l\<in>set (map (map plain_cell) css). \<forall>j. j < n - 1 \<longrightarrow> cl_width (l ! j) + tab_padding \<le> ws ! j"
    "format_lines [] (map (map plain_cell) css) = map (write_cells ws) (map (map plain_cell) css)"
    using format_uniform [OF uniform, of "[]"] n by auto
  have "format_lines [] (ls @ [[]]) = format_lines [] ls @ [[]]" if "\<forall>l\<in>set ls. length l = n" for ls
  proof (cases ls)
    case (Cons l ls')
    with that n have "\<forall>l\<in>set ls. has_column 0 l" "\<not> has_column 0 []" by (auto simp: has_column_def)
    then show ?thesis
      unfolding Cons by (simp add: format_lines.simps(2) Let_def takeWhile_eq_all_conv [THEN iffD2]
          dropWhile_eq_Nil_conv [THEN iffD2] takeWhile_append2 dropWhile_append2)
  qed (simp add: format_lines.simps(2) has_column_def)
  with uniform ws(3) have "format_lines [] (map (map plain_cell) css @ [[]]) =
      map (\<lambda>cs. write_cells ws (map plain_cell cs)) css @ [[]]" by simp
  moreover have "idle (fresh_writer [])" by (simp add: idle_def fresh_writer_def)
  ultimately have "tabwriter (concat (map tabbed css)) =
      intercalate [NL] (map (\<lambda>cs. write_cells ws (map plain_cell cs)) css @ [[]])"
    by (simp add: tabwriter_def scan_rows [OF assms] flush_writer_def fresh_writer_def)
  moreover have "\<forall>cs\<in>set css. wide_enough ws cs"
    using ws(1,2) assms by (auto simp: wide_enough_def table_of_def list_all_iff plain_cell_def)
  ultimately show thesis using that by blast
qed

end
