(* ===== verification/Cli.thy ===== *)
theory Cli
  imports Flags Config StoreProps GoTime Identities Tabwriter
begin

section \<open>The command line (cmd/devmon-agent: main.go, usage.go, cli.go, pair_code_ttl.go, health.go)\<close>

text \<open>
  Every path through the binary up to the daemon: help, the operator's commands on devices and
  the audit trail, and the health probe.  A usage screen is its name; a table is what text/tabwriter
  makes of its rows.
\<close>

datatype help_screen = RootUsage | DeviceUsage | AuditUsage | HealthUsage

datatype printed = Screen help_screen | VersionLine | Text string

datatype cli_error =
    UsageError | ConfigInvalid "problem list" | OpenFailed cert_error | MissingSubcommand | UnknownSubcommand string
  | BadFlags flag_error | WrongArgCount nat | NameRequired | TTLBelowMinimum int | TTLAboveCeiling int int
  | StoreFailed store_error | UnexpectedArgument string | BadListenAddr addr_error | ProbeFailed | Unhealthy int

record cli_world =
  cw_disk :: disk
  cw_db :: db
  cw_out :: "printed list"
  cw_err :: "printed list"

text \<open>
  What an invocation meets: its environment variables, the fate of its effects, the n-th store
  operation's clock and failures, the random code, and the answer of the agent to a probe.
\<close>

record cli_env =
  ce_getenv :: getenv
  ce_urlScheme :: "string \<Rightarrow> string option"
  ce_fate :: fate
  ce_store :: "nat \<Rightarrow> store_env"
  ce_sha :: "string \<Rightarrow> string"
  ce_code :: string
  ce_probe :: "string \<Rightarrow> int option"

datatype outcome = Finished | Refused cli_error | StartDaemon config

type_synonym command = "cli_world \<Rightarrow> outcome \<times> cli_world"

definition print :: "printed \<Rightarrow> cli_world \<Rightarrow> cli_world" where
  "print x w = w\<lparr>cw_out := cw_out w @ [x]\<rparr>"

definition print_err :: "printed \<Rightarrow> cli_world \<Rightarrow> cli_world" where
  "print_err x w = w\<lparr>cw_err := cw_err w @ [x]\<rparr>"

definition refuse :: "cli_error \<Rightarrow> command" where "refuse e w = (Refused e, w)"
definition show_screen :: "help_screen \<Rightarrow> command" where "show_screen h w = (Finished, print (Screen h) w)"

subsection \<open>Help (usage.go)\<close>

definition devmonAliasName :: string where "devmonAliasName = ''devmon''"

text \<open>filepath.Base on a Unix path.\<close>

definition path_base :: "string \<Rightarrow> string" where
  "path_base p =
     (if p = [] then ''.''
      else let q = rev (dropWhile (\<lambda>c. c = CHR ''/'') (rev p))
      in if q = [] then ''/'' else rev (takeWhile (\<lambda>c. c \<noteq> CHR ''/'') (rev q)))"

definition isDevmonAlias :: "string \<Rightarrow> bool" where
  "isDevmonAlias argv0 \<longleftrightarrow> trim_suffix ''.exe'' (map lower_case (path_base argv0)) = devmonAliasName"

definition help_flag :: "string \<Rightarrow> bool" where
  "help_flag a \<longleftrightarrow> a \<in> {''-h'', ''-help'', ''--help''}"

definition helpRequested :: "string list \<Rightarrow> bool" where
  "helpRequested args = list_ex help_flag args"

definition isHelpSubcommand :: "string \<Rightarrow> bool" where
  "isHelpSubcommand a \<longleftrightarrow> a = ''help'' \<or> help_flag a"

subsection \<open>The store (cli.go)\<close>

text \<open>
  A disk without a database file gets an empty one.  Its inside has a model of its own; the
  tables of an existing one are \<open>cw_db\<close>.
\<close>

definition openDeviceStore :: "cli_env \<Rightarrow> (unit \<Rightarrow> command) \<Rightarrow> command" where
  "openDeviceStore env k w =
     (case open_store (ce_fate env) (boot (cw_disk w)) of
        (Inl e, d) \<Rightarrow> (Refused (OpenFailed e), w\<lparr>cw_disk := d\<rparr>)
      | (Inr firstRun, d) \<Rightarrow>
          k () (w\<lparr>cw_disk := d, cw_db := if d_db (cw_disk w) then cw_db w else empty_db\<rparr>))"

definition subcommandList :: string where "subcommandList = ''list''"
definition subcommandRevoke :: string where "subcommandRevoke = ''revoke''"
definition subcommandPairCode :: string where "subcommandPairCode = ''pair-code''"
definition pairCodeNameFlag :: string where "pairCodeNameFlag = ''name''"
definition pairCodeTTLFlag :: string where "pairCodeTTLFlag = ''ttl''"
definition auditLimitFlag :: string where "auditLimitFlag = ''limit''"
definition defaultAuditLimit :: int where "defaultAuditLimit = 100"
definition deviceStateActive :: string where "deviceStateActive = ''active''"
definition deviceStateRevoked :: string where "deviceStateRevoked = ''revoked''"
definition lastSeenNever :: string where "lastSeenNever = ''never''"
definition auditEmptyColumn :: string where "auditEmptyColumn = ''-''"

lemmas subcommands = subcommandList_def subcommandRevoke_def subcommandPairCode_def

definition format_time :: "int \<Rightarrow> string" where
  "format_time t = format_rfc3339 (t div 1000000000)"

definition formatLastSeen :: "int option \<Rightarrow> string" where
  "formatLastSeen t = (case t of None \<Rightarrow> lastSeenNever | Some t \<Rightarrow> format_time t)"

definition deviceStateOf :: "device \<Rightarrow> string" where
  "deviceStateOf d = (if IsRevoked d then deviceStateRevoked else deviceStateActive)"

definition device_cells :: "device \<Rightarrow> string list" where
  "device_cells d = [dev_id d, dev_name d, format_time (dev_paired_at d),
     formatLastSeen (dev_last_seen_at d), deviceStateOf d]"

definition device_header :: "string list" where
  "device_header = [''ID'', ''NAME'', ''PAIRED'', ''LAST SEEN'', ''STATE'']"

definition runDeviceList :: "cli_env \<Rightarrow> command" where
  "runDeviceList env w =
     (case ListDevices (ce_store env 0) (cw_db w) of
        Inl e \<Rightarrow> (Refused (StoreFailed e), w)
      | Inr devices \<Rightarrow>
          (Finished, print (Text (tabwriter (concat (map tabbed (device_header # map device_cells devices))))) w))"

definition deviceNameByID :: "device list \<Rightarrow> string \<Rightarrow> string" where
  "deviceNameByID devices i = (case List.find (\<lambda>d. dev_id d = i) devices of None \<Rightarrow> [] | Some d \<Rightarrow> dev_name d)"

definition parse_command :: "flag_set \<Rightarrow> help_screen \<Rightarrow> string list \<Rightarrow>
    (flag_settings \<Rightarrow> string list \<Rightarrow> command) \<Rightarrow> command" where
  "parse_command fs h args k =
     (case parse_flags fs args [] of
        Inl ErrHelp \<Rightarrow> show_screen h
      | Inl e \<Rightarrow> refuse (BadFlags e)
      | Inr (acc, rest) \<Rightarrow> k acc rest)"

definition runDeviceRevoke :: "cli_env \<Rightarrow> string list \<Rightarrow> command" where
  "runDeviceRevoke env args = parse_command [] DeviceUsage args (\<lambda>acc rest w.
     if length rest \<noteq> 1 then (Refused (WrongArgCount (length rest)), w)
     else (let i = hd rest in
       case ListDevices (ce_store env 0) (cw_db w) of
         Inl e \<Rightarrow> (Refused (StoreFailed e), w)
       | Inr devices \<Rightarrow>
           (case RevokeDevice (ce_store env 1) i (cw_db w) of
              (Inl e, d) \<Rightarrow> (Refused (StoreFailed e), w\<lparr>cw_db := d\<rparr>)
            | (Inr u, d) \<Rightarrow> (Finished, print (Text (''revoked '' @ i @ '' ('' @ deviceNameByID devices i @ '')'' @ [NL]))
                (w\<lparr>cw_db := d\<rparr>)))))"

subsection \<open>Pairing codes (pair_code_ttl.go)\<close>

definition pairCodeMinTTLMinutes :: int where "pairCodeMinTTLMinutes = 5"

text \<open>Division of int64 truncates towards zero and the product wraps.\<close>

definition resolvePairCodeTTL :: "int \<Rightarrow> bool \<Rightarrow> int \<Rightarrow> cli_error + int" where
  "resolvePairCodeTTL ttlMinutes given ceiling =
     (if \<not> given then Inr (if ceiling < DefaultPairingCodeTTL then ceiling else DefaultPairingCodeTTL)
      else let ceilingMinutes = (if 0 \<le> ceiling then ceiling div time_Minute else - (- ceiling div time_Minute))
      in if ttlMinutes < pairCodeMinTTLMinutes then Inl (TTLBelowMinimum ttlMinutes)
         else if ceilingMinutes < ttlMinutes then Inl (TTLAboveCeiling ttlMinutes ceilingMinutes)
         else Inr (wrap64 (ttlMinutes * time_Minute)))"

definition pair_code_flags :: flag_set where
  "pair_code_flags = [(pairCodeNameFlag, StringFlag), (pairCodeTTLFlag, IntFlag)]"

definition runDevicePairCode :: "cli_env \<Rightarrow> int \<Rightarrow> string list \<Rightarrow> command" where
  "runDevicePairCode env ttlMax args = parse_command pair_code_flags DeviceUsage args (\<lambda>acc rest w.
     let name = string_flag acc pairCodeNameFlag []
     in if trim_space name = [] then (Refused NameRequired, w)
        else case resolvePairCodeTTL (int_flag acc pairCodeTTLFlag 0) (set_flag acc pairCodeTTLFlag) ttlMax of
            Inl e \<Rightarrow> (Refused e, w)
          | Inr ttl \<Rightarrow>
              (case MintPairingCode (ce_sha env) (ce_store env 0) (ce_code env) name ttl (cw_db w) of
                 (Inl e, d) \<Rightarrow> (Refused (StoreFailed e), w\<lparr>cw_db := d\<rparr>)
               | (Inr (code, expiresAt), d) \<Rightarrow>
                   (Finished, print (Text (''Expires:      '' @ format_time expiresAt @ [NL]))
                      (print (Text (''Pairing code: '' @ code @ [NL])) (w\<lparr>cw_db := d\<rparr>)))))"

definition runDeviceCommand :: "cli_env \<Rightarrow> config \<Rightarrow> string list \<Rightarrow> command" where
  "runDeviceCommand env cfg args =
     (case args of
        [] \<Rightarrow> refuse MissingSubcommand
      | sub # rest \<Rightarrow>
          if isHelpSubcommand sub then show_screen DeviceUsage
          else if sub \<notin> {subcommandList, subcommandRevoke, subcommandPairCode} then refuse (UnknownSubcommand sub)
          else openDeviceStore env (\<lambda>_.
            if sub = subcommandList then runDeviceList env
            else if sub = subcommandRevoke then runDeviceRevoke env rest
            else runDevicePairCode env (PairTTLMax cfg) rest))"

subsection \<open>The audit trail (cli.go)\<close>

definition auditDeviceColumn :: "device list \<Rightarrow> string \<Rightarrow> string" where
  "auditDeviceColumn devices i =
     (let name = deviceNameByID devices i in if name = [] then i else i @ '' ('' @ name @ '')'')"

definition orDash :: "string \<Rightarrow> string" where
  "orDash s = (if s = [] then auditEmptyColumn else s)"

definition audit_cells :: "device list \<Rightarrow> audit_row \<Rightarrow> string list" where
  "audit_cells devices r =
     [format_rfc3339 (ar_occurred_at r), auditDeviceColumn devices (coalesce (ar_device_id r)), ar_operation r,
      orDash (coalesce (ar_target r)), ar_outcome r, orDash (coalesce (ar_detail r))]"

definition audit_header :: "string list" where
  "audit_header = [''WHEN'', ''DEVICE'', ''OPERATION'', ''TARGET'', ''OUTCOME'', ''DETAIL'']"

definition listing :: "device list \<Rightarrow> audit_row list \<Rightarrow> string" where
  "listing devices rows = tabbed audit_header @ concat (map (\<lambda>r. tabbed (audit_cells devices r)) rows)"

definition runAuditList :: "cli_env \<Rightarrow> int \<Rightarrow> command" where
  "runAuditList env limit w =
     (case ListAudit (ce_store env 0) limit (cw_db w) of
        Inl e \<Rightarrow> (Refused (StoreFailed e), w)
      | Inr entries \<Rightarrow>
          (case ListDevices (ce_store env 1) (cw_db w) of
             Inl e \<Rightarrow> (Refused (StoreFailed e), w)
           | Inr devices \<Rightarrow>
               (Finished, print (Text (tabwriter (listing devices entries))) w)))"

definition runAuditListCommand :: "cli_env \<Rightarrow> string list \<Rightarrow> command" where
  "runAuditListCommand env args = parse_command [(auditLimitFlag, IntFlag)] AuditUsage args (\<lambda>acc rest.
     runAuditList env (int_flag acc auditLimitFlag defaultAuditLimit))"

definition runAuditCommand :: "cli_env \<Rightarrow> string list \<Rightarrow> command" where
  "runAuditCommand env args =
     (case args of
        [] \<Rightarrow> refuse MissingSubcommand
      | sub # rest \<Rightarrow>
          if isHelpSubcommand sub then show_screen AuditUsage
          else if sub \<noteq> subcommandList then refuse (UnknownSubcommand sub)
          else openDeviceStore env (\<lambda>_. runAuditListCommand env rest))"

subsection \<open>The health probe (health.go)\<close>

definition loopbackHost :: string where "loopbackHost = ''127.0.0.1''"

text \<open>net.JoinHostPort.\<close>

definition JoinHostPort :: "string \<Rightarrow> string \<Rightarrow> string" where
  "JoinHostPort host port =
     (if CHR '':'' \<in> set host then CHR ''['' # host @ '']:'' @ port else host @ CHR '':'' # port)"

definition healthTargetAddr :: "string \<Rightarrow> addr_error + string" where
  "healthTargetAddr addr =
     (case SplitHostPort addr of
        Inl e \<Rightarrow> Inl e
      | Inr (host, port) \<Rightarrow>
          Inr (JoinHostPort (if host \<in> {'''', ''0.0.0.0'', ''::''} then loopbackHost else host) port))"

definition probeStatus :: "cli_env \<Rightarrow> string \<Rightarrow> command" where
  "probeStatus env addr w =
     (case ce_probe env addr of
        None \<Rightarrow> (Refused ProbeFailed, w)
      | Some code \<Rightarrow>
          if code = 200 then (Finished, print (Text (''healthy: GET /v1/status returned 200'' @ [NL])) w)
          else if code = 429
          then (Finished, print (Text (''healthy: GET /v1/status returned 429 (rate-limited, listener is answering)'' @ [NL])) w)
          else (Refused (Unhealthy code), w))"

definition runHealthCommand :: "cli_env \<Rightarrow> config \<Rightarrow> string list \<Rightarrow> command" where
  "runHealthCommand env cfg args =
     (if helpRequested args then show_screen HealthUsage
      else if args \<noteq> [] then refuse (UnexpectedArgument (hd args))
      else case healthTargetAddr (ListenAddr cfg) of
          Inl e \<Rightarrow> refuse (BadListenAddr e)
        | Inr addr \<Rightarrow> probeStatus env addr)"

subsection \<open>The binary (main.go)\<close>

definition command_screen :: "string \<Rightarrow> help_screen" where
  "command_screen cmd = (if cmd = ''device'' then DeviceUsage else if cmd = ''audit'' then AuditUsage else HealthUsage)"

definition run_command :: "cli_env \<Rightarrow> string \<Rightarrow> string list \<Rightarrow> command" where
  "run_command env cmd rest w =
     (case Load (ce_urlScheme env) (ce_getenv env) of
        Inl ps \<Rightarrow> (Refused (ConfigInvalid ps), w)
      | Inr cfg \<Rightarrow>
          if cmd = ''device'' then runDeviceCommand env cfg rest w
          else if cmd = ''audit'' then runAuditCommand env rest w
          else if cmd = ''health'' then runHealthCommand env cfg rest w
          else (StartDaemon cfg, w))"

text \<open>The flag package prints the usage screen on its own output, standard error, whenever it stops.\<close>

definition run :: "cli_env \<Rightarrow> string list \<Rightarrow> command" where
  "run env argv w =
     (case parse_flags [(''version'', BoolFlag)] (tl argv) [] of
        Inl ErrHelp \<Rightarrow> show_screen RootUsage (print_err (Screen RootUsage) w)
      | Inl e \<Rightarrow> refuse UsageError (print_err (Screen RootUsage) w)
      | Inr (acc, args) \<Rightarrow>
          if bool_flag acc ''version'' False then (Finished, print VersionLine w)
          else (let cmd = (case args of [] \<Rightarrow> [] | a # _ \<Rightarrow> a); rest = drop 1 args
          in if cmd = ''help'' then show_screen RootUsage w
             else if cmd = [] \<and> isDevmonAlias (hd argv) then show_screen RootUsage w
             else if cmd = [] then run_command env cmd rest w
             else if cmd \<in> {''device'', ''audit'', ''health''} then
               (if helpRequested rest then show_screen (command_screen cmd) w else run_command env cmd rest w)
             else refuse UsageError w))"

definition exit_code :: "outcome \<Rightarrow> int" where
  "exit_code r = (case r of
       Refused (ConfigInvalid ps) \<Rightarrow> 2
     | Refused UsageError \<Rightarrow> 2
     | Refused e \<Rightarrow> 1
     | _ \<Rightarrow> 0)"

subsection \<open>What a command may touch\<close>

lemmas command_defs = refuse_def show_screen_def print_def print_err_def

definition only_store :: "command \<Rightarrow> bool" where
  "only_store c \<longleftrightarrow> (\<forall>w. cw_disk (snd (c w)) = cw_disk w \<and> (\<forall>cfg. fst (c w) \<noteq> StartDaemon cfg) \<and>
     (cw_db (snd (c w)) = cw_db w \<or>
      (\<exists>e i. cw_db (snd (c w)) = snd (RevokeDevice e i (cw_db w))) \<or>
      (\<exists>sha e code name ttl. cw_db (snd (c w)) = snd (MintPairingCode sha e code name ttl (cw_db w)))))"

lemma only_store_quiet: "only_store (refuse e)" "only_store (show_screen h)"
  by (simp_all add: only_store_def command_defs)

lemma only_store_parse:
  "(\<And>acc rest. only_store (k acc rest)) \<Longrightarrow> only_store (parse_command fs h args k)"
  unfolding parse_command_def
  by (auto simp: only_store_quiet split: sum.split flag_error.split prod.split)

lemma only_store_commands:
  "only_store (runDeviceList env)" "only_store (runDeviceRevoke env args)"
  "only_store (runDevicePairCode env ttl args)" "only_store (runAuditListCommand env args)"
proof -
  show "only_store (runDeviceList env)"
    by (auto simp: only_store_def runDeviceList_def command_defs split: sum.split)
  show "only_store (runAuditListCommand env args)"
    unfolding runAuditListCommand_def
    by (rule only_store_parse) (auto simp: only_store_def runAuditList_def command_defs split: sum.split)
  show "only_store (runDeviceRevoke env args)"
    unfolding runDeviceRevoke_def
  proof (rule only_store_parse)
    fix acc and rest :: "string list"
    show "only_store (\<lambda>w.
     if length rest \<noteq> 1 then (Refused (WrongArgCount (length rest)), w)
     else (let i = hd rest in
       case ListDevices (ce_store env 0) (cw_db w) of
         Inl e \<Rightarrow> (Refused (StoreFailed e), w)
       | Inr devices \<Rightarrow>
           (case RevokeDevice (ce_store env 1) i (cw_db w) of
              (Inl e, d) \<Rightarrow> (Refused (StoreFailed e), w\<lparr>cw_db := d\<rparr>)
            | (Inr u, d) \<Rightarrow> (Finished, print (Text (''revoked '' @ i @ '' ('' @ deviceNameByID devices i @ '')'' @ [NL]))
                (w\<lparr>cw_db := d\<rparr>)))))"
      by (auto simp: only_store_def command_defs Let_def split: sum.split prod.split) (metis snd_conv)+
  qed
  show "only_store (runDevicePairCode env ttl args)"
    unfolding runDevicePairCode_def Let_def
    by (rule only_store_parse) (auto simp: only_store_def command_defs split: sum.split prod.split, (metis snd_conv)+)
qed

lemma open_store_files: "d_files (snd (open_store ft s)) = d_files s"
  by (auto simp: open_store_def stat_db_def create_db_def effect_def bind_io_def return_io_def tick_def
      split: sum.splits cert_error.splits)

text \<open>The invocations that open the store: a known command, no help asked for, and a valid configuration.\<close>

definition store_command :: "cli_env \<Rightarrow> string list \<Rightarrow> bool" where
  "store_command env argv \<longleftrightarrow>
     (\<exists>acc cmd sub rest cfg. parse_flags [(''version'', BoolFlag)] (tl argv) [] = Inr (acc, cmd # sub # rest) \<and>
        \<not> bool_flag acc ''version'' False \<and> \<not> helpRequested (sub # rest) \<and> Load (ce_urlScheme env) (ce_getenv env) = Inr cfg \<and>
        (cmd = ''device'' \<and> sub \<in> {''list'', ''revoke'', ''pair-code''} \<or> cmd = ''audit'' \<and> sub = ''list''))"

definition leaves :: "outcome \<times> cli_world \<Rightarrow> cli_world \<Rightarrow> bool" where
  "leaves p w \<longleftrightarrow> cw_disk (snd p) = cw_disk w \<and> cw_db (snd p) = cw_db w \<and> (\<forall>cfg. fst p \<noteq> StartDaemon cfg)"

lemma leaves_quiet:
  "leaves (refuse e w) w" "leaves (show_screen h w) w" "leaves (Refused e, w) w" "leaves (Finished, print x w) w"
  "leaves (show_screen h (print_err x w)) w" "leaves (refuse e (print_err x w)) w"
  by (simp_all add: leaves_def command_defs)

lemma health_leaves: "leaves (runHealthCommand env cfg args w) w"
  by (simp add: runHealthCommand_def probeStatus_def leaves_quiet split: sum.split option.split)

definition opens_store :: "cli_env \<Rightarrow> outcome \<times> cli_world \<Rightarrow> cli_world \<Rightarrow> bool" where
  "opens_store env p w \<longleftrightarrow> (\<exists>k. only_store (k ()) \<and> p = openDeviceStore env k w)"

lemma device_command:
  "leaves (runDeviceCommand env cfg args w) w \<or>
   (\<exists>sub rest. args = sub # rest \<and> sub \<in> {''list'', ''revoke'', ''pair-code''} \<and>
      opens_store env (runDeviceCommand env cfg args w) w)"
proof (cases args)
  case (Cons sub rest)
  show ?thesis
  proof (cases "isHelpSubcommand sub \<or> sub \<notin> {''list'', ''revoke'', ''pair-code''}")
    case True
    with Cons show ?thesis by (auto simp: runDeviceCommand_def leaves_quiet subcommands)
  next
    case False
    let ?k = "\<lambda>_::unit. if sub = subcommandList then runDeviceList env
            else if sub = subcommandRevoke then runDeviceRevoke env rest else runDevicePairCode env (PairTTLMax cfg) rest"
    have "only_store (?k ())" using only_store_commands by simp
    moreover have "runDeviceCommand env cfg args w = openDeviceStore env ?k w"
      using False Cons by (auto simp: runDeviceCommand_def subcommands)
    ultimately show ?thesis using Cons False by (auto simp: opens_store_def)
  qed
qed (simp add: runDeviceCommand_def leaves_quiet)

lemma audit_command:
  "leaves (runAuditCommand env args w) w \<or>
   (\<exists>rest. args = ''list'' # rest \<and> opens_store env (runAuditCommand env args w) w)"
proof (cases args)
  case (Cons sub rest)
  show ?thesis
  proof (cases "isHelpSubcommand sub \<or> sub \<noteq> ''list''")
    case True
    with Cons show ?thesis by (auto simp: runAuditCommand_def leaves_quiet subcommands)
  next
    case False
    then have "runAuditCommand env args w = openDeviceStore env (\<lambda>_. runAuditListCommand env rest) w"
      using Cons by (auto simp: runAuditCommand_def subcommands)
    moreover have "only_store (runAuditListCommand env rest)" by (rule only_store_commands)
    ultimately have "opens_store env (runAuditCommand env args w) w"
      unfolding opens_store_def by (intro exI [of _ "\<lambda>_. runAuditListCommand env rest"]) simp
    with False Cons show ?thesis by simp
  qed
qed (simp add: runAuditCommand_def leaves_quiet)

lemma run_cases:
  obtains (quiet) "leaves (run env argv w) w"
  | (store) "store_command env argv" "opens_store env (run env argv w) w"
  | (daemon) acc args cfg where "parse_flags [(''version'', BoolFlag)] (tl argv) [] = Inr (acc, args)"
      "args = [] \<or> hd args = []" "\<not> isDevmonAlias (hd argv)" "Load (ce_urlScheme env) (ce_getenv env) = Inr cfg"
      "run env argv w = (StartDaemon cfg, w)"
proof (cases "parse_flags [(''version'', BoolFlag)] (tl argv) []")
  case (Inl e)
  then have "leaves (run env argv w) w" by (cases e) (simp_all add: run_def leaves_quiet)
  then show thesis by (rule quiet)
next
  case (Inr p)
  obtain acc args where p: "p = (acc, args)" by (cases p)
  define cmd where "cmd = (case args of [] \<Rightarrow> [] | a # _ \<Rightarrow> a)"
  note run = run_def [of env argv w, unfolded Inr p sum.case prod.case Let_def, folded cmd_def]
  show thesis
  proof (cases "bool_flag acc ''version'' False \<or> cmd = ''help'' \<or> (cmd = [] \<and> isDevmonAlias (hd argv)) \<or>
      (cmd \<noteq> [] \<and> cmd \<notin> {''device'', ''audit'', ''health''}) \<or> (cmd \<noteq> [] \<and> helpRequested (drop 1 args))")
    case True
    then have "leaves (run env argv w) w" unfolding run by (auto simp: leaves_quiet)
    then show thesis by (rule quiet)
  next
    case False
    then have r: "run env argv w = run_command env cmd (drop 1 args) w" unfolding run by auto
    show thesis
    proof (cases "Load (ce_urlScheme env) (ce_getenv env)")
      case (Inl ps)
      with r show thesis by (intro quiet) (simp add: run_command_def leaves_quiet)
    next
      case l: (Inr cfg)
      consider "cmd = []" | "cmd = ''device''" | "cmd = ''audit''" | "cmd = ''health''" using False by auto
      then show thesis
      proof cases
        case 1
        then have "args = [] \<or> hd args = []" by (cases args) (auto simp: cmd_def)
        with 1 r l Inr p False show thesis by (intro daemon) (auto simp: run_command_def)
      next
        case 2
        then have args: "args = ''device'' # drop 1 args" by (cases args) (auto simp: cmd_def)
        have d: "run env argv w = runDeviceCommand env cfg (drop 1 args) w" using r l 2 by (simp add: run_command_def)
        from device_command [of env cfg "drop 1 args" w] show thesis
        proof
          assume "\<exists>sub rest. drop 1 args = sub # rest \<and> sub \<in> {''list'', ''revoke'', ''pair-code''} \<and>
             opens_store env (runDeviceCommand env cfg (drop 1 args) w) w"
          with d args l Inr p False 2 show thesis
            by (intro store) (auto simp: store_command_def)
        qed (use d quiet in simp)
      next
        case 3
        then have args: "args = ''audit'' # drop 1 args" by (cases args) (auto simp: cmd_def)
        have d: "run env argv w = runAuditCommand env (drop 1 args) w" using r l 3 by (simp add: run_command_def)
        from audit_command [of env "drop 1 args" w] show thesis
        proof
          assume "\<exists>rest. drop 1 args = ''list'' # rest \<and> opens_store env (runAuditCommand env (drop 1 args) w) w"
          with d args l Inr p False 3 show thesis
            by (intro store) (auto simp: store_command_def)
        qed (use d quiet in simp)
      next
        case 4
        with r l health_leaves show thesis by (intro quiet) (simp add: run_command_def)
      qed
    qed
  qed
qed

lemma opens_store_effect:
  assumes "opens_store env p w"
  shows "d_files (cw_disk (snd p)) = d_files (cw_disk w) \<and> (\<forall>cfg. fst p \<noteq> StartDaemon cfg) \<and>
    (d_db (cw_disk w) \<longrightarrow> cw_db (snd p) = cw_db w \<or>
      (\<exists>e i. cw_db (snd p) = snd (RevokeDevice e i (cw_db w))) \<or>
      (\<exists>sha e code name ttl. cw_db (snd p) = snd (MintPairingCode sha e code name ttl (cw_db w))))"
proof -
  from assms obtain k where k: "only_store (k ())" and p: "p = openDeviceStore env k w"
    by (auto simp: opens_store_def)
  obtain r d where o: "open_store (ce_fate env) (boot (cw_disk w)) = (r, d)"
    by (cases "open_store (ce_fate env) (boot (cw_disk w))")
  have d: "d_files d = d_files (cw_disk w)" using open_store_files [of "ce_fate env" "boot (cw_disk w)"] o
    by (simp add: boot_def)
  show ?thesis
  proof (cases r)
    case (Inl e)
    with o d p show ?thesis by (simp add: openDeviceStore_def)
  next
    case (Inr b)
    let ?w = "w\<lparr>cw_disk := d, cw_db := if d_db (cw_disk w) then cw_db w else empty_db\<rparr>"
    have "p = k () ?w" using o p Inr by (simp add: openDeviceStore_def)
    moreover note q = k [unfolded only_store_def, rule_format, of ?w]
    ultimately have f: "d_files (cw_disk (snd p)) = d_files (cw_disk w)" "\<forall>cfg. fst p \<noteq> StartDaemon cfg"
      using d by simp_all
    show ?thesis
    proof (cases "d_db (cw_disk w)")
      case True
      with q \<open>p = k () ?w\<close> have "cw_db (snd p) = cw_db w \<or>
      (\<exists>e i. cw_db (snd p) = snd (RevokeDevice e i (cw_db w))) \<or>
      (\<exists>sha e code name ttl. cw_db (snd p) = snd (MintPairingCode sha e code name ttl (cw_db w)))" by simp
      with f show ?thesis by blast
    qed (use f in simp)
  qed
qed


end
