(* ===== verification/CliProps.thy ===== *)
theory CliProps
  imports Cli Guarantees
begin

section \<open>Properties of the command line\<close>

text \<open>
  The lifetime of a pairing code, what an audit listing shows and what a paired device can make
  it show, a command run before the first start, and the address of the health probe.
\<close>

subsection \<open>The lifetime of a pairing code\<close>

text \<open>
  A pairing code is minted with exactly the lifetime asked for, or not at all.  For every
  value a flag can have and every non-negative 64-bit ceiling, a given lifetime is accepted
  exactly when it is at least five minutes and within the ceiling, and is then the minted
  duration to the nanosecond - nothing is clamped, nothing wraps around, and an explicit zero is
  refused; with none given it is ten minutes or the ceiling, whichever is less.
\<close>

theorem pair_code_ttl_exact:
  assumes "- (2 ^ 63) \<le> ttl" and "ttl < 2 ^ 63" and "0 \<le> most" and "most < 2 ^ 63"
  shows "(resolvePairCodeTTL ttl True most = Inr d \<longleftrightarrow>
      d = ttl * 60000000000 \<and> 5 \<le> ttl \<and> ttl * 60000000000 \<le> most) \<and>
    resolvePairCodeTTL ttl False most = Inr (min most 600000000000)"
proof -
  have c: "most div time_Minute < ttl \<longleftrightarrow> most < ttl * time_Minute"
    by (simp add: time_Minute_def) linarith
  have "wrap64 (ttl * time_Minute) = ttl * time_Minute" if "5 \<le> ttl" "ttl * time_Minute \<le> most"
    using that assms(4) by (intro wrap64_id) (simp_all add: time_Minute_def)
  with c assms(3) show ?thesis
    by (auto simp: resolvePairCodeTTL_def Let_def pairCodeMinTTLMinutes_def DefaultPairingCodeTTL_def time_Minute_def)
qed

lemma pair_code_ttl_exact_witness:
  "resolvePairCodeTTL 15 True 1800000000000 = Inr 900000000000 \<and>
   resolvePairCodeTTL 153722868 True 1800000000000 \<noteq> Inr (153722868 * 60000000000) \<and>
   resolvePairCodeTTL 0 True 1800000000000 \<noteq> Inr 0"
  using pair_code_ttl_exact [of 15 1800000000000 900000000000]
    pair_code_ttl_exact [of 153722868 1800000000000 "153722868 * 60000000000"]
    pair_code_ttl_exact [of 0 1800000000000 0]
  by simp

subsection \<open>What an audit listing shows\<close>

definition plain :: "string \<Rightarrow> bool" where
  "plain s \<longleftrightarrow> TAB \<notin> set s \<and> NL \<notin> set s"

lemma tabbed_split:
  "cs \<noteq> [] \<Longrightarrow> list_all plain cs \<Longrightarrow> \<exists>l. tabbed cs = l @ [NL] \<and> NL \<notin> set l \<and> split_on TAB l = cs"
proof (induction cs rule: tabbed.induct)
  case (2 c)
  then show ?case by (simp add: plain_def split_on_none)
next
  case (3 c d cs)
  then obtain l where l: "tabbed (d # cs) = l @ [NL]" "NL \<notin> set l" "split_on TAB l = d # cs" by auto
  with 3(3) show ?case
    by (intro exI [of _ "c @ TAB # l"]) (auto simp: plain_def split_on_append_sep TAB_def NL_def)
qed simp

text \<open>A reader of the listing: its lines, each split into its cells.\<close>

definition read_table :: "string \<Rightarrow> string list list" where
  "read_table s = map (split_on TAB) (butlast (split_on NL s))"

lemma read_table_lines:
  "list_all (\<lambda>cs. cs \<noteq> [] \<and> list_all plain cs) css \<Longrightarrow> read_table (concat (map tabbed css)) = css"
proof (induction css)
  case (Cons cs css)
  then obtain l where "tabbed cs = l @ [NL]" "NL \<notin> set l" "split_on TAB l = cs" using tabbed_split by auto
  with Cons show ?case by (simp add: read_table_def split_on_append_sep)
qed (simp add: read_table_def)

lemma plain_append: "plain (s @ t) \<longleftrightarrow> plain s \<and> plain t"
  by (auto simp: plain_def)

lemma plain_Cons: "plain (c # s) \<longleftrightarrow> c \<noteq> TAB \<and> c \<noteq> NL \<and> plain s"
  by (auto simp: plain_def)

lemma plain_Nil: "plain []"
  by (simp add: plain_def)

lemmas plain_simps = plain_append plain_Cons plain_Nil

lemma plain_digit: "is_digit c \<Longrightarrow> c \<noteq> TAB \<and> c \<noteq> NL"
  by (auto simp: is_digit_def TAB_def NL_def)

lemma plain_pad_digits: "plain (pad_digits k n)"
proof (induction k n rule: pad_digits.induct)
  case (2 k n)
  have "is_digit (char_of (48 + nat (n mod 10)))" by (rule digit_char) simp_all
  with 2 plain_digit show ?case by (simp add: plain_simps)
qed (simp add: plain_simps)

lemma plain_format: "plain (format_rfc3339 t)"
  by (simp add: format_rfc3339_def format_year_def Let_def split_beta plain_simps plain_pad_digits TAB_def NL_def)

text \<open>The texts of a database that hold neither a tab nor a line break.\<close>

definition plain_row :: "audit_row \<Rightarrow> bool" where
  "plain_row r \<longleftrightarrow> list_all plain [coalesce (ar_device_id r), ar_operation r, coalesce (ar_target r), ar_outcome r,
     coalesce (ar_detail r)]"

definition plain_db :: "db \<Rightarrow> bool" where
  "plain_db d \<longleftrightarrow> list_all plain_row (db_audit d) \<and> list_all (\<lambda>r. plain (dr_name r)) (db_devices d)"

lemma plain_name: "list_all (\<lambda>d. plain (dev_name d)) devices \<Longrightarrow> plain (deviceNameByID devices i)"
  by (auto simp: deviceNameByID_def find_Some_iff list_all_length plain_simps split: option.split)

lemma plain_cells:
  "plain_row r \<Longrightarrow> list_all (\<lambda>d. plain (dev_name d)) devices \<Longrightarrow> list_all plain (audit_cells devices r)"
  using plain_name [of devices]
  by (auto simp: audit_cells_def plain_row_def plain_format auditDeviceColumn_def orDash_def auditEmptyColumn_def
      Let_def plain_simps TAB_def NL_def)

lemma set_newest: "set (newest num rows) \<subseteq> set rows"
  by (auto simp: newest_def Let_def dest: in_set_takeD)

lemma plain_devices:
  "plain_db d \<Longrightarrow> ListDevices e d = Inr devices \<Longrightarrow> list_all (\<lambda>d. plain (dev_name d)) devices"
  by (auto simp: ListDevices_def plain_db_def list_all_iff scanDevice_def split: if_splits)

text \<open>
  What \<open>audit list\<close> hands to the tabwriter reads back, line by line and cell by cell, as the
  header and then exactly the newest rows up to the limit, newest first.
\<close>

lemma audit_list_cells:
  assumes "runAuditList env num w = (Finished, w')" and "plain_db (cw_db w)"
  shows "\<exists>str devices. cw_out w' = cw_out w @ [Text (tabwriter str)] \<and> str = listing devices (newest num (db_audit (cw_db w))) \<and>
    cw_db w' = cw_db w \<and> ListDevices (ce_store env 1) (cw_db w) = Inr devices \<and>
    read_table str = [''WHEN'', ''DEVICE'', ''OPERATION'', ''TARGET'', ''OUTCOME'', ''DETAIL''] #
      map (audit_cells devices) (newest num (db_audit (cw_db w)))"
proof -
  obtain entries devices where e: "ListAudit (ce_store env 0) num (cw_db w) = Inr entries"
    "ListDevices (ce_store env 1) (cw_db w) = Inr devices" "w' = print (Text (tabwriter (listing devices entries))) w"
    using assms(1) by (auto simp: runAuditList_def split: sum.splits)
  have n: "entries = newest num (db_audit (cw_db w))" using e(1) by (auto simp: ListAudit_def split: if_splits)
  have "list_all plain_row entries"
    using assms(2) set_newest [of num "db_audit (cw_db w)"] by (auto simp: n plain_db_def list_all_iff)
  then have "list_all (\<lambda>cs. cs \<noteq> [] \<and> list_all plain cs) (map (audit_cells devices) entries)"
    using plain_cells plain_devices [OF assms(2) e(2)] by (auto simp: list_all_iff audit_cells_def)
  moreover have "list_all (\<lambda>cs. cs \<noteq> [] \<and> list_all plain cs) [audit_header]"
    by (simp add: audit_header_def plain_simps TAB_def NL_def)
  ultimately have "read_table (concat (map tabbed (audit_header # map (audit_cells devices) entries))) =
      audit_header # map (audit_cells devices) entries"
    by (intro read_table_lines) simp
  then have "read_table (listing devices entries) = audit_header # map (audit_cells devices) entries"
    by (simp add: listing_def comp_def)
  with e n show ?thesis
    by (intro exI [of _ "listing devices entries"] exI [of _ devices]) (simp add: print_def audit_header_def)
qed

definition demo_row :: "int \<Rightarrow> string \<Rightarrow> audit_row" where
  "demo_row i t = \<lparr>ar_id = i, ar_occurred_at = 0, ar_device_id = Some ''d1'', ar_operation = ''stop'',
     ar_target = Some t, ar_outcome = ''success'', ar_detail = Some []\<rparr>"

definition demo_cli_env :: cli_env where
  "demo_cli_env = \<lparr>ce_getenv = demo_env [], ce_urlScheme = demo_scheme, ce_fate = no_faults,
     ce_store = (\<lambda>n. demo_senv 20), ce_sha = demo_sha, ce_code = ''CODE'', ce_probe = (\<lambda>a. Some 200)\<rparr>"

definition demo_cli_world :: "db \<Rightarrow> cli_world" where
  "demo_cli_world d = \<lparr>cw_disk = fresh_disk\<lparr>d_db := True\<rparr>, cw_db = d, cw_out = [], cw_err = []\<rparr>"

subsection \<open>What a paired device can make a listing show\<close>

text \<open>
  The target a device names in the path so that the row of its own request prints as the row
  \<open>r1\<close>, then any rows it likes, then the start of the row \<open>r2\<close>.
\<close>

definition forged_target :: "device list \<Rightarrow> audit_row \<Rightarrow> audit_row list \<Rightarrow> audit_row \<Rightarrow> string" where
  "forged_target devices r1 fakes r2 =
     orDash (coalesce (ar_target r1)) @ TAB # ar_outcome r1 @ TAB # orDash (coalesce (ar_detail r1)) @ NL #
     concat (map (\<lambda>r. tabbed (audit_cells devices r)) fakes) @
     format_rfc3339 (ar_occurred_at r2) @ TAB # auditDeviceColumn devices (coalesce (ar_device_id r2)) @
     TAB # ar_operation r2 @ TAB # orDash (coalesce (ar_target r2))"

lemma forged_nonempty: "forged_target devices r1 fakes r2 \<noteq> []"
  by (simp add: forged_target_def)

lemma forged_row:
  assumes "ar_target r = Some (forged_target devices r1 fakes r2)"
    and "ar_occurred_at r1 = ar_occurred_at r" "ar_device_id r1 = ar_device_id r" "ar_operation r1 = ar_operation r"
    and "ar_outcome r2 = ar_outcome r" "ar_detail r2 = ar_detail r"
  shows "tabbed (audit_cells devices r) = concat (map (\<lambda>r. tabbed (audit_cells devices r)) (r1 # fakes @ [r2]))"
proof -
  have "orDash (coalesce (ar_target r)) = forged_target devices r1 fakes r2"
    using forged_nonempty [of devices r1 fakes r2] by (simp add: assms(1) coalesce_def orDash_def)
  with assms(2-6) show ?thesis by (simp add: audit_cells_def forged_target_def)
qed

lemma stop_route:
  assumes "rq_method rq = ''POST''" and "rq_path rq = [''v1'', ''containers'', t, ''stop'']" and "t \<noteq> []"
  shows "find_route (routes sv sh) rq = Some (route_mutate sv ''POST''
     [Lit ''v1'', Lit ''containers'', Var ''id'', Lit ''stop''] OpStop (handleStopContainer sv), [(''id'', t)])"
  using assms by (simp add: routes_def route_mutate_def route_read_def route_logs_def match_method_def)

lemma stop_row:
  assumes "serve sv sh rq env w = (resp, w')" and "rq_method rq = ''POST''"
    and "rq_path rq = [''v1'', ''containers'', t, ''stop'']" and "t \<noteq> []"
    and "caller rq env w = Some dv" and "has_token sv env w dv"
  shows "\<exists>row. w_ops w' = w_ops w @ [StTouch (dev_id dv), StAppend row] \<and> ae_target row = t \<and>
    ae_device_id row = dev_id dv \<and> ae_operation row = ''stop''"
proof -
  obtain cx' where "guard_mutate sv DoStop rq env (start_ctx [(''id'', t)]) w = (resp, cx', w')"
    using assms(1) stop_route [OF assms(2-4), of sv sh]
    by (auto simp: serve_def start_ctx_def Let_def route_mutate_def guard_mutate_def handleStopContainer_def split: prod.splits)
  then show ?thesis
    by (cases rule: guard_mutate_cases) (use assms(5,6) in \<open>auto simp: pathValue_def start_ctx_def op_defs gm_get_or_def\<close>)
qed

text \<open>
  C29: a paired device can forge the operator's view of the audit trail.  Whatever rows it makes
  up, there is a path - it needs no permission, and no such container - for which a request of
  any device the guards admit appends a row whose target the listing prints verbatim: with it
  in the trail, \<open>audit list\<close> prints the very text it would print for a trail that holds those
  made-up rows, attributed to whichever devices it likes.
\<close>

theorem audit_list_forgeable:
  assumes "rq_method rq = ''POST''"
    and "rq_path rq = [''v1'', ''containers'', forged_target devices r1 fakes r2, ''stop'']"
    and "caller rq env w = Some dv" and "has_token sv env w dv" and "serve sv sh rq env w = (resp, w')"
  shows "\<exists>row. w_ops w' = w_ops w @ [StTouch (dev_id dv), StAppend row] \<and> ae_device_id row = dev_id dv \<and>
    (\<forall>e d d'. AppendAudit e row d = (Inr (), d') \<longrightarrow>
      (\<exists>r. db_audit d' = db_audit d @ [r] \<and>
        listing devices (xs @ r # ys) = listing devices (xs @
          r1\<lparr>ar_occurred_at := ar_occurred_at r, ar_device_id := ar_device_id r, ar_operation := ar_operation r\<rparr> #
          fakes @ r2\<lparr>ar_outcome := ar_outcome r, ar_detail := ar_detail r\<rparr> # ys)))"
proof -
  obtain row where row: "w_ops w' = w_ops w @ [StTouch (dev_id dv), StAppend row]"
    "ae_target row = forged_target devices r1 fakes r2" "ae_device_id row = dev_id dv"
    using stop_row [OF assms(5,1,2) forged_nonempty assms(3,4)] by blast
  have "\<exists>r. db_audit d' = db_audit d @ [r] \<and>
        listing devices (xs @ r # ys) = listing devices (xs @
          r1\<lparr>ar_occurred_at := ar_occurred_at r, ar_device_id := ar_device_id r, ar_operation := ar_operation r\<rparr> #
          fakes @ r2\<lparr>ar_outcome := ar_outcome r, ar_detail := ar_detail r\<rparr> # ys)"
    if a: "AppendAudit e row d = (Inr (), d')" for e d d'
  proof -
    obtain r where r: "db_audit d' = db_audit d @ [r]" "ar_target r = Some (ae_target row)"
      using a by (auto simp: AppendAudit_def Let_def split: if_splits)
    let ?r1 = "r1\<lparr>ar_occurred_at := ar_occurred_at r, ar_device_id := ar_device_id r, ar_operation := ar_operation r\<rparr>"
    let ?r2 = "r2\<lparr>ar_outcome := ar_outcome r, ar_detail := ar_detail r\<rparr>"
    have "forged_target devices r1 fakes r2 = forged_target devices ?r1 fakes ?r2"
      by (simp add: forged_target_def)
    with r(2) row(2) have "tabbed (audit_cells devices r) = concat (map (\<lambda>r. tabbed (audit_cells devices r)) (?r1 # fakes @ [?r2]))"
      by (intro forged_row) simp_all
    with r(1) show ?thesis by (intro exI [of _ r]) (simp add: listing_def)
  qed
  with row show ?thesis by blast
qed

lemma audit_list_forgeable_witness:
  "\<exists>resp w' row. serve (demo_sv ModeReadOnly) quiet_streams
     (demo_request ''POST'' [''v1'', ''containers'', forged_target [] (demo_row 1 ''web'') [demo_row 7 ''db''] (demo_row 8 ''db''), ''stop''] (Some 255))
     (demo_rq_env 20) (demo_world demo_paired) = (resp, w') \<and>
   w_ops w' = [StTouch ''6162636465666768'', StAppend row] \<and> ae_device_id row = ''6162636465666768''"
proof -
  let ?rq = "demo_request ''POST'' [''v1'', ''containers'',
      forged_target [] (demo_row 1 ''web'') [demo_row 7 ''db''] (demo_row 8 ''db''), ''stop''] (Some 255)"
  obtain resp w' where s: "serve (demo_sv ModeReadOnly) quiet_streams ?rq (demo_rq_env 20) (demo_world demo_paired) = (resp, w')"
    by (meson surj_pair)
  have c: "caller ?rq (demo_rq_env 20) (demo_world demo_paired) =
      Some \<lparr>dev_id = ''6162636465666768'', dev_name = ''phone'', dev_paired_at = 10000000000,
          dev_last_seen_at = None, dev_revoked_at = None\<rparr>"
    by (simp add: caller_def demo_request_def demo_rq_env_def demo_world_def demo_lookup IsRevoked_def)
  have q: "rq_method ?rq = ''POST''" "rq_path ?rq = [''v1'', ''containers'',
      forged_target [] (demo_row 1 ''web'') [demo_row 7 ''db''] (demo_row 8 ''db''), ''stop'']"
    by (simp_all add: demo_request_def)
  obtain row where "w_ops w' = w_ops (demo_world demo_paired) @ [StTouch ''6162636465666768'', StAppend row]"
    "ae_device_id row = ''6162636465666768''"
    using audit_list_forgeable [OF q c demo_has_token s, of "[]" "[]"] by auto
  with s show ?thesis by (auto simp: demo_world_def)
qed

subsection \<open>A command before the first start\<close>

lemma store_command_opens:
  assumes "store_command env argv"
  shows "opens_store env (run env argv w) w"
proof -
  obtain acc cmd sub rest cfg where a: "parse_flags [(''version'', BoolFlag)] (tl argv) [] = Inr (acc, cmd # sub # rest)"
      "\<not> bool_flag acc ''version'' False" "\<not> helpRequested (sub # rest)" "Load (ce_urlScheme env) (ce_getenv env) = Inr cfg"
    and c: "cmd = ''device'' \<and> sub \<in> {''list'', ''revoke'', ''pair-code''} \<or> cmd = ''audit'' \<and> sub = ''list''"
    using assms unfolding store_command_def by blast
  have h: "\<not> isHelpSubcommand sub" using c by (auto simp: isHelpSubcommand_def help_flag_def)
  from c show ?thesis
  proof
    assume c: "cmd = ''device'' \<and> sub \<in> {''list'', ''revoke'', ''pair-code''}"
    let ?k = "\<lambda>_::unit. if sub = subcommandList then runDeviceList env
            else if sub = subcommandRevoke then runDeviceRevoke env rest else runDevicePairCode env (PairTTLMax cfg) rest"
    have "run env argv w = openDeviceStore env ?k w"
      using a c h by (auto simp: run_def run_command_def runDeviceCommand_def subcommands Let_def)
    moreover have "only_store (?k ())" using only_store_commands by simp
    ultimately show ?thesis by (auto simp: opens_store_def)
  next
    assume c: "cmd = ''audit'' \<and> sub = ''list''"
    have "run env argv w = openDeviceStore env (\<lambda>_. runAuditListCommand env rest) w"
      using a c h by (auto simp: run_def run_command_def runAuditCommand_def subcommands Let_def)
    moreover have "only_store (runAuditListCommand env rest)" by (rule only_store_commands)
    ultimately show ?thesis unfolding opens_store_def by (intro exI [of _ "\<lambda>_. runAuditListCommand env rest"]) simp
  qed
qed

lemma fresh_open:
  "open_store no_faults (boot fresh_disk) = (Inr True, \<lparr>d_files = [], d_db = True, d_ops = 3\<rparr>)"
  by (simp add: io_steps fresh_disk_def no_faults_def boot_def)

text \<open>
  An operator command before the agent's first start leaves a state directory on which the
  agent never starts.  Any device or audit command that gets as far as the store - even one
  that is then refused for its arguments - creates the database; with the database there and no
  authority, every later start fails, and without a fault it reports an incomplete identity.
\<close>

theorem cli_before_first_start_strands:
  assumes "store_command env argv" and "ce_fate env = no_faults" and "cw_disk w = fresh_disk"
    and "run env argv w = (r, w')"
  shows "\<exists>e. fst (serve_start pki ft rnd sans now (boot (restarts pki runs (cw_disk w')))) = Inl e \<and>
    (ft = no_faults \<longrightarrow> e = IdentityIncomplete)"
proof -
  obtain k where k: "only_store (k ())" and r: "(r, w') = openDeviceStore env k w"
    using store_command_opens [OF assms(1), of w] assms(4) by (auto simp: opens_store_def)
  let ?w = "w\<lparr>cw_disk := \<lparr>d_files = [], d_db = True, d_ops = 3\<rparr>, cw_db := empty_db\<rparr>"
  have "\<not> d_db (cw_disk w)" by (simp add: assms(3) fresh_disk_def)
  then have "(r, w') = k () ?w" using r by (simp add: openDeviceStore_def assms(2) assms(3) fresh_open)
  then have "w' = snd (k () ?w)" by (metis snd_conv)
  moreover have "cw_disk (snd (k () ?w)) = cw_disk ?w" using k unfolding only_store_def by blast
  ultimately have "cw_disk w' = \<lparr>d_files = [], d_db = True, d_ops = 3\<rparr>" by simp
  then have "stranded (cw_disk w')" by (simp add: stranded_def)
  then have s: "stranded (boot (restarts pki runs (cw_disk w')))"
    using stranded_restarts by (auto simp: stranded_def boot_def)
  obtain e s' where e: "serve_start pki ft rnd sans now (boot (restarts pki runs (cw_disk w'))) = (Inl e, s')"
    using stranded_start [OF s] by blast
  have "ft = no_faults \<Longrightarrow> e = IdentityIncomplete"
    using no_fault_incomplete [OF s, of pki rnd sans now] e by simp
  with e show ?thesis by auto
qed

lemma demo_load: "\<exists>cfg. Load demo_scheme (demo_env []) = Inr cfg"
proof -
  have "\<not> isl (Load demo_scheme (demo_env []))" by code_simp
  then show ?thesis by (cases "Load demo_scheme (demo_env [])") auto
qed

lemma demo_list_command: "store_command demo_cli_env [''devmon'', ''device'', ''list'']"
proof -
  have "parse_flags [(''version'', BoolFlag)] [''device'', ''list''] [] = Inr ([], [''device'', ''list''])"
    by (simp add: parse_flags.simps parseOne_def)
  then show ?thesis
    unfolding store_command_def
    using demo_load by (intro exI [of _ "[]"] exI [of _ "''device''"] exI [of _ "''list''"])
      (simp add: demo_cli_env_def bool_flag_def helpRequested_def help_flag_def)
qed

lemma cli_before_first_start_strands_witness:
  "fst (serve_start demo_pki no_faults 0 [''a.b''] 0 (boot (cw_disk (snd (run demo_cli_env [''devmon'', ''device'', ''list'']
     ((demo_cli_world empty_db)\<lparr>cw_disk := fresh_disk\<rparr>)))))) = Inl IdentityIncomplete"
proof -
  let ?w = "(demo_cli_world empty_db)\<lparr>cw_disk := fresh_disk\<rparr>"
  obtain r w' where r: "run demo_cli_env [''devmon'', ''device'', ''list''] ?w = (r, w')" by (meson surj_pair)
  have "ce_fate demo_cli_env = no_faults" "cw_disk ?w = fresh_disk" by (simp_all add: demo_cli_env_def)
  from cli_before_first_start_strands [OF demo_list_command this r, of demo_pki no_faults 0 "[''a.b'']" 0 "[]"] r
  show ?thesis by auto
qed


subsection \<open>The address of the health probe\<close>

lemma last_index_absent: "c \<notin> set s \<Longrightarrow> last_index c s = None"
  by (induction s) auto

lemma last_index_split: "c \<notin> set q \<Longrightarrow> last_index c (p @ c # q) = Some (length p)"
  by (induction p) (auto simp: last_index_absent)

lemma first_index_split: "c \<notin> set p \<Longrightarrow> first_index c (p @ c # q) = Some (length p)"
  by (induction p) auto

text \<open>Joining and splitting a host and a port are inverse for the hosts and ports that splitting yields.\<close>

lemma split_join:
  assumes "CHR '']'' \<notin> set host" "CHR ''['' \<notin> set host" "CHR '':'' \<notin> set port" "CHR ''['' \<notin> set port" "CHR '']'' \<notin> set port"
  shows "SplitHostPort (JoinHostPort host port) = Inr (host, port)"
proof (cases "CHR '':'' \<in> set host")
  case True
  let ?s = "CHR ''['' # host @ CHR '']'' # CHR '':'' # port"
  have l: "last_index (CHR '':'') ?s = Some (length host + 2)"
    using last_index_split [of "CHR '':''" port "CHR ''['' # host @ '']''"] assms(3) by simp
  have e: "first_index (CHR '']'') ?s = Some (length host + 1)"
    using first_index_split [of "CHR '']''" "CHR ''['' # host" "CHR '':'' # port"] assms(1) by simp
  have "JoinHostPort host port = ?s" using True by (simp add: JoinHostPort_def)
  moreover have "SplitHostPort ?s = Inr (host, port)"
    unfolding SplitHostPort_def l option.case Let_def e using assms by (simp add: bracketed_def)
  ultimately show ?thesis by simp
next
  case False
  have l: "last_index (CHR '':'') (host @ CHR '':'' # port) = Some (length host)"
    using last_index_split assms(3) by metis
  have "\<not> bracketed (host @ CHR '':'' # port)"
    using assms(2) by (cases host) (auto simp: bracketed_def)
  with False assms l show ?thesis by (simp add: JoinHostPort_def SplitHostPort_def Let_def)
qed

lemma last_index_after: "last_index c s = Some i \<Longrightarrow> c \<notin> set (drop (Suc i) s)"
proof (induction s arbitrary: i)
  case (Cons x s)
  have "c \<notin> set s" if "last_index c s = None"
    using that by (induction s) (auto split: option.splits if_splits)
  with Cons show ?case by (auto split: option.splits if_splits)
qed simp

lemma first_index_before: "first_index c s = Some i \<Longrightarrow> c \<notin> set (take i s)"
  by (induction s arbitrary: i) (auto split: if_splits)

lemma SplitHostPort_clean:
  assumes "SplitHostPort s = Inr (host, port)"
  shows "CHR ''['' \<notin> set port \<and> CHR '']'' \<notin> set port \<and> CHR '':'' \<notin> set port \<and>
    CHR ''['' \<notin> set host \<and> CHR '']'' \<notin> set host"
proof -
  obtain i where i: "last_index (CHR '':'') s = Some i" and port: "port = drop (Suc i) s"
    using assms by (auto simp: SplitHostPort_def Let_def split: option.splits if_splits)
  have colon: "CHR '':'' \<notin> set port" using last_index_after [OF i] port by simp
  show ?thesis
  proof (cases "bracketed s")
    case True
    with assms i obtain e where e: "first_index (CHR '']'') s = Some e" "Suc e = i"
      and h: "host = drop 1 (take e s)" "CHR ''['' \<notin> set (drop 1 s)" "CHR '']'' \<notin> set (drop (Suc e) s)"
      by (auto simp: SplitHostPort_def Let_def split: option.splits if_splits)
    have "set port \<subseteq> set (drop 1 s)" "set port \<subseteq> set (drop (Suc e) s)"
      unfolding port e(2) [symmetric] by (rule set_drop_subset_set_drop, simp)+
    moreover have "set host \<subseteq> set (drop 1 s)" "set host \<subseteq> set (take e s)"
      using set_take_subset [of "e - 1" "drop 1 s"] set_drop_subset [of 1 "take e s"] by (simp_all add: h(1) drop_take)
    ultimately show ?thesis using colon h(2,3) first_index_before [OF e(1)] by blast
  next
    case False
    with assms i have "host = take i s" "CHR ''['' \<notin> set s" "CHR '']'' \<notin> set s"
      by (auto simp: SplitHostPort_def Let_def split: if_splits)
    moreover have "set port \<subseteq> set s" "set (take i s) \<subseteq> set s"
      using port set_drop_subset set_take_subset by metis+
    ultimately show ?thesis using colon by blast
  qed
qed

text \<open>
  Every listen address that can be split has a target to probe, which splits into the loopback
  address or the configured host, and the configured port.
\<close>

lemma health_target:
  assumes "SplitHostPort addr = Inr (host, port)"
  shows "\<exists>target. healthTargetAddr addr = Inr target \<and>
    SplitHostPort target = Inr (if host \<in> {'''', ''0.0.0.0'', ''::''} then ''127.0.0.1'' else host, port)"
  using SplitHostPort_clean [OF assms] split_join [of host port] split_join [of "''127.0.0.1''" port]
  by (auto simp: healthTargetAddr_def assms loopbackHost_def)

end
