(* ===== verification/CliClient.thy ===== *)
theory CliClient
  imports CliProps
begin

section \<open>The operator's listings as a program reads them (internal/e2e/harness/cli.go)\<close>

text \<open>
  The parser of the end-to-end tests for the tables of \<open>device list\<close> and \<open>audit list\<close>, and that
  it reads back what the commands print.  A run of at least two white spaces is the boundary of
  a column.
\<close>

subsection \<open>The parser\<close>

definition is_ws :: "char \<Rightarrow> bool" where
  "is_ws c \<longleftrightarrow> c \<in> {CHR 0x20, CHR 0x09, CHR 0x0A, CHR 0x0C, CHR 0x0D}"

text \<open>The first match of the pattern: what precedes it and what follows it.\<close>

fun find_gap :: "string \<Rightarrow> (string \<times> string) option" where
  "find_gap [] = None"
| "find_gap (c # s) =
     (if is_ws c \<and> s \<noteq> [] \<and> is_ws (hd s) then Some ([], dropWhile is_ws s)
      else map_option (apfst (Cons c)) (find_gap s))"

text \<open>Regexp.Split with at most as many pieces.\<close>

fun split_gaps :: "nat \<Rightarrow> string \<Rightarrow> string list" where
  "split_gaps 0 s = []"
| "split_gaps (Suc 0) s = [s]"
| "split_gaps (Suc (Suc k)) s = (case find_gap s of None \<Rightarrow> [s] | Some (a, r) \<Rightarrow> a # split_gaps (Suc k) r)"

definition trim_newlines :: "string \<Rightarrow> string" where
  "trim_newlines s = rev (dropWhile (\<lambda>c. c = NL) (rev s))"

definition parse_line :: "nat \<Rightarrow> string \<Rightarrow> string list option" where
  "parse_line want line =
     (let fields = split_gaps want line
      in if length fields \<noteq> want then None else Some (map trim_space fields))"

fun all_some :: "'a option list \<Rightarrow> 'a list option" where
  "all_some [] = Some []"
| "all_some (x # xs) = (case x of None \<Rightarrow> None | Some y \<Rightarrow> map_option (Cons y) (all_some xs))"

text \<open>A row with another number of columns fails the test that reads it.\<close>

definition parseTable :: "nat \<Rightarrow> string \<Rightarrow> string list list option" where
  "parseTable want out =
     all_some (map (parse_line want) (filter (\<lambda>l. trim_space l \<noteq> []) (tl (split_on NL (trim_newlines out)))))"

record DeviceRow =
  drow_id :: string
  drow_name :: string
  drow_paired_at :: string
  drow_last_seen_at :: string
  drow_state :: string

record AuditRow =
  arow_occurred_at :: string
  arow_device :: string
  arow_operation :: string
  arow_target :: string
  arow_outcome :: string
  arow_detail :: string

definition undash :: "string \<Rightarrow> string" where
  "undash s = (if s = auditEmptyColumn then [] else s)"

definition parseDeviceRows :: "string \<Rightarrow> DeviceRow list option" where
  "parseDeviceRows out = map_option (map (\<lambda>f. \<lparr>drow_id = f ! 0, drow_name = f ! 1, drow_paired_at = f ! 2,
     drow_last_seen_at = f ! 3, drow_state = f ! 4\<rparr>)) (parseTable 5 out)"

definition parseAuditRows :: "string \<Rightarrow> AuditRow list option" where
  "parseAuditRows out = map_option (map (\<lambda>f. \<lparr>arow_occurred_at = f ! 0, arow_device = f ! 1, arow_operation = f ! 2,
     arow_target = undash (f ! 3), arow_outcome = f ! 4, arow_detail = undash (f ! 5)\<rparr>)) (parseTable 6 out)"

subsection \<open>Trimming\<close>

definition visible :: "char \<Rightarrow> bool" where
  "visible c \<longleftrightarrow> 0x21 \<le> byte_of c \<and> byte_of c < 0x80"

lemma spaces_invisible: "w \<in> set space_encodings \<Longrightarrow> w \<noteq> [] \<and> list_all (\<lambda>c. \<not> visible c) w"
  by (auto simp: space_encodings_def visible_def)

lemma trim_keeps: "x \<in> set s \<Longrightarrow> \<forall>w\<in>set ws. x \<notin> set w \<Longrightarrow> x \<in> set (trim_left_with n ws s)"
proof (induction n arbitrary: s)
  case (Suc n)
  show ?case
  proof (cases "List.find (\<lambda>w. prefix w s) ws")
    case (Some w)
    then have "w \<in> set ws" "prefix w s" by (auto simp: find_Some_iff)
    then obtain r where "s = w @ r" by (auto simp: prefix_def)
    with Suc \<open>w \<in> set ws\<close> Some show ?thesis by auto
  qed (use Suc in simp)
qed simp

lemma trim_space_visible: "x \<in> set s \<Longrightarrow> visible x \<Longrightarrow> trim_space s \<noteq> []"
proof -
  assume x: "x \<in> set s" "visible x"
  have n: "\<forall>w\<in>set space_encodings. x \<notin> set w"
    using x(2) spaces_invisible by (auto simp: list_all_iff)
  have "x \<in> set (trim_left s)" unfolding trim_left_def by (rule trim_keeps [OF x(1) n])
  then have "x \<in> set (trim_left_with (length (trim_left s)) (map rev space_encodings) (rev (trim_left s)))"
    by (intro trim_keeps) (use n in auto)
  then show ?thesis by (auto simp: trim_space_def Let_def)
qed

lemma find_prefix_None:
  "x \<noteq> [] \<Longrightarrow> (\<And>w. w \<in> set ws \<Longrightarrow> w \<noteq> [] \<and> hd w \<noteq> hd x) \<Longrightarrow> List.find (\<lambda>w. prefix w x) ws = None"
  unfolding find_None_iff prefix_def by (metis hd_append2)

lemma trim_left_with_id: "List.find (\<lambda>w. prefix w s) ws = None \<Longrightarrow> trim_left_with n ws s = s"
  by (cases n) auto

lemma trim_space_id:
  assumes "s \<noteq> []" and "visible (hd s)" and "visible (List.last s)"
  shows "trim_space s = s"
proof -
  have "hd w \<noteq> hd s \<and> w \<noteq> []" if "w \<in> set space_encodings" for w
    using spaces_invisible [OF that] assms(2) by (cases w) auto
  then have l: "trim_left s = s"
    unfolding trim_left_def by (intro trim_left_with_id find_prefix_None) (use assms(1) in auto)
  have "hd w \<noteq> hd (rev s) \<and> w \<noteq> []" if "w \<in> set (map rev space_encodings)" for w
  proof -
    from that obtain v where v: "w = rev v" "v \<in> set space_encodings" by auto
    then have "v \<noteq> []" "\<not> visible (List.last v)" using spaces_invisible [OF v(2)] by (auto simp: list_all_iff)
    with v(1) assms(1,3) show ?thesis by (auto simp: hd_rev)
  qed
  then have "trim_left_with n (map rev space_encodings) (rev s) = rev s" for n
    by (intro trim_left_with_id find_prefix_None) (use assms(1) in auto)
  with l show ?thesis by (simp add: trim_space_def Let_def)
qed

lemma trimmed_ends:
  assumes "trim_space s = s" and "s \<noteq> []"
  shows "\<not> is_ws (hd s) \<and> \<not> is_ws (List.last s)"
proof -
  let ?t = "trim_left s"
  have one: "[c] \<in> set space_encodings \<and> [c] \<in> set (map rev space_encodings)" if "is_ws c" for c
    using that by (auto simp: is_ws_def space_encodings_def)
  have r: "rev s = trim_left_with (length ?t) (map rev space_encodings) (rev ?t)"
    using arg_cong [OF assms(1), of rev] by (simp add: trim_space_def Let_def)
  have "suffix (rev s) (rev ?t)" unfolding r by (rule trim_left_with_suffix)
  then have "length s \<le> length ?t" by (auto dest: suffix_length_le)
  moreover have "suffix ?t s" unfolding trim_left_def by (rule trim_left_with_suffix)
  ultimately have t: "?t = s" by (auto simp: suffix_def) (metis add_le_same_cancel2 le_zero_eq length_0_conv length_append self_append_conv2)
  have "\<not> prefix w s" if "w \<in> set space_encodings" for w
  proof -
    have "\<not> prefix w (trim_left_with (length s) space_encodings s)"
      by (rule trim_left_with_done [OF _ _ that]) (use spaces_invisible in auto)
    with t show ?thesis by (simp add: trim_left_def)
  qed
  moreover have "\<not> prefix w (rev s)" if "w \<in> set (map rev space_encodings)" for w
    unfolding r by (rule trim_left_with_done [OF _ _ that]) (use spaces_invisible in auto)
  moreover have "prefix [hd s] s" "prefix [List.last s] (rev s)"
    using assms(2) by (cases s; simp) (cases s rule: rev_cases; simp add: assms(2))
  ultimately show ?thesis using one by blast
qed

subsection \<open>Reading a table back\<close>

text \<open>A text that is a cell of its own: nothing the tabwriter treats specially, single blanks only, and none at the ends.\<close>

definition solid :: "string \<Rightarrow> bool" where
  "solid s \<longleftrightarrow> s \<noteq> [] \<and> ordinary s \<and> find_gap s = None \<and> trim_space s = s"

lemma solid_ends: "solid s \<Longrightarrow> \<not> is_ws (hd s) \<and> \<not> is_ws (List.last s)"
  by (rule trimmed_ends) (simp_all add: solid_def)

lemma find_gap_at:
  assumes "find_gap c = None" and "c \<noteq> []" and "\<not> is_ws (List.last c)" and "2 \<le> k" and "r \<noteq> []" and "\<not> is_ws (hd r)"
  shows "find_gap (c @ replicate k CHR '' '' @ r) = Some (c, r)"
  using assms(1-3)
proof (induction c)
  case (Cons x c)
  obtain j where k: "k = Suc (Suc j)" using assms(4) by (metis One_nat_def Suc_1 Suc_le_D Suc_le_mono)
  have ws: "is_ws CHR '' ''" by (simp add: is_ws_def)
  have gap: "find_gap (replicate k CHR '' '' @ r) = Some ([], r)"
    using assms(5,6) ws by (cases r) (auto simp: k dropWhile_append)
  show ?case
  proof (cases c)
    case Nil
    with Cons.prems have "\<not> is_ws x" by simp
    with Nil gap show ?thesis by simp
  next
    case (Cons y c')
    with Cons.prems Cons.IH show ?thesis by (auto split: if_splits)
  qed
qed simp

lemma write_cells_hd:
  "cs \<noteq> [] \<Longrightarrow> hd cs \<noteq> [] \<Longrightarrow> write_cells ws (map plain_cell cs) \<noteq> [] \<and> hd (write_cells ws (map plain_cell cs)) = hd (hd cs)"
  by (cases cs; cases ws) (auto simp: plain_cell_def)

lemma wide_cons: "wide_enough (w # ws) (c # d # cs) \<longleftrightarrow> rune_count c + 2 \<le> w \<and> wide_enough ws (d # cs)"
  by (auto simp: wide_enough_def tab_padding_def All_less_Suc2)

lemma wide_Nil: "\<not> wide_enough [] (c # d # cs)"
  by (simp add: wide_enough_def)

lemma split_written:
  "list_all solid cs \<Longrightarrow> cs \<noteq> [] \<Longrightarrow> wide_enough ws cs \<Longrightarrow> length cs \<le> k \<Longrightarrow>
   split_gaps k (write_cells ws (map plain_cell cs)) = cs"
proof (induction cs arbitrary: ws k rule: tabbed.induct)
  case (2 c)
  then obtain j where "k = Suc j" by (cases k) auto
  with 2 show ?case by (cases ws; cases j) (auto simp: wide_enough_def plain_cell_def solid_def)
next
  case (3 c d cs)
  then obtain w vs where ws: "ws = w # vs" by (cases ws) (auto simp: wide_Nil)
  obtain j where k: "k = Suc (Suc j)" using 3(5) by (metis Suc_le_D Suc_le_mono length_Cons)
  have wide: "wide_enough vs (d # cs)" and w: "rune_count c + 2 \<le> w"
    using 3(4) by (simp_all add: ws wide_cons)
  let ?r = "write_cells vs (map plain_cell (d # cs))"
  have d: "solid d" "d \<noteq> []" using 3(2) by (auto simp: solid_def)
  have "?r \<noteq> []" "hd ?r = hd d" using write_cells_hd [of "d # cs" vs] d(2) by auto
  moreover have "2 \<le> nat (w - rune_count c)" using w by linarith
  ultimately have "find_gap (c @ replicate (nat (w - rune_count c)) CHR '' '' @ ?r) = Some (c, ?r)"
    using 3(2) solid_ends [of c] solid_ends [OF d(1)] by (intro find_gap_at) (auto simp: solid_def)
  moreover have "write_cells ws (map plain_cell (c # d # cs)) = c @ replicate (nat (w - rune_count c)) CHR '' '' @ ?r"
    by (simp add: ws plain_cell_def)
  ultimately show ?case using 3(1) [OF _ _ wide, of "Suc j"] 3(2,5) by (simp add: k)
qed simp

lemma parse_written:
  assumes "list_all solid cs" and "cs \<noteq> []" and "wide_enough ws cs"
  shows "parse_line (length cs) (write_cells ws (map plain_cell cs)) = Some cs"
proof -
  have "map trim_space cs = cs" using assms(1) by (intro map_idI) (auto simp: list_all_iff solid_def)
  with split_written [OF assms order_refl] show ?thesis by (simp add: parse_line_def)
qed

lemma written_set: "set (write_cells ws (map plain_cell cs)) \<subseteq> insert CHR '' '' (\<Union>(set ` set cs))"
proof (induction cs arbitrary: ws)
  case (Cons c cs)
  from Cons [of "[]"] Cons [of "tl ws"] show ?case by (cases ws) (auto simp: plain_cell_def)
qed simp

lemma written_cell: "c \<in> set cs \<Longrightarrow> set c \<subseteq> set (write_cells ws (map plain_cell cs))"
proof (induction cs arbitrary: ws)
  case (Cons d cs)
  then show ?case by (cases ws) (auto simp: plain_cell_def)
qed simp

lemma written_last:
  "cs \<noteq> [] \<Longrightarrow> List.last cs \<noteq> [] \<Longrightarrow> length ws < length cs \<Longrightarrow>
   write_cells ws (map plain_cell cs) \<noteq> [] \<and> List.last (write_cells ws (map plain_cell cs)) = List.last (List.last cs)"
proof (induction cs arbitrary: ws)
  case (Cons c cs)
  then show ?case by (cases ws; cases "cs = []") (auto simp: plain_cell_def)
qed simp

text \<open>An empty cell disappears between its neighbours.\<close>

lemma parse_hole:
  assumes "list_all solid (c # d # cs)" and "wide_enough ws (c # [] # d # cs)"
  shows "parse_line (Suc (Suc (Suc (length cs)))) (write_cells ws (map plain_cell (c # [] # d # cs))) = None"
proof -
  obtain v w vs where ws: "ws = v # w # vs"
    using assms(2) by (cases ws; cases "tl ws") (auto simp: wide_enough_def)
  have wide: "rune_count c + 2 \<le> v" "2 \<le> w" and "wide_enough vs (d # cs)"
    using assms(2) by (simp_all add: ws wide_cons)
  then have "wide_enough ((v + w) # vs) (c # d # cs)" by (simp add: wide_cons)
  then have "split_gaps (Suc (Suc (Suc (length cs)))) (write_cells ((v + w) # vs) (map plain_cell (c # d # cs))) = c # d # cs"
    by (intro split_written) (use assms(1) in simp_all)
  moreover have "write_cells ws (map plain_cell (c # [] # d # cs)) = write_cells ((v + w) # vs) (map plain_cell (c # d # cs))"
    using wide by (simp add: ws plain_cell_def replicate_add [symmetric] nat_add_distrib [symmetric] algebra_simps)
  ultimately show ?thesis by (simp add: parse_line_def)
qed

lemma split_intercalate:
  "ls \<noteq> [] \<Longrightarrow> \<forall>l\<in>set ls. NL \<notin> set l \<Longrightarrow> split_on NL (intercalate [NL] ls) = ls"
  by (induction "[NL]" ls rule: intercalate.induct) (simp_all add: split_on_none split_on_append_sep)

lemma intercalate_snoc: "ls \<noteq> [] \<Longrightarrow> intercalate sep (ls @ [[]]) = intercalate sep ls @ sep"
  by (induction sep ls rule: intercalate.induct) simp_all

lemma intercalate_last:
  "ls \<noteq> [] \<Longrightarrow> List.last ls \<noteq> [] \<Longrightarrow>
   intercalate sep ls \<noteq> [] \<and> List.last (intercalate sep ls) = List.last (List.last ls)"
  by (induction sep ls rule: intercalate.induct) auto

lemma printed_lines:
  assumes "ls \<noteq> []" and "\<forall>l\<in>set ls. NL \<notin> set l" and "List.last ls \<noteq> []"
  shows "split_on NL (trim_newlines (intercalate [NL] (ls @ [[]]))) = ls"
proof -
  have l: "intercalate [NL] ls \<noteq> []" "List.last (intercalate [NL] ls) = List.last (List.last ls)"
    using intercalate_last [OF assms(1,3)] by auto
  moreover have "List.last (List.last ls) \<noteq> NL" using assms by (metis last_in_set)
  ultimately have "dropWhile (\<lambda>c. c = NL) (rev (intercalate [NL] ls)) = rev (intercalate [NL] ls)"
    by (cases "intercalate [NL] ls" rule: rev_cases) auto
  then show ?thesis
    using assms by (simp add: trim_newlines_def intercalate_snoc split_intercalate)
qed

lemma all_some_map: "(\<And>x. x \<in> set xs \<Longrightarrow> f x = Some (g x)) \<Longrightarrow> all_some (map f xs) = Some (map g xs)"
  by (induction xs) auto

lemma all_some_None: "None \<in> set xs \<Longrightarrow> all_some xs = None"
  by (induction xs) (auto split: option.split)

text \<open>
  The lines of a table whose rows end in something, with something visible in each, are the
  header and the written rows.
\<close>

definition legible :: "string list \<Rightarrow> bool" where
  "legible cs \<longleftrightarrow> List.last cs \<noteq> [] \<and> list_ex (list_ex visible) cs"

lemma parse_table:
  assumes "table_of n (hdr # rows)" and "list_all legible (hdr # rows)"
  obtains ws where "\<forall>cs\<in>set rows. wide_enough ws cs"
    and "parseTable n (tabwriter (concat (map tabbed (hdr # rows)))) =
      all_some (map (\<lambda>cs. parse_line n (write_cells ws (map plain_cell cs))) rows)"
proof -
  let ?line = "\<lambda>ws cs. write_cells ws (map plain_cell cs)"
  obtain ws where ws: "\<forall>cs\<in>set (hdr # rows). wide_enough ws cs"
    "tabwriter (concat (map tabbed (hdr # rows))) = intercalate [NL] (map (?line ws) (hdr # rows) @ [[]])"
    using tabwriter_table [OF assms(1)] by blast
  have n: "length cs = n" "2 \<le> n" "list_all ordinary cs" if "cs \<in> set (hdr # rows)" for cs
    using that assms(1) by (auto simp: table_of_def list_all_iff)
  have "NL \<notin> set (?line ws cs)" if "cs \<in> set (hdr # rows)" for cs
  proof -
    have "NL \<notin> set c" if "c \<in> set cs" for c
      using n(3) [OF \<open>cs \<in> set (hdr # rows)\<close>] that by (auto simp: list_all_iff ordinary_def)
    moreover have "NL \<noteq> CHR '' ''" by (simp add: NL_def)
    ultimately show ?thesis using written_set [of ws cs] by blast
  qed
  moreover have "List.last (map (?line ws) (hdr # rows)) \<noteq> []"
  proof -
    let ?cs = "List.last (hdr # rows)"
    have m: "?cs \<in> set (hdr # rows)" by (rule last_in_set) simp
    then have "List.last ?cs \<noteq> []" "?cs \<noteq> []" "length ws < length ?cs"
      using assms(2) n(1,2) [OF m] ws(1) by (auto simp: list_all_iff legible_def wide_enough_def)
    then have "?line ws ?cs \<noteq> []" using written_last [of ?cs ws] by simp
    moreover have "List.last (map (?line ws) (hdr # rows)) = ?line ws ?cs" by (rule last_map) simp
    ultimately show ?thesis by simp
  qed
  ultimately have "split_on NL (trim_newlines (tabwriter (concat (map tabbed (hdr # rows))))) = map (?line ws) (hdr # rows)"
    unfolding ws(2) by (intro printed_lines) auto
  moreover have "trim_space (?line ws cs) \<noteq> []" if "cs \<in> set rows" for cs
  proof -
    from that assms(2) obtain c x where "c \<in> set cs" "x \<in> set c" "visible x"
      by (auto simp: list_all_iff legible_def list_ex_iff)
    then show ?thesis using written_cell trim_space_visible by blast
  qed
  ultimately have "parseTable n (tabwriter (concat (map tabbed (hdr # rows)))) =
      all_some (map (\<lambda>cs. parse_line n (?line ws cs)) rows)"
    by (simp add: parseTable_def comp_def)
  with ws(1) show thesis by (intro that [of ws]) simp_all
qed

lemma parse_solid_table:
  assumes "table_of n (hdr # rows)" and "list_all legible (hdr # rows)" and "list_all (list_all solid) rows"
  shows "parseTable n (tabwriter (concat (map tabbed (hdr # rows)))) = Some rows"
proof -
  obtain ws where ws: "\<forall>cs\<in>set rows. wide_enough ws cs"
    "parseTable n (tabwriter (concat (map tabbed (hdr # rows)))) =
      all_some (map (\<lambda>cs. parse_line n (write_cells ws (map plain_cell cs))) rows)"
    using parse_table [OF assms(1,2)] by blast
  have "parse_line n (write_cells ws (map plain_cell cs)) = Some cs" if "cs \<in> set rows" for cs
  proof -
    have "length cs = n" "cs \<noteq> []" using that assms(1) by (auto simp: table_of_def list_all_iff)
    with parse_written [of cs ws] that ws(1) assms(3) show ?thesis by (auto simp: list_all_iff)
  qed
  then have "all_some (map (\<lambda>cs. parse_line n (write_cells ws (map plain_cell cs))) rows) = Some (map (\<lambda>cs. cs) rows)"
    by (rule all_some_map)
  with ws(2) show ?thesis by simp
qed

subsection \<open>The listings\<close>

lemma no_ws_no_gap: "list_all (\<lambda>c. \<not> is_ws c) s \<Longrightarrow> find_gap s = None"
  by (induction s) auto

lemma visible_solid: "s \<noteq> [] \<Longrightarrow> list_all visible s \<Longrightarrow> solid s"
proof -
  assume s: "s \<noteq> []" "list_all visible s"
  have "ordinary s" using s(2) by (auto simp: ordinary_def list_all_iff visible_def control_bytes)
  moreover have "list_all (\<lambda>c. \<not> is_ws c) s" using s(2) by (auto simp: list_all_iff visible_def is_ws_def)
  moreover have "trim_space s = s" using s by (intro trim_space_id) (auto simp: list_all_iff)
  ultimately show ?thesis using s(1) by (simp add: solid_def no_ws_no_gap)
qed

lemma find_gap_append:
  "find_gap a = None \<Longrightarrow> find_gap b = None \<Longrightarrow> a = [] \<or> b = [] \<or> \<not> is_ws (List.last a) \<or> \<not> is_ws (hd b) \<Longrightarrow>
   find_gap (a @ b) = None"
proof (induction a)
  case (Cons x a)
  then show ?case by (cases a; cases b) (auto split: if_splits)
qed simp

lemma visible_digit: "is_digit c \<Longrightarrow> visible c"
  by (simp add: is_digit_def visible_def)

lemma visible_pad_digits: "list_all visible (pad_digits k n)"
proof (induction k n rule: pad_digits.induct)
  case (2 k n)
  have "is_digit (char_of (48 + nat (n mod 10)))" by (rule digit_char) simp_all
  with 2 visible_digit show ?case by simp
qed simp

lemma visible_time: "list_all visible (format_rfc3339 t)" "format_rfc3339 t \<noteq> []"
  by (simp_all add: format_rfc3339_def format_year_def Let_def split_beta visible_pad_digits visible_def)

text \<open>Names may hold single blanks; the other texts of a row are words the agent or a device chose.\<close>

definition tidy_name :: "string \<Rightarrow> bool" where
  "tidy_name s \<longleftrightarrow> ordinary s \<and> find_gap s = None"

definition tidy_text :: "string \<Rightarrow> bool" where
  "tidy_text s \<longleftrightarrow> (s = [] \<or> solid s) \<and> s \<noteq> auditEmptyColumn"

definition tidy_row :: "audit_row \<Rightarrow> bool" where
  "tidy_row r \<longleftrightarrow> coalesce (ar_device_id r) \<noteq> [] \<and> list_all visible (coalesce (ar_device_id r)) \<and>
     solid (ar_operation r) \<and> solid (ar_outcome r) \<and> tidy_text (coalesce (ar_target r)) \<and> tidy_text (coalesce (ar_detail r))"

definition tidy_db :: "db \<Rightarrow> bool" where
  "tidy_db d \<longleftrightarrow> list_all tidy_row (db_audit d) \<and> list_all (\<lambda>r. tidy_name (dr_name r)) (db_devices d)"

definition shown :: "device list \<Rightarrow> audit_row \<Rightarrow> AuditRow" where
  "shown devices r = \<lparr>arow_occurred_at = format_rfc3339 (ar_occurred_at r),
     arow_device = auditDeviceColumn devices (coalesce (ar_device_id r)), arow_operation = ar_operation r,
     arow_target = coalesce (ar_target r), arow_outcome = ar_outcome r, arow_detail = coalesce (ar_detail r)\<rparr>"

lemma device_column_solid:
  assumes "i \<noteq> []" and "list_all visible i" and "list_all (\<lambda>d. tidy_name (dev_name d)) devices"
  shows "solid (auditDeviceColumn devices i)"
proof (cases "deviceNameByID devices i = []")
  case True
  with assms(1,2) show ?thesis by (simp add: auditDeviceColumn_def Let_def visible_solid)
next
  case False
  let ?n = "deviceNameByID devices i"
  have "tidy_name []" by (simp add: tidy_name_def ordinary_def)
  then have n: "tidy_name ?n"
    using assms(3) False by (auto simp: deviceNameByID_def find_Some_iff list_all_length split: option.splits)
  have i: "solid i" using assms(1,2) by (rule visible_solid)
  have g1: "find_gap (?n @ '')'') = None"
    by (rule find_gap_append) (use n in \<open>simp_all add: tidy_name_def is_ws_def\<close>)
  have g2: "find_gap (''('' @ ?n @ '')'') = None"
    by (rule find_gap_append) (use g1 in \<open>simp_all add: is_ws_def\<close>)
  have g3: "find_gap ('' '' @ ''('' @ ?n @ '')'') = None"
    by (rule find_gap_append) (use g2 in \<open>simp_all add: is_ws_def\<close>)
  have "find_gap (i @ '' '' @ ''('' @ ?n @ '')'') = None"
    by (rule find_gap_append) (use i solid_ends [OF i] g3 in \<open>simp_all add: solid_def\<close>)
  moreover have "trim_space (i @ '' ('' @ ?n @ '')'') = i @ '' ('' @ ?n @ '')''"
    using assms(1,2) by (intro trim_space_id) (auto simp: visible_def list_all_iff hd_append)
  moreover have "ordinary (i @ '' ('' @ ?n @ '')'')"
    using i n by (auto simp: solid_def tidy_name_def ordinary_def control_bytes)
  ultimately show ?thesis using False by (simp add: auditDeviceColumn_def Let_def solid_def)
qed

lemma orDash_solid: "tidy_text s \<Longrightarrow> solid (orDash s) \<and> undash (orDash s) = s"
  by (auto simp: tidy_text_def orDash_def undash_def auditEmptyColumn_def intro!: visible_solid simp: visible_def)

lemma audit_cells_solid:
  assumes "tidy_row r" and "list_all (\<lambda>d. tidy_name (dev_name d)) devices"
  shows "list_all solid (audit_cells devices r)"
  using assms device_column_solid [OF _ _ assms(2)] orDash_solid visible_solid [OF visible_time(2,1)]
  by (simp add: audit_cells_def tidy_row_def)

lemma audit_cells_legible: "legible (audit_cells devices r)"
proof -
  have "list_ex visible (format_rfc3339 t)" for t
    using visible_time [of t] by (cases "format_rfc3339 t") auto
  then show ?thesis by (simp add: audit_cells_def legible_def orDash_def auditEmptyColumn_def)
qed

lemma audit_header_fine: "length audit_header = 6" "list_all ordinary audit_header" "legible audit_header"
  by (simp_all add: audit_header_def ordinary_def control_bytes legible_def visible_def)

lemma listing_table: "listing devices rows = concat (map tabbed (audit_header # map (audit_cells devices) rows))"
  by (simp add: listing_def comp_def)

lemma listing_table_of:
  "list_all (\<lambda>r. list_all ordinary (audit_cells devices r)) rows \<Longrightarrow>
   table_of 6 (audit_header # map (audit_cells devices) rows)"
  using audit_header_fine by (auto simp: table_of_def list_all_iff audit_cells_def)

lemma solid_ordinary: "list_all solid cs \<Longrightarrow> list_all ordinary cs"
  by (auto simp: list_all_iff solid_def)

lemma parse_listing:
  assumes "list_all tidy_row rows" and "list_all (\<lambda>d. tidy_name (dev_name d)) devices"
  shows "parseAuditRows (tabwriter (listing devices rows)) = Some (map (shown devices) rows)"
proof -
  have solid: "list_all (list_all solid) (map (audit_cells devices) rows)"
    using audit_cells_solid [OF _ assms(2)] assms(1) by (auto simp: list_all_iff)
  have "parseTable 6 (tabwriter (listing devices rows)) = Some (map (audit_cells devices) rows)"
    unfolding listing_table
  proof (rule parse_solid_table [OF listing_table_of _ solid])
    show "list_all (\<lambda>r. list_all ordinary (audit_cells devices r)) rows"
      using solid solid_ordinary by (auto simp: list_all_iff)
    show "list_all legible (audit_header # map (audit_cells devices) rows)"
      using audit_header_fine(3) audit_cells_legible by (auto simp: list_all_iff)
  qed
  with assms(1) show ?thesis
    by (auto simp: parseAuditRows_def audit_cells_def shown_def list_all_iff tidy_row_def orDash_solid eval_nat_numeral)
qed

lemma tidy_devices:
  "tidy_db d \<Longrightarrow> ListDevices e d = Inr devices \<Longrightarrow> list_all (\<lambda>d. tidy_name (dev_name d)) devices"
  by (auto simp: ListDevices_def tidy_db_def list_all_iff scanDevice_def split: if_splits)

text \<open>
  C31: a listing of an honest trail shows the trail.  As long as the texts in the database are
  words, with single blanks at most, the program that reads the output of \<open>audit list\<close>, aligned
  in columns as it is, gets exactly the newest rows up to the limit, newest first, each in its six
  columns, an empty target or detail included; and listing changes nothing.
\<close>

theorem audit_list_faithful:
  assumes "runAuditList env num w = (Finished, w')" and "tidy_db (cw_db w)"
  shows "\<exists>str devices. cw_out w' = cw_out w @ [Text str] \<and> cw_db w' = cw_db w \<and>
    ListDevices (ce_store env 1) (cw_db w) = Inr devices \<and>
    parseAuditRows str = Some (map (shown devices) (newest num (db_audit (cw_db w))))"
proof -
  obtain entries devices where e: "ListAudit (ce_store env 0) num (cw_db w) = Inr entries"
    "ListDevices (ce_store env 1) (cw_db w) = Inr devices" "w' = print (Text (tabwriter (listing devices entries))) w"
    using assms(1) by (auto simp: runAuditList_def split: sum.splits)
  have n: "entries = newest num (db_audit (cw_db w))" using e(1) by (auto simp: ListAudit_def split: if_splits)
  have "list_all tidy_row entries"
    using assms(2) set_newest [of num "db_audit (cw_db w)"] by (auto simp: n tidy_db_def list_all_iff)
  then have "parseAuditRows (tabwriter (listing devices entries)) = Some (map (shown devices) entries)"
    using tidy_devices [OF assms(2) e(2)] by (rule parse_listing)
  with e n show ?thesis by (auto simp: print_def)
qed

definition read_demo_world :: cli_world where
  "read_demo_world = demo_cli_world (empty_db\<lparr>db_audit := [demo_row 1 ''web'', demo_row 2 ''db'']\<rparr>)"

lemma audit_list_faithful_witness:
  "\<exists>str w'. runAuditList demo_cli_env 1 read_demo_world = (Finished, w') \<and> cw_out w' = [Text str] \<and>
   parseAuditRows str = Some [\<lparr>arow_occurred_at = ''1970-01-01T00:00:00Z'', arow_device = ''d1'', arow_operation = ''stop'',
     arow_target = ''db'', arow_outcome = ''success'', arow_detail = []\<rparr>]"
proof -
  let ?r = "runAuditList demo_cli_env 1 read_demo_world"
  let ?d = "cw_db read_demo_world"
  have "fst ?r = Finished"
    by (simp add: runAuditList_def demo_cli_env_def read_demo_world_def demo_cli_world_def ListAudit_def ListDevices_def demo_senv_def)
  then obtain w' where r: "?r = (Finished, w')" by (cases ?r) simp
  have "solid ''stop'' \<and> solid ''success'' \<and> solid ''web'' \<and> solid ''db''" by (auto intro!: visible_solid simp: visible_def)
  then have "tidy_db ?d"
    by (simp add: tidy_db_def tidy_row_def read_demo_world_def demo_cli_world_def demo_row_def empty_db_def coalesce_def
        tidy_text_def auditEmptyColumn_def visible_def)
  from audit_list_faithful [OF r this] obtain str devices where t: "cw_out w' = [Text str]"
    "ListDevices (ce_store demo_cli_env 1) ?d = Inr devices" "parseAuditRows str = Some (map (shown devices) (newest 1 (db_audit ?d)))"
    by (auto simp: read_demo_world_def demo_cli_world_def)
  have "devices = []"
    using t(2) by (simp add: demo_cli_env_def ListDevices_def demo_senv_def empty_db_def read_demo_world_def demo_cli_world_def)
  moreover have "format_rfc3339 0 = ''1970-01-01T00:00:00Z''" by code_simp
  moreover have "newest 1 (db_audit ?d) = [demo_row 2 ''db'']"
  proof -
    have "newest 1 [demo_row 1 ''web'', demo_row 2 ''db''] = [demo_row 2 ''db'']" by code_simp
    then show ?thesis by (simp add: read_demo_world_def demo_cli_world_def)
  qed
  ultimately show ?thesis
    using r t by (simp add: shown_def demo_row_def auditDeviceColumn_def deviceNameByID_def coalesce_def Let_def)
qed

text \<open>The other table, and a row without a device.\<close>

definition device_row_of :: "device \<Rightarrow> DeviceRow" where
  "device_row_of d = \<lparr>drow_id = dev_id d, drow_name = dev_name d, drow_paired_at = format_time (dev_paired_at d),
     drow_last_seen_at = formatLastSeen (dev_last_seen_at d), drow_state = deviceStateOf d\<rparr>"

lemma device_list_read:
  assumes "runDeviceList env w = (Finished, w')" and "ListDevices (ce_store env 0) (cw_db w) = Inr devices"
    and "list_all (\<lambda>d. dev_id d \<noteq> [] \<and> list_all visible (dev_id d) \<and> solid (dev_name d)) devices"
  shows "\<exists>str. cw_out w' = cw_out w @ [Text str] \<and> parseDeviceRows str = Some (map device_row_of devices)"
proof -
  let ?t = "device_header # map device_cells devices"
  have w: "cw_out w' = cw_out w @ [Text (tabwriter (concat (map tabbed ?t)))]"
    using assms(1,2) by (auto simp: runDeviceList_def print_def)
  have state: "solid (deviceStateOf d)" "deviceStateOf d \<noteq> []" for d
    by (auto simp: deviceStateOf_def deviceStateActive_def deviceStateRevoked_def visible_def intro!: visible_solid)
  have seen: "solid (formatLastSeen t)" for t
    by (auto simp: formatLastSeen_def lastSeenNever_def format_time_def visible_time visible_def intro!: visible_solid split: option.split)
  have cells: "list_all (list_all solid) (map device_cells devices)"
    using assms(3) state seen by (auto simp: device_cells_def list_all_iff format_time_def visible_solid [OF visible_time(2,1)] intro: visible_solid)
  have "list_ex visible (format_time t)" for t
    using visible_time [of "t div 1000000000"] by (cases "format_time t") (auto simp: format_time_def)
  then have "list_all legible ?t"
    using state by (auto simp: list_all_iff legible_def device_cells_def device_header_def visible_def)
  moreover have "table_of 5 ?t"
  proof -
    have "list_all (list_all ordinary) (map device_cells devices)"
      using cells solid_ordinary by (auto simp: list_all_iff)
    moreover have "list_all ordinary device_header" by (simp add: device_header_def ordinary_def control_bytes)
    moreover have "\<forall>cs\<in>set ?t. length cs = 5" by (auto simp: device_cells_def device_header_def)
    ultimately show ?thesis by (simp add: table_of_def list_all_iff)
  qed
  ultimately have "parseTable 5 (tabwriter (concat (map tabbed ?t))) = Some (map device_cells devices)"
    by (intro parse_solid_table cells)
  then show ?thesis
    using w by (auto simp: parseDeviceRows_def device_cells_def device_row_of_def eval_nat_numeral)
qed

lemma parse_deviceless:
  assumes "r \<in> set rows" and "list_all (\<lambda>r. list_all ordinary (audit_cells devices r)) rows"
    and "auditDeviceColumn devices (coalesce (ar_device_id r)) = []"
    and "solid (ar_operation r)" and "solid (ar_outcome r)" and "tidy_text (coalesce (ar_target r))" and "tidy_text (coalesce (ar_detail r))"
  shows "parseAuditRows (tabwriter (listing devices rows)) = None"
proof -
  have "list_all legible (audit_header # map (audit_cells devices) rows)"
    using audit_header_fine(3) audit_cells_legible by (auto simp: list_all_iff)
  then obtain ws where ws: "\<forall>cs\<in>set (map (audit_cells devices) rows). wide_enough ws cs"
    "parseTable 6 (tabwriter (listing devices rows)) =
      all_some (map (\<lambda>cs. parse_line 6 (write_cells ws (map plain_cell cs))) (map (audit_cells devices) rows))"
    using parse_table [OF listing_table_of [OF assms(2)]] unfolding listing_table by blast
  let ?tail = "[orDash (coalesce (ar_target r)), ar_outcome r, orDash (coalesce (ar_detail r))]"
  have cells: "audit_cells devices r = format_rfc3339 (ar_occurred_at r) # [] # ar_operation r # ?tail"
    by (simp add: audit_cells_def assms(3))
  have "parse_line (Suc (Suc (Suc (length ?tail)))) (write_cells ws (map plain_cell (audit_cells devices r))) = None"
    unfolding cells
  proof (rule parse_hole)
    show "list_all solid (format_rfc3339 (ar_occurred_at r) # ar_operation r # ?tail)"
      using assms(4-7) orDash_solid visible_solid [OF visible_time(2,1)] by simp
    show "wide_enough ws (format_rfc3339 (ar_occurred_at r) # [] # ar_operation r # ?tail)"
      using ws(1) assms(1) cells by force
  qed
  then have "parse_line 6 (write_cells ws (map plain_cell (audit_cells devices r))) = None" by (simp add: eval_nat_numeral)
  with assms(1) have "None \<in> set (map (\<lambda>cs. parse_line 6 (write_cells ws (map plain_cell cs))) (map (audit_cells devices) rows))"
    by force
  with ws(2) show ?thesis by (simp add: parseAuditRows_def all_some_None)
qed

subsection \<open>A refused pairing\<close>

lemma pair_route:
  "rq_method rq = ''POST'' \<Longrightarrow> rq_path rq = [''v1'', ''pair''] \<Longrightarrow>
   find_route (routes sv sh) rq = Some (\<lparr>rt_method = ''POST'', rt_path = [Lit ''v1'', Lit ''pair''], rt_handler = open_pair sv\<rparr>, [])"
  by (simp add: routes_def open_pair_def route_mutate_def route_read_def route_logs_def match_method_def)

definition refused_entry :: "string \<Rightarrow> string \<Rightarrow> audit_inflight" where
  "refused_entry outcome detail = (seed_entry opPair [])\<lparr>ai_outcome := outcome, ai_detail := detail\<rparr>"

lemma handlePair_refused:
  assumes "handlePair sv rq env cx w = (resp, cx', w')" and "rs_code resp \<noteq> 201" and "cx_audit cx = Some (seed_entry opPair [])"
  shows "\<exists>outcome detail. cx_audit cx' = Some (refused_entry outcome detail) \<and> solid outcome \<and> tidy_text detail"
proof -
  have words: "solid OutcomeInvalid" "solid OutcomeInternalError" "solid OutcomeSuccess"
    by (auto simp: OutcomeInvalid_def OutcomeInternalError_def OutcomeSuccess_def visible_def intro!: visible_solid)
  have texts: "tidy_text []" "tidy_text ''malformed csr''" "tidy_text ''invalid or expired pairing code''"
    by (simp_all add: tidy_text_def solid_def auditEmptyColumn_def ordinary_def control_bytes is_ws_def trim_space_id visible_def)
  have seed: "seed_entry opPair [] = refused_entry OutcomeSuccess []"
    by (simp add: refused_entry_def seed_entry_def)
  have set: "cx_audit (setAuditOutcome a b cx) = Some (refused_entry a b)" for a b
    using assms(3) by (simp add: setAuditOutcome_def refused_entry_def)
  from assms(1,2) show ?thesis
    using assms(3) seed set words texts
    by (auto simp: handlePair_def writeJSON_def split: option.splits sum.splits prod.splits pair_error.splits; blast)
qed

text \<open>
  C30: a stranger can break the operator's listing.  A pairing request that passes the rate limits
  and is refused, for a bad code, a bad body or any other reason, ends with an audit row that
  names no device; \<open>audit list\<close> leaves that cell empty although every row is meant to have six
  columns, and whatever listing contains the row, the program that reads such listings rejects
  it as a whole.
\<close>

theorem refused_pairing_breaks_listing:
  assumes "serve sv sh rq env w = (resp, w')" and "rq_method rq = ''POST''" and "rq_path rq = [''v1'', ''pair'']"
    and "pair_admitted sv rq env w" and "rs_code resp \<notin> {201, 429}"
  shows "\<exists>row. List.last (w_ops w') = StAppend row \<and>
    (\<forall>e d d'. AppendAudit e row d = (Inr (), d') \<longrightarrow>
      (\<exists>r. db_audit d' = db_audit d @ [r] \<and>
        (\<forall>devices rows. r \<in> set rows \<and> (\<forall>dv\<in>set devices. dev_id dv \<noteq> []) \<and>
           (\<forall>x\<in>set rows. x \<noteq> r \<longrightarrow> list_all ordinary (audit_cells devices x)) \<longrightarrow>
           parseAuditRows (tabwriter (listing devices rows)) = None)))"
proof -
  have start: "cx_device (start_ctx []) = None" by (simp add: start_ctx_def)
  obtain cx' where "open_pair sv rq env (start_ctx []) w = (resp, cx', w')"
    using assms(1) pair_route [OF assms(2,3), of sv sh] by (auto simp: serve_def start_ctx_def Let_def split: prod.splits)
  then show ?thesis
    unfolding open_pair_def
  proof (cases rule: open_limits)
    case throttled
    with assms(5) show ?thesis by (auto simp: tooManyRequests_def Let_def writeError_def writeJSON_def)
  next
    case (admitted v)
    from admitted(1) show ?thesis unfolding withPairAudit_def
    proof (cases rule: audited_cases)
      case (1 cx1 v1 e)
      obtain outcome detail where "cx_audit cx1 = Some (refused_entry outcome detail)" and o: "solid outcome" "tidy_text detail"
        using handlePair_refused [OF 1(1)] assms(5) by auto
      with 1(2) have e: "e = refused_entry outcome detail" by auto
      let ?row = "audit_row_of (start_ctx []) e"
      have row: "ae_device_id ?row = []" "ae_operation ?row = ''pair''" "ae_target ?row = []" "ae_outcome ?row = outcome"
        "ae_detail ?row = detail"
        by (simp_all add: audit_row_of_def start e refused_entry_def seed_entry_def opPair_def)
      have "\<exists>r. db_audit d' = db_audit d @ [r] \<and>
          (\<forall>devices rows. r \<in> set rows \<and> (\<forall>dv\<in>set devices. dev_id dv \<noteq> []) \<and>
             (\<forall>x\<in>set rows. x \<noteq> r \<longrightarrow> list_all ordinary (audit_cells devices x)) \<longrightarrow>
             parseAuditRows (tabwriter (listing devices rows)) = None)"
        if a: "AppendAudit se ?row d = (Inr (), d')" for se d d'
      proof -
        obtain r where r: "db_audit d' = db_audit d @ [r]" "ar_device_id r = Some []" "ar_operation r = ''pair''"
          "ar_target r = Some []" "ar_outcome r = outcome" "ar_detail r = Some detail"
          using a row by (auto simp: AppendAudit_def Let_def split: if_splits)
        have "parseAuditRows (tabwriter (listing devices rows)) = None"
          if m: "r \<in> set rows" and d: "\<forall>dv\<in>set devices. dev_id dv \<noteq> []"
            and t: "\<forall>x\<in>set rows. x \<noteq> r \<longrightarrow> list_all ordinary (audit_cells devices x)" for devices rows
        proof -
          have "List.find (\<lambda>dv. dev_id dv = []) devices = None" using d by (auto simp: find_None_iff)
          then have c: "auditDeviceColumn devices (coalesce (ar_device_id r)) = []"
            by (simp add: auditDeviceColumn_def deviceNameByID_def r coalesce_def)
          have "solid (ar_operation r)" by (auto simp: r visible_def intro!: visible_solid)
          moreover have "tidy_text (coalesce (ar_target r))" by (simp add: r coalesce_def tidy_text_def auditEmptyColumn_def)
          ultimately have texts: "solid (ar_operation r)" "solid (ar_outcome r)" "tidy_text (coalesce (ar_target r))"
            "tidy_text (coalesce (ar_detail r))"
            by (simp_all add: r o coalesce_def)
          have "ordinary []" by (simp add: ordinary_def)
          then have "list_all ordinary (audit_cells devices r)"
            using texts orDash_solid visible_solid [OF visible_time(2,1)]
            by (simp add: audit_cells_def c solid_def)
          with t have "list_all (\<lambda>r. list_all ordinary (audit_cells devices r)) rows" by (auto simp: list_all_iff)
          with m show ?thesis using c texts by (intro parse_deviceless)
        qed
        with r(1) show ?thesis by blast
      qed
      moreover have "List.last (w_ops w') = StAppend ?row" using 1(3) by simp
      ultimately show ?thesis by blast
    qed
  qed
qed

definition strict_sv :: "(nat, bool) server" where
  "strict_sv = (demo_sv ModeDefault)\<lparr>sv_json := (\<lambda>b. JsonBad)\<rparr>"

lemma refused_pairing_breaks_listing_witness:
  "\<exists>resp w' row d'. serve strict_sv quiet_streams (demo_request ''POST'' [''v1'', ''pair''] None) (demo_rq_env 20)
      (demo_world empty_db) = (resp, w') \<and> resp = writeError 400 ''malformed request body'' \<and>
    List.last (w_ops w') = StAppend row \<and> AppendAudit (demo_senv 30) row empty_db = (Inr (), d') \<and>
    parseAuditRows (tabwriter (listing [] (db_audit d'))) = None"
proof -
  let ?rq = "demo_request ''POST'' [''v1'', ''pair''] None" and ?w = "demo_world empty_db"
  have rq: "rq_method ?rq = ''POST''" "rq_path ?rq = [''v1'', ''pair'']" by (simp_all add: demo_request_def)
  obtain resp w' where s: "serve strict_sv quiet_streams ?rq (demo_rq_env 20) ?w = (resp, w')" by fastforce
  have adm: "pair_admitted strict_sv ?rq (demo_rq_env 20) ?w"
    by (simp add: pair_admitted_def strict_sv_def demo_sv_def demo_world_def Allow_def NewRegistry_def)
  obtain cx' where "open_pair strict_sv ?rq (demo_rq_env 20) (start_ctx []) ?w = (resp, cx', w')"
    using s pair_route [OF rq, of strict_sv quiet_streams] by (auto simp: serve_def start_ctx_def Let_def split: prod.splits)
  then have resp: "resp = writeError 400 ''malformed request body''"
    unfolding open_pair_def
  proof (cases rule: open_limits)
    case throttled
    with adm show ?thesis by simp
  next
    case (admitted v)
    from admitted(1) show ?thesis unfolding withPairAudit_def
    proof (cases rule: audited_cases)
      case (1 cx1 v1 e)
      have "sv_ca strict_sv \<noteq> None" "sv_json strict_sv = (\<lambda>b. JsonBad)" by (simp_all add: strict_sv_def demo_sv_def)
      with 1(1) show ?thesis
        by (auto simp: handlePair_def decodePairRequest_def decode_body_def decode_error_def)
    qed
  qed
  then have "rs_code resp \<notin> {201, 429}" by (simp add: writeError_def writeJSON_def)
  from refused_pairing_breaks_listing [OF s rq adm this] obtain row where row: "List.last (w_ops w') = StAppend row"
    "\<forall>e d d'. AppendAudit e row d = (Inr (), d') \<longrightarrow> (\<exists>r. db_audit d' = db_audit d @ [r] \<and>
        (\<forall>devices rows. r \<in> set rows \<and> (\<forall>dv\<in>set devices. dev_id dv \<noteq> []) \<and>
           (\<forall>x\<in>set rows. x \<noteq> r \<longrightarrow> list_all ordinary (audit_cells devices x)) \<longrightarrow>
           parseAuditRows (tabwriter (listing devices rows)) = None))"
    by blast
  obtain d' where d': "AppendAudit (demo_senv 30) row empty_db = (Inr (), d')"
    by (simp add: AppendAudit_def demo_senv_def)
  obtain r where r: "db_audit d' = db_audit empty_db @ [r]"
    "\<forall>devices rows. r \<in> set rows \<and> (\<forall>dv\<in>set devices. dev_id dv \<noteq> []) \<and>
       (\<forall>x\<in>set rows. x \<noteq> r \<longrightarrow> list_all ordinary (audit_cells devices x)) \<longrightarrow>
       parseAuditRows (tabwriter (listing devices rows)) = None"
    using row(2) d' by blast
  have "parseAuditRows (tabwriter (listing [] [r])) = None"
    using spec [OF spec [OF r(2), of "[]"], of "[r]"] by simp
  moreover have "db_audit d' = [r]" using r(1) by (simp add: empty_db_def)
  ultimately have "parseAuditRows (tabwriter (listing [] (db_audit d'))) = None" by simp
  with s resp row(1) d' show ?thesis by auto
qed

end
