(* ===== verification/Shutdown.thy ===== *)
theory Shutdown
  imports Streams EventHub
begin

section \<open>The life of the server (server.go, main.go runAll, tlsconf)\<close>

text \<open>
  Connections that have not sent a request, the shutdown that must not wait for them, and the
  components that stop together.  net/http accepts connections and calls the ConnState hook at
  every change of state, one call at a time for one connection; the hook's and the sweep's
  critical sections are atomic steps, closing a connection is a step of its own, and everything
  interleaves.
\<close>

subsection \<open>Limits and the TLS configuration\<close>

definition readHeaderTimeout :: int where "readHeaderTimeout = 10 * 1000000000"
definition readTimeout :: int where "readTimeout = 30 * 1000000000"
definition writeTimeout :: int where "writeTimeout = 30 * 1000000000"
definition idleTimeout :: int where "idleTimeout = 120 * 1000000000"
definition maxHeaderBytes :: int where "maxHeaderBytes = 16384"
definition shutdownGrace :: int where "shutdownGrace = 5 * 1000000000"

datatype client_auth = NoClientCert | VerifyClientCertIfGiven

text \<open>The certificate and the pool are values of crypto/tls and crypto/x509.\<close>

record ('cert, 'pool) tls_config =
  tc_certificate :: 'cert
  tc_min_version :: nat
  tc_next_protos :: "string list"
  tc_client_cas :: "'pool option"
  tc_client_auth :: client_auth

definition VersionTLS13 :: nat where "VersionTLS13 = 772"

definition Build :: "'cert \<Rightarrow> 'pool option \<Rightarrow> ('cert, 'pool) tls_config" where
  "Build cert clientCAs =
     \<lparr>tc_certificate = cert, tc_min_version = VersionTLS13, tc_next_protos = [''h2'', ''http/1.1''],
      tc_client_cas = clientCAs,
      tc_client_auth = (if clientCAs = None then NoClientCert else VerifyClientCertIfGiven)\<rparr>"

subsection \<open>The table of request-less connections\<close>

datatype conn_state = StateNew | StateActive | StateIdle | StateHijacked | StateClosed

record 'c conn_table =
  ct_new :: "'c list"
  ct_draining :: bool

text \<open>The critical section of the hook, and whether the connection is to be closed after it.\<close>

definition trackConnState :: "'c \<Rightarrow> conn_state \<Rightarrow> 'c conn_table \<Rightarrow> bool \<times> 'c conn_table" where
  "trackConnState c st t =
     (if st = StateNew then
        (if ct_draining t then (True, t) else (False, t\<lparr>ct_new := List.insert c (ct_new t)\<rparr>))
      else (False, t\<lparr>ct_new := filter (\<lambda>d. d \<noteq> c) (ct_new t)\<rparr>))"

text \<open>The critical section of the sweep: the connections to close, and the table after it.\<close>

definition closeNewConns :: "'c conn_table \<Rightarrow> 'c list \<times> 'c conn_table" where
  "closeNewConns t = (ct_new t, t\<lparr>ct_new := [], ct_draining := True\<rparr>)"

subsection \<open>The server as a machine\<close>

text \<open>
  A connection is unknown, in the hook's hands with its closing decided, fresh - its last hook
  call was for StateNew - or past that.  The shutdown goes through its five steps in order; the
  connections of the sweep are closed in the order of a map iteration, that is, in any.
\<close>

datatype conn_phase = Unknown | Doomed | Fresh | Past

datatype 'c shutdown_pc = Listening | Cancelled | HubStopped | Sweeping "'c list" | Draining

record 'c net_server =
  ns_table :: "'c conn_table"
  ns_phase :: "'c \<Rightarrow> conn_phase"
  ns_closed :: "'c \<Rightarrow> bool"
  ns_lifecycle_done :: bool
  ns_hub_stopped :: bool
  ns_pc :: "'c shutdown_pc"

datatype 'c net_label =
    Accepts 'c | HookCloses 'c | Moves 'c conn_state
  | CancelLifecycle | StopHub | SweepTable | SweepCloses 'c | StartDrain

fun net_step :: "'c net_label \<Rightarrow> 'c net_server \<Rightarrow> 'c net_server option" where
  "net_step (Accepts c) s =
     (if ns_phase s c \<noteq> Unknown then None
      else (case trackConnState c StateNew (ns_table s) of (doomed, t) \<Rightarrow>
        Some (s\<lparr>ns_table := t, ns_phase := (ns_phase s)(c := (if doomed then Doomed else Fresh))\<rparr>)))"
| "net_step (HookCloses c) s =
     (if ns_phase s c \<noteq> Doomed then None
      else Some (s\<lparr>ns_closed := (ns_closed s)(c := True), ns_phase := (ns_phase s)(c := Fresh)\<rparr>))"
| "net_step (Moves c st) s =
     (if ns_phase s c \<notin> {Fresh, Past} \<or> st = StateNew then None
      else Some (s\<lparr>ns_table := snd (trackConnState c st (ns_table s)), ns_phase := (ns_phase s)(c := Past)\<rparr>))"
| "net_step CancelLifecycle s =
     (if ns_pc s \<noteq> Listening then None else Some (s\<lparr>ns_lifecycle_done := True, ns_pc := Cancelled\<rparr>))"
| "net_step StopHub s =
     (if ns_pc s \<noteq> Cancelled then None else Some (s\<lparr>ns_hub_stopped := True, ns_pc := HubStopped\<rparr>))"
| "net_step SweepTable s =
     (if ns_pc s \<noteq> HubStopped then None
      else (case closeNewConns (ns_table s) of (cs, t) \<Rightarrow> Some (s\<lparr>ns_table := t, ns_pc := Sweeping cs\<rparr>)))"
| "net_step (SweepCloses c) s =
     (case ns_pc s of
        Sweeping cs \<Rightarrow> if c \<in> set cs
          then Some (s\<lparr>ns_closed := (ns_closed s)(c := True), ns_pc := Sweeping (remove1 c cs)\<rparr>) else None
      | _ \<Rightarrow> None)"
| "net_step StartDrain s =
     (case ns_pc s of Sweeping [] \<Rightarrow> Some (s\<lparr>ns_pc := Draining\<rparr>) | _ \<Rightarrow> None)"

definition net_start :: "'c net_server" where
  "net_start = \<lparr>ns_table = \<lparr>ct_new = [], ct_draining = False\<rparr>, ns_phase = (\<lambda>c. Unknown), ns_closed = (\<lambda>c. False),
     ns_lifecycle_done = False, ns_hub_stopped = False, ns_pc = Listening\<rparr>"

definition before_sweep :: "'c net_server \<Rightarrow> bool" where
  "before_sweep s \<longleftrightarrow> ns_pc s \<in> {Listening, Cancelled, HubStopped}"

definition to_close :: "'c net_server \<Rightarrow> 'c list" where
  "to_close s = (case ns_pc s of Sweeping cs \<Rightarrow> cs | _ \<Rightarrow> [])"

text \<open>
  Before the sweep the table is the fresh connections and the agent has closed none; from the
  sweep on every fresh connection is closed or about to be.
\<close>

definition net_inv :: "'c net_server \<Rightarrow> bool" where
  "net_inv s \<longleftrightarrow> distinct (ct_new (ns_table s)) \<and>
     (ct_draining (ns_table s) \<longleftrightarrow> \<not> before_sweep s) \<and>
     (if before_sweep s
      then set (ct_new (ns_table s)) = {c. ns_phase s c = Fresh} \<and> (\<forall>c. \<not> ns_closed s c \<and> ns_phase s c \<noteq> Doomed)
      else ct_new (ns_table s) = [] \<and> (\<forall>c. ns_phase s c = Fresh \<longrightarrow> ns_closed s c \<or> c \<in> set (to_close s))) \<and>
     (ns_pc s \<noteq> Listening \<longrightarrow> ns_lifecycle_done s) \<and> (ns_pc s \<notin> {Listening, Cancelled} \<longrightarrow> ns_hub_stopped s)"

lemmas net_defs = net_inv_def before_sweep_def to_close_def trackConnState_def closeNewConns_def

lemma net_inv_start: "net_inv net_start"
  by (simp add: net_defs net_start_def)

lemma net_inv_step: "net_step l s = Some s' \<Longrightarrow> net_inv s \<Longrightarrow> net_inv s'"
proof (induction l s rule: net_step.induct)
  case (1 c s)
  then show ?case by (cases "ns_pc s") (auto simp: net_defs split: if_splits prod.splits)
next
  case (2 c s)
  then show ?case by (cases "ns_pc s") (auto simp: net_defs split: if_splits)
next
  case (3 c st s)
  then show ?case by (cases "ns_pc s") (auto simp: net_defs split: if_splits)
next
  case (7 c s)
  have "x \<in> set (remove1 c cs)" if "x \<in> set cs" "x \<noteq> c" for x cs
    using that by (simp add: in_set_remove1)
  with 7 show ?case by (cases "ns_pc s") (fastforce simp: net_defs split: if_splits)+
next
  case (8 s)
  then show ?case by (cases "ns_pc s") (auto simp: net_defs split: list.splits)
qed (auto simp: net_defs split: if_splits)

lemma net_inv_run: "execution net_step net_start ls s \<Longrightarrow> net_inv s"
  by (erule execution_invariant [where P = net_inv]) (auto intro: net_inv_start net_inv_step)

fun own_step :: "'c net_label \<Rightarrow> bool" where
  "own_step (Accepts c) \<longleftrightarrow> False"
| "own_step (HookCloses c) \<longleftrightarrow> False"
| "own_step (Moves c st) \<longleftrightarrow> False"
| "own_step _ \<longleftrightarrow> True"

lemma shutdown_progress: "ns_pc s \<noteq> Draining \<Longrightarrow> \<exists>l. own_step l \<and> net_step l s \<noteq> None"
proof (cases "ns_pc s")
  case Listening
  then show ?thesis by (intro exI [of _ CancelLifecycle]) simp
next
  case Cancelled
  then show ?thesis by (intro exI [of _ StopHub]) simp
next
  case HubStopped
  then show ?thesis by (intro exI [of _ SweepTable]) (simp split: prod.split)
next
  case (Sweeping cs)
  then show ?thesis
    by (cases cs) (auto intro: exI [of _ StartDrain] exI [of _ "SweepCloses (hd cs)"])
qed auto



subsection \<open>Listening and shutting down\<close>

datatype serve_error = ErrServerClosed | ListenFailed string

datatype run_error = ServeHTTPS string | ShutDownHTTP | ContextCanceled | ComponentFailed string

text \<open>
  The select of Run: the listener returned, or the context is done and the drain, whose own
  failure is the parameter, has been waited for.
\<close>

datatype run_wakeup = ListenerReturned "serve_error option" | ContextDone

definition shutdown_result :: "bool \<Rightarrow> run_error option" where
  "shutdown_result drain_fails = (if drain_fails then Some ShutDownHTTP else None)"

definition Server_Run :: "run_wakeup \<Rightarrow> bool \<Rightarrow> run_error option" where
  "Server_Run e drain_fails =
     (case e of
        ListenerReturned None \<Rightarrow> None
      | ListenerReturned (Some ErrServerClosed) \<Rightarrow> None
      | ListenerReturned (Some (ListenFailed m)) \<Rightarrow> Some (ServeHTTPS m)
      | ContextDone \<Rightarrow> shutdown_result drain_fails)"

subsection \<open>Components that stop together (runAll)\<close>

text \<open>
  Each component is a goroutine that puts its result into the channel, cancels the shared
  context and is done; the caller waits for all of them and reads the channel in order.
\<close>

record crew =
  cr_running :: "nat list"
  cr_cancelled :: bool
  cr_results :: "run_error option list"

datatype crew_label = SignalArrives | Returns nat "run_error option"

fun crew_step :: "(nat \<Rightarrow> run_error option \<Rightarrow> bool) \<Rightarrow> crew_label \<Rightarrow> crew \<Rightarrow> crew option" where
  "crew_step may SignalArrives c = Some (c\<lparr>cr_cancelled := True\<rparr>)"
| "crew_step may (Returns i e) c =
     (if i \<in> set (cr_running c) \<and> (cr_cancelled c \<or> may i e)
      then Some (c\<lparr>cr_running := remove1 i (cr_running c), cr_results := cr_results c @ [e], cr_cancelled := True\<rparr>)
      else None)"

definition runAll_result :: "run_error option list \<Rightarrow> run_error option" where
  "runAll_result results =
     (case List.find (\<lambda>e. e \<noteq> None \<and> e \<noteq> Some ContextCanceled) results of None \<Rightarrow> None | Some e \<Rightarrow> e)"

definition crew_start :: "nat \<Rightarrow> crew" where
  "crew_start n = \<lparr>cr_running = [0..<n], cr_cancelled = False, cr_results = []\<rparr>"

definition crew_inv :: "nat \<Rightarrow> crew \<Rightarrow> bool" where
  "crew_inv n c \<longleftrightarrow> distinct (cr_running c) \<and> length (cr_running c) + length (cr_results c) = n \<and>
     (cr_results c \<noteq> [] \<longrightarrow> cr_cancelled c)"

lemma crew_inv_run: "execution (crew_step may) (crew_start n) ls c \<Longrightarrow> crew_inv n c"
proof (erule execution_invariant [where P = "crew_inv n"])
  show "crew_inv n (crew_start n)" by (simp add: crew_inv_def crew_start_def)
  show "crew_inv n t'" if "crew_step may l t = Some t'" "crew_inv n t" for l t t'
  proof (cases l)
    case (Returns i e)
    have "i \<in> set xs \<Longrightarrow> Suc (length (remove1 i xs)) = length xs" for xs :: "nat list"
      by (induction xs) auto
    with that Returns show ?thesis by (auto simp: crew_inv_def split: if_splits)
  qed (use that in \<open>auto simp: crew_inv_def\<close>)
qed

text \<open>
  Once one component has returned, for whatever reason, or a signal has arrived, every other
  one can return (it is cancelled); when all have, the answer is the first real failure in the
  order of return, and nothing if all that came was nil and the cancellation.
\<close>

lemma crew_unwinds:
  assumes "execution (crew_step may) (crew_start n) ls c"
  shows "(cr_results c \<noteq> [] \<longrightarrow> (\<forall>i\<in>set (cr_running c). \<forall>e. crew_step may (Returns i e) c \<noteq> None)) \<and>
    (cr_running c = [] \<longrightarrow> length (cr_results c) = n)"
  using crew_inv_run [OF assms] by (auto simp: crew_inv_def)

lemma runAll_result_iff:
  "runAll_result rs = None \<longleftrightarrow> set rs \<subseteq> {None, Some ContextCanceled}"
  "runAll_result rs = Some e \<Longrightarrow> e \<noteq> ContextCanceled \<and> Some e \<in> set rs"
  by (induction rs) (auto simp: runAll_result_def split: if_splits)

end
