(* ===== verification/Calendar.thy ===== *)
theory Calendar
  imports GoTime
begin

section \<open>Dates of package time\<close>

text \<open>
  The value of a parsed timestamp and the millisecond format of package slog, on top of the
  recogniser and the calendar of GoTime; the calendar is proved correct, so that what is written
  reads back.
\<close>

definition year_start :: "int \<Rightarrow> int" where
  "year_start k = 365 * k + k div 4 - k div 100 + k div 400"

definition days_of_civil :: "int \<Rightarrow> int \<Rightarrow> int \<Rightarrow> int" where
  "days_of_civil y m d =
     (let y' = (if m \<le> 2 then y - 1 else y); mp = (if m \<le> 2 then m + 9 else m - 3)
      in year_start y' + (153 * mp + 2) div 5 + (d - 1) - 719468)"

subsection \<open>The calendar is a bijection\<close>

definition year_of_era :: "int \<Rightarrow> int" where
  "year_of_era doe = (doe - doe div 1460 + doe div 36524 - doe div 146096) div 365"

lemma div_diff_mono: "0 < k \<Longrightarrow> a \<le> b \<Longrightarrow> a - a div k \<le> b - b div (k::int)"
proof -
  assume k: "0 < k" "a \<le> b"
  have "(b - a) * 1 \<le> (b - a) * k" using k by (intro mult_left_mono) auto
  then have "b div k \<le> (a + (b - a) * k) div k"
    using k by (intro zdiv_mono1) auto
  also have "\<dots> = a div k + (b - a)" using k by simp
  finally show ?thesis by simp
qed

lemma year_of_era_mono: "a \<le> b \<Longrightarrow> year_of_era a \<le> year_of_era b"
proof -
  assume ab: "a \<le> b"
  have q: "x div 146096 = x div 36524 div 4" for x :: int
    using zdiv_zmult2_eq [of 4 x 36524] by simp
  have "a div 36524 - a div 36524 div 4 \<le> b div 36524 - b div 36524 div 4"
    using div_diff_mono [of 4 "a div 36524" "b div 36524"] zdiv_mono1 [OF ab, of 36524] by simp
  moreover have "a - a div 1460 \<le> b - b div 1460" using div_diff_mono [of 1460, OF _ ab] by simp
  ultimately show ?thesis unfolding year_of_era_def q by (intro zdiv_mono1) auto
qed

text \<open>The first and the last day of each year of a 400-year era, and its length.\<close>

definition year_ok :: "int \<Rightarrow> bool" where
  "year_ok k \<longleftrightarrow> year_of_era (year_start k) = k \<and> year_of_era (year_start (k + 1) - 1) = k \<and>
     year_start (k + 1) - year_start k = (if leap_year (k + 1) then 366 else 365)"

lemma list_all_upto: "list_all P [a..b] \<Longrightarrow> a \<le> x \<Longrightarrow> x \<le> b \<Longrightarrow> P x"
  by (simp add: list_all_iff)

lemma years_ok: "list_all year_ok [0..99]" "list_all year_ok [100..199]"
    "list_all year_ok [200..299]" "list_all year_ok [300..399]"
  by code_simp+

lemma year_ok: "0 \<le> k \<Longrightarrow> k < 400 \<Longrightarrow> year_ok k"
proof -
  assume k: "0 \<le> k" "k < 400"
  consider "k \<le> 99" | "100 \<le> k" "k \<le> 199" | "200 \<le> k" "k \<le> 299" | "300 \<le> k" by linarith
  then show ?thesis
  proof cases
    case 1
    show ?thesis by (rule list_all_upto [OF years_ok(1) k(1) 1])
  next
    case 2
    show ?thesis by (rule list_all_upto [OF years_ok(2) 2])
  next
    case 3
    show ?thesis by (rule list_all_upto [OF years_ok(3) 3])
  next
    case 4
    show ?thesis by (rule list_all_upto [OF years_ok(4) 4]) (use k in linarith)
  qed
qed

lemma year_exists:
  "0 \<le> doe \<Longrightarrow> doe < year_start (int n) \<Longrightarrow> \<exists>k. 0 \<le> k \<and> k < int n \<and> year_start k \<le> doe \<and> doe < year_start (k + 1)"
proof (induction n)
  case (Suc n)
  show ?case
  proof (cases "doe < year_start (int n)")
    case True
    with Suc obtain k where "0 \<le> k \<and> k < int n \<and> year_start k \<le> doe \<and> doe < year_start (k + 1)" by blast
    then show ?thesis by (intro exI [of _ k]) auto
  next
    case False
    with Suc.prems show ?thesis by (intro exI [of _ "int n"]) (auto simp: add.commute)
  qed
qed (simp add: year_start_def)

lemma year_of_era:
  assumes "0 \<le> doe" and "doe < 146097"
  obtains k where "year_of_era doe = k" "0 \<le> k" "k < 400" "0 \<le> doe - year_start k"
    "doe - year_start k \<le> (if leap_year (k + 1) then 365 else 364)"
proof -
  have "year_start 400 = 146097" by code_simp
  with assms year_exists [of doe 400] obtain k where k: "0 \<le> k" "k < 400" "year_start k \<le> doe" "doe < year_start (k + 1)"
    by auto
  note ok = year_ok [OF k(1,2), unfolded year_ok_def]
  have "year_of_era doe = k"
    using year_of_era_mono [OF k(3)] year_of_era_mono [of doe "year_start (k + 1) - 1"] k(4) ok by simp
  with k ok show thesis by (intro that [of k]) (auto split: if_splits)
qed

text \<open>The days of a year that starts in March.\<close>

definition march_ok :: "int \<Rightarrow> bool" where
  "march_ok doy \<longleftrightarrow>
     (let mp = (5 * doy + 2) div 153; d = doy - (153 * mp + 2) div 5 + 1; m = (if mp < 10 then mp + 3 else mp - 9)
      in 0 \<le> mp \<and> mp \<le> 11 \<and> 1 \<le> d \<and> d \<le> days_in m (if doy = 365 then 4 else 1) \<and> (m = 2 \<longleftrightarrow> mp = 11) \<and>
         (mp < 10 \<longleftrightarrow> 2 < m) \<and> (doy \<le> 305 \<longleftrightarrow> 2 < m))"

lemma march_days: "list_all march_ok [0..182]" "list_all march_ok [183..365]"
  by code_simp+

lemma march_ok: "0 \<le> doy \<Longrightarrow> doy \<le> 365 \<Longrightarrow> march_ok doy"
  by (cases "doy \<le> 182") (auto intro: list_all_upto [OF march_days(1)] list_all_upto [OF march_days(2)])

lemma leap_year_era: "leap_year (y + 400 * e) = leap_year y"
proof -
  have "(y + 400 * e) mod k = y mod k" if "k \<in> {4, 100, 400}" for k
  proof -
    have "400 * e mod k = 0" using that by auto
    then show ?thesis by (metis add.right_neutral mod_add_right_eq)
  qed
  then show ?thesis by (simp add: leap_year_def)
qed

lemma days_in_leap: "m \<noteq> 2 \<or> leap_year y = leap_year y' \<Longrightarrow> days_in m y = days_in m y'"
  by (auto simp: days_in_def)

lemma civil_ok:
  assumes "civil_of_days n = (y, m, d)"
  shows "days_of_civil y m d = n" "1 \<le> m" "m \<le> 12" "1 \<le> d" "d \<le> days_in m y"
proof -
  define era where "era = (n + 719468) div 146097"
  define doe where "doe = (n + 719468) mod 146097"
  have n: "n + 719468 = 146097 * era + doe" by (simp add: era_def doe_def)
  have "0 \<le> doe" "doe < 146097" by (simp_all add: doe_def)
  then obtain k where k: "year_of_era doe = k" "0 \<le> k" "k < 400" "0 \<le> doe - year_start k"
    "doe - year_start k \<le> (if leap_year (k + 1) then 365 else 364)"
    by (rule year_of_era)
  have start: "365 * k + k div 4 - k div 100 = year_start k" using k(2,3) by (simp add: year_start_def)
  define doy where "doy = doe - year_start k"
  define mp where "mp = (5 * doy + 2) div 153"
  have civil: "civil_of_days n = (k + era * 400 + (if (if mp < 10 then mp + 3 else mp - 9) \<le> 2 then 1 else 0),
      if mp < 10 then mp + 3 else mp - 9, doy - (153 * mp + 2) div 5 + 1)"
    by (simp only: civil_of_days_def Let_def era_def [symmetric] doe_def [symmetric] k(1) [unfolded year_of_era_def]
        start doy_def [symmetric] mp_def [symmetric])
  have bounds: "0 \<le> doy" "doy \<le> 365" using k(4,5) by (auto simp: doy_def split: if_splits)
  note ok = march_ok [OF this, unfolded march_ok_def Let_def, folded mp_def]
  have ydm: "m = (if mp < 10 then mp + 3 else mp - 9)" "d = doy - (153 * mp + 2) div 5 + 1"
    "y = k + era * 400 + (if m \<le> 2 then 1 else 0)"
    using civil assms by simp_all
  show "1 \<le> m" "m \<le> 12" "1 \<le> d" using ok by (auto simp: ydm)
  have shift: "year_start (k + era * 400) = year_start k + 146097 * era"
  proof -
    have "(k + era * 400) div 4 = k div 4 + era * 100" "(k + era * 400) div 100 = k div 100 + era * 4"
      "(k + era * 400) div 400 = k div 400 + era"
      using div_mult_self1 [of 4 k "era * 100"] div_mult_self1 [of 100 k "era * 4"] by simp_all
    then show ?thesis by (simp add: year_start_def)
  qed
  show "days_of_civil y m d = n"
    using ok n by (auto simp: days_of_civil_def ydm shift doy_def Let_def)
  show "d \<le> days_in m y"
  proof -
    have "days_in m (if doy = 365 then 4 else 1) \<le> days_in m y"
    proof (cases "m = 2")
      case True
      then have "y = (k + 1) + 400 * era" by (simp add: ydm(3))
      then have "leap_year y = leap_year (k + 1)" using leap_year_era by metis
      moreover have "doy = 365 \<Longrightarrow> leap_year (k + 1)" using k(5) by (simp add: doy_def split: if_splits)
      ultimately show ?thesis by (auto simp: days_in_def leap_year_def)
    next
      case False
      then show ?thesis by (simp add: days_in_def)
    qed
    with ok show ?thesis unfolding ydm by auto
  qed
qed

subsection \<open>The value of a timestamp\<close>

text \<open>The digits of the fraction, of which those behind the ninth are dropped.\<close>

definition fraction_ns :: "string \<Rightarrow> int" where
  "fraction_ns s =
     (if skip_fraction s = s then 0
      else let ds = take 9 (takeWhile is_digit (tl s)) in digits_value 0 ds * 10 ^ (9 - length ds))"

definition zone_seconds :: "string \<Rightarrow> int" where
  "zone_seconds z =
     (if z = ''Z'' then 0
      else let off = digits_value 0 (take 2 (drop 1 z)) * 3600 + digits_value 0 (take 2 (drop 4 z)) * 60
      in if hd z = CHR ''-'' then - off else off)"

definition parse_rfc3339nano :: "string \<Rightarrow> int option" where
  "parse_rfc3339nano s =
     (if \<not> is_rfc3339nano s then None
      else case num1or2 (drop 11 s) of
          None \<Rightarrow> None
        | Some (h, r) \<Rightarrow>
            (let days = days_of_civil (digits_value 0 (take 4 s)) (digits_value 0 (take 2 (drop 5 s)))
                          (digits_value 0 (take 2 (drop 8 s)));
                 mi = digits_value 0 (take 2 (drop 1 r)); sec = digits_value 0 (take 2 (drop 4 r));
                 rest = drop 6 r
             in Some ((days * 86400 + h * 3600 + mi * 60 + sec - zone_seconds (skip_fraction rest)) * 1000000000 +
                      fraction_ns rest)))"

text \<open>The time as package slog writes it, in UTC and cut to milliseconds.\<close>

definition format_millis :: "int \<Rightarrow> string" where
  "format_millis t =
     butlast (format_rfc3339 (t div 1000000000)) @ CHR ''.'' # pad_digits 3 (t mod 1000000000 div 1000000) @ ''Z''"

lemma parse_examples:
  "parse_rfc3339nano ''2026-07-31T09:08:07.123456789Z'' = Some 1785488887123456789"
  "parse_rfc3339nano ''1970-01-01T02:00:00+02:00'' = Some 0"
  "parse_rfc3339nano ''2024-02-30T00:00:00Z'' = None"
  "format_millis 1785488887123456789 = ''2026-07-31T09:08:07.123Z''"
  by code_simp+

subsection \<open>What is written reads back\<close>

definition digit_char_of :: "int \<Rightarrow> char" where
  "digit_char_of n = char_of (48 + nat (n mod 10))"

lemma digit_char_of: "is_digit (digit_char_of n)" "(of_char (digit_char_of n) :: int) = 48 + n mod 10"
  using digit_char [of "n mod 10"] by (simp_all add: digit_char_of_def)

lemma pad_digits_unfold:
  "pad_digits 2 n = [digit_char_of (n div 10), digit_char_of n]"
  "pad_digits 3 n = [digit_char_of (n div 10 div 10), digit_char_of (n div 10), digit_char_of n]"
  "pad_digits 4 n = [digit_char_of (n div 10 div 10 div 10), digit_char_of (n div 10 div 10), digit_char_of (n div 10), digit_char_of n]"
  by (simp_all add: numeral_2_eq_2 numeral_3_eq_3 numeral_eq_Suc digit_char_of_def)

lemma digits_back:
  "0 \<le> n \<Longrightarrow> n < 100 \<Longrightarrow> digits_value 0 [digit_char_of (n div 10), digit_char_of n] = n"
  "0 \<le> n \<Longrightarrow> n < 1000 \<Longrightarrow> digits_value 0 [digit_char_of (n div 10 div 10), digit_char_of (n div 10), digit_char_of n] = n"
  "0 \<le> n \<Longrightarrow> n < 10000 \<Longrightarrow> digits_value 0 [digit_char_of (n div 10 div 10 div 10), digit_char_of (n div 10 div 10),
     digit_char_of (n div 10), digit_char_of n] = n"
  by (simp_all add: digit_char_of)

lemma format_rfc3339_shape:
  assumes "civil_of_days (sec div 86400) = (y, m, d)" and "0 \<le> y" and "y < 10000"
  shows "format_rfc3339 sec = pad_digits 4 y @ ''-'' @ pad_digits 2 m @ ''-'' @ pad_digits 2 d @ ''T'' @
     pad_digits 2 (sec mod 86400 div 3600) @ '':'' @ pad_digits 2 (sec mod 86400 div 60 mod 60) @ '':'' @
     pad_digits 2 (sec mod 86400 mod 60) @ ''Z''"
  using assms by (simp add: format_rfc3339_def format_year_def Let_def)

lemma parse_date_digits:
  "list_all is_digit [a, b, c, e, f, g, i, j] \<Longrightarrow>
   parse_date (a # b # c # e # CHR ''-'' # f # g # CHR ''-'' # i # j # rest) =
     (if 1 \<le> digits_value 0 [f, g] \<and> digits_value 0 [f, g] \<le> 12 \<and> 1 \<le> digits_value 0 [i, j] \<and>
         digits_value 0 [i, j] \<le> days_in (digits_value 0 [f, g]) (digits_value 0 [a, b, c, e]) then Some rest else None)"
  by (simp add: parse_date_def num2_def expect_def del: digits_value.simps)

lemma parse_clock_digits:
  "list_all is_digit [a, b, f, g, i, j] \<Longrightarrow>
   parse_clock (a # b # CHR '':'' # f # g # CHR '':'' # i # j # rest) =
     (if digits_value 0 [a, b] < 24 \<and> digits_value 0 [f, g] < 60 \<and> digits_value 0 [i, j] < 60 then Some rest else None)"
  by (simp add: parse_clock_def num1or2_def num2_def expect_def del: digits_value.simps)

lemma millis_digits:
  assumes "list_all is_digit [a, b, c]"
  shows "skip_fraction (CHR ''.'' # a # b # c # ''Z'') = ''Z''"
    and "fraction_ns (CHR ''.'' # a # b # c # ''Z'') = digits_value 0 [a, b, c] * 1000000"
proof -
  have z: "\<not> is_digit (CHR ''Z'')" by (simp add: is_digit_def)
  show k: "skip_fraction (CHR ''.'' # a # b # c # ''Z'') = ''Z''"
    using assms z by (simp add: skip_fraction_def)
  show "fraction_ns (CHR ''.'' # a # b # c # ''Z'') = digits_value 0 [a, b, c] * 1000000"
    using assms z unfolding fraction_ns_def k by (simp add: Let_def del: digits_value.simps)
qed

lemma parse_value_utc:
  assumes "is_rfc3339nano s" and "num1or2 (drop 11 s) = Some (h, r)" and "skip_fraction (drop 6 r) = ''Z''"
  shows "parse_rfc3339nano s =
    Some ((days_of_civil (digits_value 0 (take 4 s)) (digits_value 0 (take 2 (drop 5 s))) (digits_value 0 (take 2 (drop 8 s))) * 86400 +
      h * 3600 + digits_value 0 (take 2 (drop 1 r)) * 60 + digits_value 0 (take 2 (drop 4 r))) * 1000000000 + fraction_ns (drop 6 r))"
  using assms by (simp add: parse_rfc3339nano_def zone_seconds_def Let_def)

lemma parse_format_millis:
  assumes "civil_of_days (t div 1000000000 div 86400) = (y, m, d)" and "0 \<le> y" and "y < 10000"
  shows "parse_rfc3339nano (format_millis t) = Some (t - t mod 1000000)"
proof -
  define sec where "sec = t div 1000000000"
  define clock where "clock = sec mod 86400"
  define ms where "ms = t mod 1000000000 div 1000000"
  define h where "h = clock div 3600"
  define mi where "mi = clock div 60 mod 60"
  define s where "s = clock mod 60"
  note c = civil_ok [OF assms(1)]
  have bounds: "0 \<le> clock" "clock < 86400" "0 \<le> ms" "ms < 1000" by (auto simp: clock_def ms_def)
  then have hms: "0 \<le> h" "h < 24" "0 \<le> mi" "mi < 60" "0 \<le> s" "s < 60" by (auto simp: h_def mi_def s_def)
  have md: "0 \<le> m" "m < 100" "0 \<le> d" "d < 100"
    using c days_in_def [of m y] by (auto split: if_splits)
  have f: "format_millis t = pad_digits 4 y @ ''-'' @ pad_digits 2 m @ ''-'' @ pad_digits 2 d @ ''T'' @ pad_digits 2 h @ '':'' @
      pad_digits 2 mi @ '':'' @ pad_digits 2 s @ ''.'' @ pad_digits 3 ms @ ''Z''"
    using format_rfc3339_shape [OF assms]
    by (simp add: format_millis_def sec_def clock_def h_def mi_def s_def ms_def butlast_append)
  note rb = digits_back(1) [OF md(1,2)] digits_back(1) [OF md(3,4)] digits_back(3) [OF assms(2,3)] digits_back(2) [OF bounds(3,4)]
    digits_back(1) [of h] digits_back(1) [of mi] digits_back(1) [of s]
  note dg = digit_char_of(1)
  let ?ms = "[digit_char_of (ms div 10 div 10), digit_char_of (ms div 10), digit_char_of ms]"
  have ok: "1 \<le> m \<and> m \<le> 12 \<and> 1 \<le> d \<and> d \<le> days_in m y" using c by blast
  have shape: "format_millis t = digit_char_of (y div 10 div 10 div 10) # digit_char_of (y div 10 div 10) # digit_char_of (y div 10) #
      digit_char_of y # CHR ''-'' # digit_char_of (m div 10) # digit_char_of m # CHR ''-'' # digit_char_of (d div 10) #
      digit_char_of d # CHR ''T'' # digit_char_of (h div 10) # digit_char_of h # CHR '':'' # digit_char_of (mi div 10) #
      digit_char_of mi # CHR '':'' # digit_char_of (s div 10) # digit_char_of s # CHR ''.'' # ?ms @ ''Z''"
    unfolding f pad_digits_unfold by simp
  have date: "parse_date (format_millis t) = Some (drop 10 (format_millis t))"
    unfolding shape by (subst parse_date_digits) (simp_all add: dg rb ok del: digits_value.simps)
  have ticks: "parse_clock (drop 11 (format_millis t)) = Some (CHR ''.'' # ?ms @ ''Z'')"
    unfolding shape using hms by (simp add: parse_clock_digits dg rb del: digits_value.simps)
  have frac: "skip_fraction (CHR ''.'' # ?ms @ ''Z'') = ''Z''" "fraction_ns (CHR ''.'' # ?ms @ ''Z'') = ms * 1000000"
    using millis_digits [of "?ms ! 0" "?ms ! 1" "?ms ! 2"] by (simp_all add: dg rb del: digits_value.simps)
  have valid: "is_rfc3339nano (format_millis t)"
    unfolding is_rfc3339nano_def date using ticks frac(1)
    by (simp add: shape expect_def is_zone_def)
  have hour: "num1or2 (drop 11 (format_millis t)) = Some (h, drop 13 (format_millis t))"
    unfolding shape using hms by (simp add: num1or2_def num2_def dg rb del: digits_value.simps)
  have fields: "take 4 (format_millis t) = [digit_char_of (y div 10 div 10 div 10), digit_char_of (y div 10 div 10), digit_char_of (y div 10), digit_char_of y]"
    "take 2 (drop 5 (format_millis t)) = [digit_char_of (m div 10), digit_char_of m]"
    "take 2 (drop 8 (format_millis t)) = [digit_char_of (d div 10), digit_char_of d]"
    "take 2 (drop 1 (drop 13 (format_millis t))) = [digit_char_of (mi div 10), digit_char_of mi]"
    "take 2 (drop 4 (drop 13 (format_millis t))) = [digit_char_of (s div 10), digit_char_of s]"
    "drop 6 (drop 13 (format_millis t)) = CHR ''.'' # ?ms @ ''Z''"
    unfolding shape by simp_all
  have small: "digits_value 0 [digit_char_of (mi div 10), digit_char_of mi] = mi"
    "digits_value 0 [digit_char_of (s div 10), digit_char_of s] = s"
    using hms digits_back(1) by simp_all
  have "parse_rfc3339nano (format_millis t) =
      Some ((days_of_civil y m d * 86400 + h * 3600 + mi * 60 + s) * 1000000000 + ms * 1000000)"
    unfolding parse_value_utc [OF valid hour, unfolded fields(6), OF frac(1)] fields frac(2) rb(1,2,3) small ..
  also have "days_of_civil y m d * 86400 + h * 3600 + mi * 60 + s = sec"
  proof -
    have "clock div 3600 = clock div 60 div 60" using zdiv_zmult2_eq [of 60 clock 60] by simp
    then have "h * 3600 + mi * 60 + s = clock"
      using div_mult_mod_eq [of clock 60] div_mult_mod_eq [of "clock div 60" 60] unfolding h_def mi_def s_def by linarith
    moreover have "days_of_civil y m d * 86400 + clock = sec" by (simp add: c(1) clock_def sec_def)
    ultimately show ?thesis by linarith
  qed
  also have "sec * 1000000000 + ms * 1000000 = t - t mod 1000000"
  proof -
    have "t mod 1000000000 mod 1000000 = t mod 1000000" by (rule mod_mod_cancel) simp
    then have "ms * 1000000 = t mod 1000000000 - t mod 1000000"
      using div_mult_mod_eq [of "t mod 1000000000" 1000000] by (simp add: ms_def)
    moreover have "sec * 1000000000 = t - t mod 1000000000" by (simp add: sec_def minus_mod_eq_div_mult)
    ultimately show ?thesis by simp
  qed
  finally show ?thesis .
qed

end
