(* ===== verification/Logging.thy ===== *)
theory Logging
  imports Config Calendar
begin

section \<open>The log file (internal/logging)\<close>

text \<open>
  The sink's settings (logging.go) and the rotator (rotator.go): the startup pass, which
  rotates a current file whose first line is too old, and the loop that rotates on every
  tick.  The file system's answers and lumberjack's Rotate are inputs; what the agent does to
  the file is a list of effects.  Closing files and what the log lines say is not modelled.
\<close>

subsection \<open>Settings\<close>

definition maxBackups :: int where "maxBackups = 3"
definition logFileMode :: int where "logFileMode = 384"
definition logsDirMode :: int where "logsDirMode = 448"
definition defaultRotateInterval :: int where "defaultRotateInterval = 24 * time_Hour"
definition slogTimeKeyPrefix :: string where "slogTimeKeyPrefix = ''time=''"

text \<open>Division of int truncates towards zero.\<close>

definition quotient :: "int \<Rightarrow> int \<Rightarrow> int" where
  "quotient a b = (if 0 \<le> a then a div b else - (- a div b))"

definition perFileMaxMB :: "int \<Rightarrow> int" where
  "perFileMaxMB totalMB = (let perFile = quotient totalMB (maxBackups + 1) in if 0 < perFile then perFile else 1)"

record lumberjack =
  lj_Filename :: string
  lj_MaxSize :: int
  lj_MaxBackups :: int
  lj_MaxAge :: int

record rotator =
  rt_lj :: lumberjack
  rt_interval :: int
  rt_maxAge :: int

text \<open>
  The quotient of NewSink's MaxAge is taken in float64; it is exact for a whole number of
  days, which is what Load produces as long as the count of days does not wrap.
\<close>

definition lumberjack_of :: "config \<Rightarrow> lumberjack" where
  "lumberjack_of cfg = \<lparr>lj_Filename = AgentLogPath cfg, lj_MaxSize = perFileMaxMB (LogMaxTotalMB cfg),
     lj_MaxBackups = maxBackups, lj_MaxAge = quotient (LogMaxAge cfg) (24 * time_Hour)\<rparr>"

definition NewRotator :: "lumberjack \<Rightarrow> int \<Rightarrow> int \<Rightarrow> rotator" where
  "NewRotator lj interval maxAge = \<lparr>rt_lj = lj, rt_interval = interval, rt_maxAge = maxAge\<rparr>"

datatype sink_error = CreateLogsDir string

definition NewSink :: "(string \<Rightarrow> int \<Rightarrow> bool) \<Rightarrow> config \<Rightarrow> sink_error + rotator" where
  "NewSink mkdirAll cfg =
     (if \<not> mkdirAll (LogsDir cfg) logsDirMode then Inl (CreateLogsDir (LogsDir cfg))
      else Inr (NewRotator (lumberjack_of cfg) defaultRotateInterval (LogMaxAge cfg)))"

lemmas logging_consts = maxBackups_def logFileMode_def logsDirMode_def defaultRotateInterval_def slogTimeKeyPrefix_def

subsection \<open>The first line\<close>

text \<open>
  What os.Open and the reads of a file give: no file, or the bytes that can be read and
  whether an error other than io.EOF ends them.
\<close>

type_synonym file_reads = "(string \<times> bool) option"

datatype first_line_error = OpenFailed | ReadFailed | NoTimePrefix | BadTime string

definition newline :: char where "newline = CHR 0x0A"
definition carriage :: char where "carriage = CHR 0x0D"

definition trimNewlines :: "string \<Rightarrow> string" where
  "trimNewlines s = rev (dropWhile (\<lambda>c. c = carriage \<or> c = newline) (rev s))"

definition until :: "char \<Rightarrow> string \<Rightarrow> string" where
  "until c s = takeWhile (\<lambda>x. x \<noteq> c) s"

definition firstLineTimestamp :: "file_reads \<Rightarrow> first_line_error + int" where
  "firstLineTimestamp f = (case f of
     None \<Rightarrow> Inl OpenFailed
   | Some (bytes, fails) \<Rightarrow>
       if newline \<notin> set bytes \<and> fails then Inl ReadFailed
       else let line = trimNewlines (if newline \<in> set bytes then until newline bytes @ [newline] else bytes)
            in if take (length slogTimeKeyPrefix) line \<noteq> slogTimeKeyPrefix then Inl NoTimePrefix
               else let value = until (CHR '' '') (drop (length slogTimeKeyPrefix) line)
                    in case parse_rfc3339nano value of None \<Rightarrow> Inl (BadTime value) | Some ts \<Rightarrow> Inr ts)"

subsection \<open>Rotation\<close>

text \<open>
  The outcome of one rotation: whether lumberjack's Rotate succeeded, and what os.Chmod then
  answered.
\<close>

datatype chmod = ChmodOk | ChmodNotExist | ChmodFailed

record rotation =
  ro_rotated :: bool
  ro_chmod :: chmod

datatype rot_effect = Rotated | RotateFailed | Tightened string int | TightenFailed

definition tightenPermissions :: "string \<Rightarrow> chmod \<Rightarrow> rot_effect list" where
  "tightenPermissions path c = (case c of
     ChmodOk \<Rightarrow> [Tightened path logFileMode] | ChmodNotExist \<Rightarrow> [] | ChmodFailed \<Rightarrow> [TightenFailed])"

definition rotateOnce :: "rotator \<Rightarrow> rotation \<Rightarrow> rot_effect list" where
  "rotateOnce r o' = (if \<not> ro_rotated o' then [RotateFailed]
     else Rotated # tightenPermissions (lj_Filename (rt_lj r)) (ro_chmod o'))"

text \<open>time.Since of a time read from a file: the difference, saturated to the range of a Duration.\<close>

definition time_Since :: "int \<Rightarrow> int \<Rightarrow> int" where
  "time_Since now ts = max (- (2 ^ 63)) (min (2 ^ 63 - 1) (now - ts))"

record log_file =
  lf_size :: "int option"
  lf_reads :: file_reads

text \<open>Whether the startup pass decides to rotate, and what it does.\<close>

definition startup_stale :: "rotator \<Rightarrow> int \<Rightarrow> log_file \<Rightarrow> bool" where
  "startup_stale r now f =
     (if rt_maxAge r \<le> 0 then False
      else case lf_size f of
          None \<Rightarrow> False
        | Some n \<Rightarrow> if n = 0 then False
            else case firstLineTimestamp (lf_reads f) of
                Inl _ \<Rightarrow> True
              | Inr ts \<Rightarrow> rt_maxAge r < time_Since now ts)"

definition startupRotate :: "rotator \<Rightarrow> int \<Rightarrow> log_file \<Rightarrow> rotation \<Rightarrow> rot_effect list" where
  "startupRotate r now f o' = (if startup_stale r now f then rotateOnce r o' else [])"

text \<open>
  The loop: what the ticker and the context deliver, in the order in which the select takes
  it.  None as a result: Run has not returned yet.
\<close>

datatype rot_event = RTick rotation | RDone

datatype rot_result = ContextErr

fun rotate_loop :: "rotator \<Rightarrow> rot_event list \<Rightarrow> rot_effect list \<times> rot_result option" where
  "rotate_loop r [] = ([], None)"
| "rotate_loop r (RDone # es) = ([], Some ContextErr)"
| "rotate_loop r (RTick o' # es) = (let (fx, res) = rotate_loop r es in (rotateOnce r o' @ fx, res))"

definition Rotator_Run ::
  "rotator \<Rightarrow> bool \<Rightarrow> int \<Rightarrow> log_file \<Rightarrow> rotation \<Rightarrow> rot_event list \<Rightarrow> rot_effect list \<times> rot_result option" where
  "Rotator_Run r cancelled now f o' es =
     (if cancelled then ([], Some ContextErr)
      else let (fx, res) = rotate_loop r es in (startupRotate r now f o' @ fx, res))"

subsection \<open>What slog writes is what the startup pass reads\<close>

text \<open>
  A line of slog's TextHandler with a clock in UTC: the time cut to milliseconds, a space and
  the other attributes, which hold no line break since the handler quotes them.
\<close>

definition slog_line :: "int \<times> string \<Rightarrow> string" where
  "slog_line = (\<lambda>(t, attrs). slogTimeKeyPrefix @ format_millis t @ CHR '' '' # attrs @ [newline])"

definition four_digit_year :: "int \<Rightarrow> bool" where
  "four_digit_year t \<longleftrightarrow> 0 \<le> fst (civil_of_days (t div 1000000000 div 86400)) \<and>
     fst (civil_of_days (t div 1000000000 div 86400)) < 10000"

definition to_millis :: "int \<Rightarrow> int" where
  "to_millis t = t - t mod 1000000"

definition log_of :: "(int \<times> string) list \<Rightarrow> log_file" where
  "log_of ls = (let bytes = concat (map slog_line ls)
     in \<lparr>lf_size = Some (int (length bytes)), lf_reads = Some (bytes, False)\<rparr>)"

lemma parse_millis: "four_digit_year t \<Longrightarrow> parse_rfc3339nano (format_millis t) = Some (to_millis t)"
proof -
  obtain y m d where c: "civil_of_days (t div 1000000000 div 86400) = (y, m, d)" by (metis prod_cases3)
  assume "four_digit_year t"
  with c have "0 \<le> y" "y < 10000" by (simp_all add: four_digit_year_def)
  with c show ?thesis by (simp add: parse_format_millis to_millis_def)
qed

lemma pad_digits_chars: "set (pad_digits k n) \<subseteq> Collect is_digit"
  by (induction k n rule: pad_digits.induct) (auto simp: digit_char)

lemma format_millis_chars: "set (format_millis t) \<subseteq> Collect is_digit \<union> set ''-T:.Z''"
proof -
  have "set (butlast (format_rfc3339 s)) \<subseteq> Collect is_digit \<union> set ''-T:.Z''" for s
    using pad_digits_chars by (fastforce simp: format_rfc3339_def format_year_def Let_def case_prod_beta
        dest!: in_set_butlastD split: if_splits)
  then show ?thesis using pad_digits_chars unfolding format_millis_def by fastforce
qed

lemma format_millis_free: "c \<notin> Collect is_digit \<union> set ''-T:.Z'' \<Longrightarrow> c \<notin> set (format_millis t)"
  using format_millis_chars by blast

lemma format_millis_printable: "newline \<notin> set (format_millis t)" "CHR '' '' \<notin> set (format_millis t)"
  by (rule format_millis_free, simp add: newline_def is_digit_def)+

lemma until_free: "c \<notin> set a \<Longrightarrow> until c (a @ c # b) = a"
  by (induction a) (auto simp: until_def)

text \<open>The trailing bytes that are trimmed off a first line lie behind its first space.\<close>

lemma first_line:
  assumes "four_digit_year t" and "newline \<notin> set attrs"
  shows "firstLineTimestamp (Some (slog_line (t, attrs) @ rest, fails)) = Inr (to_millis t)"
proof -
  let ?head = "slogTimeKeyPrefix @ format_millis t"
  have nl: "newline \<notin> set (?head @ CHR '' '' # attrs)"
    using assms(2) format_millis_printable(1) by (simp add: slogTimeKeyPrefix_def newline_def)
  have "slog_line (t, attrs) @ rest = (?head @ CHR '' '' # attrs) @ newline # rest" by (simp add: slog_line_def)
  then have bytes: "newline \<in> set (slog_line (t, attrs) @ rest)"
    "until newline (slog_line (t, attrs) @ rest) = ?head @ CHR '' '' # attrs"
    using until_free [OF nl] by simp_all
  obtain tail where trim: "trimNewlines ((?head @ CHR '' '' # attrs) @ [newline]) = ?head @ CHR '' '' # tail"
  proof -
    have "dropWhile (\<lambda>c. c = carriage \<or> c = newline) (rev (attrs @ [newline]) @ CHR '' '' # rev ?head) =
        dropWhile (\<lambda>c. c = carriage \<or> c = newline) (rev (attrs @ [newline])) @ CHR '' '' # rev ?head"
      by (simp add: dropWhile_append3 dropWhile_append carriage_def newline_def)
    then have "trimNewlines ((?head @ CHR '' '' # attrs) @ [newline]) =
        ?head @ CHR '' '' # rev (dropWhile (\<lambda>c. c = carriage \<or> c = newline) (rev (attrs @ [newline])))"
      unfolding trimNewlines_def by simp
    then show thesis by (rule that)
  qed
  have "until (CHR '' '') (format_millis t @ CHR '' '' # tail) = format_millis t"
    by (rule until_free [OF format_millis_printable(2)])
  with bytes trim parse_millis [OF assms(1)] show ?thesis
    by (simp add: firstLineTimestamp_def Let_def)
qed

subsection \<open>The startup pass\<close>

lemma startup_stale_log:
  assumes "0 < rt_maxAge r" and "rt_maxAge r < 2 ^ 63 - 1"
    and "list_all (\<lambda>(t, attrs). four_digit_year t \<and> newline \<notin> set attrs) ls"
  shows "startup_stale r now (log_of ls) \<longleftrightarrow> ls \<noteq> [] \<and> rt_maxAge r < now - to_millis (fst (hd ls))"
proof (cases ls)
  case Nil
  then show ?thesis by (simp add: startup_stale_def log_of_def)
next
  case (Cons l more)
  obtain t attrs where l: "l = (t, attrs)" by fastforce
  have "firstLineTimestamp (lf_reads (log_of ls)) = Inr (to_millis t)"
    using first_line [of t attrs "concat (map slog_line more)" False] assms(3) by (simp add: log_of_def Cons l)
  moreover have "lf_size (log_of ls) \<noteq> None" "lf_size (log_of ls) \<noteq> Some 0"
    by (simp_all add: log_of_def Cons l slog_line_def slogTimeKeyPrefix_def Let_def)
  moreover have "rt_maxAge r < time_Since now (to_millis t) \<longleftrightarrow> rt_maxAge r < now - to_millis t"
    using assms(1,2) by (auto simp: time_Since_def)
  ultimately show ?thesis using assms(1) by (auto simp: startup_stale_def Cons l split: option.splits)
qed

lemma to_millis_le: "to_millis t \<le> t" "t < to_millis t + 1000000"
  by (simp_all add: to_millis_def)

text \<open>
  C34: the startup pass rotates the log that earlier boots have left exactly when its oldest line
  has outlived the age budget, to the millisecond that a line records: an agent that is
  restarted more often than the daily rotation never keeps a line that is older than the budget
  in its current file, and neither its own opening lines nor an empty or missing file are ever
  rotated away.  The age is that of the content, so no rewriting of the file makes it young.
\<close>

theorem startup_rotates_exactly_stale:
  assumes "0 < rt_maxAge r" and "rt_maxAge r < 2 ^ 63 - 1"
    and "list_all (\<lambda>(t, attrs). four_digit_year t \<and> newline \<notin> set attrs) ls"
    and "sorted (map fst ls)"
  shows "(startupRotate r now (log_of ls) ok = [] \<longrightarrow> list_all (\<lambda>(t, _). now - t \<le> rt_maxAge r) ls) \<and>
     (startupRotate r now (log_of ls) ok \<noteq> [] \<longrightarrow>
        ls \<noteq> [] \<and> rt_maxAge r < now - fst (hd ls) + 1000000 \<and>
        startupRotate r now (log_of ls) ok = rotateOnce r ok) \<and>
     startupRotate r now \<lparr>lf_size = None, lf_reads = rd\<rparr> ok = [] \<and>
     (firstLineTimestamp rd = Inl e \<longrightarrow> startupRotate r now \<lparr>lf_size = Some (1 + int n), lf_reads = rd\<rparr> ok = rotateOnce r ok)"
proof -
  have nonempty: "rotateOnce r ok \<noteq> []" by (simp add: rotateOnce_def)
  note stale = startup_stale_log [OF assms(1-3), of now]
  have young: "list_all (\<lambda>(t, _). now - t \<le> rt_maxAge r) ls" if "\<not> startup_stale r now (log_of ls)"
  proof (cases ls)
    case (Cons l more)
    then have "now - fst l \<le> rt_maxAge r" using that stale to_millis_le(1) [of "fst l"] by simp
    with Cons assms(4) show ?thesis by (fastforce simp: list_all_iff)
  qed simp
  have old: "ls \<noteq> [] \<and> rt_maxAge r < now - fst (hd ls) + 1000000" if "startup_stale r now (log_of ls)"
    using that stale to_millis_le(2) [of "fst (hd ls)"] by auto
  show ?thesis
    using young old nonempty assms(1) by (simp add: startupRotate_def startup_stale_def [of r now "\<lparr>lf_size = _, lf_reads = _\<rparr>"])
qed

definition demo_rotator :: rotator where
  "demo_rotator = NewRotator \<lparr>lj_Filename = ''/state/logs/agent.log'', lj_MaxSize = 16, lj_MaxBackups = maxBackups, lj_MaxAge = 1\<rparr>
     defaultRotateInterval (24 * time_Hour)"

definition demo_log :: "(int \<times> string) list" where
  "demo_log = [(1785488887123456789, ''level=INFO msg=hello''), (1785488999000000000, ''level=WARN msg=x'')]"

lemma startup_rotates_exactly_stale_witness:
  "startupRotate demo_rotator 1785578888000000000 (log_of demo_log) \<lparr>ro_rotated = True, ro_chmod = ChmodOk\<rparr> =
     [Rotated, Tightened ''/state/logs/agent.log'' 384] \<and>
   startupRotate demo_rotator 1785489000000000000 (log_of demo_log) \<lparr>ro_rotated = True, ro_chmod = ChmodOk\<rparr> = [] \<and>
   list_all (\<lambda>(t, _). 1785489000000000000 - t \<le> rt_maxAge demo_rotator) demo_log"
proof -
  let ?ok = "\<lparr>ro_rotated = True, ro_chmod = ChmodOk\<rparr>"
  have ok: "0 < rt_maxAge demo_rotator" "rt_maxAge demo_rotator < 2 ^ 63 - 1" "sorted (map fst demo_log)"
    by (simp_all add: demo_rotator_def NewRotator_def time_Hour_def demo_log_def)
  have lines: "list_all (\<lambda>(t, attrs). four_digit_year t \<and> newline \<notin> set attrs) demo_log" by code_simp
  have day: "rt_maxAge demo_rotator = 86400000000000" by (simp add: demo_rotator_def NewRotator_def time_Hour_def)
  have once: "rotateOnce demo_rotator ?ok = [Rotated, Tightened ''/state/logs/agent.log'' 384]"
    by (simp add: rotateOnce_def tightenPermissions_def logFileMode_def demo_rotator_def NewRotator_def)
  note claim = startup_rotates_exactly_stale [OF ok(1,2) lines ok(3), where ok = ?ok]
  have "startupRotate demo_rotator 1785578888000000000 (log_of demo_log) ?ok \<noteq> []"
    using claim [of 1785578888000000000] by (auto simp: day demo_log_def)
  moreover have "startupRotate demo_rotator 1785489000000000000 (log_of demo_log) ?ok = []"
    using claim [of 1785489000000000000] by (auto simp: day demo_log_def)
  ultimately show ?thesis
    using claim [of 1785578888000000000] claim [of 1785489000000000000] once by simp
qed

subsection \<open>The loop\<close>

text \<open>
  What Run does to the file: nothing when it starts cancelled; else the startup pass and one
  rotation for each tick before the cancellation, whether the ones before it failed or not.
\<close>

lemma rotate_loop_ticks:
  "rotate_loop r (map RTick os @ RDone # es) = (concat (map (rotateOnce r) os), Some ContextErr)"
  by (induction os) simp_all

lemma Rotator_Run_ticks:
  "Rotator_Run r False now f ok (map RTick os @ RDone # es) =
     (startupRotate r now f ok @ concat (map (rotateOnce r) os), Some ContextErr)"
  "Rotator_Run r True now f ok es = ([], Some ContextErr)"
  by (simp_all add: Rotator_Run_def rotate_loop_ticks)

lemma rotate_loop_returns: "snd (rotate_loop r es) \<noteq> None \<longleftrightarrow> RDone \<in> set es"
  by (induction r es rule: rotate_loop.induct) (auto simp: case_prod_beta)

subsection \<open>The sink of a loaded configuration\<close>

text \<open>
  The file and its backups fit in the operator's budget, lumberjack never sees the size 0 that
  it reads as its own default, and an age that does not wrap reaches it as the number of days
  given, with the startup pass on.
\<close>

lemma quotient_exact: "0 < b \<Longrightarrow> quotient (n * b) b = n"
  by (simp add: quotient_def zdiv_zminus1_eq_if)

lemma footprint: "8 \<le> mb \<Longrightarrow> 2 \<le> perFileMaxMB mb \<and> (maxBackups + 1) * perFileMaxMB mb \<le> mb \<and>
    mb - 4 < (maxBackups + 1) * perFileMaxMB mb"
  by (auto simp: perFileMaxMB_def quotient_def maxBackups_def Let_def)

text \<open>
  With a configuration that Load returns, the log and its backups stay within the total the
  operator gave and use all of it but less than 4 MB, each file is given at least 2 MB, and,
  as long as the count of days does not wrap, both the age handed to lumberjack and that of the
  startup pass are exactly the days asked for.
\<close>

theorem log_sink_within_budget:
  assumes "Load urlScheme env = Inr cfg" and "NewSink mkdirAll cfg = Inr r"
    and "fst (boundedInt env envLogMaxAgeDays defaultLogMaxAgeDays minDays) = n"
  shows "2 \<le> lj_MaxSize (rt_lj r) \<and>
     (lj_MaxBackups (rt_lj r) + 1) * lj_MaxSize (rt_lj r) \<le> LogMaxTotalMB cfg \<and>
     LogMaxTotalMB cfg < (lj_MaxBackups (rt_lj r) + 1) * lj_MaxSize (rt_lj r) + 4 \<and>
     rt_maxAge r = LogMaxAge cfg \<and>
     (n \<le> 106751 \<longrightarrow> lj_MaxAge (rt_lj r) = n \<and> rt_maxAge r = n * (24 * time_Hour) \<and> 0 < rt_maxAge r \<and> rt_maxAge r < 2 ^ 63 - 1)"
proof -
  from assms(1) have cfg: "cfg = fst (load_fields urlScheme env)" by (simp add: Load_Inr_iff)
  have mb: "8 \<le> LogMaxTotalMB cfg"
    by (simp add: cfg load_fields_eq boundedInt_ge config_bounds)
  from assms(2) have r: "r = NewRotator (lumberjack_of cfg) defaultRotateInterval (LogMaxAge cfg)"
    by (simp add: NewSink_def split: if_splits)
  have days: "n \<le> 106751 \<Longrightarrow> LogMaxAge cfg = n * 86400000000000"
    using days_exact [of defaultLogMaxAgeDays env envLogMaxAgeDays] assms(3)
    by (simp add: cfg load_fields_eq defaultLogMaxAgeDays_def)
  have "1 \<le> n" using boundedInt_ge [of minDays defaultLogMaxAgeDays env envLogMaxAgeDays] assms(3)
    by (simp add: config_bounds)
  moreover have "quotient (n * 86400000000000) 86400000000000 = n" by (rule quotient_exact) simp
  ultimately show ?thesis
    using footprint [OF mb] days
    by (auto simp: r NewRotator_def lumberjack_of_def time_Hour_def)
qed

lemma log_sink_within_budget_witness:
  "\<exists>cfg r. Load demo_scheme (demo_env [(envLogMaxTotalMB, ''11''), (envLogMaxAgeDays, ''7'')]) = Inr cfg \<and>
     NewSink (\<lambda>_ _. True) cfg = Inr r \<and> lj_MaxSize (rt_lj r) = 2 \<and> lj_MaxAge (rt_lj r) = 7"
proof -
  let ?env = "demo_env [(envLogMaxTotalMB, ''11''), (envLogMaxAgeDays, ''7'')]"
  let ?l = "Load demo_scheme ?env"
  have v: "\<not> isl ?l" "LogMaxTotalMB (projr ?l) = 11"
    "fst (boundedInt ?env envLogMaxAgeDays defaultLogMaxAgeDays minDays) = 7"
    by code_simp+
  then obtain cfg where cfg: "?l = Inr cfg" by (cases ?l) auto
  obtain r where r: "NewSink (\<lambda>_ _. True) cfg = Inr r" by (simp add: NewSink_def)
  have "lj_MaxBackups (rt_lj r) = 3" using r by (auto simp: NewSink_def NewRotator_def lumberjack_of_def maxBackups_def)
  with log_sink_within_budget [OF cfg r v(3)] v(2) cfg r show ?thesis by auto
qed


end
