(* ===== verification/Feed.thy ===== *)
theory Feed
  imports EventHub Projection Docker
begin

section \<open>The Engine's event feed (internal/dockerx/events.go) into the hub\<close>

text \<open>
  \<open>StreamContainerEvents\<close> as a loop over what its select takes, with the hub's callbacks as
  parameters, and the same loop composed with the hub: each turn of it is one event of the hub,
  between which the clients' events interleave freely.
\<close>

subsection \<open>The loop\<close>

text \<open>
  A turn of the select: the context is done, a message or the end of the message channel, an
  error or the end of the error channel.  The flag is the state of the context when an error
  is looked at.  An Engine error that wraps io.EOF is one constructor.
\<close>

datatype feed_error = StreamEOF | StreamEngine engine_error

datatype feed_input = CtxDone | MessageIn "e_message option" | ErrorIn "feed_error option"

datatype feed_turn = Skip | Forward container_event | Return "docker_error option"

definition feed_select :: "bool \<Rightarrow> feed_input \<Rightarrow> feed_turn" where
  "feed_select cancelled i = (case i of
     CtxDone \<Rightarrow> (if cancelled then Return None else Skip)
   | MessageIn None \<Rightarrow> Return (Some ErrEventFeedClosed)
   | MessageIn (Some msg) \<Rightarrow> (case toContainerEvent msg of None \<Rightarrow> Skip | Some ev \<Rightarrow> Forward ev)
   | ErrorIn None \<Rightarrow> Return (Some ErrEventFeedClosed)
   | ErrorIn (Some e) \<Rightarrow>
       (if cancelled then Return None
        else case e of StreamEOF \<Rightarrow> Return (Some ErrEventFeedClosed) | StreamEngine e' \<Rightarrow> Return (Some (classify e'))))"

datatype feed_call = OnReady | Emit container_event

text \<open>
  The callbacks in the order of their calls, and the result, None while the loop goes on.  The
  answer of \<open>emit\<close> may depend on all that it has been given before.
\<close>

fun feed_loop ::
  "(container_event list \<Rightarrow> container_event \<Rightarrow> docker_error option) \<Rightarrow> container_event list \<Rightarrow> (bool \<times> feed_input) list \<Rightarrow>
     feed_call list \<times> docker_error option option" where
  "feed_loop emit done [] = ([], None)"
| "feed_loop emit done ((cancelled, i) # is) =
     (case feed_select cancelled i of
        Skip \<Rightarrow> feed_loop emit done is
      | Return r \<Rightarrow> ([], Some r)
      | Forward ev \<Rightarrow>
          (case emit done ev of
             Some e \<Rightarrow> ([Emit ev], Some (Some e))
           | None \<Rightarrow> (let (calls, r) = feed_loop emit (done @ [ev]) is in (Emit ev # calls, r))))"

definition StreamContainerEvents ::
  "bool \<Rightarrow> (container_event list \<Rightarrow> container_event \<Rightarrow> docker_error option) \<Rightarrow> (bool \<times> feed_input) list \<Rightarrow>
     feed_call list \<times> docker_error option option" where
  "StreamContainerEvents has_ready emit is =
     (let (calls, r) = feed_loop emit [] is in ((if has_ready then [OnReady] else []) @ calls, r))"

fun emitted :: "feed_call list \<Rightarrow> container_event list" where
  "emitted [] = []"
| "emitted (OnReady # cs) = emitted cs"
| "emitted (Emit ev # cs) = ev # emitted cs"

fun fed_messages :: "(bool \<times> feed_input) list \<Rightarrow> e_message list" where
  "fed_messages [] = []"
| "fed_messages ((c, MessageIn (Some m)) # is) = m # fed_messages is"
| "fed_messages ((c, i) # is) = fed_messages is"

text \<open>
  With a callback that never fails, as the hub's, what is emitted is the allowlisted projection
  of the messages, in their order.
\<close>

lemma feed_loop_emits:
  assumes "\<And>done ev. emit done ev = None" and "feed_loop emit done is = (calls, r)"
  shows "prefix (emitted calls) (List.map_filter toContainerEvent (fed_messages is))"
    and "r = None \<Longrightarrow> emitted calls = List.map_filter toContainerEvent (fed_messages is)"
    and "OnReady \<notin> set calls"
  using assms(2)
proof (induction emit "done" "is" arbitrary: calls r rule: feed_loop.induct)
  case (2 emit "done" c i "is")
  note IH = this
  {
    case 1
    with IH assms(1) show ?case
      by (cases i rule: feed_input.exhaust; cases "\<exists>m. i = MessageIn (Some m)")
        (auto simp: feed_select_def List.map_filter_def split: option.splits if_splits prod.splits feed_error.splits)
  next
    case 2
    with IH assms(1) show ?case
      by (cases i rule: feed_input.exhaust; cases "\<exists>m. i = MessageIn (Some m)")
        (auto simp: feed_select_def List.map_filter_def split: option.splits if_splits prod.splits feed_error.splits)
  next
    case 3
    with IH assms(1) show ?case
      by (auto split: feed_turn.splits option.splits prod.splits)
  }
qed auto

subsection \<open>The loop inside the hub\<close>

text \<open>
  The run's goroutine: onReady, then the loop, whose emit is a whole fan-out, then the teardown.
  The state keeps, besides the hub, the messages that each run has taken from the Engine.
\<close>

record live =
  lv_hub :: "container_event eventHub"
  lv_seen :: "e_message list list"

datatype live_event = Client "container_event hub_event" | Subscribed | Select feed_input

fun client_side :: "'e hub_event \<Rightarrow> bool" where
  "client_side MarkReady \<longleftrightarrow> False"
| "client_side (FanoutBegin ev) \<longleftrightarrow> False"
| "client_side (RunEnd b) \<longleftrightarrow> False"
| "client_side e \<longleftrightarrow> True"

definition in_select :: "'e eventHub \<Rightarrow> bool" where
  "in_select h \<longleftrightarrow> hub_running h \<and> run_phase (run_of h (length (hub_runs h) - 1)) = Streaming \<and> hub_fan h = None"

definition feed_turn_of :: "feed_turn \<Rightarrow> container_event eventHub \<Rightarrow> container_event eventHub" where
  "feed_turn_of t h = (case t of
     Skip \<Rightarrow> h
   | Forward ev \<Rightarrow> hub_step h (FanoutBegin ev)
   | Return r \<Rightarrow> hub_step h (RunEnd (r \<noteq> None)))"

definition note_message :: "feed_input \<Rightarrow> e_message list list \<Rightarrow> e_message list list" where
  "note_message i seen = (case i of
     MessageIn (Some m) \<Rightarrow> seen[length seen - 1 := seen ! (length seen - 1) @ [m]]
   | _ \<Rightarrow> seen)"

fun live_step :: "live \<Rightarrow> live_event \<Rightarrow> live" where
  "live_step lv (Client e) =
     (if \<not> client_side e then lv
      else let h = hub_step (lv_hub lv) e
           in \<lparr>lv_hub = h, lv_seen = lv_seen lv @ replicate (length (hub_runs h) - length (lv_seen lv)) []\<rparr>)"
| "live_step lv Subscribed = lv\<lparr>lv_hub := hub_step (lv_hub lv) MarkReady\<rparr>"
| "live_step lv (Select i) =
     (let h = lv_hub lv
      in if \<not> in_select h then lv
         else \<lparr>lv_hub = feed_turn_of (feed_select (run_cancelled (run_of h (length (hub_runs h) - 1))) i) h,
               lv_seen = note_message i (lv_seen lv)\<rparr>)"

definition live_start :: live where
  "live_start = \<lparr>lv_hub = newEventHub, lv_seen = []\<rparr>"

definition live_inv :: "live \<Rightarrow> bool" where
  "live_inv lv \<longleftrightarrow> hub_inv (lv_hub lv) \<and>
     map run_log (hub_runs (lv_hub lv)) = map (List.map_filter toContainerEvent) (lv_seen lv) \<and>
     list_all (\<lambda>r. run_phase r \<noteq> Subscribing \<longrightarrow> run_ready r) (hub_runs (lv_hub lv))"

lemma map_update_same: "f x = f (xs ! i) \<Longrightarrow> map f (xs[i := x]) = map f xs"
  by (metis list_update_id map_update)

lemma client_logs:
  assumes "client_side e"
  shows "map run_log (hub_runs (hub_step h e)) =
      map run_log (hub_runs h) @ replicate (length (hub_runs (hub_step h e)) - length (hub_runs h)) []"
proof (cases e)
  case Attach
  then show ?thesis by (simp add: attach_def Let_def)
next
  case FanoutFeed
  then show ?thesis by (auto simp: fanout_feed_def split: option.splits list.splits if_splits)
qed (use assms in \<open>auto simp: attach_ready_def attach_failed_def leave_def take_event_def close_failed_def close_torn_def
      cancel_run_def stop_hub_def map_update_same split: option.splits\<close>)

lemma client_ready:
  assumes "client_side e" and "list_all (\<lambda>r. run_phase r \<noteq> Subscribing \<longrightarrow> run_ready r) (hub_runs h)"
  shows "list_all (\<lambda>r. run_phase r \<noteq> Subscribing \<longrightarrow> run_ready r) (hub_runs (hub_step h e))"
proof (cases e)
  case FanoutFeed
  with assms show ?thesis by (auto simp: fanout_feed_def split: option.splits list.splits if_splits)
next
  case Attach
  with assms show ?thesis by (simp add: attach_def Let_def)
next
  case (CancelRun g)
  with assms show ?thesis
    by (cases "g < length (hub_runs h)") (auto simp: cancel_run_def list_all_length nth_list_update)
qed (use assms in \<open>auto simp: attach_ready_def attach_failed_def leave_def take_event_def close_failed_def
      close_torn_def stop_hub_def Let_def list_all_length nth_list_update split: option.splits if_splits\<close>)

lemma hub_step_inv: "hub_inv h \<Longrightarrow> hub_inv (hub_step h e)"
  by (rule hub_sys.step_inv)

lemma current_run:
  assumes "hub_inv h" and "hub_running h"
  shows "hub_runs h \<noteq> []" and "length (hub_runs h) - 1 < length (hub_runs h)"
  using shape_inv_current [OF hub_invD(1) [OF assms(1)] assms(2) refl] by auto

lemma live_step_client: "live_inv lv \<Longrightarrow> client_side e \<Longrightarrow> live_inv (live_step lv (Client e))"
proof -
  assume inv: "live_inv lv" and e: "client_side e"
  have len: "length (hub_runs (lv_hub lv)) = length (lv_seen lv)"
    using inv by (auto simp: live_inv_def dest: map_eq_imp_length_eq)
  show ?thesis
    using inv e client_logs [OF e, of "lv_hub lv"] client_ready [OF e, of "lv_hub lv"]
    by (simp add: live_inv_def Let_def hub_step_inv len List.map_filter_def del: hub_step.simps)
qed

lemma live_step_ready: "live_inv lv \<Longrightarrow> live_inv (live_step lv Subscribed)"
  using hub_step_inv [of "lv_hub lv" MarkReady]
  by (auto simp: live_inv_def markReady_def Let_def map_update_same list_all_length nth_list_update)

lemma map_update_id: "k < length xs \<Longrightarrow> (map f xs)[k := f (xs ! k)] = map f xs"
  by (metis list_update_id map_update)

lemma map_filter_snoc: "List.map_filter f (xs @ [x]) = List.map_filter f xs @ (case f x of None \<Rightarrow> [] | Some y \<Rightarrow> [y])"
  by (simp add: List.map_filter_def split: option.splits)

lemma note_message_map:
  assumes "seen \<noteq> []"
  shows "map (List.map_filter toContainerEvent) (note_message i seen) =
    (case feed_select c i of
       Forward ev \<Rightarrow> (let xs = map (List.map_filter toContainerEvent) seen in
          xs[length seen - 1 := xs ! (length seen - 1) @ [ev]])
     | _ \<Rightarrow> map (List.map_filter toContainerEvent) seen)"
proof (cases "\<exists>m. i = MessageIn (Some m)")
  case True
  then obtain m where m: "i = MessageIn (Some m)" ..
  have "length seen - 1 < length seen" using assms by simp
  then show ?thesis
    by (cases "toContainerEvent m")
      (simp_all add: m note_message_def feed_select_def map_update map_filter_snoc Let_def map_update_id)
next
  case False
  then show ?thesis
    by (cases i rule: feed_input.exhaust) (auto simp: note_message_def feed_select_def split: option.splits feed_error.splits)
qed

lemma live_step_select: "live_inv lv \<Longrightarrow> live_inv (live_step lv (Select i))"
proof (cases "in_select (lv_hub lv)")
  case True
  assume inv: "live_inv lv"
  let ?h = "lv_hub lv" let ?g = "length (hub_runs ?h) - 1"
  let ?t = "feed_select (run_cancelled (run_of ?h ?g)) i"
  have hub: "hub_inv ?h" and logs: "map run_log (hub_runs ?h) = map (List.map_filter toContainerEvent) (lv_seen lv)"
    and ready: "list_all (\<lambda>r. run_phase r \<noteq> Subscribing \<longrightarrow> run_ready r) (hub_runs ?h)"
    using inv by (simp_all add: live_inv_def)
  have run: "hub_running ?h" "run_phase (run_of ?h ?g) = Streaming" "hub_fan ?h = None"
    using True by (simp_all add: in_select_def)
  note cur = current_run [OF hub run(1)]
  have len: "length (hub_runs ?h) = length (lv_seen lv)" using logs by (rule map_eq_imp_length_eq)
  with cur have seen: "lv_seen lv \<noteq> []" by auto
  have g: "run_ready (run_of ?h ?g)" "map (List.map_filter toContainerEvent) (lv_seen lv) ! ?g = run_log (run_of ?h ?g)"
    using ready cur run(2) by (auto simp: list_all_length simp flip: logs)
  have step: "live_step lv (Select i) = \<lparr>lv_hub = feed_turn_of ?t ?h, lv_seen = note_message i (lv_seen lv)\<rparr>"
    using True by (simp add: Let_def)
  have hub': "hub_inv (feed_turn_of ?t ?h)"
    using hub hub_step_inv by (auto simp: feed_turn_of_def simp del: hub_step.simps split: feed_turn.split)
  show ?thesis
  proof (cases ?t)
    case Skip
    with hub' logs ready note_message_map [OF seen, of i "run_cancelled (run_of ?h ?g)"] show ?thesis
      unfolding step live_inv_def by (simp add: feed_turn_of_def)
  next
    case (Forward ev)
    have turn: "hub_runs (feed_turn_of ?t ?h) = (hub_runs ?h)[?g := (run_of ?h ?g)\<lparr>run_log := run_log (run_of ?h ?g) @ [ev]\<rparr>]"
      using run Forward by (simp add: feed_turn_of_def fanout_begin_def Let_def)
    have "map run_log (hub_runs (feed_turn_of ?t ?h)) = (map run_log (hub_runs ?h))[?g := run_log (run_of ?h ?g) @ [ev]]"
      unfolding turn by (simp add: map_update)
    moreover have "list_all (\<lambda>r. run_phase r \<noteq> Subscribing \<longrightarrow> run_ready r) (hub_runs (feed_turn_of ?t ?h))"
      unfolding turn using ready g(1) by (auto simp: list_all_length nth_list_update)
    ultimately show ?thesis
      unfolding step live_inv_def
      using hub' note_message_map [OF seen, of i "run_cancelled (run_of ?h ?g)"] Forward g cur by (simp add: logs len Let_def)
  next
    case (Return r)
    have "map run_log (hub_runs (feed_turn_of ?t ?h)) = map run_log (hub_runs ?h)"
      "list_all (\<lambda>r. run_phase r \<noteq> Subscribing \<longrightarrow> run_ready r) (hub_runs (feed_turn_of ?t ?h))"
      using Return ready g(1) cur by (auto simp: feed_turn_of_def run_end_def Let_def map_update_same list_all_length nth_list_update)
    with hub' logs note_message_map [OF seen, of i "run_cancelled (run_of ?h ?g)"] Return show ?thesis
      unfolding step live_inv_def by simp
  qed
qed simp

interpretation live_sys: invariant_system live_step "\<lambda>lv. lv = live_start" live_inv
proof
  fix lv e
  assume inv: "live_inv lv"
  show "live_inv (live_step lv e)"
  proof (cases e)
    case (Client c)
    with inv live_step_client [OF inv, of c] show ?thesis by (cases "client_side c") (simp_all del: hub_step.simps)
  qed (use inv live_step_ready live_step_select in \<open>simp_all del: live_step.simps\<close>)
qed (use newEventHub_inv in \<open>auto simp: live_inv_def live_start_def newEventHub_def\<close>)

text \<open>
  C23: from the Engine to the clients.  Under every interleaving of the feed with the clients,
  what a subscriber has been given is an unbroken initial segment of the allowlisted projection
  of the messages its run has taken from the Engine since it joined, and all of it while it is
  attached and no fan-out is under way: nothing else the Engine sends reaches it, and every
  event it is given bears one of the five names.  The subscription of a run counts as live
  before the run can end, even where the Engine could not be reached.
\<close>

theorem clients_see_the_feed:
  assumes "lv = foldl live_step live_start es" and "i < length (hub_members (lv_hub lv))"
  shows "prefix (received (member (lv_hub lv) i))
       (drop (sub_from (member (lv_hub lv) i))
         (List.map_filter toContainerEvent (lv_seen lv ! sub_run (member (lv_hub lv) i)))) \<and>
     (i \<in> set (hub_subs (lv_hub lv)) \<and> hub_fan (lv_hub lv) = None \<longrightarrow>
        received (member (lv_hub lv) i) = drop (sub_from (member (lv_hub lv) i))
          (List.map_filter toContainerEvent (lv_seen lv ! sub_run (member (lv_hub lv) i)))) \<and>
     list_all (\<lambda>ev. ce_event ev \<in> {''health_status'', ''die'', ''start'', ''stop'', ''oom''}) (received (member (lv_hub lv) i)) \<and>
     (run_failed (run_of (lv_hub lv) (sub_run (member (lv_hub lv) i))) \<longrightarrow>
        run_ready (run_of (lv_hub lv) (sub_run (member (lv_hub lv) i))))"
proof -
  have inv: "live_inv lv" unfolding assms(1) by (rule live_sys.start_run_inv) (rule refl)
  let ?s = "member (lv_hub lv) i" and ?ms = "List.map_filter toContainerEvent (lv_seen lv ! sub_run (member (lv_hub lv) i))"
  have hub: "hub_inv (lv_hub lv)" using inv by (simp add: live_inv_def)
  have r: "sub_run ?s < length (hub_runs (lv_hub lv))"
    using hub_invD(2) [OF hub] assms(2) by (simp add: lists_inv_def)
  have len: "length (hub_runs (lv_hub lv)) = length (lv_seen lv)"
    using inv by (auto simp: live_inv_def dest: map_eq_imp_length_eq)
  have log: "run_log (run_of (lv_hub lv) (sub_run ?s)) = ?ms"
  proof -
    have "map run_log (hub_runs (lv_hub lv)) ! sub_run ?s = map (List.map_filter toContainerEvent) (lv_seen lv) ! sub_run ?s"
      using inv by (simp add: live_inv_def)
    with r len show ?thesis by simp
  qed
  have sub: "sub_inv (lv_hub lv) i" by (rule hub_invD(3) [OF hub assms(2)])
  have pre: "prefix (received ?s) (drop (sub_from ?s) ?ms)"
    using sub by (simp add: sub_inv_def owed_def log)
  have "ce_event ev \<in> {''health_status'', ''die'', ''start'', ''stop'', ''oom''}" if "ev \<in> set (received ?s)" for ev
  proof -
    have "ev \<in> set ?ms" using that pre by (meson in_set_dropD set_mono_prefix subsetD)
    then obtain m where "toContainerEvent m = Some ev" by (auto simp: List.map_filter_def)
    then show ?thesis
      by (cases "em_action m") (auto simp: toContainerEvent_def eventHealthStatus_def split: if_splits)
  qed
  moreover have "run_failed (run_of (lv_hub lv) (sub_run ?s)) \<Longrightarrow> run_ready (run_of (lv_hub lv) (sub_run ?s))"
    using inv r hub_invD(1) [OF hub] by (auto simp: live_inv_def list_all_length shape_inv_def run_inv_def)
  moreover have "received ?s = drop (sub_from ?s) ?ms" if "i \<in> set (hub_subs (lv_hub lv))" "hub_fan (lv_hub lv) = None"
    using sub that by (simp add: sub_inv_def owed_def log resting_def dropping_def)
  ultimately show ?thesis using pre by (simp add: list_all_iff)
qed

definition demo_message :: "e_action \<Rightarrow> e_message" where
  "demo_message a = \<lparr>em_is_container = True, em_action = a, em_actor_id = ''c1'', em_attributes = [], em_time = 0, em_time_nano = 0\<rparr>"

definition demo_live :: "live_event list" where
  "demo_live = [Client Attach, Subscribed, Client (AttachReady 0), Select (MessageIn (Some (demo_message ActStart))),
     Client FanoutFeed, Client FanoutFeed, Select (MessageIn (Some (demo_message (OtherAction ''exec_create: secret'')))),
     Select (MessageIn (Some (demo_message ActDie))), Client FanoutFeed, Client FanoutFeed, Select (ErrorIn (Some StreamEOF)),
     Client (CloseFailed 0), Client (CloseTorn 0)]"

lemma clients_see_the_feed_witness:
  "map ce_event (received (member (lv_hub (foldl live_step live_start demo_live)) 0)) = [''start'', ''die''] \<and>
   run_failed (run_of (lv_hub (foldl live_step live_start demo_live)) 0) \<and>
   run_ready (run_of (lv_hub (foldl live_step live_start demo_live)) 0)"
proof -
  have "0 < length (hub_members (lv_hub (foldl live_step live_start demo_live)))"
    "sub_run (member (lv_hub (foldl live_step live_start demo_live)) 0) = 0"
    "run_failed (run_of (lv_hub (foldl live_step live_start demo_live)) 0)"
    "map ce_event (received (member (lv_hub (foldl live_step live_start demo_live)) 0)) = [''start'', ''die'']"
    by code_simp+
  with clients_see_the_feed [OF refl this(1)] show ?thesis by simp
qed

end
