(* ===== verification/Agent.thy ===== *)
theory Agent
  imports Guarantees EventStream
begin

section \<open>The agent as a whole\<close>

text \<open>
  The two streaming handlers as handlers of the route table, so that the table has no parameter
  left, and runs of the whole agent: requests, and the store operations of the pruner and of the
  operator's commands, in any order, with anything between two accesses of one request.
\<close>

subsection \<open>The streaming handlers in the table\<close>

text \<open>A machine driven by a list of labels, of which those that are not enabled do nothing.\<close>

definition drive :: "('l \<Rightarrow> 's \<Rightarrow> 's option) \<Rightarrow> 's \<Rightarrow> 'l list \<Rightarrow> 's" where
  "drive step = foldl (\<lambda>s l. case step l s of None \<Rightarrow> s | Some s' \<Rightarrow> s')"

text \<open>
  What a stream meets: the budget it finds, whether its peer has left already, and what happens
  around it before and after the Engine's answer to its first call.
\<close>

record stream_fate =
  sf_budget :: streamBudget
  sf_gone :: bool
  sf_log_before :: "log_label list"
  sf_log_after :: "log_label list"
  sf_event_before :: "event_label list"
  sf_event_after :: "event_label list"

fun first_reply :: "sse_chunk list \<Rightarrow> body" where
  "first_reply [] = NoBody"
| "first_reply (Reply r # cs) = rs_body r"
| "first_reply (c # cs) = first_reply cs"

text \<open>
  What has been written so far, as a response; the frames of a stream are not in the body.  A
  handler that returns without a status leaves it to net/http to send a 200 with the header map.
\<close>

definition written :: "sse_writer \<Rightarrow> response" where
  "written w = \<lparr>rs_code = (case sw_status w of None \<Rightarrow> 200 | Some c \<Rightarrow> c), rs_headers = (case sw_status w of None \<Rightarrow> sw_headers w | Some c \<Rightarrow> sw_sent w),
     rs_body = first_reply (sw_out w)\<rparr>"

fun of_beat :: "log_label \<Rightarrow> bool" where
  "of_beat (LBeat b) \<longleftrightarrow> True"
| "of_beat _ \<longleftrightarrow> False"

definition docker_failure :: "docker_error \<Rightarrow> go_error" where
  "docker_failure e = \<lparr>ge_canceled = False, ge_closed = False, ge_text = [], ge_docker = e\<rparr>"

text \<open>An Engine call that is refused ends the client's call at once, before any line.\<close>

definition handleStreamContainerLogs ::
  "('w, 'l) server \<Rightarrow> (request \<Rightarrow> env \<Rightarrow> stream_fate) \<Rightarrow> ('w, 'l) handler" where
  "handleStreamContainerLogs sv fate rq env cx w =
     (let ft = fate rq env
      in case openLogStream sv rq cx (sf_budget ft) of
          (Inl resp, b) \<Rightarrow> (resp, cx, w)
        | (Inr (dev, ref, q), b) \<Rightarrow>
            (let (opened, w1) = on_engine (open_logs (sv_engine sv) ref q True) w;
                 labels = (case opened of
                     Inl e \<Rightarrow> filter of_beat (sf_log_before ft) @ LEngineEnds (Some (docker_failure e)) # sf_log_after ft
                   | Inr st \<Rightarrow> sf_log_before ft @ sf_log_after ft)
             in (written (st_w (lg_st (drive (log_step dev) (log_start (sf_gone ft)) labels))), cx, w1)))"

fun of_listing :: "event_label \<Rightarrow> bool" where
  "of_listing (EListed r) \<longleftrightarrow> True"
| "of_listing _ \<longleftrightarrow> False"

definition handleEventStream ::
  "('w, 'l) server \<Rightarrow> (request \<Rightarrow> env \<Rightarrow> stream_fate) \<Rightarrow> ('w, 'l) handler" where
  "handleEventStream sv fate rq env cx w =
     (let ft = fate rq env
      in case openEventStream sv cx of
          Inl resp \<Rightarrow> (resp, cx, w)
        | Inr dev \<Rightarrow>
            (let s = drive (event_step dev) (event_start (sf_gone ft)) (filter (Not \<circ> of_listing) (sf_event_before ft))
             in if ev_pc s \<noteq> EStates
                then (written (st_w (ev_st (drive (event_step dev) s (filter (Not \<circ> of_listing) (sf_event_after ft))))), cx, w)
                else (let (states, w1) = on_engine (ContainerStates (sv_engine sv)) w
                      in (written (st_w (ev_st (drive (event_step dev) s (EListed states # sf_event_after ft)))), cx, w1))))"

definition agent_streams ::
  "('w, 'l) server \<Rightarrow> (request \<Rightarrow> env \<Rightarrow> stream_fate) \<Rightarrow> ('w, 'l) stream_handlers" where
  "agent_streams sv fate = \<lparr>sh_logs = handleStreamContainerLogs sv fate, sh_events = handleEventStream sv fate\<rparr>"

context streaming
begin

lemma drive_kept:
  assumes "good s" and "P (view s)" and "\<And>st st'. stream_move comment asks dev st st' \<Longrightarrow> P st \<Longrightarrow> P st'"
  shows "good (drive step s ls) \<and> P (view (drive step s ls))"
  using assms(1,2)
proof (induction ls arbitrary: s)
  case Nil
  then show ?case by (simp add: drive_def)
next
  case (Cons l ls)
  show ?case
  proof (cases "step l s")
    case None
    with Cons show ?thesis by (simp add: drive_def)
  next
    case (Some s')
    have "good s'" using Some Cons.prems(1) by (rule keeps)
    moreover have "P (view s')" using moves [OF Some Cons.prems(1)] Cons.prems(2) by (rule assms(3))
    ultimately have "good (drive step s' ls) \<and> P (view (drive step s' ls))" by (rule Cons.IH)
    with Some show ?thesis by (simp add: drive_def)
  qed
qed

end

text \<open>However a stream goes, its writer has sent something coherent.\<close>

lemma log_drive_ok: "writer_ok (st_w (lg_st (drive (log_step dev) (log_start gone) ls)))"
  using log.drive_kept [OF log_start_teardown, of "\<lambda>st. writer_ok (st_w st)" gone dev ls]
  by (simp add: log_start_def launch_beat_def new_stream_def writer_ok_new writer_ok_move)

lemma event_drive_ok:
  "writer_ok (st_w (ev_st (drive (event_step dev) (drive (event_step dev) (event_start gone) ls) ls')))"
proof -
  have s: "event_teardown (drive (event_step dev) (event_start gone) ls) \<and>
      writer_ok (st_w (ev_st (drive (event_step dev) (event_start gone) ls)))"
    using ev.drive_kept [OF event_start_good(1), of "\<lambda>st. writer_ok (st_w st)" gone dev ls]
    by (simp add: event_start_def new_stream_def writer_ok_new writer_ok_move)
  with ev.drive_kept [of _ "\<lambda>st. writer_ok (st_w st)" dev ls'] show ?thesis by (simp add: writer_ok_move)
qed

lemma on_engine_quiet:
  assumes "on_engine f w = (r, w')" and "\<And>s. \<exists>ks. snd (snd (f s)) = snd s @ ks \<and> (\<forall>k\<in>set ks. call_target k = None)"
  shows "engine_quiet w w' \<and> w_ops w' = w_ops w \<and> w_db w' = w_db w"
proof -
  have "w' = w\<lparr>w_engine := snd (f (w_engine w))\<rparr>"
    using assms(1) by (auto simp: on_engine_def Let_def split: prod.splits)
  with assms(2) [of "w_engine w"] show ?thesis by (simp add: engine_quiet_def)
qed

lemma states_quiet:
  "\<exists>ks. snd (snd (ContainerStates api s)) = snd s @ ks \<and> (\<forall>k\<in>set ks. call_target k = None)"
  by (auto simp: ContainerStates_def read_call_simps split: prod.splits sum.splits)

lemma stream_handlers_read:
  "handleStreamContainerLogs sv fate rq env cx w = (resp, cx', w') \<Longrightarrow> engine_quiet w w' \<and> w_ops w' = w_ops w \<and> w_db w' = w_db w"
  "handleEventStream sv fate rq env cx w = (resp, cx', w') \<Longrightarrow> engine_quiet w w' \<and> w_ops w' = w_ops w \<and> w_db w' = w_db w"
  by (auto simp: handleStreamContainerLogs_def handleEventStream_def Let_def engine_quiet_refl
      dest: on_engine_quiet [OF _ open_logs_quiet] on_engine_quiet [OF _ states_quiet]
      split: sum.splits prod.splits if_splits)

interpretation log_stream_route: read_handler "handleStreamContainerLogs sv fate" for sv fate
  by unfold_locales (use stream_handlers_read(1) in blast)

interpretation event_stream_route: read_handler "handleEventStream sv fate" for sv fate
  by unfold_locales (use stream_handlers_read(2) in blast)

subsection \<open>What every request keeps of the tables\<close>

text \<open>
  Between two accesses of a request the rest of the agent is store operations, all of a kind
  \<open>ok\<close>.  A request mints no code and prunes nothing, and the only row it deletes is the
  device of a pairing that failed, which it has just created.
\<close>

definition good_env :: "(string \<Rightarrow> string) \<Rightarrow> (store_op \<Rightarrow> bool) \<Rightarrow> env \<Rightarrow> bool" where
  "good_env sha ok env \<longleftrightarrow>
     (\<forall>c. \<exists>os. (\<forall>d. ev_between env c d = foldl (store_step sha) d os) \<and> list_all ok (map snd os))"

fun request_op :: "store_op \<Rightarrow> bool" where
  "request_op (StDelete ident) \<longleftrightarrow> False"
| "request_op (StMint code name ttl) \<longleftrightarrow> False"
| "request_op StPruneCodes \<longleftrightarrow> False"
| "request_op (StPruneAudit age rows) \<longleftrightarrow> False"
| "request_op _ \<longleftrightarrow> True"

definition keeps_db :: "(db \<Rightarrow> bool) \<Rightarrow> env \<Rightarrow> ('w, 'l) handler \<Rightarrow> bool" where
  "keeps_db P env h \<longleftrightarrow> (\<forall>rq cx w. P (w_db w) \<longrightarrow> P (w_db (snd (snd (h rq env cx w)))))"

text \<open>Handlers that leave the tables alone.\<close>

definition same_db :: "('w, 'l) handler \<Rightarrow> bool" where
  "same_db h \<longleftrightarrow> (\<forall>rq env cx w. w_db (snd (snd (h rq env cx w))) = w_db w)"

lemma same_db_keeps: "same_db h \<Longrightarrow> keeps_db P env h"
  by (simp add: same_db_def keeps_db_def)

lemma read_reply_db: "w_db (snd (snd (read_reply f mk cx w))) = w_db w"
  by (simp add: read_reply_def on_engine_def Let_def split: prod.splits sum.splits)

lemma same_db_docker: "(\<And>c rq env cx w. w_db (snd (snd (h c rq env cx w))) = w_db w) \<Longrightarrow> same_db (requireDocker sv h)"
  by (simp add: same_db_def requireDocker_def split: option.split)

lemma same_db_reads:
  "same_db (handleListContainers sv)" "same_db (handleInspectContainer sv)" "same_db (handleListImages sv)"
  "same_db (handleInspectImage sv)" "same_db (handleListNetworks sv)" "same_db (handleInspectNetwork sv)"
  "same_db (handleListVolumes sv)" "same_db (handleInspectVolume sv)" "same_db (handleContainerLogs sv)"
  "same_db (handleStatus sv)"
  unfolding handleListContainers_def handleInspectContainer_def handleListImages_def handleInspectImage_def
    handleListNetworks_def handleInspectNetwork_def handleListVolumes_def handleInspectVolume_def handleContainerLogs_def
  by (auto intro!: same_db_docker simp: read_reply_db split: option.split)
    (simp add: same_db_def handleStatus_def)

lemma same_db_lifecycle: "same_db (handleLifecycle sv act)"
  unfolding same_db_def using handleLifecycle_effect(2) by (metis prod.collapse)

lemma same_db_streams: "same_db (handleStreamContainerLogs sv fate)" "same_db (handleEventStream sv fate)"
  unfolding same_db_def using stream_handlers_read by (metis prod.collapse)+

text \<open>
  A property of the tables that the operations \<open>ok\<close> keep: a request keeps it too, if those of a
  request are among them and the deletion of a device the tables do not hold is.
\<close>

locale store_frame =
  fixes P :: "db \<Rightarrow> bool" and sha :: "string \<Rightarrow> string" and ok :: "store_op \<Rightarrow> bool"
  assumes kept: "P d \<Longrightarrow> ok op \<Longrightarrow> P (store_step sha d (e, op))"
    and request: "request_op op \<Longrightarrow> ok op"
    and fresh: "P d \<Longrightarrow> find_device d j = None \<Longrightarrow> ok (StDelete j)"
begin

lemma kept_run: "P d \<Longrightarrow> list_all ok (map snd os) \<Longrightarrow> P (foldl (store_step sha) d os)"
proof (induction os arbitrary: d)
  case (Cons x os)
  obtain e op where "x = (e, op)" by fastforce
  with Cons kept [of d op e] show ?case by auto
qed simp

lemma between_kept: "good_env sha ok env \<Longrightarrow> P d \<Longrightarrow> P (ev_between env c d)"
  unfolding good_env_def by (metis kept_run)

lemma write_kept:
  assumes "store_write env c op f w = (r, w')" and "good_env sha ok env" and "P (w_db w)" and "ok op"
    and "\<And>se d. snd (f se d) = store_step sha d (se, op)"
  shows "P (w_db w')"
  using store_write_fields(8) [OF assms(1)] between_kept [OF assms(2,3)] kept assms(4,5) by simp

lemma read_kept: "good_env sha ok env \<Longrightarrow> P (w_db w) \<Longrightarrow> P (w_db (snd (store_read env c f w)))"
  by (simp add: between_kept)

lemma audited_kept:
  fixes h :: "('w, 'l) handler"
  assumes "good_env sha ok env" and "keeps_db P env h"
  shows "keeps_db P env (audited entry h)"
  unfolding keeps_db_def
proof (intro allI impI)
  fix rq cx and w :: "('w, 'l) world"
  assume w: "P (w_db w)"
  obtain resp cx1 w1 where h: "h rq env (cx\<lparr>cx_audit := Some entry\<rparr>) w = (resp, cx1, w1)" by (metis prod.exhaust)
  with assms(2) w have w1: "P (w_db w1)" by (metis keeps_db_def snd_conv)
  define e where "e = (case cx_audit cx1 of None \<Rightarrow> entry | Some e \<Rightarrow> e)"
  obtain u w2 where s: "store_write env AtAudit (StAppend (audit_row_of cx e)) (\<lambda>se. AppendAudit se (audit_row_of cx e)) w1 = (u, w2)"
    by fastforce
  have "P (w_db w2)" by (rule write_kept [OF s assms(1) w1]) (simp_all add: request)
  with h s show "P (w_db (snd (snd (audited entry h rq env cx w))))"
    by (simp add: audited_def recordAudit_def e_def [symmetric])
qed

lemma op_kept: "keeps_db P env h \<Longrightarrow> keeps_db P env (requireOp sv op h)"
  by (simp add: keeps_db_def requireOp_def)

lemma limits_kept:
  assumes "keeps_db P env h"
  shows "keeps_db P env (withDeviceLimit sv h)" "keeps_db P env (withGlobalUnauthLimit sv h)"
    "keeps_db P env (withIPLimit sv t rl h)"
proof -
  have reg: "w_db (set_tier_registry t r v) = w_db v" for r v by (cases t) simp_all
  show "keeps_db P env (withDeviceLimit sv h)" "keeps_db P env (withGlobalUnauthLimit sv h)" "keeps_db P env (withIPLimit sv t rl h)"
    using assms unfolding keeps_db_def withDeviceLimit_def withGlobalUnauthLimit_def withIPLimit_def
    by (auto simp: Let_def reg split: option.split prod.split)
qed

lemma device_kept:
  fixes h :: "('w, 'l) handler"
  assumes "good_env sha ok env" and "keeps_db P env h"
  shows "keeps_db P env (requireDevice h)"
  unfolding keeps_db_def
proof (intro allI impI)
  fix rq cx and w :: "('w, 'l) world"
  assume w: "P (w_db w)"
  show "P (w_db (snd (snd (requireDevice h rq env cx w))))"
  proof (cases "rq_cert rq")
    case (Some n)
    obtain found w1 where r: "store_read env AtLookup (\<lambda>se. DeviceByCertSerial se (text16 n)) w = (found, w1)" by fastforce
    then have w1: "P (w_db w1)" using read_kept [OF assms(1) w] by (metis snd_conv)
    show ?thesis
    proof (cases found)
      case (Inr dv)
      obtain u w2 where t: "store_write env AtTouch (StTouch (dev_id dv)) (\<lambda>se. TouchDevice se (dev_id dv)) w1 = (u, w2)"
        by fastforce
      have "P (w_db w2)" by (rule write_kept [OF t assms(1) w1]) (simp_all add: request)
      with assms(2) w1 Some r t Inr show ?thesis
        by (simp add: requireDevice_def keeps_db_def del: store_read_eq)
    qed (use Some r w1 in \<open>simp add: requireDevice_def del: store_read_eq\<close>)
  qed (simp add: requireDevice_def w)
qed

lemma unpair_kept:
  assumes "good_env sha ok env"
  shows "keeps_db P env (handleUnpairSelf :: ('w, 'l) handler)"
  unfolding keeps_db_def
proof (intro allI impI)
  fix rq cx and w :: "('w, 'l) world"
  assume w: "P (w_db w)"
  show "P (w_db (snd (snd (handleUnpairSelf rq env cx w))))"
  proof (cases "cx_device cx")
    case (Some dv)
    obtain r w1 where s: "store_write env AtRevoke (StRevoke (dev_id dv)) (\<lambda>se. RevokeDevice se (dev_id dv)) w = (r, w1)"
      by fastforce
    have "P (w_db w1)" by (rule write_kept [OF s assms w]) (simp_all add: request)
    with Some s show ?thesis by (cases r) (simp_all add: handleUnpairSelf_def)
  qed (simp add: handleUnpairSelf_def w)
qed

lemma renewDevice_kept:
  assumes "good_env sha ok env" and "P (w_db w)"
  shows "P (w_db (snd (renewDevice sv env ident csr w)))"
proof (cases "IssueDeviceCert (sv_x509 sv) (ev_serial_rnd env) csr ident (ev_now env)")
  case (Inl e)
  with assms show ?thesis by (simp add: renewDevice_def)
next
  case (Inr p)
  obtain pem serial until where p: "p = (pem, serial, until)" by (cases p)
  obtain r1 w1 where s1: "store_write env AtRecord (StRecordCert ident serial (ev_now env) until)
      (\<lambda>se. RecordDeviceCert se ident serial (ev_now env) until) w = (r1, w1)" by fastforce
  have w1: "P (w_db w1)" by (rule write_kept [OF s1 assms]) (simp_all add: request)
  obtain r2 w2 where s2: "store_write env AtSupersede (StSupersede ident serial)
      (\<lambda>se. SupersedePriorCerts se ident serial) w1 = (r2, w2)" by fastforce
  have w2: "P (w_db w2)" by (rule write_kept [OF s2 assms(1) w1]) (simp_all add: request)
  show ?thesis
    using w1 w2 by (cases r1; cases r2) (simp_all add: renewDevice_def Inr p s1 s2)
qed

lemma pairDevice_kept:
  assumes env: "good_env sha ok env" and w: "P (w_db w)" and sha: "sv_sha sv = sha"
  shows "P (w_db (snd (pairDevice sv c env code csr w)))"
proof -
  obtain r1 w1 where s1: "store_write env AtCreate (StCreate (ev_device_rnd env) pendingDeviceName)
      (\<lambda>se. CreateDevice se (ev_device_rnd env) pendingDeviceName) w = (r1, w1)" by fastforce
  have w1: "P (w_db w1)" by (rule write_kept [OF s1 env w]) (simp_all add: request)
  show ?thesis
  proof (cases r1)
    case (Inl e)
    with w1 s1 show ?thesis by (simp add: pairDevice_def)
  next
    case (Inr dv)
    have "find_device (ev_between env AtCreate (w_db w)) (dev_id dv) = None"
      using store_write_fields(7) [OF s1] Inr by (auto simp: CreateDevice_def Let_def split: if_splits)
    with between_kept [OF env w] have other: "ok (StDelete (dev_id dv))" by (rule fresh)
    have gone: "P (w_db (deleteOrphanedDevice env (dev_id dv) v))" if "P (w_db v)" for v
    proof -
      obtain r v' where s: "store_write env AtRollback (StDelete (dev_id dv)) (\<lambda>se. DeleteDevice se (dev_id dv)) v = (r, v')"
        by fastforce
      have "P (w_db v')" by (rule write_kept [OF s env that]) (use other in simp_all)
      with s show ?thesis by (simp add: deleteOrphanedDevice_def)
    qed
    obtain r2 w2 where s2: "store_write env AtRedeem (StRedeem code (dev_id dv))
        (\<lambda>se. RedeemPairingCode (sv_sha sv) se code (dev_id dv)) w1 = (r2, w2)" by fastforce
    have w2: "P (w_db w2)" by (rule write_kept [OF s2 env w1]) (simp_all add: sha request)
    show ?thesis
    proof (cases r2)
      case (Inl e)
      with gone [OF w2] \<open>r1 = Inr dv\<close> show ?thesis by (simp add: pairDevice_def s1 s2)
    next
      case (Inr name)
      note r2 = this
      obtain r3 w3 where s3: "store_write env AtRename (StRename (dev_id dv) name)
          (\<lambda>se. RenameDevice se (dev_id dv) name) w2 = (r3, w3)" by fastforce
      have w3: "P (w_db w3)" by (rule write_kept [OF s3 env w2]) (simp_all add: request)
      show ?thesis
      proof (cases "isl r3 \<or> isl (IssueDeviceCert (sv_x509 sv) (ev_serial_rnd env) csr (dev_id dv) (ev_now env))")
        case True
        with gone [OF w3] \<open>r1 = Inr dv\<close> r2 show ?thesis
          by (cases r3) (auto simp: pairDevice_def s1 s2 s3 split: sum.split)
      next
        case False
        then obtain u pem serial until where r3: "r3 = Inr u"
          and cert: "IssueDeviceCert (sv_x509 sv) (ev_serial_rnd env) csr (dev_id dv) (ev_now env) = Inr (pem, serial, until)"
          by (metis isl_def prod_cases3 sum.exhaust)
        obtain r4 w4 where s4: "store_write env AtRecord (StRecordCert (dev_id dv) serial (ev_now env) until)
            (\<lambda>se. RecordDeviceCert se (dev_id dv) serial (ev_now env) until) w3 = (r4, w4)" by fastforce
        have w4: "P (w_db w4)" by (rule write_kept [OF s4 env w3]) (simp_all add: request)
        with gone [OF w4] \<open>r1 = Inr dv\<close> r2 r3 cert show ?thesis
          by (cases r4) (simp_all add: pairDevice_def s1 s2 s3 s4)
      qed
    qed
  qed
qed

lemma identity_kept:
  assumes "good_env sha ok env" and "sv_sha sv = sha"
  shows "keeps_db P env (handleRenew sv)" "keeps_db P env (handlePair sv)"
proof -
  have r: "P (w_db (snd (renewDevice sv env ident csr w)))" if "P (w_db w)" for ident csr w
    by (rule renewDevice_kept [OF assms(1) that])
  have p: "P (w_db (snd (pairDevice sv c env code csr w)))" if "P (w_db w)" for c code csr w
    by (rule pairDevice_kept [OF assms(1) that assms(2)])
  show "keeps_db P env (handleRenew sv)"
    unfolding keeps_db_def handleRenew_def
    using r by (auto split: option.split sum.split prod.split) (metis snd_conv)+
  show "keeps_db P env (handlePair sv)"
    unfolding keeps_db_def handlePair_def
    using p by (auto split: option.split sum.split prod.split pair_error.split) (metis snd_conv)+
qed

lemma with_audit_kept:
  assumes "good_env sha ok env" and "keeps_db P env h"
  shows "keeps_db P env (withAudit op h)"
  using audited_kept [OF assms] by (simp add: keeps_db_def withAudit_def)

lemma route_kept:
  assumes "good_env sha ok env"
  shows "keeps_db P env h \<Longrightarrow> keeps_db P env (rt_handler (route_read sv p h))"
    and "keeps_db P env h \<Longrightarrow> keeps_db P env (rt_handler (route_logs sv p h))"
    and "h = handleLifecycle sv act \<Longrightarrow> keeps_db P env (rt_handler (route_mutate sv meth p op h))"
    and "keeps_db P env h \<Longrightarrow> keeps_db P env (requireDevice (withDeviceLimit sv (withIdentityAudit name h)))"
  by (simp_all add: route_read_def route_logs_def route_mutate_def withIdentityAudit_def
      device_kept [OF assms] with_audit_kept [OF assms] limits_kept(1) op_kept audited_kept [OF assms] same_db_keeps [OF same_db_lifecycle])

lemma routes_kept:
  assumes "good_env sha ok env" and "sv_sha sv = sha"
  shows "list_all (\<lambda>r. keeps_db P env (rt_handler r)) (routes sv (agent_streams sv fate))"
proof -
  note rd = route_kept(1) [OF assms(1) same_db_keeps] and lg = route_kept(2) [OF assms(1) same_db_keeps]
    and act = route_kept(3) [OF assms(1)]
  note guarded = route_kept(4) [OF assms(1) identity_kept(1) [OF assms]] route_kept(4) [OF assms(1) unpair_kept [OF assms(1)]]
    rd [OF same_db_reads(1)] rd [OF same_db_reads(2)] rd [OF same_db_reads(3)] rd [OF same_db_reads(4)]
    rd [OF same_db_reads(5)] rd [OF same_db_reads(6)] rd [OF same_db_reads(7)] rd [OF same_db_reads(8)]
    lg [OF same_db_reads(9)] lg [OF same_db_streams(1)] rd [OF same_db_streams(2)]
    act [OF handleStartContainer_def] act [OF handleRestartContainer_def] act [OF handleStopContainer_def]
    act [OF handleKillContainer_def] act [OF handleRemoveContainer_def]
  have status: "keeps_db P env (withGlobalUnauthLimit sv (withIPLimit sv TierStatus (sv_statusLimit sv) (handleStatus sv)))"
    by (intro limits_kept same_db_keeps same_db_reads)
  have pair: "keeps_db P env (withGlobalUnauthLimit sv (withIPLimit sv TierPair (sv_pairLimit sv) (withPairAudit (handlePair sv))))"
    unfolding withPairAudit_def by (intro limits_kept audited_kept [OF assms(1)] identity_kept [OF assms])
  show ?thesis
    by (simp only: routes_def agent_streams_def list.pred_inject route.simps stream_handlers.simps simp_thms status pair guarded)
qed

lemma serve_kept:
  assumes "good_env sha ok env" and "sv_sha sv = sha" and "P (w_db w)"
  shows "P (w_db (snd (serve sv (agent_streams sv fate) rq env w)))"
proof (cases "find_route (routes sv (agent_streams sv fate)) rq")
  case (Some p)
  obtain r vs where p: "p = (r, vs)" by fastforce
  have "keeps_db P env (rt_handler r)"
    using routes_kept [OF assms(1,2), of fate] find_route_Some [OF Some [unfolded p]] by (auto simp: list_all_iff)
  with Some p assms(3) show ?thesis
    by (auto simp: serve_def Let_def keeps_db_def split: prod.split) (metis snd_conv)
qed (use assms(3) in \<open>simp add: serve_def\<close>)

end

subsection \<open>A revoked device and its certificates\<close>

definition owns :: "db \<Rightarrow> string \<Rightarrow> string \<Rightarrow> bool" where
  "owns d serial i \<longleftrightarrow> (\<exists>c. List.find (\<lambda>c. cr_serial c = serial) (db_certs d) = Some c \<and> cr_device_id c = i)"

lemma owns_same: "owns d s i \<Longrightarrow> db_certs d' = db_certs d \<Longrightarrow> owns d' s i"
  by (simp add: owns_def)

lemma find_append_Some: "List.find p xs = Some x \<Longrightarrow> List.find p (xs @ ys) = Some x"
  by (induction xs) (auto split: if_splits)

lemma find_map_same: "(\<And>x. p (f x) = p x) \<Longrightarrow> List.find p (map f xs) = map_option f (List.find p xs)"
  by (induction xs) auto

lemma find_filter_kept: "List.find p xs = Some x \<Longrightarrow> q x \<Longrightarrow> List.find p (filter q xs) = Some x"
  by (induction xs) (auto split: if_splits)

lemma owns_step:
  assumes "owns d s i" and "op \<noteq> StDelete i"
  shows "owns (store_step sha d (env, op)) s i"
proof -
  obtain c where c: "List.find (\<lambda>c. cr_serial c = s) (db_certs d) = Some c" "cr_device_id c = i"
    using assms(1) by (auto simp: owns_def)
  show ?thesis
  proof (cases op)
    case (StDelete j)
    with c assms(2) show ?thesis by (auto simp: DeleteDevice_def owns_def intro!: find_filter_kept)
  next
    case (StRecordCert j serial nb na)
    with c show ?thesis by (auto simp: RecordDeviceCert_def owns_def intro: find_append_Some)
  next
    case (StSupersede j keep)
    with c show ?thesis by (auto simp: SupersedePriorCerts_def owns_def find_map_same)
  qed (use assms(1) in \<open>auto simp: store_op_defs Let_def update_device_def split: option.splits intro: owns_same\<close>)
qed

text \<open>A device that stays revoked, some of whose certificates stay resolvable.\<close>

definition locked_out :: "string \<Rightarrow> int \<Rightarrow> string set \<Rightarrow> db \<Rightarrow> bool" where
  "locked_out i t S d \<longleftrightarrow> revoked_since d i t \<and> (\<forall>s\<in>S. owns d s i)"

abbreviation spares_device :: "string \<Rightarrow> store_op \<Rightarrow> bool" where
  "spares_device i \<equiv> \<lambda>op. op \<noteq> StDelete i"

interpretation lockout: store_frame "locked_out i t S" sha "spares_device i" for i t S sha
proof
  show "locked_out i t S (store_step sha d (e, op))" if "locked_out i t S d" "op \<noteq> StDelete i" for d op e
    using that by (auto simp: locked_out_def intro: revoked_since_step owns_step)
  show "StDelete j \<noteq> StDelete i" if "locked_out i t S d" "find_device d j = None" for d j
    using that by (auto simp: locked_out_def revoked_since_def)
qed auto

text \<open>The constraints of the schema, which every operation keeps.\<close>

interpretation schema: store_frame db_inv sha "\<lambda>op. True" for sha
  by unfold_locales (simp_all add: db_inv_def devices_inv_step codes_inv_step audit_inv_step)

text \<open>What the audit trail holds already, which only the pruner takes away.\<close>

fun keeps_trail :: "store_op \<Rightarrow> bool" where
  "keeps_trail (StPruneAudit age rows) \<longleftrightarrow> False"
| "keeps_trail _ \<longleftrightarrow> True"

lemma trail_step: "prefix rows (db_audit d) \<Longrightarrow> keeps_trail op \<Longrightarrow> prefix rows (db_audit (store_step sha d (e, op)))"
  by (cases op) (auto simp: store_op_defs update_device_def Let_def prefix_def split: option.splits)

interpretation trail: store_frame "\<lambda>d. prefix rows (db_audit d)" sha keeps_trail for rows sha
proof
  show "prefix rows (db_audit (store_step sha d (e, op)))" if "prefix rows (db_audit d)" "keeps_trail op" for d op e
    using that by (rule trail_step)
  show "keeps_trail op" if "request_op op" for op using that by (cases op) simp_all
qed simp

subsection \<open>Runs of the agent\<close>

text \<open>
  What happens to the agent, in the order it happens: a request, a store operation of the pruner or
  of an operator's command, and whatever the Engine does by itself.
\<close>

datatype 'w agent_event =
    Request request env
  | StoreRuns store_env store_op
  | EngineMoves "'w \<Rightarrow> 'w"

fun agent_step ::
  "('w, 'l) server \<Rightarrow> (request \<Rightarrow> env \<Rightarrow> stream_fate) \<Rightarrow> ('w, 'l) world \<Rightarrow> 'w agent_event \<Rightarrow> ('w, 'l) world" where
  "agent_step sv fate w (Request rq env) = snd (serve sv (agent_streams sv fate) rq env w)"
| "agent_step sv fate w (StoreRuns se op) = w\<lparr>w_db := store_step (sv_sha sv) (w_db w) (se, op)\<rparr>"
| "agent_step sv fate w (EngineMoves f) = w\<lparr>w_engine := apfst f (w_engine w)\<rparr>"

text \<open>Every store operation of an event is of a kind.\<close>

fun only_runs :: "(string \<Rightarrow> string) \<Rightarrow> (store_op \<Rightarrow> bool) \<Rightarrow> 'w agent_event \<Rightarrow> bool" where
  "only_runs sha ok (Request rq env) = good_env sha ok env"
| "only_runs sha ok (StoreRuns se op) = ok op"
| "only_runs sha ok (EngineMoves f) = True"

context store_frame
begin

lemma agent_run_kept:
  assumes "P (w_db w)" and "list_all (only_runs sha ok) es" and "sv_sha sv = sha"
  shows "P (w_db (foldl (agent_step sv fate) w es))"
  using assms(1,2)
proof (induction es arbitrary: w)
  case (Cons e es)
  have "P (w_db (agent_step sv fate w e))"
  proof (cases e)
    case (Request rq env)
    with Cons.prems serve_kept [of env sv w fate rq] assms(3) show ?thesis by simp
  next
    case (StoreRuns se op)
    with Cons.prems kept [of "w_db w" op se] assms(3) show ?thesis by simp
  qed (use Cons.prems in simp)
  with Cons show ?case by simp
qed simp

end

lemma locked_out_caller:
  assumes "locked_out i t {text16 n} (w_db w)" and "good_env sha (spares_device i) env" and "rq_cert rq = Some n"
  shows "caller rq env w = None"
proof -
  have "locked_out i t {text16 n} (ev_between env AtLookup (w_db w))"
    using lockout.between_kept assms(1,2) by blast
  then show ?thesis
    using assms(3) by (auto simp: caller_def DeviceByCertSerial_def locked_out_def owns_def revoked_since_def
        IsRevoked_def scanDevice_def)
qed

text \<open>
  C3: a revoked device is locked out for good, at once and whatever else the agent does.  After
  a revocation has succeeded, in any run of requests by any callers (pairings, renewals and
  streams included), store operations and moves of the Engine, with anything going on between
  the accesses of one request, a request that presents a certificate the device held when it
  was revoked, on any path but status and pairing, is answered as to a stranger and makes no
  store write, no call to the Engine and no use of the device limiter.
\<close>

theorem revoked_device_locked_out:
  assumes "fst (RevokeDevice se i d) = Inr ()" and "w_db w0 = snd (RevokeDevice se i d)"
    and "owns (w_db w0) (text16 n) i" and "list_all (only_runs (sv_sha sv) (\<lambda>op. op \<noteq> StDelete i)) es"
    and "w = foldl (agent_step sv fate) w0 es"
    and "serve sv (agent_streams sv fate) rq env w = (resp, w')" and "good_env (sv_sha sv) (\<lambda>op. op \<noteq> StDelete i) env"
    and "rq_cert rq = Some n" and "rq_path rq \<notin> {[''v1'', ''status''], [''v1'', ''pair'']}"
  shows "resp = (if find_route (routes sv (agent_streams sv fate)) rq = None
      then mux_reply (routes sv (agent_streams sv fate)) rq
      else writeError 401 ''client certificate required'') \<and>
    w_ops w' = w_ops w \<and> w_engine w' = w_engine w \<and> w_device w' = w_device w"
proof -
  obtain t where "revoked_since (w_db w0) i t" using RevokeDevice_revokes [OF assms(1)] assms(2) by auto
  with assms(3) have "locked_out i t {text16 n} (w_db w0)" by (simp add: locked_out_def)
  then have "locked_out i t {text16 n} (w_db w)" unfolding assms(5) by (rule lockout.agent_run_kept) (use assms(4) in simp_all)
  then have "caller rq env w = None" using assms(7,8) by (rule locked_out_caller)
  with assms(6) show ?thesis using assms(9) by (rule stranger_refused)
qed

definition demo_fate :: stream_fate where
  "demo_fate = \<lparr>sf_budget = newStreamBudget 4 2, sf_gone = False, sf_log_before = [], sf_log_after = [],
     sf_event_before = [], sf_event_after = []\<rparr>"

definition demo_revoked :: db where
  "demo_revoked = snd (RevokeDevice (demo_senv 15) ''6162636465666768'' demo_paired)"

text \<open>After the revocation a stranger asks, and the operator renames the device.\<close>

definition demo_history :: "nat agent_event list" where
  "demo_history =
     [Request (demo_request ''POST'' [''v1'', ''containers'', ''web'', ''stop''] (Some 254)) (demo_rq_env 20),
      EngineMoves Suc, StoreRuns (demo_senv 30) (StRename ''6162636465666768'' ''old phone'')]"

lemma revoked_device_locked_out_witness:
  "fst (serve (demo_sv ModeFull) (agent_streams (demo_sv ModeFull) (\<lambda>rq env. demo_fate))
       (demo_request ''POST'' [''v1'', ''containers'', ''web'', ''stop''] (Some 255)) (demo_rq_env 40)
       (foldl (agent_step (demo_sv ModeFull) (\<lambda>rq env. demo_fate)) (demo_world demo_revoked) demo_history)) =
     writeError 401 ''client certificate required''"
proof -
  let ?rq = "demo_request ''POST'' [''v1'', ''containers'', ''web'', ''stop''] (Some 255)"
  let ?sh = "agent_streams (demo_sv ModeFull) (\<lambda>rq env. demo_fate)"
  define w where "w = foldl (agent_step (demo_sv ModeFull) (\<lambda>rq env. demo_fate)) (demo_world demo_revoked) demo_history"
  obtain resp w' where s: "serve (demo_sv ModeFull) ?sh ?rq (demo_rq_env 40) w = (resp, w')" by fastforce
  have r: "fst (RevokeDevice (demo_senv 15) ''6162636465666768'' demo_paired) = Inr ()" by code_simp
  have w0: "w_db (demo_world demo_revoked) = snd (RevokeDevice (demo_senv 15) ''6162636465666768'' demo_paired)"
    by (simp add: demo_world_def demo_revoked_def)
  have "case List.find (\<lambda>c. cr_serial c = text16 255) (db_certs demo_revoked) of None \<Rightarrow> False
      | Some c \<Rightarrow> cr_device_id c = ''6162636465666768''" by code_simp
  then have o: "owns (w_db (demo_world demo_revoked)) (text16 255) ''6162636465666768''"
    by (simp add: owns_def demo_world_def split: option.splits)
  have idle: "good_env sha ok (demo_rq_env t)" for sha ok t
    unfolding good_env_def by (intro allI exI [of _ "[]"]) (simp add: demo_rq_env_def)
  have es: "list_all (only_runs (sv_sha (demo_sv ModeFull)) (spares_device ''6162636465666768'')) demo_history"
    by (simp add: demo_history_def idle)
  from revoked_device_locked_out [OF r w0 o es w_def s idle]
  have "resp = writeError 401 ''client certificate required''"
    by (simp add: demo_stop_route) (simp add: demo_request_def)
  with s w_def show ?thesis by simp
qed

end
