(* ===== verification/Contract.thy ===== *)
theory Contract
  imports Agent
begin

section \<open>The types of the replies (docs/API.md, internal/httpapi)\<close>

text \<open>
  A reply is typed by its status and the kind of its body.  Each route of the table has the
  types of its successes and the list of its errors, every one a fixed status with a fixed
  message; the handlers and their guards are shown to stay within them.
\<close>

datatype body_type =
    TNone | TError | TStatus | TPair | TRenew | TContainers | TContainer | TImages | TImage | TNetworks | TNetwork
  | TVolumes | TVolume | TLogs | TMux

fun type_of_body :: "body \<Rightarrow> body_type" where
  "type_of_body NoBody = TNone"
| "type_of_body (ErrorBody m) = TError"
| "type_of_body (StatusBody x) = TStatus"
| "type_of_body (PairBody x) = TPair"
| "type_of_body (RenewBody x) = TRenew"
| "type_of_body (ContainersBody x) = TContainers"
| "type_of_body (ContainerBody x) = TContainer"
| "type_of_body (ImagesBody x) = TImages"
| "type_of_body (ImageBody x) = TImage"
| "type_of_body (NetworksBody x) = TNetworks"
| "type_of_body (NetworkBody x) = TNetwork"
| "type_of_body (VolumesBody x) = TVolumes"
| "type_of_body (VolumeBody x) = TVolume"
| "type_of_body (LogsBody x) = TLogs"
| "type_of_body MuxBody = TMux"

record reply_type =
  ry_success :: "(int \<times> body_type) list"
  ry_errors :: "(int \<times> string) list"
  ry_stream :: bool

definition json_headers :: "(string \<times> string) list" where
  "json_headers = [(''Content-Type'', ''application/json''), (''Cache-Control'', ''no-store''),
     (''X-Content-Type-Options'', ''nosniff'')]"

definition rate_limited :: "(int \<times> string)" where
  "rate_limited = (429, msgRateLimited)"

text \<open>
  A success has the JSON headers, or no header and no body; an error is its message under the
  JSON headers, and a 429 has Retry-After in front of them.  A reply of a stream may also have
  the headers of a stream, under which a reply without a body is all its frames; an error reply
  that comes after them keeps those it does not replace, or, when the 200 is out already, is in
  the body of the stream.
\<close>

definition stream_reply :: "response \<Rightarrow> reply_type \<Rightarrow> bool" where
  "stream_reply r t \<longleftrightarrow>
     (case rs_body r of
        NoBody \<Rightarrow> (rs_code r, TNone) \<in> set (ry_success t) \<and> rs_headers r = stream_head
      | ErrorBody m \<Rightarrow>
          (rs_code r, m) \<in> set (ry_errors t) \<and> rs_headers r = fold (\<lambda>(k, v). gm_put k v) json_headers stream_head \<or>
          rs_code r = 200 \<and> rs_headers r = stream_head \<and> m \<in> snd ` set (ry_errors t)
      | _ \<Rightarrow> False)"

definition has_type :: "response \<Rightarrow> reply_type \<Rightarrow> bool" where
  "has_type r t \<longleftrightarrow>
     ((rs_code r, type_of_body (rs_body r)) \<in> set (ry_success t) \<and>
        rs_headers r = (if rs_body r = NoBody then [] else json_headers)) \<or>
     (case rs_body r of
        ErrorBody m \<Rightarrow> (rs_code r, m) \<in> set (ry_errors t) \<and>
          (if (rs_code r, m) = rate_limited
           then tl (rs_headers r) = json_headers \<and> fst (hd (rs_headers r)) = headerRetryAfter
           else rs_headers r = json_headers)
      | _ \<Rightarrow> False) \<or>
     ry_stream t \<and> stream_reply r t"

definition guard_errors :: "(int \<times> string) list" where
  "guard_errors = [(401, msgClientCertRequired), rate_limited]"

definition read_errors :: "(int \<times> string) list" where
  "read_errors = [(400, msgInvalidRef), (404, msgNotFound), (409, msgContainerConflict), (502, msgEngineUnavailable)]"

definition policy_errors :: "(int \<times> string) list" where
  "policy_errors = [(403, msgPolicyForbidden)]"

definition lifecycle_errors :: "(int \<times> string) list" where
  "lifecycle_errors = [(403, msgSelfProtected), (403, msgProtectedContainer), (503, msgSelfUnknown)]"

definition identity_errors :: "(int \<times> string) list" where
  "identity_errors = [(400, ''malformed request body''), (413, ''request body too large''), (500, ''internal error'')]"

definition read_type :: "body_type \<Rightarrow> reply_type" where
  "read_type t = \<lparr>ry_success = [(200, t), (204, TNone)], ry_errors = guard_errors @ policy_errors @ read_errors, ry_stream = False\<rparr>"

definition logs_type :: reply_type where
  "logs_type = \<lparr>ry_success = [(200, TLogs), (204, TNone)],
     ry_errors = guard_errors @ policy_errors @ (400, msgInvalidSince) # read_errors, ry_stream = False\<rparr>"

definition mutate_type :: reply_type where
  "mutate_type = \<lparr>ry_success = [(204, TNone)], ry_errors = guard_errors @ policy_errors @ read_errors @ lifecycle_errors, ry_stream = False\<rparr>"

text \<open>Before a stream has begun it may fail like a read.\<close>

definition stream_type :: reply_type where
  "stream_type = \<lparr>ry_success = [(200, TNone), (204, TNone)],
     ry_errors = guard_errors @ policy_errors @ [(400, msgInvalidSince), (503, msgTooManyStreams),
       (503, msgTooManyDeviceStreams)] @ read_errors, ry_stream = True\<rparr>"

definition status_type :: reply_type where
  "status_type = \<lparr>ry_success = [(200, TStatus)], ry_errors = [rate_limited], ry_stream = False\<rparr>"

definition pair_type :: reply_type where
  "pair_type = \<lparr>ry_success = [(201, TPair)], ry_errors = rate_limited # (401, msgPairFailed) # identity_errors, ry_stream = False\<rparr>"

definition renew_type :: reply_type where
  "renew_type = \<lparr>ry_success = [(200, TRenew)], ry_errors = guard_errors @ (401, msgRenewFailed) # identity_errors, ry_stream = False\<rparr>"

definition unpair_type :: reply_type where
  "unpair_type = \<lparr>ry_success = [(204, TNone)], ry_errors = guard_errors @ [(500, ''internal error'')], ry_stream = False\<rparr>"

definition reply_types :: "(string \<times> reply_type) list" where
  "reply_types =
    [(''GET /v1/status'', status_type),
     (''POST /v1/pair'', pair_type),
     (''POST /v1/device/renew'', renew_type),
     (''DELETE /v1/device/self'', unpair_type),
     (''GET /v1/containers'', read_type TContainers),
     (''GET /v1/containers/{id}'', read_type TContainer),
     (''GET /v1/images'', read_type TImages),
     (''GET /v1/images/{id}'', read_type TImage),
     (''GET /v1/networks'', read_type TNetworks),
     (''GET /v1/networks/{id}'', read_type TNetwork),
     (''GET /v1/volumes'', read_type TVolumes),
     (''GET /v1/volumes/{name}'', read_type TVolume),
     (''GET /v1/containers/{id}/logs'', logs_type),
     (''GET /v1/containers/{id}/logs/stream'', stream_type),
     (''GET /v1/events/stream'', stream_type),
     (''POST /v1/containers/{id}/start'', mutate_type),
     (''POST /v1/containers/{id}/restart'', mutate_type),
     (''POST /v1/containers/{id}/stop'', mutate_type),
     (''POST /v1/containers/{id}/kill'', mutate_type),
     (''DELETE /v1/containers/{id}'', mutate_type)]"

lemmas reply_type_defs = read_type_def logs_type_def mutate_type_def stream_type_def status_type_def pair_type_def
  renew_type_def unpair_type_def guard_errors_def read_errors_def policy_errors_def lifecycle_errors_def identity_errors_def
  rate_limited_def

lemma has_type_error:
  "(c, m) \<in> set (ry_errors t) \<Longrightarrow> c \<noteq> 429 \<Longrightarrow> has_type (writeError c m) t"
  by (simp add: has_type_def writeError_def writeJSON_def rate_limited_def json_headers_def)

lemma has_type_throttled: "rate_limited \<in> set (ry_errors t) \<Longrightarrow> has_type (tooManyRequests rl) t"
  by (auto simp: has_type_def tooManyRequests_def Let_def writeError_def writeJSON_def rate_limited_def json_headers_def)

lemma has_type_json: "(c, type_of_body b) \<in> set (ry_success t) \<Longrightarrow> b \<noteq> NoBody \<Longrightarrow> has_type (writeJSON c b) t"
  by (simp add: has_type_def writeJSON_def json_headers_def)

lemma has_type_none: "(204, TNone) \<in> set (ry_success t) \<Longrightarrow> has_type noContent t"
  by (simp add: has_type_def noContent_def)

subsection \<open>Handlers of a type\<close>

locale typed_handler =
  fixes t :: reply_type and h :: "('w, 'l) handler"
  assumes reply: "cx_device cx \<noteq> None \<Longrightarrow> h rq env cx w = (resp, cx', w') \<Longrightarrow> has_type resp t"
begin

lemma gated: "(403, msgPolicyForbidden) \<in> set (ry_errors t) \<Longrightarrow> typed_handler t (requireOp sv op h)"
  by unfold_locales (use reply in \<open>fastforce simp: requireOp_def intro: has_type_error split: if_splits\<close>)

lemma recorded: "typed_handler t (audited e h)"
proof
  fix cx rq env w resp cx' w'
  assume d: "cx_device cx \<noteq> None" and a: "audited e h rq env cx w = (resp, cx', w')"
  from a obtain cx1 w1 where "h rq env (cx\<lparr>cx_audit := Some e\<rparr>) w = (resp, cx1, w1)"
    by (rule audited_cases)
  with reply [of "cx\<lparr>cx_audit := Some e\<rparr>"] d show "has_type resp t" by simp
qed

lemma guarded:
  assumes "requireDevice (withDeviceLimit sv h) rq env cx w = (resp, cx', w')" and "set guard_errors \<subseteq> set (ry_errors t)"
  shows "has_type resp t"
  using assms(1)
proof (cases rule: guarded_cases)
  case refused
  with assms(2) show ?thesis by (auto simp: guard_errors_def intro!: has_type_error)
next
  case (throttled dv)
  with assms(2) show ?thesis by (auto simp: guard_errors_def intro!: has_type_throttled)
next
  case (admitted dv w1)
  show ?thesis by (rule reply [OF _ admitted(3)]) simp
qed

end

lemma typed_with_audit: "typed_handler t h \<Longrightarrow> typed_handler t (withAudit op h)"
  unfolding typed_handler_def withAudit_def
  using typed_handler.recorded [unfolded typed_handler_def] by blast

lemma typed_with_identity_audit: "typed_handler t h \<Longrightarrow> typed_handler t (withIdentityAudit op h)"
  unfolding withIdentityAudit_def by (rule typed_handler.recorded)

text \<open>The errors of the client: those that any call may end in, and those of the lifecycle only.\<close>

lemma docker_error_typed:
  assumes "writeDockerError e cx = (resp, cx')" and "set read_errors \<subseteq> set (ry_errors t)" and "(204, TNone) \<in> set (ry_success t)"
    and "protective e \<Longrightarrow> set lifecycle_errors \<subseteq> set (ry_errors t)"
  shows "has_type resp t"
proof -
  have "resp = fst (writeDockerError e cx)" using assms(1) by simp
  with assms(2-4) show ?thesis
    by (cases e) (auto simp: writeDockerError_def read_errors_def lifecycle_errors_def protective_def
        intro!: has_type_error has_type_none)
qed

lemma read_reply_typed:
  assumes "\<And>s e s'. f s = (Inl e, s') \<Longrightarrow> \<not> protective e" and "read_reply f mk cx w = (resp, cx', w')"
    and "\<And>x. mk x \<noteq> NoBody" and "\<And>x. (200, type_of_body (mk x)) \<in> set (ry_success t)"
    and "set read_errors \<subseteq> set (ry_errors t)" and "(204, TNone) \<in> set (ry_success t)"
  shows "has_type resp t"
proof -
  obtain res e1 where f: "f (w_engine w) = (res, e1)" by (meson surj_pair)
  show ?thesis
  proof (cases res)
    case (Inl e)
    with f assms(2) have "writeDockerError e cx = (resp, cx')"
      by (auto simp: read_reply_def on_engine_def Let_def split: prod.splits)
    then show ?thesis using assms(1) [OF f [unfolded Inl]] assms(5,6) by (auto intro: docker_error_typed)
  next
    case (Inr x)
    with f assms(2) have "resp = writeJSON 200 (mk x)" by (simp add: read_reply_def on_engine_def Let_def)
    with assms(3,4) show ?thesis by (simp add: has_type_json)
  qed
qed

lemma typed_docker:
  assumes "\<And>c rq env cx w resp cx' w'. h c rq env cx w = (resp, cx', w') \<Longrightarrow> has_type resp t"
    and "(502, msgEngineUnavailable) \<in> set (ry_errors t)"
  shows "typed_handler t (requireDocker sv h)"
proof
  fix cx rq env w resp cx' w'
  assume "requireDocker sv h rq env cx w = (resp, cx', w')"
  with assms show "has_type resp t"
    by (auto simp: requireDocker_def intro: has_type_error split: option.splits)
qed

lemma reads_not_protective:
  "ListContainers api c all s = (Inl e, s') \<Longrightarrow> \<not> protective e"
  "InspectContainer api c ref s = (Inl e, s') \<Longrightarrow> \<not> protective e"
  "ListImages api s = (Inl e, s') \<Longrightarrow> \<not> protective e"
  "InspectImage api ref s = (Inl e, s') \<Longrightarrow> \<not> protective e"
  "ListNetworks api s = (Inl e, s') \<Longrightarrow> \<not> protective e"
  "InspectNetwork api ref s = (Inl e, s') \<Longrightarrow> \<not> protective e"
  "ListVolumes api s = (Inl e, s') \<Longrightarrow> \<not> protective e"
  "InspectVolume api ref s = (Inl e, s') \<Longrightarrow> \<not> protective e"
  by (auto simp: ListContainers_def InspectContainer_def ListImages_def InspectImage_def ListNetworks_def
      InspectNetwork_def ListVolumes_def InspectVolume_def ValidateRef_def Let_def protective_def [of ErrInvalidRef]
      split: prod.splits sum.splits if_splits)

lemma logs_not_protective:
  assumes "ContainerLogs order api ref o' s = (Inl e, s')"
  shows "\<not> protective e"
proof -
  have open_e: "\<not> protective e'" if "open_logs api ref o' False s = (Inl e', s1)" for e' s1
    using that by (auto simp: open_logs_def containerUsesTTY_def engineOptions_def ValidateRef_def Let_def protective_def [of ErrInvalidRef]
        protective_def [of ErrInvalidSince] split: prod.splits sum.splits if_splits option.splits)
  show ?thesis
    using assms open_e by (auto simp: ContainerLogs_def protective_def [of LogStreamFailure] split: prod.splits sum.splits option.splits)
qed

interpretation list_containers_t: typed_handler "read_type TContainers" "handleListContainers sv" for sv
  unfolding handleListContainers_def
  by (rule typed_docker, erule read_reply_typed [rotated]) (auto simp: reply_type_defs dest: reads_not_protective)

interpretation inspect_container_t: typed_handler "read_type TContainer" "handleInspectContainer sv" for sv
  unfolding handleInspectContainer_def
  by (rule typed_docker, erule read_reply_typed [rotated]) (auto simp: reply_type_defs dest: reads_not_protective)

interpretation list_images_t: typed_handler "read_type TImages" "handleListImages sv" for sv
  unfolding handleListImages_def
  by (rule typed_docker, erule read_reply_typed [rotated]) (auto simp: reply_type_defs dest: reads_not_protective)

interpretation inspect_image_t: typed_handler "read_type TImage" "handleInspectImage sv" for sv
  unfolding handleInspectImage_def
  by (rule typed_docker, erule read_reply_typed [rotated]) (auto simp: reply_type_defs dest: reads_not_protective)

interpretation list_networks_t: typed_handler "read_type TNetworks" "handleListNetworks sv" for sv
  unfolding handleListNetworks_def
  by (rule typed_docker, erule read_reply_typed [rotated]) (auto simp: reply_type_defs dest: reads_not_protective)

interpretation inspect_network_t: typed_handler "read_type TNetwork" "handleInspectNetwork sv" for sv
  unfolding handleInspectNetwork_def
  by (rule typed_docker, erule read_reply_typed [rotated]) (auto simp: reply_type_defs dest: reads_not_protective)

interpretation list_volumes_t: typed_handler "read_type TVolumes" "handleListVolumes sv" for sv
  unfolding handleListVolumes_def
  by (rule typed_docker, erule read_reply_typed [rotated]) (auto simp: reply_type_defs dest: reads_not_protective)

interpretation inspect_volume_t: typed_handler "read_type TVolume" "handleInspectVolume sv" for sv
  unfolding handleInspectVolume_def
  by (rule typed_docker, erule read_reply_typed [rotated]) (auto simp: reply_type_defs dest: reads_not_protective)

lemma container_logs_typed:
  assumes "(case sinceParam rq of
       None \<Rightarrow> (writeError 400 msgInvalidSince, cx, w)
     | Some since \<Rightarrow> read_reply (ContainerLogs (ev_order env) (sv_engine sv) (pathValue ''id'' cx)
             \<lparr>lq_tail = tailParam rq defaultHistoricalTail, lq_since = since\<rparr>) LogsBody cx w) = (resp, cx', w')"
  shows "has_type resp logs_type"
proof (cases "sinceParam rq")
  case None
  with assms show ?thesis by (auto simp: reply_type_defs intro: has_type_error)
next
  case (Some since)
  with assms have "read_reply (ContainerLogs (ev_order env) (sv_engine sv) (pathValue ''id'' cx)
      \<lparr>lq_tail = tailParam rq defaultHistoricalTail, lq_since = since\<rparr>) LogsBody cx w = (resp, cx', w')" by simp
  then show ?thesis
    by (rule read_reply_typed [rotated]) (auto simp: reply_type_defs dest: logs_not_protective)
qed

interpretation container_logs_t: typed_handler logs_type "handleContainerLogs sv" for sv
  unfolding handleContainerLogs_def
  by (rule typed_docker, erule container_logs_typed) (simp add: reply_type_defs)

interpretation lifecycle_t: typed_handler mutate_type "handleLifecycle sv act" for sv act
proof
  fix cx rq env w resp cx' w'
  assume a: "handleLifecycle sv act rq env cx w = (resp, cx', w')"
  show "has_type resp mutate_type"
  proof (cases "sv_docker sv")
    case None
    with a show ?thesis by (auto simp: handleLifecycle_def requireDocker_def reply_type_defs intro: has_type_error)
  next
    case (Some c)
    obtain res w1 where l: "on_engine (lifecycle (sv_engine sv) c act (pathValue ''id'' cx)) w = (res, w1)"
      by (meson surj_pair)
    show ?thesis
    proof (cases res)
      case None
      with a Some l show ?thesis
        by (auto simp: handleLifecycle_def requireDocker_def mutate_type_def intro: has_type_none)
    next
      case (Some e)
      with a l \<open>sv_docker sv = Some c\<close> have "writeDockerError e cx = (resp, cx')"
        by (simp add: handleLifecycle_def requireDocker_def Let_def split: prod.splits)
      then show ?thesis
        by (rule docker_error_typed) (auto simp: reply_type_defs)
    qed
  qed
qed

subsection \<open>Pairing, renewal, self-revocation, status\<close>

lemma decode_error_typed:
  assumes "set identity_errors \<subseteq> set (ry_errors t)"
  shows "has_type (decode_error e) t"
  using assms by (cases e) (auto simp: decode_error_def identity_errors_def intro!: has_type_error)

lemma handlePair_typed:
  assumes "handlePair sv rq env cx w = (resp, cx', w')"
  shows "has_type resp pair_type"
proof -
  have "resp \<in> {writeError 500 msgPairInternalError, writeError 401 msgPairFailed} \<or> (\<exists>e. resp = decode_error e) \<or>
      (\<exists>p. resp = writeJSON 201 (PairBody p))"
    using assms
    by (auto simp: handlePair_def decodePairRequest_def split: option.splits sum.splits prod.splits pair_error.splits)
  then show ?thesis
    by (auto simp: msgPairInternalError_def pair_type_def identity_errors_def
        intro!: has_type_error has_type_json decode_error_typed)
qed

interpretation renew_t: typed_handler renew_type "handleRenew sv" for sv
proof
  fix cx rq env w resp cx' w'
  assume "handleRenew sv rq env cx w = (resp, cx', w')"
  then have "resp \<in> {writeError 500 msgDeviceInternalError, writeError 401 msgRenewFailed} \<or> (\<exists>e. resp = decode_error e) \<or>
      (\<exists>p. resp = writeJSON 200 (RenewBody p))"
    by (auto simp: handleRenew_def decodeRenewRequest_def split: option.splits sum.splits prod.splits)
  then show "has_type resp renew_type"
    by (auto simp: msgDeviceInternalError_def renew_type_def identity_errors_def guard_errors_def
        intro!: has_type_error has_type_json decode_error_typed)
qed

interpretation unpair_t: typed_handler unpair_type handleUnpairSelf
proof
  fix cx rq env w resp cx' w'
  assume "handleUnpairSelf rq env cx w = (resp, cx', w')"
  then have "resp \<in> {writeError 500 msgDeviceInternalError, noContent}"
    by (auto simp: handleUnpairSelf_def split: option.splits sum.splits prod.splits)
  then show "has_type resp unpair_type"
    by (auto simp: msgDeviceInternalError_def unpair_type_def intro!: has_type_error has_type_none)
qed

lemma open_status_typed: "open_status sv rq env cx w = (resp, cx', w') \<Longrightarrow> has_type resp status_type"
  unfolding open_status_def
  by (erule open_limits)
    (auto simp: handleStatus_def status_type_def intro!: has_type_throttled has_type_json)

lemma open_pair_typed: "open_pair sv rq env cx w = (resp, cx', w') \<Longrightarrow> has_type resp pair_type"
proof -
  assume "open_pair sv rq env cx w = (resp, cx', w')"
  then show ?thesis
    unfolding open_pair_def
  proof (rule open_limits)
    fix w1
    assume "withPairAudit (handlePair sv) rq env cx w1 = (resp, cx', w')"
    then show ?thesis
      unfolding withPairAudit_def by (rule audited_cases) (erule handlePair_typed)
  qed (auto simp: pair_type_def intro!: has_type_throttled)
qed

subsection \<open>The streams\<close>

text \<open>
  Whatever a stream and its heartbeat do, what they have written is a reply of the type, and so
  is what the handlers answer before it begins.
\<close>

lemma docker_response_cases:
  assumes "\<not> protective e"
  obtains "docker_response e = noContent"
  | c m where "docker_response e = writeError c m" "(c, m) \<in> set read_errors"
proof (cases e)
  case ErrNotModified
  then show thesis by (intro that(1)) (simp add: docker_response_def writeDockerError_def)
qed (use assms that(2) in \<open>auto simp: docker_response_def writeDockerError_def protective_def read_errors_def\<close>)

lemma first_reply_cases: "first_reply cs = NoBody \<or> (\<exists>r. Reply r \<in> set cs \<and> first_reply cs = rs_body r)"
  by (induction cs rule: first_reply.induct) auto

lemma json_head: "fold (\<lambda>(k, v). gm_put k v) json_headers [] = json_headers"
  by (simp add: json_headers_def)

lemma stream_errors: "(c, m) \<in> set read_errors \<Longrightarrow> (c, m) \<in> set (ry_errors stream_type) \<and> c \<noteq> 429"
  by (auto simp: read_errors_def stream_type_def)

lemma reply_alone_typed:
  assumes "\<not> protective e" and "h \<in> {[], stream_head}"
  shows "has_type \<lparr>rs_code = rs_code (docker_response e),
      rs_headers = fold (\<lambda>(k, v). gm_put k v) (rs_headers (docker_response e)) h, rs_body = rs_body (docker_response e)\<rparr>
    stream_type"
  using assms(1)
proof (cases rule: docker_response_cases)
  case 1
  with assms(2) show ?thesis
    by (auto simp: noContent_def has_type_def stream_reply_def stream_type_def)
next
  case (2 c m)
  have hs: "rs_headers (writeError c m) = json_headers" by (simp add: writeError_def writeJSON_def json_headers_def)
  have b: "rs_code (writeError c m) = c" "rs_body (writeError c m) = ErrorBody m"
    by (simp_all add: writeError_def writeJSON_def)
  from assms(2) show ?thesis
    using stream_errors [OF 2(2)]
    by (auto simp: 2(1) hs b json_head has_type_def stream_reply_def rate_limited_def stream_type_def [THEN arg_cong [of _ _ ry_stream]])
qed

lemma stream_body_typed:
  assumes "\<forall>r. Reply r \<in> set cs \<longrightarrow> (\<exists>e. r = docker_response e \<and> \<not> protective e)"
  shows "has_type \<lparr>rs_code = 200, rs_headers = stream_head, rs_body = first_reply cs\<rparr> stream_type"
proof -
  consider "first_reply cs = NoBody" | c m where "first_reply cs = ErrorBody m" "(c, m) \<in> set (ry_errors stream_type)"
  proof (cases "first_reply cs = NoBody")
    case False
    with first_reply_cases [of cs] assms obtain e where e: "\<not> protective e" "first_reply cs = rs_body (docker_response e)"
      by blast
    from e(1) show thesis
    proof (cases rule: docker_response_cases)
      case 1
      with False e(2) show thesis by (simp add: noContent_def)
    next
      case (2 c m)
      then show thesis by (intro that(2)) (use e(2) stream_errors in \<open>auto simp: writeError_def writeJSON_def\<close>)
    qed
  qed (use that in blast)
  then show ?thesis
    by cases (force simp: has_type_def stream_reply_def stream_type_def)+
qed

lemma written_typed:
  assumes "writer_ok w"
  shows "has_type (written w) stream_type"
proof (cases "sw_status w")
  case None
  with assms show ?thesis
    by (auto simp: writer_ok_def written_def has_type_def stream_reply_def stream_type_def)
next
  case (Some c)
  with assms consider "c = 200" "sw_sent w = stream_head"
      "\<forall>r. Reply r \<in> set (sw_out w) \<longrightarrow> (\<exists>e. r = docker_response e \<and> \<not> protective e)"
    | e cs h where "sw_out w = Reply (docker_response e) # cs" "\<not> protective e" "c = rs_code (docker_response e)"
      "h \<in> {[], stream_head}" "sw_sent w = fold (\<lambda>(k, v). gm_put k v) (rs_headers (docker_response e)) h"
    by (auto simp: writer_ok_def)
  then show ?thesis
    by cases (use Some in \<open>simp_all add: written_def stream_body_typed reply_alone_typed\<close>)
qed

lemma open_streams_typed:
  "openLogStream sv rq cx b = (Inl resp, b') \<Longrightarrow> cx_device cx \<noteq> None \<Longrightarrow> has_type resp stream_type"
  "openEventStream sv cx = Inl resp \<Longrightarrow> cx_device cx \<noteq> None \<Longrightarrow> has_type resp stream_type"
  by (auto simp: openLogStream_def openEventStream_def reply_type_defs intro!: has_type_error
      split: option.splits prod.splits streamOutcome.splits)

interpretation log_stream_t: typed_handler stream_type "handleStreamContainerLogs sv fate" for sv fate
proof
  fix cx rq env w resp cx' w'
  assume "cx_device cx \<noteq> None" and "handleStreamContainerLogs sv fate rq env cx w = (resp, cx', w')"
  then show "has_type resp stream_type"
    by (auto simp: handleStreamContainerLogs_def Let_def intro!: written_typed log_drive_ok
        dest: open_streams_typed(1) split: prod.splits sum.splits)
qed

interpretation event_stream_t: typed_handler stream_type "handleEventStream sv fate" for sv fate
proof
  fix cx rq env w resp cx' w'
  assume "cx_device cx \<noteq> None" and "handleEventStream sv fate rq env cx w = (resp, cx', w')"
  then show "has_type resp stream_type"
    by (auto simp: handleEventStream_def Let_def intro!: written_typed event_drive_ok
        dest: open_streams_typed(2) split: prod.splits sum.splits if_splits)
qed

subsection \<open>The table\<close>

definition typed_route :: "('w, 'l) route \<Rightarrow> bool" where
  "typed_route r \<longleftrightarrow> (\<exists>t. map_of reply_types (route_text r) = Some t \<and>
     (\<forall>rq env vs w resp cx' w'. rt_handler r rq env (start_ctx vs) w = (resp, cx', w') \<longrightarrow> has_type resp t))"

lemma typed_routeI:
  assumes "map_of reply_types (route_text r) = Some t"
    and "\<And>rq env vs w resp cx' w'. rt_handler r rq env (start_ctx vs) w = (resp, cx', w') \<Longrightarrow> has_type resp t"
  shows "typed_route r"
  using assms unfolding typed_route_def by blast

lemma typed_route_guarded:
  assumes "map_of reply_types (route_text r) = Some t" and "rt_handler r = requireDevice (withDeviceLimit sv h)"
    and "typed_handler t h" and "set guard_errors \<subseteq> set (ry_errors t)"
  shows "typed_route r"
  by (rule typed_routeI [OF assms(1)]) (use assms(2-4) typed_handler.guarded in metis)

lemma typed_route_read:
  assumes "map_of reply_types (route_text (route_read sv p h)) = Some t" and "typed_handler t h"
    and "set (guard_errors @ policy_errors) \<subseteq> set (ry_errors t)"
  shows "typed_route (route_read sv p h)"
  by (rule typed_route_guarded [OF assms(1), where sv = sv and h = "requireOp sv OpRead h"])
    (use assms(2,3) in \<open>auto simp: route_read_def policy_errors_def intro!: typed_handler.gated\<close>)

lemma typed_route_logs:
  assumes "map_of reply_types (route_text (route_logs sv p h)) = Some t" and "typed_handler t h"
    and "set (guard_errors @ policy_errors) \<subseteq> set (ry_errors t)"
  shows "typed_route (route_logs sv p h)"
  by (rule typed_route_guarded [OF assms(1), where sv = sv and h = "requireOp sv OpLogs h"])
    (use assms(2,3) in \<open>auto simp: route_logs_def policy_errors_def intro!: typed_handler.gated\<close>)

lemma typed_route_mutate:
  assumes "map_of reply_types (route_text (route_mutate sv meth p op h)) = Some mutate_type" and "h = handleLifecycle sv act"
  shows "typed_route (route_mutate sv meth p op h)"
proof (rule typed_route_guarded [OF assms(1)])
  show "rt_handler (route_mutate sv meth p op h) = requireDevice (withDeviceLimit sv (withAudit op (requireOp sv op h)))"
    by (simp add: route_mutate_def)
  show "typed_handler mutate_type (withAudit op (requireOp sv op h))"
    unfolding assms(2) by (intro typed_with_audit lifecycle_t.gated) (simp add: reply_type_defs)
qed (simp add: reply_type_defs)

lemma typed_route_open:
  "typed_route \<lparr>rt_method = ''GET'', rt_path = [Lit ''v1'', Lit ''status''], rt_handler = open_status sv\<rparr>"
  "typed_route \<lparr>rt_method = ''POST'', rt_path = [Lit ''v1'', Lit ''pair''], rt_handler = open_pair sv\<rparr>"
  by (rule typed_routeI; auto simp: reply_types_def route_text_def dest: open_status_typed open_pair_typed)+

lemma typed_route_identity:
  "typed_route \<lparr>rt_method = ''POST'', rt_path = [Lit ''v1'', Lit ''device'', Lit ''renew''],
     rt_handler = guard_identity sv opRenew (handleRenew sv)\<rparr>"
  "typed_route \<lparr>rt_method = ''DELETE'', rt_path = [Lit ''v1'', Lit ''device'', Lit ''self''],
     rt_handler = guard_identity sv opUnpairSelf handleUnpairSelf\<rparr>"
  by (rule typed_route_guarded [OF _ _ typed_with_identity_audit [OF renew_t.typed_handler_axioms]]
        typed_route_guarded [OF _ _ typed_with_identity_audit [OF unpair_t.typed_handler_axioms]];
      simp add: guard_identity_def reply_types_def route_text_def reply_type_defs)+

lemmas route_texts = reply_types_def route_text_def route_read_def route_logs_def route_mutate_def

lemma routes_typed:
  "list_all typed_route (routes sv (agent_streams sv fate))"
proof -
  note ax = list_containers_t.typed_handler_axioms inspect_container_t.typed_handler_axioms list_images_t.typed_handler_axioms
    inspect_image_t.typed_handler_axioms list_networks_t.typed_handler_axioms inspect_network_t.typed_handler_axioms
    list_volumes_t.typed_handler_axioms inspect_volume_t.typed_handler_axioms container_logs_t.typed_handler_axioms
    log_stream_t.typed_handler_axioms event_stream_t.typed_handler_axioms
  note acts = handleStartContainer_def [THEN typed_route_mutate [rotated]] handleRestartContainer_def [THEN typed_route_mutate [rotated]]
    handleStopContainer_def [THEN typed_route_mutate [rotated]] handleKillContainer_def [THEN typed_route_mutate [rotated]]
    handleRemoveContainer_def [THEN typed_route_mutate [rotated]]
  show ?thesis
    unfolding routes_def agent_streams_def stream_handlers.simps open_status_def [symmetric] open_pair_def [symmetric] guard_identity_def [symmetric] list.pred_inject
  proof (intro conjI TrueI list.pred_inject(1) typed_route_open typed_route_identity)
  qed (rule typed_route_read [OF _ ax(1)] typed_route_read [OF _ ax(2)] typed_route_read [OF _ ax(3)]
      typed_route_read [OF _ ax(4)] typed_route_read [OF _ ax(5)] typed_route_read [OF _ ax(6)] typed_route_read [OF _ ax(7)]
      typed_route_read [OF _ ax(8)] typed_route_logs [OF _ ax(9)] typed_route_logs [OF _ ax(10)] typed_route_read [OF _ ax(11)]
      acts; simp add: route_texts reply_type_defs)+
qed

lemma agent_faults:
  "map_of reply_types p = Some t \<Longrightarrow> (500, m) \<in> set (ry_errors t) \<Longrightarrow>
     p \<in> {''POST /v1/pair'', ''POST /v1/device/renew'', ''DELETE /v1/device/self''}"
  by (auto simp: reply_types_def reply_type_defs split: if_splits)

lemma no_500_success: "map_of reply_types p = Some t \<Longrightarrow> (500, b) \<notin> set (ry_success t)"
  by (auto simp: reply_types_def reply_type_defs split: if_splits)

text \<open>
  C24: every reply has the type of its route.  Whatever the request, the store, the Engine and
  the limiters do, a reply is one of the route's declared successes with the body and the
  headers declared for it, or one of its declared errors, whose status and message are fixed
  texts, on the streams too, whatever they and their heartbeats do: there the one thing more is
  that an error can come after the headers of a stream, or after its 200.  Nothing of an Engine error, of a store error or of a request reaches an error reply.
  Only pairing, renewal and self-revocation can answer 500, the status that stands for a fault
  of the agent itself; what is registered nowhere gets the 404 or 405 of the mux and touches
  nothing.
\<close>

theorem replies_typed:
  assumes "serve sv (agent_streams sv fate) rq env w = (resp, w')"
  shows "case find_route (routes sv (agent_streams sv fate)) rq of
      None \<Rightarrow> resp = mux_reply (routes sv (agent_streams sv fate)) rq \<and> rs_code resp \<in> {404, 405} \<and> w' = w
    | Some (r, vs) \<Rightarrow>
        (\<exists>t. map_of reply_types (route_text r) = Some t \<and> has_type resp t) \<and>
        (rs_code resp = 500 \<longrightarrow> route_text r \<in> {''POST /v1/pair'', ''POST /v1/device/renew'', ''DELETE /v1/device/self''})"
  using assms
proof (cases rule: served_any)
  case unmatched
  then show ?thesis by (simp add: mux_reply_def)
next
  case (routed r vs cx')
  have "typed_route r"
    using routes_typed [of sv fate] find_route_Some [OF routed(1)] by (auto simp: list_all_iff)
  with routed(4) obtain t where t: "map_of reply_types (route_text r) = Some t" "has_type resp t"
    unfolding typed_route_def by blast
  have "\<exists>m. (500, m) \<in> set (ry_errors t)" if "rs_code resp = 500"
    using t that no_500_success [OF t(1)] by (auto simp: has_type_def stream_reply_def split: body.splits)
  with t routed(1) agent_faults [OF t(1)] show ?thesis by fastforce
qed

lemma replies_typed_witness:
  "\<exists>w'. serve (demo_sv ModeDefault) (agent_streams (demo_sv ModeDefault) (\<lambda>rq env. demo_fate))
       (demo_request ''POST'' [''v1'', ''containers'', ''web'', ''stop''] None)
       (demo_rq_env 20) (demo_world demo_paired) = (writeError 401 msgClientCertRequired, w') \<and>
     has_type (writeError 401 msgClientCertRequired) mutate_type \<and>
     \<not> has_type (writeError 401 ''unknown certificate serial'') mutate_type"
proof -
  let ?rq = "demo_request ''POST'' [''v1'', ''containers'', ''web'', ''stop''] None"
  obtain w' where s: "serve (demo_sv ModeDefault) (agent_streams (demo_sv ModeDefault) (\<lambda>rq env. demo_fate)) ?rq
      (demo_rq_env 20) (demo_world demo_paired) = (writeError 401 msgClientCertRequired, w')"
    by (simp add: serve_def demo_stop_route) (simp add: route_mutate_def requireDevice_def demo_request_def)
  have "has_type (writeError 401 msgClientCertRequired) mutate_type"
    using replies_typed [OF s]
    by (simp add: demo_stop_route) (simp add: reply_types_def route_text_def route_mutate_def)
  with s show ?thesis
    by (auto simp: has_type_def writeError_def writeJSON_def reply_type_defs msgClientCertRequired_def msgPolicyForbidden_def
        msgRateLimited_def msgInvalidRef_def msgNotFound_def msgContainerConflict_def msgEngineUnavailable_def
        msgSelfProtected_def msgProtectedContainer_def msgSelfUnknown_def)
qed

end
