(* ===== verification/Middleware.thy ===== *)
theory Middleware
  imports Contract
begin

section \<open>What a client sees and what is logged (internal/httpapi/middleware.go)\<close>

text \<open>
  The two middlewares around the mux, over the calls a handler makes on its ResponseWriter:
  the first status of a response is final, a write or a flush before it is a 200, and so is a
  return without any call.  A handler may panic after any of its calls.
\<close>

datatype http_call = WriteHeader int | WriteBytes string | FlushNow

record wire =
  wi_status :: "int option"
  wi_body :: string

definition informational :: "int \<Rightarrow> bool" where
  "informational c \<longleftrightarrow> 100 \<le> c \<and> c < 200 \<and> c \<noteq> 101"

definition commit :: "int \<Rightarrow> wire \<Rightarrow> wire" where
  "commit c w = (case wi_status w of None \<Rightarrow> w\<lparr>wi_status := Some c\<rparr> | Some x \<Rightarrow> w)"

fun net_http :: "wire \<Rightarrow> http_call \<Rightarrow> wire" where
  "net_http w (WriteHeader c) = (if informational c then w else commit c w)"
| "net_http w (WriteBytes b) = (let w' = commit 200 w in w'\<lparr>wi_body := wi_body w' @ b\<rparr>)"
| "net_http w FlushNow = commit 200 w"

definition sent :: "http_call list \<Rightarrow> wire" where
  "sent calls = commit 200 (foldl net_http \<lparr>wi_status = None, wi_body = []\<rparr> calls)"

subsection \<open>statusRecorder\<close>

record statusRecorder =
  rec_status :: int
  rec_wroteHeader :: bool

fun record_call :: "statusRecorder \<Rightarrow> http_call \<Rightarrow> statusRecorder" where
  "record_call r (WriteHeader c) = (if rec_wroteHeader r then r else \<lparr>rec_status = c, rec_wroteHeader = True\<rparr>)"
| "record_call r _ = r"

definition recorder :: statusRecorder where
  "recorder = \<lparr>rec_status = 200, rec_wroteHeader = False\<rparr>"

subsection \<open>The chain of routes()\<close>

record request_line =
  rl_method :: string
  rl_route :: string
  rl_status :: int
  rl_duration :: int

record panic_line =
  pl_method :: string
  pl_route :: string

type_synonym run = "http_call list \<times> bool"

text \<open>withRequestLog: the calls pass through, and the line is written if the handler returns.\<close>

definition withRequestLog :: "string \<Rightarrow> string \<Rightarrow> int \<Rightarrow> run \<Rightarrow> request_line option" where
  "withRequestLog method route duration = (\<lambda>(calls, panics).
     if panics then None
     else Some \<lparr>rl_method = method, rl_route = route, rl_status = rec_status (foldl record_call recorder calls),
       rl_duration = duration\<rparr>)"

text \<open>writeError on the writer: the status, then the JSON body.\<close>

definition error_calls :: "int \<Rightarrow> string \<Rightarrow> http_call list" where
  "error_calls code msg = [WriteHeader code, WriteBytes (''{\"error\":\"'' @ msg @ ''\"}'' @ [CHR 0x0A])]"

definition withRecovery :: "string \<Rightarrow> string \<Rightarrow> run \<Rightarrow> http_call list \<times> panic_line option" where
  "withRecovery method route = (\<lambda>(calls, panics).
     if panics then (calls @ error_calls 500 ''internal error'', Some \<lparr>pl_method = method, pl_route = route\<rparr>)
     else (calls, None))"

definition around ::
  "('w, 'l) route list \<Rightarrow> request \<Rightarrow> int \<Rightarrow> run \<Rightarrow> wire \<times> request_line option \<times> panic_line option" where
  "around rs rq duration r =
     (let route = withRoute rs rq; (calls, pl) = withRecovery (rq_method rq) route r
      in (sent calls, withRequestLog (rq_method rq) route duration r, pl))"

subsection \<open>The log tells what was sent\<close>

fun final_call :: "http_call \<Rightarrow> bool" where
  "final_call (WriteHeader c) \<longleftrightarrow> \<not> informational c"
| "final_call _ \<longleftrightarrow> True"

fun bodiless :: "http_call \<Rightarrow> bool" where
  "bodiless (WriteHeader c) \<longleftrightarrow> True"
| "bodiless _ \<longleftrightarrow> False"

lemma committed: "wi_status w = Some c \<Longrightarrow> wi_status (foldl net_http w calls) = Some c"
proof (induction calls arbitrary: w)
  case (Cons k ks)
  then show ?case by (cases k) (auto simp: commit_def Let_def)
qed simp

lemma recorder_stays: "rec_wroteHeader r \<Longrightarrow> foldl record_call r calls = r"
proof (induction calls)
  case (Cons k ks)
  then show ?case by (cases k) auto
qed simp

text \<open>A status that is set after the body has begun reaches the recorder but not the client.\<close>

definition header_first :: "http_call list \<Rightarrow> bool" where
  "header_first calls \<longleftrightarrow> list_all final_call calls \<and> (case calls of k # ks \<Rightarrow> bodiless k \<or> list_all (Not \<circ> bodiless) ks | [] \<Rightarrow> True)"

lemma no_header: "list_all (Not \<circ> bodiless) calls \<Longrightarrow> foldl record_call r calls = r"
proof (induction calls)
  case (Cons k ks)
  then show ?case by (cases k) auto
qed simp

lemma sent_status:
  assumes "header_first calls"
  shows "wi_status (sent calls) = Some (rec_status (foldl record_call recorder calls))"
proof (cases calls)
  case Nil
  then show ?thesis by (simp add: sent_def commit_def recorder_def)
next
  case (Cons k ks)
  show ?thesis
  proof (cases k)
    case (WriteHeader c)
    with assms Cons have "wi_status (foldl net_http (net_http \<lparr>wi_status = None, wi_body = []\<rparr> k) ks) = Some c"
      by (intro committed) (simp add: header_first_def commit_def)
    with WriteHeader Cons show ?thesis by (simp add: sent_def commit_def recorder_def recorder_stays)
  next
    case (WriteBytes b)
    with assms Cons have "wi_status (foldl net_http (net_http \<lparr>wi_status = None, wi_body = []\<rparr> k) ks) = Some 200"
      by (intro committed) (simp add: commit_def Let_def)
    with WriteBytes Cons assms show ?thesis by (simp add: sent_def commit_def recorder_def header_first_def no_header)
  next
    case FlushNow
    with assms Cons have "wi_status (foldl net_http (net_http \<lparr>wi_status = None, wi_body = []\<rparr> k) ks) = Some 200"
      by (intro committed) (simp add: commit_def)
    with FlushNow Cons assms show ?thesis by (simp add: sent_def commit_def recorder_def header_first_def no_header)
  qed
qed

lemma sent_recovered:
  assumes "list_all final_call calls"
  shows "wi_status (sent (calls @ error_calls 500 m)) = (if calls = [] then Some 500 else wi_status (sent calls))"
proof (cases calls)
  case Nil
  then show ?thesis by (simp add: sent_def error_calls_def commit_def informational_def Let_def)
next
  case (Cons k ks)
  with assms obtain c where "wi_status (net_http \<lparr>wi_status = None, wi_body = []\<rparr> k) = Some c"
    by (cases k) (auto simp: commit_def Let_def)
  then have "wi_status (foldl net_http (net_http \<lparr>wi_status = None, wi_body = []\<rparr> k) xs) = Some c" for xs
    by (rule committed)
  from this [of ks] this [of "ks @ error_calls 500 m"] show ?thesis by (simp add: sent_def Cons commit_def)
qed

lemma withRoute_bounded: "withRoute rs rq \<in> insert unmatchedRoute (route_text ` set rs)"
  by (auto simp: withRoute_def split: option.split dest: find_route_Some)

text \<open>
  The request log tells the truth about what it tells.  When a handler returns, exactly one
  line is written and its status is the one the client received; when it panics, no line is, the
  client gets the 500 if nothing had been sent, and keeps the status it already had otherwise.
  The route in either log line is one of the registered patterns or a fixed word, whatever path
  was asked for.
\<close>

theorem request_log_truthful:
  assumes "around rs rq duration (calls, panics) = (out, line, panic)" and "header_first calls"
  shows "(\<not> panics \<longrightarrow> panic = None \<and> (\<exists>l. line = Some l \<and> wi_status out = Some (rl_status l) \<and>
        rl_method l = rq_method rq \<and> rl_route l \<in> insert unmatchedRoute (route_text ` set rs))) \<and>
     (panics \<longrightarrow> line = None \<and> (\<exists>p. panic = Some p \<and> pl_route p \<in> insert unmatchedRoute (route_text ` set rs)) \<and>
        wi_status out = (if calls = [] then Some 500 else wi_status (sent calls)))"
proof -
  have "list_all final_call calls" using assms(2) by (simp add: header_first_def)
  then have "wi_status (sent (calls @ error_calls 500 ''internal error'')) =
      (if calls = [] then Some 500 else wi_status (sent calls))"
    by (rule sent_recovered)
  with assms(1) sent_status [OF assms(2)] withRoute_bounded [of rs rq] show ?thesis
    by (auto simp: around_def withRecovery_def withRequestLog_def Let_def)
qed

lemma request_log_truthful_witness:
  "\<exists>line. around (routes (demo_sv ModeDefault) quiet_streams) (demo_request ''GET'' [''v1'', ''status''] None) 5
      ([WriteHeader 429, WriteBytes ''x''], False) = (\<lparr>wi_status = Some 429, wi_body = ''x''\<rparr>, Some line, None) \<and>
    rl_status line = 429"
proof -
  let ?rs = "routes (demo_sv ModeDefault) quiet_streams" and ?rq = "demo_request ''GET'' [''v1'', ''status''] None"
  let ?run = "([WriteHeader 429, WriteBytes ''x''], False)"
  obtain out line panic where a: "around ?rs ?rq 5 ?run = (out, line, panic)" by (metis prod.exhaust)
  have "header_first [WriteHeader 429, WriteBytes ''x'']" by (simp add: header_first_def informational_def)
  from request_log_truthful [OF a this] obtain l where "line = Some l" "panic = None" "wi_status out = Some (rl_status l)"
    by auto
  moreover have "out = \<lparr>wi_status = Some 429, wi_body = ''x''\<rparr>"
    using a by (auto simp: around_def withRecovery_def Let_def sent_def commit_def informational_def)
  ultimately show ?thesis using a by auto
qed

end
