(* ===== verification/Daemon.thy ===== *)
theory Daemon
  imports Shutdown Logging Cli
begin

section \<open>The daemon from its configuration to its exit (cmd/devmon-agent/main.go, dockerx.New)\<close>

text \<open>
  What run does once no command is given: prepare the directories, open the sink, then serve.
  Every construction may fail; what has been acquired is released in reverse order on every
  way out, also inside the constructors.  What the constructions do to the disk is modelled in
  Schema and Identities, and how the three components end in Shutdown.
\<close>

definition stateDirMode :: int where "stateDirMode = 448"
definition exitOK :: int where "exitOK = 0"
definition exitFailure :: int where "exitFailure = 1"

datatype construction =
    SqlOpens | VerifiesAndMigrates | TightensPermissions | ReadsSchemaVersion | ConsistentIdentity | LoadsAuthority
  | LoadsServerCert | CreatesClient | EnginePings

datatype daemon_error = CreateStateDir string | SinkFailed sink_error | Failed construction | Component run_error

datatype resource = LogSink | SignalContext | Database | EngineConnection

datatype daemon_event = MkdirAll string int | Acquire resource | Release resource | ServingWith client

text \<open>
  The answers of the file system, of the constructions and of the Engine, and what the
  components return, in the order of their return.
\<close>

record daemon_env =
  de_mkdir :: "string \<Rightarrow> int \<Rightarrow> bool"
  de_ok :: "construction \<Rightarrow> bool"
  de_self :: "string \<Rightarrow> selfInfo"
  de_results :: "run_error option list"

type_synonym daemon_run = "daemon_event list \<times> daemon_error option"

definition abandon :: "daemon_error \<Rightarrow> daemon_run" where
  "abandon e = ([], Some e)"

definition holding :: "resource \<Rightarrow> daemon_run \<Rightarrow> daemon_run" where
  "holding r = (\<lambda>(tr, res). (Acquire r # tr @ [Release r], res))"

definition after :: "daemon_event \<Rightarrow> daemon_run \<Rightarrow> daemon_run" where
  "after e = (\<lambda>(tr, res). (e # tr, res))"

text \<open>prepareStateDir: the first directory that cannot be made ends the start.\<close>

fun make_dirs :: "daemon_env \<Rightarrow> string list \<Rightarrow> daemon_run \<Rightarrow> daemon_run" where
  "make_dirs env [] k = k"
| "make_dirs env (d # ds) k =
     (if \<not> de_mkdir env d stateDirMode then abandon (CreateStateDir d)
      else after (MkdirAll d stateDirMode) (make_dirs env ds k))"

definition prepareStateDir :: "daemon_env \<Rightarrow> config \<Rightarrow> daemon_run \<Rightarrow> daemon_run" where
  "prepareStateDir env cfg = make_dirs env [StateDir cfg, CertsDir cfg, LogsDir cfg]"

definition needs :: "daemon_env \<Rightarrow> construction \<Rightarrow> daemon_run \<Rightarrow> daemon_run" where
  "needs env c k = (if de_ok env c then k else abandon (Failed c))"

text \<open>state.Open closes the database it has opened when anything behind that fails.\<close>

definition state_Open :: "daemon_env \<Rightarrow> daemon_run \<Rightarrow> daemon_run" where
  "state_Open env k = needs env SqlOpens (holding Database
     (needs env VerifiesAndMigrates (needs env TightensPermissions k)))"

record options =
  op_Host :: string
  op_SelfContainer :: string
  op_ProtectedContainers :: "string list"

text \<open>dockerx.New closes the client of an Engine that does not answer the ping.\<close>

definition dockerx_New :: "daemon_env \<Rightarrow> options \<Rightarrow> (client \<Rightarrow> daemon_run) \<Rightarrow> daemon_run" where
  "dockerx_New env opts k = needs env CreatesClient (holding EngineConnection (needs env EnginePings
     (k \<lparr>c_self = de_self env (op_SelfContainer opts), c_protected = newProtectedSet (op_ProtectedContainers opts)\<rparr>)))"

definition serve_daemon :: "daemon_env \<Rightarrow> config \<Rightarrow> daemon_run" where
  "serve_daemon env cfg =
     state_Open env (needs env ReadsSchemaVersion (needs env ConsistentIdentity (needs env LoadsAuthority
       (needs env LoadsServerCert
         (dockerx_New env \<lparr>op_Host = DockerHost cfg, op_SelfContainer = SelfContainer cfg,
              op_ProtectedContainers = ProtectedContainers cfg\<rparr>
            (\<lambda>c. ([ServingWith c], map_option Component (runAll_result (de_results env)))))))))"

definition run_daemon :: "daemon_env \<Rightarrow> config \<Rightarrow> daemon_run" where
  "run_daemon env cfg = prepareStateDir env cfg
     (case NewSink (de_mkdir env) cfg of
        Inl e \<Rightarrow> abandon (SinkFailed e)
      | Inr sink \<Rightarrow> holding LogSink (holding SignalContext (serve_daemon env cfg)))"

definition daemon_exit :: "daemon_error option \<Rightarrow> int" where
  "daemon_exit r = (case r of None \<Rightarrow> exitOK | Some e \<Rightarrow> exitFailure)"

subsection \<open>Every way out\<close>

text \<open>The resources still held after a trace, innermost first; None when it is not bracketed.\<close>

fun held :: "resource list \<Rightarrow> daemon_event list \<Rightarrow> resource list option" where
  "held rs [] = Some rs"
| "held rs (Acquire r # es) = (if r \<in> set rs then None else held (r # rs) es)"
| "held rs (Release r # es) = (case rs of [] \<Rightarrow> None | q # qs \<Rightarrow> if q = r then held qs es else None)"
| "held rs (e # es) = held rs es"

lemma held_append: "held rs es = Some qs \<Longrightarrow> held rs (es @ fs) = held qs fs"
  by (induction rs es rule: held.induct) (auto split: list.splits if_splits)

text \<open>A run that, started with some resources held, ends with the same ones held.\<close>

definition balanced :: "resource list \<Rightarrow> daemon_run \<Rightarrow> bool" where
  "balanced rs p \<longleftrightarrow> held rs (fst p) = Some rs"

lemma balanced_intros:
  "balanced rs (abandon e)"
  "balanced rs k \<Longrightarrow> balanced rs (needs env x k)"
  "r \<notin> set rs \<Longrightarrow> balanced (r # rs) k \<Longrightarrow> balanced rs (holding r k)"
  "balanced rs k \<Longrightarrow> balanced rs (after (MkdirAll d m) k)"
  "balanced rs ([ServingWith c], res)"
  by (auto simp: balanced_def abandon_def needs_def holding_def after_def held_append split: prod.splits)

lemma make_dirs_balanced: "balanced rs k \<Longrightarrow> balanced rs (make_dirs env ds k)"
  by (induction ds) (auto intro!: balanced_intros)

lemma serving_simps:
  "ServingWith c \<in> set (fst (abandon e)) \<longleftrightarrow> False"
  "ServingWith c \<in> set (fst (needs env x k)) \<longleftrightarrow> de_ok env x \<and> ServingWith c \<in> set (fst k)"
  "ServingWith c \<in> set (fst (holding r k)) \<longleftrightarrow> ServingWith c \<in> set (fst k)"
  "ServingWith c \<in> set (fst (after (MkdirAll d m) k)) \<longleftrightarrow> ServingWith c \<in> set (fst k)"
  by (auto simp: abandon_def needs_def holding_def after_def split: prod.splits)

lemma result_simps:
  "snd (abandon e) = Some e"
  "snd (needs env x k) = (if de_ok env x then snd k else Some (Failed x))"
  "snd (holding r k) = snd k" "snd (after d k) = snd k"
  by (auto simp: abandon_def needs_def holding_def after_def split: prod.splits)

lemma serving_dirs:
  "ServingWith c \<in> set (fst (make_dirs env ds k)) \<longleftrightarrow> list_all (\<lambda>d. de_mkdir env d stateDirMode) ds \<and> ServingWith c \<in> set (fst k)"
  by (induction ds) (auto simp: serving_simps)

lemma result_dirs: "list_all (\<lambda>d. de_mkdir env d stateDirMode) ds \<Longrightarrow> snd (make_dirs env ds k) = snd k"
  by (induction ds) (auto simp: result_simps)

text \<open>
  C26: the daemon serves or it says why not.  On every way out each resource is acquired once,
  released once and in reverse order, so the store is closed after the Engine connection and
  before the log, whose file is the last to go; requests are served only when every construction
  has succeeded, with exactly the configured containers protected; and the exit code is 0 exactly
  when it has served and every component ended with no error but the cancellation.
\<close>

theorem daemon_unwinds:
  "held [] (fst (run_daemon env cfg)) = Some [] \<and>
   ((\<exists>c. ServingWith c \<in> set (fst (run_daemon env cfg))) \<longleftrightarrow>
      (\<forall>x. de_ok env x) \<and> (\<forall>d\<in>{StateDir cfg, CertsDir cfg, LogsDir cfg}. de_mkdir env d 448)) \<and>
   (\<forall>c. ServingWith c \<in> set (fst (run_daemon env cfg)) \<longrightarrow>
      c_protected c = newProtectedSet (ProtectedContainers cfg) \<and> c_self c = de_self env (SelfContainer cfg)) \<and>
   (daemon_exit (snd (run_daemon env cfg)) = 0 \<longleftrightarrow>
      (\<exists>c. ServingWith c \<in> set (fst (run_daemon env cfg))) \<and> set (de_results env) \<subseteq> {None, Some ContextCanceled})"
proof -
  have "balanced [] (run_daemon env cfg)"
    unfolding run_daemon_def prepareStateDir_def serve_daemon_def state_Open_def dockerx_New_def
    by (intro make_dirs_balanced) (auto intro!: balanced_intros split: sum.split)
  moreover have modes: "logsDirMode = stateDirMode" "stateDirMode = 448" by (simp_all add: logsDirMode_def stateDirMode_def)
  have all: "(\<forall>x. de_ok env x) \<longleftrightarrow> de_ok env SqlOpens \<and> de_ok env VerifiesAndMigrates \<and> de_ok env TightensPermissions \<and>
      de_ok env ReadsSchemaVersion \<and> de_ok env ConsistentIdentity \<and> de_ok env LoadsAuthority \<and> de_ok env LoadsServerCert \<and>
      de_ok env CreatesClient \<and> de_ok env EnginePings"
    by (metis construction.exhaust)
  have serving: "ServingWith c \<in> set (fst (run_daemon env cfg)) \<longleftrightarrow>
      (\<forall>x. de_ok env x) \<and> (\<forall>d\<in>{StateDir cfg, CertsDir cfg, LogsDir cfg}. de_mkdir env d 448) \<and>
      c = \<lparr>c_self = de_self env (SelfContainer cfg), c_protected = newProtectedSet (ProtectedContainers cfg)\<rparr>" for c
    unfolding all run_daemon_def prepareStateDir_def serve_daemon_def state_Open_def dockerx_New_def serving_dirs
    by (auto simp: serving_simps NewSink_def modes split: sum.splits if_splits)
  have "snd (run_daemon env cfg) = None \<longleftrightarrow> (\<forall>x. de_ok env x) \<and>
      (\<forall>d\<in>{StateDir cfg, CertsDir cfg, LogsDir cfg}. de_mkdir env d 448) \<and> runAll_result (de_results env) = None"
    unfolding all run_daemon_def prepareStateDir_def serve_daemon_def state_Open_def dockerx_New_def
    by (auto simp: result_simps NewSink_def modes)
  ultimately show ?thesis
    using serving by (auto simp: balanced_def daemon_exit_def exitOK_def exitFailure_def runAll_result_iff split: option.splits)
qed

definition demo_daemon :: "(construction \<Rightarrow> bool) \<Rightarrow> daemon_env" where
  "demo_daemon ok = \<lparr>de_mkdir = (\<lambda>d m. m = 448), de_ok = ok, de_self = (\<lambda>s. \<lparr>si_containerized = False, si_id = []\<rparr>),
     de_results = [Some ContextCanceled, None, Some ContextCanceled]\<rparr>"

definition demo_config :: config where
  "demo_config = projr (Load demo_scheme (demo_env []))"

lemma daemon_unwinds_witness:
  "daemon_exit (snd (run_daemon (demo_daemon (\<lambda>x. True)) demo_config)) = 0 \<and>
   daemon_exit (snd (run_daemon (demo_daemon (\<lambda>x. x \<noteq> EnginePings)) demo_config)) = 1 \<and>
   held [] (fst (run_daemon (demo_daemon (\<lambda>x. x \<noteq> EnginePings)) demo_config)) = Some []"
proof -
  note yes = daemon_unwinds [of "demo_daemon (\<lambda>x. True)" demo_config]
  note no = daemon_unwinds [of "demo_daemon (\<lambda>x. x \<noteq> EnginePings)" demo_config]
  have "daemon_exit (snd (run_daemon (demo_daemon (\<lambda>x. True)) demo_config)) = 0"
    using yes by (auto simp: demo_daemon_def)
  moreover have "daemon_exit (snd (run_daemon (demo_daemon (\<lambda>x. x \<noteq> EnginePings)) demo_config)) \<noteq> 0"
    using no by (auto simp: demo_daemon_def)
  ultimately show ?thesis
    using no by (auto simp: daemon_exit_def exitOK_def exitFailure_def split: option.splits)
qed

end
