(* ===== verification/AgentProps.thy ===== *)
theory AgentProps
  imports Agent Enrolment
begin

section \<open>What holds in every run of the agent\<close>

text \<open>
  The guarantees of the store carried to whole runs: requests of any callers, the operator's
  commands and the pruner in any order, and anything between two accesses of one request.
\<close>

subsection \<open>The tables\<close>

text \<open>
  C10: in every run of the agent from a fresh store the tables keep the constraints the rest
  relies on: one row per device, per certificate serial and per pairing code, no certificate
  without its device, a code is used exactly when somebody used it, and audit IDs only grow.
\<close>

theorem agent_tables_wellformed:
  assumes "w_db w0 = empty_db" and "list_all (only_runs (sv_sha sv) (\<lambda>op. True)) es"
    and "d = w_db (foldl (agent_step sv fate) w0 es)"
  shows "distinct (map dr_id (db_devices d)) \<and> distinct (map cr_serial (db_certs d)) \<and>
    cr_device_id ` set (db_certs d) \<subseteq> dr_id ` set (db_devices d) \<and>
    distinct (map pc_code_hash (db_codes d)) \<and>
    (\<forall>c\<in>set (db_codes d). pc_used_at c = None \<longleftrightarrow> pc_used_by c = None) \<and>
    sorted_wrt (<) (map ar_id (db_audit d))"
proof -
  have "db_inv empty_db"
    by (simp add: db_inv_def empty_db_def devices_inv_def codes_inv_def audit_inv_def)
  then have "db_inv d"
    unfolding assms(3) by (intro schema.agent_run_kept) (use assms(1,2) in simp_all)
  then show ?thesis
    by (auto simp: db_inv_def devices_inv_def codes_inv_def audit_inv_def)
qed

definition demo_day :: "nat agent_event list" where
  "demo_day = [StoreRuns (demo_senv 10) (StMint ''CODE'' ''phone'' 600000000000),
     Request (demo_request ''POST'' [''v1'', ''pair''] None) (demo_rq_env 60), EngineMoves Suc,
     StoreRuns (demo_senv 700) StPruneCodes]"

lemma idle_env: "good_env sha ok (demo_rq_env t)"
  unfolding good_env_def by (intro allI exI [of _ "[]"]) (simp add: demo_rq_env_def)

lemma agent_tables_wellformed_witness:
  "distinct (map dr_id (db_devices (w_db
     (foldl (agent_step (demo_sv ModeDefault) (\<lambda>rq env. demo_fate)) (demo_world empty_db) demo_day))))"
proof -
  have w: "w_db (demo_world empty_db) = empty_db" by (simp add: demo_world_def)
  have es: "list_all (only_runs (sv_sha (demo_sv ModeDefault)) (\<lambda>op. True)) demo_day"
    by (simp add: demo_day_def idle_env)
  show ?thesis using agent_tables_wellformed [OF w es refl] by blast
qed

subsection \<open>The audit trail\<close>

text \<open>
  C11: the audit trail is append-only for everybody but the pruner.  Whatever requests are
  served, whatever the operator's commands do and whatever goes on in between, no row of the
  trail is changed, removed or put out of its place; rows are added behind the others.
\<close>

theorem audit_trail_append_only:
  assumes "list_all (only_runs (sv_sha sv) keeps_trail) es"
  shows "prefix (db_audit (w_db w)) (db_audit (w_db (foldl (agent_step sv fate) w es)))"
  by (rule trail.agent_run_kept) (use assms in simp_all)

lemma audit_trail_append_only_witness:
  "prefix (db_audit (w_db (demo_world demo_paired)))
     (db_audit (w_db (foldl (agent_step (demo_sv ModeFull) (\<lambda>rq env. demo_fate)) (demo_world demo_paired) demo_history)))"
proof (rule audit_trail_append_only)
  show "list_all (only_runs (sv_sha (demo_sv ModeFull)) keeps_trail) demo_history"
    by (simp add: demo_history_def idle_env)
qed

subsection \<open>A pairing code lets in one device\<close>

lemma handlePair_201:
  assumes "handlePair sv rq env cx w = (resp, cx', w')" and "rs_code resp = 201"
  obtains c code csrPEM csrDER presp where "decodePairRequest sv rq = Inr (code, csrPEM)"
    "pairDevice sv c env code csrDER w = (Inr presp, w')"
  using assms
  by (auto simp: handlePair_def decodePairRequest_def decode_error_def writeError_def writeJSON_def
      split: option.splits sum.splits prod.splits pair_error.splits decode_failure.splits if_splits)

text \<open>A 201 on the pairing path is a pairing, and the audit row after it.\<close>

lemma served_pairing:
  assumes "serve sv sh rq env w = (resp, w')" and "rq_path rq = [''v1'', ''pair'']" and "rs_code resp = 201"
  obtains c code csrPEM csrDER presp v v1 row where "decodePairRequest sv rq = Inr (code, csrPEM)" "w_db v = w_db w"
    "pairDevice sv c env code csrDER v = (Inr presp, v1)"
    "w_db w' = store_step (sv_sha sv) (ev_between env AtAudit (w_db v1)) (ev_store env AtAudit, StAppend row)"
  using assms(1)
proof (cases rule: served_any)
  case unmatched
  with assms(3) show thesis by (simp add: mux_reply_def split: if_splits)
next
  case (routed r vs cx')
  have "rt_handler r = open_pair sv"
    using routed(2)
  proof (cases rule: known_routeE)
    case status
    with routed(3) assms(2) show ?thesis by simp
  next
    case renew
    with routed(3) assms(2) show ?thesis by simp
  next
    case unpair
    with routed(3) assms(2) show ?thesis by simp
  next
    case (reads op h s ss)
    with routed(3) assms(2) show ?thesis by simp
  next
    case (mutate act ss)
    with routed(3) assms(2) show ?thesis by simp
  qed
  with routed(4) have "open_pair sv rq env (start_ctx vs) w = (resp, cx', w')" by simp
  then show thesis unfolding open_pair_def
  proof (cases rule: open_limits)
    case throttled
    with assms(3) show thesis by (auto simp: tooManyRequests_def Let_def writeError_def writeJSON_def)
  next
    case (admitted v)
    from admitted(1) show thesis unfolding withPairAudit_def
    proof (cases rule: audited_cases)
      case (1 cx1 v1 e)
      from 1(1) assms(3) show thesis
      proof (cases rule: handlePair_201)
        case p: (1 c code csrPEM csrDER presp)
        show thesis
          by (rule that [OF p(1) admitted(4) p(2)]) (use 1(5) in simp)
      qed
    qed
  qed
qed

interpretation spending: store_frame "\<lambda>d. spent d h" sha "\<lambda>op. \<not> mints sha op h" for h sha
proof
  show "spent (store_step sha d (e, op)) h" if "spent d h" "\<not> mints sha op h" for d op e
    using that by (rule spent_step)
  show "\<not> mints sha op h" if "request_op op" for op using that by (cases op) simp_all
qed simp

lemma good_env_weaken: "good_env sha ok env \<Longrightarrow> (\<And>op. ok op \<Longrightarrow> ok' op) \<Longrightarrow> good_env sha ok' env"
  unfolding good_env_def by (meson list.pred_mono_strong)

lemma pairing_spends:
  assumes "pairDevice sv c env code csrDER v = (Inr presp, v1)" and "db_inv (w_db v)"
    and "good_env (sv_sha sv) (\<lambda>op. \<not> mints (sv_sha sv) op (sv_sha sv code)) env"
  shows "spent (w_db v1) (sv_sha sv code)"
  using assms(1)
proof (cases rule: pairDevice_success)
  case (1 dv name pem serial until w1 w2 w3)
  have any: "good_env (sv_sha sv) (\<lambda>op. True) env" using assms(3) by (rule good_env_weaken) simp
  have "db_inv (w_db w1)" by (rule schema.write_kept [OF 1(1) any assms(2)]) simp_all
  with any have "db_inv (ev_between env AtRedeem (w_db w1))" by (rule schema.between_kept)
  moreover note store_write_db [OF 1(2)]
  ultimately have "spent (w_db w2) (sv_sha sv code)"
    using redeem_spends [of "ev_between env AtRedeem (w_db w1)" "sv_sha sv" "ev_store env AtRedeem" code "dev_id dv" name]
    by (simp add: db_inv_def)
  then have "spent (w_db w3) (sv_sha sv code)"
    by (rule spending.write_kept [OF 1(3) assms(3)]) simp_all
  then show ?thesis
    by (rule spending.write_kept [OF 1(5) assms(3)]) simp_all
qed

lemma spent_refused:
  assumes "spent (w_db v) (sv_sha sv code)"
    and "good_env (sv_sha sv) (\<lambda>op. \<not> mints (sv_sha sv) op (sv_sha sv code)) env"
  shows "pairDevice sv c env code csrDER v \<noteq> (Inr presp, v1)"
proof
  assume "pairDevice sv c env code csrDER v = (Inr presp, v1)"
  then show False
  proof (cases rule: pairDevice_success)
    case (1 dv name pem serial until w1 w2 w3)
    have "spent (w_db w1) (sv_sha sv code)"
      by (rule spending.write_kept [OF 1(1) assms(2,1)]) simp_all
    with assms(2) have "spent (ev_between env AtRedeem (w_db w1)) (sv_sha sv code)"
      by (rule spending.between_kept)
    with RedeemPairingCode_ok [OF store_write_db [OF 1(2)]] show False
      by (auto simp: spent_def redeemable_def)
  qed
qed

text \<open>
  C9: a pairing code lets in one device, whatever the agent does.  Once a request on the pairing
  path has been answered 201, no later request with the same code is, from whatever address,
  with whatever request for a certificate, after any run of the agent and with anything going
  on inside both requests, racing pairings with the same code included, unless the operator
  mints the same code again.
\<close>

theorem spent_code_pairs_nobody:
  assumes "w_db w00 = empty_db" and "list_all (only_runs (sv_sha sv) (\<lambda>op. True)) es0"
    and "w0 = foldl (agent_step sv fate) w00 es0"
    and "serve sv (agent_streams sv fate) rq env w0 = (resp, w1)" and "rs_code resp = 201"
    and "rq_path rq = [''v1'', ''pair'']" and "decodePairRequest sv rq = Inr (code, csr)"
    and "good_env (sv_sha sv) (\<lambda>op. \<not> mints (sv_sha sv) op (sv_sha sv code)) env"
    and "list_all (only_runs (sv_sha sv) (\<lambda>op. \<not> mints (sv_sha sv) op (sv_sha sv code))) es"
    and "w = foldl (agent_step sv fate) w1 es"
    and "serve sv (agent_streams sv fate) rq' env' w = (resp', w')"
    and "rq_path rq' = [''v1'', ''pair'']" and "decodePairRequest sv rq' = Inr (code, csr')"
    and "good_env (sv_sha sv) (\<lambda>op. \<not> mints (sv_sha sv) op (sv_sha sv code)) env'"
  shows "rs_code resp' \<noteq> 201"
proof
  have "db_inv empty_db"
    by (simp add: db_inv_def empty_db_def devices_inv_def codes_inv_def audit_inv_def)
  then have inv: "db_inv (w_db w0)"
    unfolding assms(3) by (intro schema.agent_run_kept) (use assms(1,2) in simp_all)
  have "spent (w_db w1) (sv_sha sv code)"
    using assms(4,6,5)
  proof (cases rule: served_pairing)
    case (1 c code1 csrPEM csrDER presp v v1 row)
    then have "code1 = code" using assms(7) by simp
    with 1(2,3) inv assms(8) have "spent (w_db v1) (sv_sha sv code)"
      using pairing_spends [of sv c env code csrDER v presp v1] by simp
    with assms(8) have "spent (ev_between env AtAudit (w_db v1)) (sv_sha sv code)"
      by (rule spending.between_kept)
    then show ?thesis unfolding 1(4) by (rule spent_step) simp
  qed
  then have "spent (w_db w) (sv_sha sv code)"
    unfolding assms(10) by (rule spending.agent_run_kept) (use assms(9) in simp_all)
  moreover assume "rs_code resp' = 201"
  with assms(11,12) show False
  proof (cases rule: served_pairing)
    case (1 c code1 csrPEM csrDER presp v v1 row)
    with assms(13) \<open>spent (w_db w) (sv_sha sv code)\<close> assms(14) spent_refused [of v sv code env' c csrDER presp v1]
    show False by simp
  qed
qed

lemma demo_pairs:
  assumes "db_codes (w_db v) = db_codes (w_db demo_fresh)" and "db_devices (w_db v) = []" and "db_certs (w_db v) = []" and "der \<noteq> ''bad''"
  shows "\<exists>presp v1. pairDevice (demo_sv ModeDefault) c (demo_rq_env 60) ''CODE'' der v = (Inr presp, v1)"
  using assms
  by (simp add: pairDevice_def demo_fresh_def demo_world_def demo_sv_def demo_rq_env_def demo_senv_def store_write_def
      CreateDevice_def RedeemPairingCode_def redeemable_def RenameDevice_def RecordDeviceCert_def IssueDeviceCert_def
      demo_x509_def demo_sha_def find_device_def update_device_def empty_db_def unix_def pair_error_of_def Let_def)

lemma demo_decode:
  "decodePairRequest (demo_sv ModeDefault) (demo_request ''POST'' [''v1'', ''pair''] None) = Inr (''CODE'', ''csr'')"
  by code_simp

lemma demo_first_pairing:
  assumes "serve (demo_sv ModeDefault) sh (demo_request ''POST'' [''v1'', ''pair''] None) (demo_rq_env 60)
      (demo_world (empty_db\<lparr>db_codes := db_codes (w_db demo_fresh)\<rparr>)) = (resp, w')"
  shows "rs_code resp = 201"
proof -
  let ?sv = "demo_sv ModeDefault" and ?rq = "demo_request ''POST'' [''v1'', ''pair''] None"
  let ?w = "demo_world (empty_db\<lparr>db_codes := db_codes (w_db demo_fresh)\<rparr>)"
  have "find_route (routes ?sv sh) ?rq =
      Some (\<lparr>rt_method = ''POST'', rt_path = [Lit ''v1'', Lit ''pair''], rt_handler = open_pair ?sv\<rparr>, [])"
    by (simp add: routes_def open_pair_def demo_request_def route_mutate_def route_read_def route_logs_def match_method_def)
  with assms obtain cx' where "open_pair ?sv ?rq (demo_rq_env 60) (start_ctx []) ?w = (resp, cx', w')"
    by (auto simp: serve_def start_ctx_def Let_def split: prod.splits)
  then show ?thesis unfolding open_pair_def
  proof (cases rule: open_limits)
    case throttled
    moreover have "pair_admitted ?sv ?rq (demo_rq_env 60) ?w"
      by (simp add: pair_admitted_def demo_sv_def demo_world_def Allow_def NewRegistry_def)
    ultimately show ?thesis by simp
  next
    case (admitted v)
    from admitted(1) show ?thesis unfolding withPairAudit_def
    proof (cases rule: audited_cases)
      case (1 cx1 v1 e)
      have v: "db_codes (w_db v) = db_codes (w_db demo_fresh)" "db_devices (w_db v) = []" "db_certs (w_db v) = []"
        using admitted(4) by (simp_all add: demo_world_def empty_db_def)
      have ca: "sv_ca ?sv = Some \<lparr>ca_pem = ''CA'', ca_fingerprint = ''ff''\<rparr>" by (simp add: demo_sv_def)
      have "case decodeCSRPEM ?sv ''csr'' of None \<Rightarrow> False | Some der \<Rightarrow> der \<noteq> ''bad''" by code_simp
      then obtain der where der: "decodeCSRPEM ?sv ''csr'' = Some der" "der \<noteq> ''bad''" by (auto split: option.splits)
      moreover obtain presp v2 where "pairDevice ?sv \<lparr>ca_pem = ''CA'', ca_fingerprint = ''ff''\<rparr> (demo_rq_env 60) ''CODE'' der v =
          (Inr presp, v2)"
        using demo_pairs [OF v der(2)] by blast
      ultimately show ?thesis
        using 1(1) by (auto simp: handlePair_def demo_decode ca writeJSON_def)
    qed
  qed
qed

lemma spent_code_pairs_nobody_witness:
  "rs_code (fst (serve (demo_sv ModeDefault) (agent_streams (demo_sv ModeDefault) (\<lambda>rq env. demo_fate))
     (demo_request ''POST'' [''v1'', ''pair''] None) (demo_rq_env 62)
     (foldl (agent_step (demo_sv ModeDefault) (\<lambda>rq env. demo_fate)) (demo_world empty_db)
        [StoreRuns (demo_senv 10) (StMint ''CODE'' ''phone'' 600000000000),
         Request (demo_request ''POST'' [''v1'', ''pair''] None) (demo_rq_env 60), EngineMoves Suc]))) \<noteq> 201"
proof -
  let ?sv = "demo_sv ModeDefault" and ?rq = "demo_request ''POST'' [''v1'', ''pair''] None"
  let ?sh = "agent_streams ?sv (\<lambda>rq env. demo_fate)"
  let ?es0 = "[StoreRuns (demo_senv 10) (StMint ''CODE'' ''phone'' 600000000000)]"
  define w0 where "w0 = foldl (agent_step ?sv (\<lambda>rq env. demo_fate)) (demo_world empty_db) ?es0"
  obtain resp w1 where s: "serve ?sv ?sh ?rq (demo_rq_env 60) w0 = (resp, w1)" by fastforce
  have "w0 = demo_world (empty_db\<lparr>db_codes := db_codes (w_db demo_fresh)\<rparr>)"
    by (simp add: w0_def demo_world_def MintPairingCode_def demo_sv_def demo_senv_def demo_sha_def demo_fresh_def empty_db_def
        unix_def)
  with s have ok: "rs_code resp = 201" by (simp add: demo_first_pairing)
  define w where "w = foldl (agent_step ?sv (\<lambda>rq env. demo_fate)) w1 [EngineMoves Suc]"
  obtain resp' w' where s': "serve ?sv ?sh ?rq (demo_rq_env 62) w = (resp', w')" by fastforce
  have p: "rq_path ?rq = [''v1'', ''pair'']" by (simp add: demo_request_def)
  have a: "w_db (demo_world empty_db) = empty_db" by (simp add: demo_world_def)
  have b: "list_all (only_runs (sv_sha ?sv) (\<lambda>op. True)) ?es0"
    "list_all (only_runs (sv_sha ?sv) ok) [EngineMoves Suc]" for ok
    by simp_all
  from spent_code_pairs_nobody [OF a b(1) w0_def s ok p demo_decode idle_env b(2) w_def s' p demo_decode idle_env] s s'
  show ?thesis by (simp add: w_def w0_def)
qed

end
