(* ===== verification/StreamClient.thy ===== *)
theory StreamClient
  imports Sse
begin

section \<open>The reader of the end-to-end tests (internal/e2e/harness/stream.go)\<close>

text \<open>
  The parser the end-to-end tests read both streams with.  What the tests conclude from its
  frames is sound: it gives back what the agent sent, and a connection that ends anywhere, inside
  a frame too, costs frames at the end and never changes or invents one.
\<close>

record sse_frame =
  fr_ID :: string
  fr_Event :: string
  fr_Data :: string

definition no_frame :: sse_frame where "no_frame = \<lparr>fr_ID = [], fr_Event = [], fr_Data = []\<rparr>"

definition isKeepaliveOnly :: "sse_frame \<Rightarrow> bool" where
  "isKeepaliveOnly f \<longleftrightarrow> fr_ID f = [] \<and> fr_Event f = []"

text \<open>
  bufio.Reader.ReadString for the line feed: the line with its end, or what is left and the
  error the connection ended with.
\<close>

definition ReadString :: "string \<Rightarrow> string \<times> bool \<times> string" where
  "ReadString s =
     (let l = takeWhile (\<lambda>c. c \<noteq> LF) s
      in if l = s then (s, True, []) else (l @ [LF], False, drop (Suc (length l)) s))"

definition trim_line :: "string \<Rightarrow> string" where
  "trim_line s = rev (dropWhile (\<lambda>c. c = CHR 0x0D \<or> c = LF) (rev s))"

definition take_line :: "string \<Rightarrow> sse_frame \<times> bool \<Rightarrow> sse_frame \<times> bool" where
  "take_line t = (\<lambda>(f, saw).
     if prefix ''id: '' t then (f\<lparr>fr_ID := trim_prefix ''id: '' t\<rparr>, True)
     else if prefix ''event: '' t then (f\<lparr>fr_Event := trim_prefix ''event: '' t\<rparr>, True)
     else if prefix ''data: '' t then (f\<lparr>fr_Data := trim_prefix ''data: '' t\<rparr>, True)
     else if prefix '':'' t then (f, True)
     else (f, saw))"

lemma ReadString_shorter: "ReadString s = (l, False, r) \<Longrightarrow> length r < length s"
  by (cases s) (auto simp: ReadString_def Let_def split: if_splits)

text \<open>The loop of parseSSEBlock, from what has been gathered.\<close>

function parse_from :: "'e \<Rightarrow> sse_frame \<times> bool \<Rightarrow> string \<Rightarrow> 'e + sse_frame \<times> bool \<times> string" where
  "parse_from e st s =
     (let (line, ended, r) = ReadString s; t = trim_line line
      in if ended then Inl e
         else if t = [] then
           (if snd st then Inr (fst st, isKeepaliveOnly (fst st), r) else parse_from e st r)
         else parse_from e (take_line t st) r)"
  by pat_completeness auto
termination
  by (relation "measure (\<lambda>(e, st, s). length s)") (auto dest!: sym [of "(_, _, _)"] ReadString_shorter)

declare parse_from.simps [simp del]

definition parseSSEBlock :: "'e \<Rightarrow> string \<Rightarrow> 'e + sse_frame \<times> bool \<times> string" where
  "parseSSEBlock e s = parse_from e (no_frame, False) s"

lemma parse_from_cases:
  assumes "parse_from e st s = Inr (f, k, r)"
  obtains line where "ReadString s = (line, False, r)" "f = fst st"
  | line t st' where "ReadString s = (line, False, t)" "parse_from e st' t = Inr (f, k, r)"
proof -
  obtain line ended t where "ReadString s = (line, ended, t)" by (cases "ReadString s")
  with assms show thesis
    by (simp add: parse_from.simps [of e st s] Let_def that split: if_splits)
qed

lemma parse_from_shorter: "parse_from e st s = Inr (f, k, r) \<Longrightarrow> length r < length s"
proof (induction "length s" arbitrary: s st rule: less_induct)
  case less
  from less(2) show ?case
  proof (cases rule: parse_from_cases)
    case (1 line)
    then show ?thesis using ReadString_shorter by blast
  next
    case (2 line t st')
    with ReadString_shorter [of s] less(1) [of t st'] show ?thesis by fastforce
  qed
qed

text \<open>
  readLoop: the frames delivered, the keepalives counted and the error the reading ended with.
  The channel of the frames is read by the test, without which the loop only waits.
\<close>

function readLoop :: "'e \<Rightarrow> string \<Rightarrow> sse_frame list \<times> nat \<times> 'e" where
  "readLoop e s =
     (case parseSSEBlock e s of
        Inl err \<Rightarrow> ([], 0, err)
      | Inr (f, keepalive, r) \<Rightarrow>
          (let (fs, n, err) = readLoop e r
           in if keepalive then (fs, Suc n, err) else (f # fs, n, err)))"
  by pat_completeness auto
termination
  by (relation "measure (\<lambda>(e, s). length s)") (auto simp: parseSSEBlock_def dest: parse_from_shorter)

declare readLoop.simps [simp del]

subsection \<open>A longer stream only adds frames\<close>

lemma ReadString_line: "LF \<notin> set l \<Longrightarrow> ReadString (l @ LF # r) = (l @ [LF], False, r)"
proof -
  assume "LF \<notin> set l"
  then have "takeWhile (\<lambda>c. c \<noteq> LF) (l @ LF # r) = l" by (induction l) auto
  then show ?thesis by (simp add: ReadString_def)
qed

lemma ReadString_more: "ReadString s = (l, False, r) \<Longrightarrow> ReadString (s @ x) = (l, False, r @ x)"
proof -
  assume a: "ReadString s = (l, False, r)"
  then have "LF \<in> set s"
    by (auto simp: ReadString_def Let_def takeWhile_eq_all_conv split: if_splits)
  then obtain p q where "s = p @ LF # q" "LF \<notin> set p" by (meson split_list_first)
  with a show ?thesis using ReadString_line [of p q] ReadString_line [of p "q @ x"] by simp
qed

lemma parse_from_more: "parse_from e st s = Inr (f, k, r) \<Longrightarrow> parse_from e st (s @ x) = Inr (f, k, r @ x)"
proof (induction e st s rule: parse_from.induct)
  case (1 e st s)
  obtain line ended t where s: "ReadString s = (line, ended, t)" by (cases "ReadString s")
  with 1(3) have "\<not> ended" by (auto simp: parse_from.simps [of e st s] Let_def)
  with s have sx: "ReadString (s @ x) = (line, False, t @ x)" by (simp add: ReadString_more)
  from 1 \<open>\<not> ended\<close> show ?case
    by (simp add: parse_from.simps [of e st s] parse_from.simps [of e st "s @ x"] s sx Let_def split: if_splits) auto
qed

lemma readLoop_err: "snd (snd (readLoop e s)) = e"
proof (induction e s rule: readLoop.induct)
  case (1 e s)
  have "parse_from e st u = Inl err \<Longrightarrow> err = e" for st u err
  proof (induction e st u rule: parse_from.induct)
    case (1 e st u)
    obtain line ended t where "ReadString u = (line, ended, t)" by (cases "ReadString u")
    with 1 show ?case by (simp add: parse_from.simps [of e st u] Let_def split: if_splits)
  qed
  with 1 show ?case
    by (subst readLoop.simps) (auto simp: parseSSEBlock_def split: sum.split prod.split)
qed

lemma readLoop_step:
  assumes "parseSSEBlock e s = Inr (f, k, r)" and "readLoop e r = (fs, n, err)"
  shows "readLoop e s = (if k then (fs, Suc n, err) else (f # fs, n, err))"
  by (subst readLoop.simps) (simp add: assms)

lemma readLoop_prefix:
  "prefix (fst (readLoop e s)) (fst (readLoop e (s @ x))) \<and> fst (snd (readLoop e s)) \<le> fst (snd (readLoop e (s @ x)))"
proof (induction e s rule: readLoop.induct)
  case (1 e s)
  show ?case
  proof (cases "parseSSEBlock e s")
    case (Inl err)
    then show ?thesis by (simp add: readLoop.simps [of e s])
  next
    case (Inr p)
    obtain f k r where p: "p = (f, k, r)" by (cases p)
    with Inr have "parseSSEBlock e (s @ x) = Inr (f, k, r @ x)"
      by (simp add: parseSSEBlock_def parse_from_more)
    note longer = this
    obtain fs n err where r: "readLoop e r = (fs, n, err)" by (cases "readLoop e r")
    obtain fs' n' err' where r': "readLoop e (r @ x) = (fs', n', err')" by (cases "readLoop e (r @ x)")
    from 1 [OF Inr, of f "(k, r)" k r] p r r' have "prefix fs fs' \<and> n \<le> n'" by simp
    then show ?thesis
      unfolding readLoop_step [OF longer r'] readLoop_step [OF Inr [unfolded p] r] by simp
  qed
qed

subsection \<open>What the agent sends is what is read\<close>

lemma trim_line_line: "one_line l \<Longrightarrow> trim_line (l @ [LF]) = l"
  by (cases l rule: rev_cases) (auto simp: trim_line_def)

lemma parse_from_line:
  assumes "one_line l"
  shows "parse_from e st (l @ LF # r) =
    (if l = [] then if snd st then Inr (fst st, isKeepaliveOnly (fst st), r) else parse_from e st r
     else parse_from e (take_line l st) r)"
  using assms by (subst parse_from.simps) (simp add: ReadString_line trim_line_line)

lemma take_line_fields:
  "take_line (''id: '' @ v) (f, saw) = (f\<lparr>fr_ID := v\<rparr>, True)"
  "take_line (''event: '' @ v) (f, saw) = (f\<lparr>fr_Event := v\<rparr>, True)"
  "take_line (''data: '' @ v) (f, saw) = (f\<lparr>fr_Data := v\<rparr>, True)"
  "take_line ('': '' @ v) (f, saw) = (f, True)"
  by (simp_all add: take_line_def trim_prefix_def)

fun read_chunk :: "sse_chunk \<Rightarrow> sse_frame list" where
  "read_chunk (Frame i n d) = [\<lparr>fr_ID = i, fr_Event = n, fr_Data = marshal d\<rparr>]"
| "read_chunk _ = []"

fun is_comment :: "sse_chunk \<Rightarrow> bool" where
  "is_comment (Comment t) \<longleftrightarrow> True"
| "is_comment _ \<longleftrightarrow> False"

lemma parse_chunk:
  "chunk_ok (Frame i n d) \<Longrightarrow> n \<noteq> [] \<Longrightarrow> parseSSEBlock e (render (Frame i n d) @ r) =
     Inr (\<lparr>fr_ID = i, fr_Event = n, fr_Data = marshal d\<rparr>, False, r)"
  "chunk_ok (Comment t) \<Longrightarrow> parseSSEBlock e (render (Comment t) @ r) = Inr (no_frame, True, r)"
proof -
  show "parseSSEBlock e (render (Frame i n d) @ r) = Inr (\<lparr>fr_ID = i, fr_Event = n, fr_Data = marshal d\<rparr>, False, r)"
    if "chunk_ok (Frame i n d)" "n \<noteq> []"
  proof -
    have "render (Frame i n d) @ r = (''id: '' @ i) @ LF # (''event: '' @ n) @ LF # (''data: '' @ marshal d) @ LF # [] @ LF # r"
      by simp
    moreover have "one_line (''id: '' @ i)" "one_line (''event: '' @ n)" "one_line (''data: '' @ marshal d)" "one_line []"
      using that marshal_one_line [of d] by simp_all
    ultimately show ?thesis
      using that(2) unfolding parseSSEBlock_def
      by (simp only: parse_from_line take_line_fields append_is_Nil_conv list.distinct simp_thms if_False if_True snd_conv fst_conv)
        (simp add: isKeepaliveOnly_def no_frame_def)
  qed
  show "parseSSEBlock e (render (Comment t) @ r) = Inr (no_frame, True, r)" if "chunk_ok (Comment t)"
  proof -
    have "render (Comment t) @ r = ('': '' @ t) @ LF # [] @ LF # r" by simp
    moreover have "one_line ('': '' @ t)" "one_line []" using that by simp_all
    ultimately show ?thesis
      unfolding parseSSEBlock_def
      by (simp only: parse_from_line take_line_fields append_is_Nil_conv list.distinct simp_thms if_False if_True snd_conv fst_conv)
        (simp add: isKeepaliveOnly_def no_frame_def)
  qed
qed

lemma readLoop_chunks:
  assumes "list_all chunk_ok cs" and "\<And>i n d. Frame i n d \<in> set cs \<Longrightarrow> n \<noteq> []"
  shows "readLoop e (concat (map render cs)) = (concat (map read_chunk cs), length (filter is_comment cs), e)"
  using assms
proof (induction cs)
  case Nil
  have "parseSSEBlock e [] = Inl e"
    by (simp add: parseSSEBlock_def parse_from.simps ReadString_def)
  then show ?case by (simp add: readLoop.simps)
next
  case (Cons c cs)
  have IH: "readLoop e (concat (map render cs)) = (concat (map read_chunk cs), length (filter is_comment cs), e)"
    by (rule Cons.IH) (use Cons.prems in auto)
  show ?case
  proof (cases c)
    case (Frame i n d)
    have ok: "chunk_ok (Frame i n d)" "n \<noteq> []" using Cons.prems Frame by auto
    have "parseSSEBlock e (render c @ concat (map render cs)) =
        Inr (\<lparr>fr_ID = i, fr_Event = n, fr_Data = marshal d\<rparr>, False, concat (map render cs))"
      unfolding Frame by (rule parse_chunk(1) [OF ok])
    from readLoop_step [of e "render c @ concat (map render cs)", OF this IH] Frame show ?thesis by simp
  next
    case (Comment t)
    have ok: "chunk_ok (Comment t)" using Cons.prems Comment by auto
    have "parseSSEBlock e (render c @ concat (map render cs)) = Inr (no_frame, True, concat (map render cs))"
      unfolding Comment by (rule parse_chunk(2) [OF ok])
    from readLoop_step [of e "render c @ concat (map render cs)", OF this IH] Comment show ?thesis by simp
  qed (use Cons.prems in simp_all)
qed

lemma agent_frame_named: "agent_chunk c \<Longrightarrow> c = Frame i n d \<Longrightarrow> n \<noteq> []"
  by (induction rule: agent_chunk.induct) (auto simp: frame_defs sse_names)

text \<open>
  What the end-to-end tests conclude from a stream is sound.  However much of what was sent
  arrives, the frames read are the first ones sent, byte for byte, none of them cut, and no
  more keepalives are counted than were sent; when everything arrives nothing is missing.
\<close>

theorem harness_reads_what_was_sent:
  assumes "list_all agent_chunk cs" and "got @ lost = concat (map render cs)"
  shows "\<exists>fs n. readLoop e got = (fs, n, e) \<and> prefix fs (concat (map read_chunk cs)) \<and>
    n \<le> length (filter is_comment cs) \<and>
    (lost = [] \<longrightarrow> fs = concat (map read_chunk cs) \<and> n = length (filter is_comment cs))"
proof -
  have whole: "readLoop e (got @ lost) = (concat (map read_chunk cs), length (filter is_comment cs), e)"
    unfolding assms(2) using assms(1)
    by (intro readLoop_chunks) (auto simp: list_all_iff agent_chunk_ok dest: agent_frame_named)
  obtain fs n where r: "readLoop e got = (fs, n, e)"
    using readLoop_err [of e got] by (metis prod.collapse)
  with readLoop_prefix [of e got lost] whole show ?thesis by auto
qed

lemma harness_reads_what_was_sent_witness:
  "readLoop ''EOF'' (concat (map render [Comment ''keepalive'', error_frame ''gone''])) =
     ([\<lparr>fr_ID = [], fr_Event = ''error'', fr_Data = marshal (error_json ''gone'')\<rparr>], 1, ''EOF'')"
proof -
  have a: "list_all agent_chunk [Comment ''keepalive'', error_frame ''gone'']"
    by (simp add: agent_chunk.intros)
  from harness_reads_what_was_sent [OF a append_Nil2, of "''EOF''"] show ?thesis
    by (auto simp: error_frame_def sse_names simp del: render.simps)
qed

end
