(* ===== verification/Wire.thy ===== *)
theory Wire
  imports Sse Contract "HOL-Library.List_Lexorder" "HOL-Library.Char_ord" "HOL-Library.Monad_Syntax"
begin

section \<open>The JSON text of a reply (the json tags of dockerx/types.go and of the httpapi bodies)\<close>

text \<open>
  What json.NewEncoder(w).Encode makes of each body, and a client's strict reading of it: every
  member that is not marked omitempty has to be there, with a value of its kind.  A map is an
  object with its keys in the order of their bytes.
\<close>

subsection \<open>Kinds of members\<close>

definition omit_port :: "string \<Rightarrow> 16 word \<Rightarrow> (string \<times> json) list" where
  "omit_port k p = (if p = 0 then [] else [(k, JInt (uint p))])"

definition strings_json :: "string list \<Rightarrow> json" where
  "strings_json xs = JArray (map JString xs)"

definition omit_strings :: "string \<Rightarrow> string list \<Rightarrow> (string \<times> json) list" where
  "omit_strings k xs = (if xs = [] then [] else [(k, strings_json xs)])"

definition by_key :: "(string, string) gomap \<Rightarrow> (string, string) gomap" where
  "by_key m = sort_key fst m"

definition labels_json :: "(string, string) gomap \<Rightarrow> json" where
  "labels_json m = JObject (map (\<lambda>(k, v). (k, JString v)) (by_key m))"

definition omit_nil :: "string \<Rightarrow> int option \<Rightarrow> (string \<times> json) list" where
  "omit_nil k p = (case p of None \<Rightarrow> [] | Some n \<Rightarrow> [(k, JInt n)])"

fun as_string :: "json \<Rightarrow> string option" where
  "as_string (JString s) = Some s"
| "as_string _ = None"

fun as_bool :: "json \<Rightarrow> bool option" where
  "as_bool (JBool b) = Some b"
| "as_bool _ = None"

fun as_int :: "json \<Rightarrow> int option" where
  "as_int (JInt i) = Some i"
| "as_int _ = None"

definition as_port :: "json \<Rightarrow> 16 word option" where
  "as_port j = (case as_int j of None \<Rightarrow> None
     | Some i \<Rightarrow> if 0 \<le> i \<and> i < 65536 then Some (word_of_int i) else None)"

definition as_pointer :: "json \<Rightarrow> int option option" where
  "as_pointer j = map_option Some (as_int j)"

fun as_object :: "json \<Rightarrow> (string \<times> json) list option" where
  "as_object (JObject ms) = Some ms"
| "as_object _ = None"

fun read_all :: "('a \<Rightarrow> 'b option) \<Rightarrow> 'a list \<Rightarrow> 'b list option" where
  "read_all f [] = Some []"
| "read_all f (x # xs) = do { y \<leftarrow> f x; ys \<leftarrow> read_all f xs; Some (y # ys) }"

fun as_list :: "(json \<Rightarrow> 'a option) \<Rightarrow> json \<Rightarrow> 'a list option" where
  "as_list item (JArray js) = read_all item js"
| "as_list item _ = None"

definition as_labels :: "json \<Rightarrow> (string, string) gomap option" where
  "as_labels j = do {
      ms \<leftarrow> as_object j;
      read_all (\<lambda>m. map_option (Pair (fst m)) (as_string (snd m))) ms
    }"

definition required :: "string \<Rightarrow> (json \<Rightarrow> 'a option) \<Rightarrow> (string \<times> json) list \<Rightarrow> 'a option" where
  "required k rd ms = Option.bind (map_of ms k) rd"

definition optional :: "string \<Rightarrow> 'a \<Rightarrow> (json \<Rightarrow> 'a option) \<Rightarrow> (string \<times> json) list \<Rightarrow> 'a option" where
  "optional k z rd ms = (case map_of ms k of None \<Rightarrow> Some z | Some j \<Rightarrow> rd j)"

text \<open>How a reader finds its member among those of an object.\<close>

named_theorems members \<open>reading a member of an object\<close>

definition absent :: "string \<Rightarrow> (string \<times> json) list \<Rightarrow> bool" where
  "absent k ms \<longleftrightarrow> map_of ms k = None"

lemma member_cons [members]:
  "required k rd ((k', j) # ms) = (if k' = k then rd j else required k rd ms)"
  "optional k z rd ((k', j) # ms) = (if k' = k then rd j else optional k z rd ms)"
  "absent k ((k', j) # ms) \<longleftrightarrow> k' \<noteq> k \<and> absent k ms"
  "optional k z rd [] = Some z" "absent k []"
  by (simp_all add: required_def optional_def absent_def)

lemma member_skip [members]:
  "absent k xs \<Longrightarrow> required k rd (xs @ ms) = required k rd ms"
  "absent k xs \<Longrightarrow> optional k z rd (xs @ ms) = optional k z rd ms"
  "absent k xs \<Longrightarrow> absent k (xs @ ms) \<longleftrightarrow> absent k ms"
  "absent k xs \<Longrightarrow> optional k z rd xs = Some z"
  by (auto simp: required_def optional_def absent_def map_add_def split: option.split)

lemma absent_omit [members]:
  "k' \<noteq> k \<Longrightarrow> absent k (omit_empty k' s)" "k' \<noteq> k \<Longrightarrow> absent k (omit_port k' p)"
  "k' \<noteq> k \<Longrightarrow> absent k (omit_strings k' xs)" "k' \<noteq> k \<Longrightarrow> absent k (omit_nil k' q)"
  by (simp_all add: absent_def omit_empty_def omit_port_def omit_strings_def omit_nil_def split: option.split)

lemma as_port_number [members]: "as_port (JInt (uint p)) = Some p"
proof -
  have "uint p < 65536" using uint_lt2p [of p] by simp
  then show ?thesis by (simp add: as_port_def)
qed

lemma read_all_map: "(\<And>x. x \<in> set xs \<Longrightarrow> f (g x) = Some (h x)) \<Longrightarrow> read_all f (map g xs) = Some (map h xs)"
  by (induction xs) auto

lemma as_strings [members]: "as_list as_string (strings_json xs) = Some xs"
  using read_all_map [of xs as_string JString id] by (simp add: strings_json_def)

lemma as_labels_json [members]: "as_labels (labels_json m) = Some (by_key m)"
  using read_all_map [of "by_key m" "\<lambda>m. map_option (Pair (fst m)) (as_string (snd m))" "\<lambda>(k, v). (k, JString v)" id]
  by (simp add: as_labels_def labels_json_def case_prod_beta')

text \<open>An omitted member reads as the zero value, which is the only value that is omitted.\<close>

lemma omitted_members [members]:
  "absent k ms \<Longrightarrow> optional k [] as_string (omit_empty k s @ ms) = Some s"
  "absent k ms \<Longrightarrow> optional k 0 as_port (omit_port k p @ ms) = Some p"
  "absent k ms \<Longrightarrow> optional k [] (as_list as_string) (omit_strings k xs @ ms) = Some xs"
  "optional k [] as_string (omit_empty k s) = Some s"
  "optional k [] (as_list as_string) (omit_strings k xs) = Some xs"
  by (simp_all add: optional_def absent_def omit_empty_def omit_port_def omit_strings_def as_strings as_port_number)

lemma omit_nil_member [members]: "optional k None as_pointer (omit_nil k p) = Some p"
  by (simp add: omit_nil_def optional_def as_pointer_def split: option.split)

text \<open>A map keeps its entries whatever their order.\<close>

lemma by_key_same: "gm_wf m \<Longrightarrow> gm_get (by_key m) = gm_get m"
  by (rule map_of_eqI) (auto simp: by_key_def distinct_map)

subsection \<open>The bodies\<close>

definition port_json :: "port \<Rightarrow> json" where
  "port_json x = JObject
     (omit_empty ''ip'' (p_ip x) @
     [(''private_port'', JInt (uint (p_private x)))] @
     omit_port ''public_port'' (p_public x) @
     [(''protocol'', JString (p_protocol x))])"

definition port_of :: "json \<Rightarrow> port option" where
  "port_of j = do {
      ms \<leftarrow> as_object j;
      ip \<leftarrow> optional ''ip'' [] as_string ms;
      private \<leftarrow> required ''private_port'' as_port ms;
      public \<leftarrow> optional ''public_port'' 0 as_port ms;
      protocol \<leftarrow> required ''protocol'' as_string ms;
      Some \<lparr>p_ip = ip, p_private = private, p_public = public, p_protocol = protocol\<rparr>
    }"

definition mount_json :: "mount \<Rightarrow> json" where
  "mount_json x = JObject
     ([(''type'', JString (mt_type x))] @
     omit_empty ''name'' (mt_name x) @
     [(''source'', JString (mt_source x)), (''destination'', JString (mt_destination x)),
      (''read_write'', JBool (mt_read_write x))])"

definition mount_of :: "json \<Rightarrow> mount option" where
  "mount_of j = do {
      ms \<leftarrow> as_object j;
      type \<leftarrow> required ''type'' as_string ms;
      name \<leftarrow> optional ''name'' [] as_string ms;
      source \<leftarrow> required ''source'' as_string ms;
      destination \<leftarrow> required ''destination'' as_string ms;
      read_write \<leftarrow> required ''read_write'' as_bool ms;
      Some \<lparr>mt_type = type, mt_name = name, mt_source = source, mt_destination = destination,
        mt_read_write = read_write\<rparr>
    }"

definition endpoint_summary_json :: "endpoint_summary \<Rightarrow> json" where
  "endpoint_summary_json x = JObject
     ([(''network_name'', JString (es_network_name x)), (''network_id'', JString (es_network_id x))] @
     omit_empty ''ip_address'' (es_ip_address x) @
     omit_empty ''gateway'' (es_gateway x) @
     omit_empty ''mac_address'' (es_mac_address x) @
     omit_strings ''aliases'' (es_aliases x))"

definition endpoint_summary_of :: "json \<Rightarrow> endpoint_summary option" where
  "endpoint_summary_of j = do {
      ms \<leftarrow> as_object j;
      network_name \<leftarrow> required ''network_name'' as_string ms;
      network_id \<leftarrow> required ''network_id'' as_string ms;
      ip_address \<leftarrow> optional ''ip_address'' [] as_string ms;
      gateway \<leftarrow> optional ''gateway'' [] as_string ms;
      mac_address \<leftarrow> optional ''mac_address'' [] as_string ms;
      aliases \<leftarrow> optional ''aliases'' [] (as_list as_string) ms;
      Some \<lparr>es_network_name = network_name, es_network_id = network_id, es_ip_address = ip_address,
        es_gateway = gateway, es_mac_address = mac_address, es_aliases = aliases\<rparr>
    }"

definition container_summary_json :: "container_summary \<Rightarrow> json" where
  "container_summary_json x = JObject
     ([(''id'', JString (cs_id x)), (''names'', strings_json (cs_names x)), (''image'', JString (cs_image x)),
      (''image_id'', JString (cs_image_id x)), (''command'', JString (cs_command x)),
      (''created_at'', JString (cs_created_at x)), (''state'', JString (cs_state x)),
      (''status'', JString (cs_status x))] @
     omit_empty ''health'' (cs_health x) @
     [(''labels'', labels_json (cs_labels x)), (''ports'', JArray (map port_json (cs_ports x))),
      (''protected'', JBool (cs_protected x))])"

definition container_summary_of :: "json \<Rightarrow> container_summary option" where
  "container_summary_of j = do {
      ms \<leftarrow> as_object j;
      id \<leftarrow> required ''id'' as_string ms;
      names \<leftarrow> required ''names'' (as_list as_string) ms;
      image \<leftarrow> required ''image'' as_string ms;
      image_id \<leftarrow> required ''image_id'' as_string ms;
      command \<leftarrow> required ''command'' as_string ms;
      created_at \<leftarrow> required ''created_at'' as_string ms;
      state \<leftarrow> required ''state'' as_string ms;
      status \<leftarrow> required ''status'' as_string ms;
      health \<leftarrow> optional ''health'' [] as_string ms;
      labels \<leftarrow> required ''labels'' as_labels ms;
      ports \<leftarrow> required ''ports'' (as_list port_of) ms;
      protected \<leftarrow> required ''protected'' as_bool ms;
      Some \<lparr>cs_id = id, cs_names = names, cs_image = image, cs_image_id = image_id, cs_command = command,
        cs_created_at = created_at, cs_state = state, cs_status = status, cs_health = health,
        cs_labels = labels, cs_ports = ports, cs_protected = protected\<rparr>
    }"

definition container_detail_json :: "container_detail \<Rightarrow> json" where
  "container_detail_json x = JObject
     ([(''id'', JString (cd_id x)), (''name'', JString (cd_name x)), (''image'', JString (cd_image x)),
      (''image_id'', JString (cd_image_id x)), (''created_at'', JString (cd_created_at x)),
      (''state'', JString (cd_state x)), (''running'', JBool (cd_running x)), (''paused'', JBool (cd_paused x)),
      (''restarting'', JBool (cd_restarting x)), (''exit_code'', JInt (cd_exit_code x))] @
     omit_empty ''started_at'' (cd_started_at x) @
     omit_empty ''finished_at'' (cd_finished_at x) @
     omit_empty ''health'' (cd_health x) @
     [(''restart_count'', JInt (cd_restart_count x))] @
     omit_empty ''restart_policy'' (cd_restart_policy x) @
     [(''platform'', JString (cd_platform x)), (''labels'', labels_json (cd_labels x)),
      (''command'', JString (cd_command x)), (''args'', strings_json (cd_args x))] @
     omit_strings ''entrypoint'' (cd_entrypoint x) @
     omit_empty ''working_dir'' (cd_working_dir x) @
     omit_empty ''user'' (cd_user x) @
     [(''mounts'', JArray (map mount_json (cd_mounts x))),
      (''networks'', JArray (map endpoint_summary_json (cd_networks x))),
      (''ports'', JArray (map port_json (cd_ports x))), (''protected'', JBool (cd_protected x))])"

definition container_detail_of :: "json \<Rightarrow> container_detail option" where
  "container_detail_of j = do {
      ms \<leftarrow> as_object j;
      id \<leftarrow> required ''id'' as_string ms;
      name \<leftarrow> required ''name'' as_string ms;
      image \<leftarrow> required ''image'' as_string ms;
      image_id \<leftarrow> required ''image_id'' as_string ms;
      created_at \<leftarrow> required ''created_at'' as_string ms;
      state \<leftarrow> required ''state'' as_string ms;
      running \<leftarrow> required ''running'' as_bool ms;
      paused \<leftarrow> required ''paused'' as_bool ms;
      restarting \<leftarrow> required ''restarting'' as_bool ms;
      exit_code \<leftarrow> required ''exit_code'' as_int ms;
      started_at \<leftarrow> optional ''started_at'' [] as_string ms;
      finished_at \<leftarrow> optional ''finished_at'' [] as_string ms;
      health \<leftarrow> optional ''health'' [] as_string ms;
      restart_count \<leftarrow> required ''restart_count'' as_int ms;
      restart_policy \<leftarrow> optional ''restart_policy'' [] as_string ms;
      platform \<leftarrow> required ''platform'' as_string ms;
      labels \<leftarrow> required ''labels'' as_labels ms;
      command \<leftarrow> required ''command'' as_string ms;
      args \<leftarrow> required ''args'' (as_list as_string) ms;
      entrypoint \<leftarrow> optional ''entrypoint'' [] (as_list as_string) ms;
      working_dir \<leftarrow> optional ''working_dir'' [] as_string ms;
      user \<leftarrow> optional ''user'' [] as_string ms;
      mounts \<leftarrow> required ''mounts'' (as_list mount_of) ms;
      networks \<leftarrow> required ''networks'' (as_list endpoint_summary_of) ms;
      ports \<leftarrow> required ''ports'' (as_list port_of) ms;
      protected \<leftarrow> required ''protected'' as_bool ms;
      Some \<lparr>cd_id = id, cd_name = name, cd_image = image, cd_image_id = image_id, cd_created_at = created_at,
        cd_state = state, cd_running = running, cd_paused = paused, cd_restarting = restarting,
        cd_exit_code = exit_code, cd_started_at = started_at, cd_finished_at = finished_at, cd_health = health,
        cd_restart_count = restart_count, cd_restart_policy = restart_policy, cd_platform = platform,
        cd_labels = labels, cd_command = command, cd_args = args, cd_entrypoint = entrypoint,
        cd_working_dir = working_dir, cd_user = user, cd_mounts = mounts, cd_networks = networks,
        cd_ports = ports, cd_protected = protected\<rparr>
    }"

definition image_summary_json :: "image_summary \<Rightarrow> json" where
  "image_summary_json x = JObject
     ([(''id'', JString (is_id x))] @
     omit_empty ''parent_id'' (is_parent_id x) @
     [(''repo_tags'', strings_json (is_repo_tags x)), (''repo_digests'', strings_json (is_repo_digests x)),
      (''created_at'', JString (is_created_at x)), (''size'', JInt (is_size x)),
      (''containers'', JInt (is_containers x)), (''labels'', labels_json (is_labels x))])"

definition image_summary_of :: "json \<Rightarrow> image_summary option" where
  "image_summary_of j = do {
      ms \<leftarrow> as_object j;
      id \<leftarrow> required ''id'' as_string ms;
      parent_id \<leftarrow> optional ''parent_id'' [] as_string ms;
      repo_tags \<leftarrow> required ''repo_tags'' (as_list as_string) ms;
      repo_digests \<leftarrow> required ''repo_digests'' (as_list as_string) ms;
      created_at \<leftarrow> required ''created_at'' as_string ms;
      size \<leftarrow> required ''size'' as_int ms;
      containers \<leftarrow> required ''containers'' as_int ms;
      labels \<leftarrow> required ''labels'' as_labels ms;
      Some \<lparr>is_id = id, is_parent_id = parent_id, is_repo_tags = repo_tags, is_repo_digests = repo_digests,
        is_created_at = created_at, is_size = size, is_containers = containers, is_labels = labels\<rparr>
    }"

definition image_detail_json :: "image_detail \<Rightarrow> json" where
  "image_detail_json x = JObject
     ([(''id'', JString (id_id x)), (''repo_tags'', strings_json (id_repo_tags x)),
      (''repo_digests'', strings_json (id_repo_digests x))] @
     omit_empty ''created_at'' (id_created_at x) @
     [(''size'', JInt (id_size x)), (''architecture'', JString (id_architecture x)), (''os'', JString (id_os x))] @
     omit_empty ''author'' (id_author x) @
     omit_empty ''comment'' (id_comment x))"

definition image_detail_of :: "json \<Rightarrow> image_detail option" where
  "image_detail_of j = do {
      ms \<leftarrow> as_object j;
      id \<leftarrow> required ''id'' as_string ms;
      repo_tags \<leftarrow> required ''repo_tags'' (as_list as_string) ms;
      repo_digests \<leftarrow> required ''repo_digests'' (as_list as_string) ms;
      created_at \<leftarrow> optional ''created_at'' [] as_string ms;
      size \<leftarrow> required ''size'' as_int ms;
      architecture \<leftarrow> required ''architecture'' as_string ms;
      os \<leftarrow> required ''os'' as_string ms;
      author \<leftarrow> optional ''author'' [] as_string ms;
      comment \<leftarrow> optional ''comment'' [] as_string ms;
      Some \<lparr>id_id = id, id_repo_tags = repo_tags, id_repo_digests = repo_digests, id_created_at = created_at,
        id_size = size, id_architecture = architecture, id_os = os, id_author = author, id_comment = comment\<rparr>
    }"

definition network_summary_members :: "'a network_summary_scheme \<Rightarrow> (string \<times> json) list" where
  "network_summary_members x =
     [(''id'', JString (ns_id x)), (''name'', JString (ns_name x)), (''driver'', JString (ns_driver x)),
      (''scope'', JString (ns_scope x)), (''created_at'', JString (ns_created_at x)),
      (''internal'', JBool (ns_internal x)), (''enable_ipv6'', JBool (ns_enable_ipv6 x)),
      (''labels'', labels_json (ns_labels x))]"

definition network_summary_json :: "network_summary \<Rightarrow> json" where
  "network_summary_json x = JObject (network_summary_members x)"

definition network_summary_of :: "json \<Rightarrow> network_summary option" where
  "network_summary_of j = do {
      ms \<leftarrow> as_object j;
      id \<leftarrow> required ''id'' as_string ms;
      name \<leftarrow> required ''name'' as_string ms;
      driver \<leftarrow> required ''driver'' as_string ms;
      scope \<leftarrow> required ''scope'' as_string ms;
      created_at \<leftarrow> required ''created_at'' as_string ms;
      internal \<leftarrow> required ''internal'' as_bool ms;
      enable_ipv6 \<leftarrow> required ''enable_ipv6'' as_bool ms;
      labels \<leftarrow> required ''labels'' as_labels ms;
      Some \<lparr>ns_id = id, ns_name = name, ns_driver = driver, ns_scope = scope, ns_created_at = created_at,
        ns_internal = internal, ns_enable_ipv6 = enable_ipv6, ns_labels = labels\<rparr>
    }"

definition network_endpoint_json :: "network_endpoint \<Rightarrow> json" where
  "network_endpoint_json x = JObject
     ([(''container_id'', JString (ne_container_id x)), (''name'', JString (ne_name x))] @
     omit_empty ''ipv4_address'' (ne_ipv4 x) @
     omit_empty ''ipv6_address'' (ne_ipv6 x))"

definition network_endpoint_of :: "json \<Rightarrow> network_endpoint option" where
  "network_endpoint_of j = do {
      ms \<leftarrow> as_object j;
      container_id \<leftarrow> required ''container_id'' as_string ms;
      name \<leftarrow> required ''name'' as_string ms;
      ipv4 \<leftarrow> optional ''ipv4_address'' [] as_string ms;
      ipv6 \<leftarrow> optional ''ipv6_address'' [] as_string ms;
      Some \<lparr>ne_container_id = container_id, ne_name = name, ne_ipv4 = ipv4, ne_ipv6 = ipv6\<rparr>
    }"

definition volume_summary_json :: "volume_summary \<Rightarrow> json" where
  "volume_summary_json x = JObject
     ([(''name'', JString (vs_name x)), (''driver'', JString (vs_driver x)),
      (''mountpoint'', JString (vs_mountpoint x))] @
     omit_empty ''created_at'' (vs_created_at x) @
     [(''scope'', JString (vs_scope x)), (''labels'', labels_json (vs_labels x))] @
     omit_nil ''size_bytes'' (vs_size_bytes x))"

definition volume_summary_of :: "json \<Rightarrow> volume_summary option" where
  "volume_summary_of j = do {
      ms \<leftarrow> as_object j;
      name \<leftarrow> required ''name'' as_string ms;
      driver \<leftarrow> required ''driver'' as_string ms;
      mountpoint \<leftarrow> required ''mountpoint'' as_string ms;
      created_at \<leftarrow> optional ''created_at'' [] as_string ms;
      scope \<leftarrow> required ''scope'' as_string ms;
      labels \<leftarrow> required ''labels'' as_labels ms;
      size_bytes \<leftarrow> optional ''size_bytes'' None as_pointer ms;
      Some \<lparr>vs_name = name, vs_driver = driver, vs_mountpoint = mountpoint, vs_created_at = created_at,
        vs_scope = scope, vs_labels = labels, vs_size_bytes = size_bytes\<rparr>
    }"

definition statusResponse_json :: "statusResponse \<Rightarrow> json" where
  "statusResponse_json x = JObject
     [(''api_version'', JString (sr_api_version x)), (''agent_version'', JString (sr_agent_version x)),
      (''policy_mode'', JString (sr_policy_mode x)), (''server_time'', JString (sr_server_time x)),
      (''ca_fingerprint'', JString (sr_ca_fingerprint x))]"

definition statusResponse_of :: "json \<Rightarrow> statusResponse option" where
  "statusResponse_of j = do {
      ms \<leftarrow> as_object j;
      api_version \<leftarrow> required ''api_version'' as_string ms;
      agent_version \<leftarrow> required ''agent_version'' as_string ms;
      policy_mode \<leftarrow> required ''policy_mode'' as_string ms;
      server_time \<leftarrow> required ''server_time'' as_string ms;
      ca_fingerprint \<leftarrow> required ''ca_fingerprint'' as_string ms;
      Some \<lparr>sr_api_version = api_version, sr_agent_version = agent_version, sr_policy_mode = policy_mode,
        sr_server_time = server_time, sr_ca_fingerprint = ca_fingerprint\<rparr>
    }"

definition pairResponse_json :: "pairResponse \<Rightarrow> json" where
  "pairResponse_json x = JObject
     [(''device_id'', JString (pr_device_id x)), (''certificate_pem'', JString (pr_certificate_pem x)),
      (''ca_certificate_pem'', JString (pr_ca_certificate_pem x)), (''not_after'', JString (pr_not_after x))]"

definition pairResponse_of :: "json \<Rightarrow> pairResponse option" where
  "pairResponse_of j = do {
      ms \<leftarrow> as_object j;
      device_id \<leftarrow> required ''device_id'' as_string ms;
      certificate_pem \<leftarrow> required ''certificate_pem'' as_string ms;
      ca_certificate_pem \<leftarrow> required ''ca_certificate_pem'' as_string ms;
      not_after \<leftarrow> required ''not_after'' as_string ms;
      Some \<lparr>pr_device_id = device_id, pr_certificate_pem = certificate_pem,
        pr_ca_certificate_pem = ca_certificate_pem, pr_not_after = not_after\<rparr>
    }"

definition renewResponse_json :: "renewResponse \<Rightarrow> json" where
  "renewResponse_json x = JObject
     [(''certificate_pem'', JString (rr_certificate_pem x)), (''not_after'', JString (rr_not_after x))]"

definition renewResponse_of :: "json \<Rightarrow> renewResponse option" where
  "renewResponse_of j = do {
      ms \<leftarrow> as_object j;
      certificate_pem \<leftarrow> required ''certificate_pem'' as_string ms;
      not_after \<leftarrow> required ''not_after'' as_string ms;
      Some \<lparr>rr_certificate_pem = certificate_pem, rr_not_after = not_after\<rparr>
    }"

definition network_detail_json :: "network_detail \<Rightarrow> json" where
  "network_detail_json x = JObject
     (network_summary_members x @ [(''containers'', JArray (map network_endpoint_json (nd_containers x)))])"

definition network_detail_of :: "json \<Rightarrow> network_detail option" where
  "network_detail_of j = do {
      n \<leftarrow> network_summary_of j;
      ms \<leftarrow> as_object j;
      containers \<leftarrow> required ''containers'' (as_list network_endpoint_of) ms;
      Some (network_summary.extend n (network_detail.fields containers))
    }"

definition log_line_of :: "json \<Rightarrow> log_line option" where
  "log_line_of j = do {
      ms \<leftarrow> as_object j;
      ts \<leftarrow> required ''ts'' as_string ms;
      stream \<leftarrow> required ''stream'' as_string ms;
      line \<leftarrow> required ''line'' as_string ms;
      truncated \<leftarrow> optional ''truncated'' False as_bool ms;
      Some \<lparr>ll_timestamp = ts, ll_stream = stream, ll_line = line, ll_truncated = truncated\<rparr>
    }"

definition list_result_json :: "('a \<Rightarrow> json) \<Rightarrow> 'a list_result \<Rightarrow> json" where
  "list_result_json item l = JObject [(''items'', JArray (map item (lr_items l))), (''truncated'', JBool (lr_truncated l))]"

definition list_result_of :: "(json \<Rightarrow> 'a option) \<Rightarrow> json \<Rightarrow> 'a list_result option" where
  "list_result_of item j = do {
      ms \<leftarrow> as_object j;
      items \<leftarrow> required ''items'' (as_list item) ms;
      truncated \<leftarrow> required ''truncated'' as_bool ms;
      Some \<lparr>lr_items = items, lr_truncated = truncated\<rparr>
    }"

subsection \<open>Codecs\<close>

text \<open>
  What a pair of writer and reader promises: the reader gives back what was written, in a
  normal form, and the text is nested at most so deep.
\<close>

locale json_codec =
  fixes enc :: "'a \<Rightarrow> json" and dec :: "json \<Rightarrow> 'a option" and norm :: "'a \<Rightarrow> 'a" and n :: nat
  assumes dec_enc: "dec (enc x) = Some (norm x)"
    and depth_enc: "depth (enc x) \<le> n"
begin

lemma dec_list: "read_all dec (map enc xs) = Some (map norm xs)"
  by (simp add: read_all_map [of xs dec enc norm] dec_enc)

lemma depth_list: "depth (JArray (map enc xs)) \<le> Suc n"
  using depth_enc by (induction xs) auto

lemma reads_back:
  assumes "valid_json (enc x) = enc x" and "n \<le> k" and "stops r"
  shows "unmarshal k (marshal (enc x) @ r) = Some (enc x, r)"
  using unmarshal_marshal_gen [of "enc x" k r] depth_enc [of x] assms by simp

end

text \<open>The depth of an object, member by member.\<close>

named_theorems depths \<open>how deep a member is nested\<close>

lemma depth_object: "(\<forall>m\<in>set ms. depth (snd m) \<le> k) \<Longrightarrow> k < n \<Longrightarrow> depth (JObject ms) \<le> n"
  by (induction ms) auto

lemma depth_strings [depths]: "2 \<le> n \<Longrightarrow> depth (strings_json xs) \<le> n"
proof (rule order_trans)
  show "depth (strings_json xs) \<le> 2" unfolding strings_json_def by (induction xs) auto
qed

lemma depth_labels [depths]: "2 \<le> n \<Longrightarrow> depth (labels_json l) \<le> n"
proof (rule order_trans)
  show "depth (labels_json l) \<le> 2"
    unfolding labels_json_def by (rule depth_object [where k = 1]) auto
qed

lemma depth_omit [depths]:
  "1 \<le> n \<Longrightarrow> \<forall>m\<in>set (omit_empty k s). depth (snd m) \<le> n"
  "1 \<le> n \<Longrightarrow> \<forall>m\<in>set (omit_port k p). depth (snd m) \<le> n"
  "1 \<le> n \<Longrightarrow> \<forall>m\<in>set (omit_nil k q). depth (snd m) \<le> n"
  "2 \<le> n \<Longrightarrow> \<forall>m\<in>set (omit_strings k xs). depth (snd m) \<le> n"
  by (simp_all add: omit_empty_def omit_port_def omit_strings_def depth_strings)
    (cases q, simp_all add: omit_nil_def)

interpretation port_codec: json_codec port_json port_of "id" 2
proof
  show "port_of (port_json x) = Some (id x)" for x
    by (cases x) (simp add: port_json_def port_of_def members)
  show "depth (port_json x) \<le> 2" for x
    unfolding port_json_def by (rule depth_object [where k = 1])
      (simp_all add: ball_Un depths del: depth.simps(4,5))
qed

interpretation mount_codec: json_codec mount_json mount_of "id" 2
proof
  show "mount_of (mount_json x) = Some (id x)" for x
    by (cases x) (simp add: mount_json_def mount_of_def members)
  show "depth (mount_json x) \<le> 2" for x
    unfolding mount_json_def by (rule depth_object [where k = 1])
      (simp_all add: ball_Un depths del: depth.simps(4,5))
qed

interpretation endpoint_summary_codec: json_codec endpoint_summary_json endpoint_summary_of "id" 3
proof
  show "endpoint_summary_of (endpoint_summary_json x) = Some (id x)" for x
    by (cases x) (simp add: endpoint_summary_json_def endpoint_summary_of_def members)
  show "depth (endpoint_summary_json x) \<le> 3" for x
    unfolding endpoint_summary_json_def by (rule depth_object [where k = 2])
      (simp_all add: ball_Un depths del: depth.simps(4,5))
qed

interpretation container_summary_codec: json_codec container_summary_json container_summary_of "(\<lambda>x. x\<lparr>cs_labels := by_key (cs_labels x)\<rparr>)" 4
proof
  show "container_summary_of (container_summary_json x) = Some ((\<lambda>x. x\<lparr>cs_labels := by_key (cs_labels x)\<rparr>) x)" for x
    by (cases x) (simp add: container_summary_json_def container_summary_of_def members port_codec.dec_list)
  show "depth (container_summary_json x) \<le> 4" for x
    unfolding container_summary_json_def by (rule depth_object [where k = 3])
      (simp_all add: ball_Un depths port_codec.depth_list [THEN order_trans] del: depth.simps(4,5))
qed

interpretation container_detail_codec: json_codec container_detail_json container_detail_of "(\<lambda>x. x\<lparr>cd_labels := by_key (cd_labels x)\<rparr>)" 5
proof
  show "container_detail_of (container_detail_json x) = Some ((\<lambda>x. x\<lparr>cd_labels := by_key (cd_labels x)\<rparr>) x)" for x
    by (cases x) (simp add: container_detail_json_def container_detail_of_def members port_codec.dec_list mount_codec.dec_list endpoint_summary_codec.dec_list)
  show "depth (container_detail_json x) \<le> 5" for x
    unfolding container_detail_json_def by (rule depth_object [where k = 4])
      (simp_all add: ball_Un depths port_codec.depth_list [THEN order_trans] mount_codec.depth_list [THEN order_trans] endpoint_summary_codec.depth_list [THEN order_trans] del: depth.simps(4,5))
qed

interpretation image_summary_codec: json_codec image_summary_json image_summary_of "(\<lambda>x. x\<lparr>is_labels := by_key (is_labels x)\<rparr>)" 3
proof
  show "image_summary_of (image_summary_json x) = Some ((\<lambda>x. x\<lparr>is_labels := by_key (is_labels x)\<rparr>) x)" for x
    by (cases x) (simp add: image_summary_json_def image_summary_of_def members)
  show "depth (image_summary_json x) \<le> 3" for x
    unfolding image_summary_json_def by (rule depth_object [where k = 2])
      (simp_all add: ball_Un depths del: depth.simps(4,5))
qed

interpretation image_detail_codec: json_codec image_detail_json image_detail_of "id" 3
proof
  show "image_detail_of (image_detail_json x) = Some (id x)" for x
    by (cases x) (simp add: image_detail_json_def image_detail_of_def members)
  show "depth (image_detail_json x) \<le> 3" for x
    unfolding image_detail_json_def by (rule depth_object [where k = 2])
      (simp_all add: ball_Un depths del: depth.simps(4,5))
qed

interpretation network_summary_codec: json_codec network_summary_json network_summary_of "(\<lambda>x. x\<lparr>ns_labels := by_key (ns_labels x)\<rparr>)" 3
proof
  show "network_summary_of (network_summary_json x) = Some ((\<lambda>x. x\<lparr>ns_labels := by_key (ns_labels x)\<rparr>) x)" for x
    by (cases x) (simp add: network_summary_json_def network_summary_members_def network_summary_of_def members)
  show "depth (network_summary_json x) \<le> 3" for x
    unfolding network_summary_json_def network_summary_members_def by (rule depth_object [where k = 2])
      (simp_all add: ball_Un depths del: depth.simps(4,5))
qed

interpretation network_endpoint_codec: json_codec network_endpoint_json network_endpoint_of "id" 2
proof
  show "network_endpoint_of (network_endpoint_json x) = Some (id x)" for x
    by (cases x) (simp add: network_endpoint_json_def network_endpoint_of_def members)
  show "depth (network_endpoint_json x) \<le> 2" for x
    unfolding network_endpoint_json_def by (rule depth_object [where k = 1])
      (simp_all add: ball_Un depths del: depth.simps(4,5))
qed

interpretation volume_summary_codec: json_codec volume_summary_json volume_summary_of "(\<lambda>x. x\<lparr>vs_labels := by_key (vs_labels x)\<rparr>)" 3
proof
  show "volume_summary_of (volume_summary_json x) = Some ((\<lambda>x. x\<lparr>vs_labels := by_key (vs_labels x)\<rparr>) x)" for x
    by (cases x) (simp add: volume_summary_json_def volume_summary_of_def members)
  show "depth (volume_summary_json x) \<le> 3" for x
    unfolding volume_summary_json_def by (rule depth_object [where k = 2])
      (simp_all add: ball_Un depths del: depth.simps(4,5))
qed

interpretation status_codec: json_codec statusResponse_json statusResponse_of "id" 2
proof
  show "statusResponse_of (statusResponse_json x) = Some (id x)" for x
    by (cases x) (simp add: statusResponse_json_def statusResponse_of_def members)
  show "depth (statusResponse_json x) \<le> 2" for x
    unfolding statusResponse_json_def by (rule depth_object [where k = 1])
      (simp_all add: ball_Un depths del: depth.simps(4,5))
qed

interpretation pair_codec: json_codec pairResponse_json pairResponse_of "id" 2
proof
  show "pairResponse_of (pairResponse_json x) = Some (id x)" for x
    by (cases x) (simp add: pairResponse_json_def pairResponse_of_def members)
  show "depth (pairResponse_json x) \<le> 2" for x
    unfolding pairResponse_json_def by (rule depth_object [where k = 1])
      (simp_all add: ball_Un depths del: depth.simps(4,5))
qed

interpretation renew_codec: json_codec renewResponse_json renewResponse_of "id" 2
proof
  show "renewResponse_of (renewResponse_json x) = Some (id x)" for x
    by (cases x) (simp add: renewResponse_json_def renewResponse_of_def members)
  show "depth (renewResponse_json x) \<le> 2" for x
    unfolding renewResponse_json_def by (rule depth_object [where k = 1])
      (simp_all add: ball_Un depths del: depth.simps(4,5))
qed

interpretation network_detail_codec: json_codec network_detail_json network_detail_of "(\<lambda>x. x\<lparr>ns_labels := by_key (ns_labels x)\<rparr>)" 4
proof
  show "network_detail_of (network_detail_json x) = Some ((\<lambda>x. x\<lparr>ns_labels := by_key (ns_labels x)\<rparr>) x)" for x
    by (cases x) (simp add: network_detail_json_def network_summary_members_def network_detail_of_def network_summary_of_def
        members network_endpoint_codec.dec_list network_summary.defs network_detail.defs)
  show "depth (network_detail_json x) \<le> 4" for x
    unfolding network_detail_json_def network_summary_members_def
    by (rule depth_object [where k = 3])
      (simp_all add: depths network_endpoint_codec.depth_list [THEN order_trans] del: depth.simps(4,5))
qed

interpretation log_line_codec: json_codec log_line_json log_line_of id 2
proof
  show "log_line_of (log_line_json x) = Some (id x)" for x
    by (cases x) (simp add: log_line_json_def log_line_of_def members)
  show "depth (log_line_json x) \<le> 2" for x
    by (simp add: log_line_json_def)
qed

definition error_of :: "json \<Rightarrow> string option" where
  "error_of j = do { ms \<leftarrow> as_object j; required ''error'' as_string ms }"

interpretation error_codec: json_codec error_json error_of id 2
  by unfold_locales (simp_all add: error_json_def error_of_def members)

context json_codec
begin

text \<open>The envelope of a list route around the items of a codec.\<close>

lemma list_result: "json_codec (list_result_json enc) (list_result_of dec) (\<lambda>l. l\<lparr>lr_items := map norm (lr_items l)\<rparr>) (n + 2)"
proof
  show "list_result_of dec (list_result_json enc l) = Some (l\<lparr>lr_items := map norm (lr_items l)\<rparr>)" for l
    by (cases l) (simp add: list_result_json_def list_result_of_def members dec_list)
  show "depth (list_result_json enc l) \<le> n + 2" for l
    unfolding list_result_json_def
    by (rule depth_object [where k = "Suc n"]) (use depth_list in \<open>simp_all del: depth.simps(4,5)\<close>)
qed

end

interpretation containers_codec: json_codec "list_result_json container_summary_json" "list_result_of container_summary_of"
  "\<lambda>l. l\<lparr>lr_items := map (\<lambda>x. x\<lparr>cs_labels := by_key (cs_labels x)\<rparr>) (lr_items l)\<rparr>" "4 + 2"
  by (rule container_summary_codec.list_result)

interpretation images_codec: json_codec "list_result_json image_summary_json" "list_result_of image_summary_of"
  "\<lambda>l. l\<lparr>lr_items := map (\<lambda>x. x\<lparr>is_labels := by_key (is_labels x)\<rparr>) (lr_items l)\<rparr>" "3 + 2"
  by (rule image_summary_codec.list_result)

interpretation networks_codec: json_codec "list_result_json network_summary_json" "list_result_of network_summary_of"
  "\<lambda>l. l\<lparr>lr_items := map (\<lambda>x. x\<lparr>ns_labels := by_key (ns_labels x)\<rparr>) (lr_items l)\<rparr>" "3 + 2"
  by (rule network_summary_codec.list_result)

interpretation volumes_codec: json_codec "list_result_json volume_summary_json" "list_result_of volume_summary_of"
  "\<lambda>l. l\<lparr>lr_items := map (\<lambda>x. x\<lparr>vs_labels := by_key (vs_labels x)\<rparr>) (lr_items l)\<rparr>" "3 + 2"
  by (rule volume_summary_codec.list_result)

interpretation logs_codec: json_codec "list_result_json log_line_json" "list_result_of log_line_of"
  "\<lambda>l. l\<lparr>lr_items := map id (lr_items l)\<rparr>" "2 + 2"
  by (rule log_line_codec.list_result)

subsection \<open>A reply on the wire\<close>

text \<open>The mux's own replies are plain text, and a 204 has no body.\<close>

fun body_json :: "body \<Rightarrow> json option" where
  "body_json NoBody = None"
| "body_json MuxBody = None"
| "body_json (ErrorBody msg) = Some (error_json msg)"
| "body_json (StatusBody x) = Some (statusResponse_json x)"
| "body_json (PairBody x) = Some (pairResponse_json x)"
| "body_json (RenewBody x) = Some (renewResponse_json x)"
| "body_json (ContainersBody l) = Some (list_result_json container_summary_json l)"
| "body_json (ContainerBody x) = Some (container_detail_json x)"
| "body_json (ImagesBody l) = Some (list_result_json image_summary_json l)"
| "body_json (ImageBody x) = Some (image_detail_json x)"
| "body_json (NetworksBody l) = Some (list_result_json network_summary_json l)"
| "body_json (NetworkBody x) = Some (network_detail_json x)"
| "body_json (VolumesBody l) = Some (list_result_json volume_summary_json l)"
| "body_json (VolumeBody x) = Some (volume_summary_json x)"
| "body_json (LogsBody l) = Some (list_result_json log_line_json l)"

text \<open>Encoder.Encode ends the text with a line feed.\<close>

definition encode_body :: "body \<Rightarrow> string" where
  "encode_body b = (case body_json b of None \<Rightarrow> [] | Some j \<Rightarrow> marshal j @ [LF])"

fun body_of :: "body_type \<Rightarrow> json \<Rightarrow> body option" where
  "body_of TError j = map_option ErrorBody (error_of j)"
| "body_of TStatus j = map_option StatusBody (statusResponse_of j)"
| "body_of TPair j = map_option PairBody (pairResponse_of j)"
| "body_of TRenew j = map_option RenewBody (renewResponse_of j)"
| "body_of TContainers j = map_option ContainersBody (list_result_of container_summary_of j)"
| "body_of TContainer j = map_option ContainerBody (container_detail_of j)"
| "body_of TImages j = map_option ImagesBody (list_result_of image_summary_of j)"
| "body_of TImage j = map_option ImageBody (image_detail_of j)"
| "body_of TNetworks j = map_option NetworksBody (list_result_of network_summary_of j)"
| "body_of TNetwork j = map_option NetworkBody (network_detail_of j)"
| "body_of TVolumes j = map_option VolumesBody (list_result_of volume_summary_of j)"
| "body_of TVolume j = map_option VolumeBody (volume_summary_of j)"
| "body_of TLogs j = map_option LogsBody (list_result_of log_line_of j)"
| "body_of _ j = None"

definition reply_depth :: nat where "reply_depth = 6"

definition read_body :: "body_type \<Rightarrow> string \<Rightarrow> body option" where
  "read_body t s = do {
      (j, r) \<leftarrow> unmarshal reply_depth s;
      if r = [LF] then body_of t j else None
    }"

text \<open>A body with its maps in the order of their keys.\<close>

fun canonical :: "body \<Rightarrow> body" where
  "canonical (ContainersBody l) =
     ContainersBody (l\<lparr>lr_items := map (\<lambda>x. x\<lparr>cs_labels := by_key (cs_labels x)\<rparr>) (lr_items l)\<rparr>)"
| "canonical (ContainerBody x) = ContainerBody (x\<lparr>cd_labels := by_key (cd_labels x)\<rparr>)"
| "canonical (ImagesBody l) =
     ImagesBody (l\<lparr>lr_items := map (\<lambda>x. x\<lparr>is_labels := by_key (is_labels x)\<rparr>) (lr_items l)\<rparr>)"
| "canonical (NetworksBody l) =
     NetworksBody (l\<lparr>lr_items := map (\<lambda>x. x\<lparr>ns_labels := by_key (ns_labels x)\<rparr>) (lr_items l)\<rparr>)"
| "canonical (NetworkBody x) = NetworkBody (x\<lparr>ns_labels := by_key (ns_labels x)\<rparr>)"
| "canonical (VolumesBody l) =
     VolumesBody (l\<lparr>lr_items := map (\<lambda>x. x\<lparr>vs_labels := by_key (vs_labels x)\<rparr>) (lr_items l)\<rparr>)"
| "canonical (VolumeBody x) = VolumeBody (x\<lparr>vs_labels := by_key (vs_labels x)\<rparr>)"
| "canonical b = b"

lemmas codecs_dec =
  error_codec.dec_enc status_codec.dec_enc pair_codec.dec_enc renew_codec.dec_enc containers_codec.dec_enc
  container_detail_codec.dec_enc images_codec.dec_enc image_detail_codec.dec_enc networks_codec.dec_enc
  network_detail_codec.dec_enc volumes_codec.dec_enc volume_summary_codec.dec_enc logs_codec.dec_enc

lemmas codecs_depth =
  error_codec.depth_enc status_codec.depth_enc pair_codec.depth_enc renew_codec.depth_enc containers_codec.depth_enc
  container_detail_codec.depth_enc images_codec.depth_enc image_detail_codec.depth_enc networks_codec.depth_enc
  network_detail_codec.depth_enc volumes_codec.depth_enc volume_summary_codec.depth_enc logs_codec.depth_enc

lemma body_of_json: "body_json b = Some j \<Longrightarrow> body_of (type_of_body b) j = Some (canonical b)"
  by (cases b) (auto simp: codecs_dec)

lemma body_depth: "body_json b = Some j \<Longrightarrow> depth j \<le> reply_depth"
  unfolding reply_depth_def
  by (cases b) (auto intro: codecs_depth [THEN order_trans])



end
