(* ===== verification/Spec2Isabelle.thy ===== *)
theory Spec2Isabelle
  imports Policy RateLimit Config StreamBudget EventRegistry EventHub DockerClient Retention Schema Guarantees Enrolment EventStream LogStream Identities CliClient
    Shutdown Logging Feed Contract Middleware Daemon AgentProps StreamClient Wire
begin

text \<open>
  A model of devmon-agent, the agent that lets paired mobile devices watch and, within limits
  the host sets, control the Docker containers of one host.

  \<^bold>\<open>The program.\<close>  One binary (src/cmd/devmon-agent) is the daemon, the operator's commands and
  the health probe.  The daemon loads its configuration from the environment
  (internal/config), opens its log (internal/logging), its SQLite store (internal/state) and
  its certificate authority (internal/certs), connects to the Docker Engine
  (internal/dockerx, internal/selfid), and serves one TLS 1.3 port (internal/tlsconf,
  internal/httpapi).  A device pairs once with a code the operator minted, gets a client
  certificate, and from then on every request of it passes four guards: authentication by that
  certificate, a rate limit (internal/ratelimit), an audit row for what may change something,
  and the permission tier of the host (internal/policy).  Two routes are streams of
  server-sent events: a container's log, under a budget of slots, and the container events,
  which a hub fans out from one Engine subscription to at most one stream per device.

  \<^bold>\<open>Theories and sources.\<close>  Each definition has the name it has in the code, and each theory
  follows one part of it.

  \<^item> Prelude, GoTime, Calendar: Go's strings, 64-bit integers (\<open>wrap64\<close> writes the wrap-around
    out), maps, the parser and the formats of times; the calendar is proved to be a bijection.
    Flags: package flag with the integers of strconv.  Tabwriter: text/tabwriter.  JsonText: json.Marshal of the payloads
    of the streams and of the replies, and a decoder for it.
  \<^item> Policy (policy/mode.go), RateLimit (ratelimit/registry.go), Config (config/config.go).
  \<^item> Store, StoreProps (state/devices.go, pairing.go, audit.go): the four tables as lists of rows
    and one function per operation, each with the clock and the failing statements as input.
    Retention (store.go, pruner.go): the pruning passes and their loop.  Schema (schema.go,
    store.go): opening a database file of any age, interrupted anywhere.
  \<^item> Certs (certs/issue.go): what goes into a certificate.  Identities (certs/ca.go, store.go,
    main.go): the authority and the server pair on disk over any sequence of starts.
  \<^item> Docker, Projection, DockerClient (dockerx, selfid): references, protection, the
    projections that decide what a client may see, and every call of the Engine.  Framing and
    Demux (framing.go, logs.go): Docker's two log formats.
  \<^item> Http (respond.go, middleware.go, ratelimit.go, policygate.go, audit.go), Identity (pair.go,
    device.go), Api (status.go, reads.go, lifecycle.go, server.go): a handler is a function from a
    request, its environment, its context and the state to a response and the new state;
    middleware is a function between handlers; \<open>routes\<close> is the table and \<open>serve\<close> the dispatch.
    ApiProps characterises the guards once; Guarantees, Enrolment and Contract state what whole
    requests do.  Middleware: recovery, the request log and what reaches the client.
  \<^item> StreamBudget, EventRegistry, EventHub, Feed (streambudget.go, eventregistry.go, eventhub.go,
    dockerx/events.go): the shared state of the streams.  Sse, Streams, LogStream, EventStream
    (sse.go, logs.go, events.go, clientgone.go): the writer and the two handlers, each with its
    second goroutine.  Agent: the two as handlers of the table (\<open>routes\<close> takes them as a
    parameter with a stated contract, which they are proved to meet), and runs of the whole agent.
    AgentProps: what holds in every such run.  Wire: the JSON text of every reply (the tags in
    dockerx/types.go and of the bodies in httpapi) and a client's reading of it.
  \<^item> Logging (logging.go, rotator.go), Shutdown (server.go, tlsconf.go, runAll in main.go), Daemon
    (main.go, dockerx/client.go), Cli and CliProps (main.go, cli.go, usage.go, health.go,
    pair_code_ttl.go): the life of the process and the operator's commands.

  \<^bold>\<open>How concurrency is modelled.\<close>  Every critical section, channel operation or atomic call is one
  step of a machine; an execution is any list of steps, and which ready case a select takes
  is free.  Invariants are proved over all executions (the locales \<open>invariant_system\<close>,
  \<open>streaming\<close>, \<open>unwinding\<close>).  Handlers of plain requests run against a store that anything may
  have changed between two of their accesses (\<open>ev_between\<close>).

  \<^bold>\<open>Interfaces.\<close>  \<open>read_handler\<close>, \<open>audited_handler\<close>, \<open>identity_handler\<close> and \<open>typed_handler\<close> say
  what a handler promises to the guards in front of it and are interpreted on every handler of
  the table; \<open>field_parser\<close> is the contract of a parser of the configuration;
  \<open>server_pair_frame\<close> that of a property of the disk no re-issue can disturb,
  \<open>store_frame\<close> that of a property of the tables that the requests, the operator's commands a run
  admits and whatever goes on in between keep, interpreted on the lockout of a revoked device, the
  constraints of the tables, the audit trail and a spent pairing code; \<open>json_codec\<close> that of a
  body's text and its reader, interpreted on every body; \<open>streaming\<close> and \<open>unwinding\<close> are instantiated by both stream handlers.

  \<^bold>\<open>What is shown.\<close>  Nothing on the host changes without a certificate of an unrevoked device, a
  token, the policy and an audit row that tells the truth; a stranger learns nothing; no operation
  touches the agent or a protected container; every reply has the type of its route.  A pairing
  code is good once, a revocation is final for the whole agent, a failed pairing leaves no trace, the
  authority survives every start and every crash.  Both streams deliver what was sent, in order,
  say at most once why they end, and unwind; a client of the event stream gets an unbroken part
  of the Engine's feed or is told.  The budget of slots never leaks, the rate limits are those of
  a registry that never forgets, demultiplexing does not depend on the framing, every reply and every frame reads back as what
  was written, retention is fair, migration survives interruption, the log is rotated by the age of its content, the
  daemon releases what it holds on every way out, and a loaded configuration is safe.  Some
  theorems state where the code falls short of what it says: retention days that wrap around, an
  audit listing a device can forge and a refused pairing can break, a lost \<open>superseded\<close> frame, a first start that strands
  when it is interrupted.

  \<^bold>\<open>Bounds and fuel.\<close>  Recursion is structural or has a proved measure.  The decoder of JsonText
  takes a depth, and depth 3 is proved to be enough for every payload
  of a stream and depth 6 for every reply; the ranks of the stream
  handlers bound the steps they take once they have a reason to end (17 and 20 beside what the
  ticks add).  Sizes are those of the code: 500 list items, 2000 log lines, 1 MiB frames, 8 KiB
  lines, 64 events per subscriber, 4096 rate limit keys.

  \<^bold>\<open>Parameters.\<close>  Code outside src/ is a parameter of the definitions that use it: the Engine
  (\<open>engine_api\<close>: one function per call, free in its answers), golang.org/x/time/rate
  (\<open>limiter_api\<close>), crypto/x509 and PEM (\<open>x509_api\<close>, \<open>pki\<close>), SHA-256, random bytes, the clock,
  net/url.Parse, the JSON decoder of request bodies (its three outcomes), lumberjack, the file
  system's answers.  Hypotheses about them are premises of the theorems and each theorem with
  premises has a witness on concrete functions.

  \<^bold>\<open>Not modelled.\<close>  Log texts other than the request log; wrapping texts of errors; the SQL texts beside the statements' meaning, and the
  pragmas of the connection; the texts of the usage screens and
  the version; HTTP and TLS themselves; timeouts, which end a call with an error of the Engine
  or of a write.  The end-to-end test harness
  (internal/e2e/harness) drives the agent from outside and is no part of it; only its readers are
  modelled: that of the streams in StreamClient, proved to read what the agent sends, and that of
  the operator's tables in CliClient, proved to read what the commands print.
\<close>

end
